(* ===== verification/Prelude.thy ===== *)
theory Prelude
  imports Main "HOL-Library.Word"
begin

text \<open>
  What the components share: the fixed-width integer types of \<^verbatim>\<open>src/lib/types.h\<close>, the scan
  loops that look for the first matching table slot, counted loops, little-endian loads and stores,
  and the generic lemmas on lists and words the component proofs use.
\<close>

unbundle bit_operations_syntax

section \<open>Types\<close>

type_synonym u8 = "8 word"
type_synonym u16 = "16 word"
type_synonym u32 = "32 word"
type_synonym u64 = "64 word"

text \<open>Collections: \<open>eval_simps\<close> evaluates definitions on concrete inputs, \<open>unat_simps\<close> moves word
  terms to natural numbers.\<close>

named_theorems eval_simps
named_theorems unat_simps

text \<open>A memory access outside its block, where the model shows it.\<close>

datatype mem_err = OutOfBounds

section \<open>Scan loops\<close>

text \<open>
  \<^verbatim>\<open>for (i = 0; i < n; i++) if (P(i)) return i;\<close> followed by the not-found exit. The counter is
  bounded by a table size, so it never wraps.
\<close>

fun scan_from :: "(nat \<Rightarrow> bool) \<Rightarrow> nat \<Rightarrow> nat \<Rightarrow> nat option" where
  "scan_from P i 0 = None"
| "scan_from P i (Suc n) = (if P i then Some i else scan_from P (Suc i) n)"

definition scan :: "(nat \<Rightarrow> bool) \<Rightarrow> nat \<Rightarrow> nat option" where
  "scan P n = scan_from P 0 n"

lemma scan_from_numeral [eval_simps]:
  "scan_from P i (numeral k) = (if P i then Some i else scan_from P (Suc i) (pred_numeral k))"
  by (simp add: numeral_eq_Suc)

lemma scan_from_Some_iff:
  "scan_from P i n = Some k \<longleftrightarrow> i \<le> k \<and> k < i + n \<and> P k \<and> (\<forall>j. i \<le> j \<and> j < k \<longrightarrow> \<not> P j)"
proof (induction n arbitrary: i)
  case 0
  then show ?case by auto
next
  case (Suc n)
  show ?case
  proof (cases "P i")
    case True
    then show ?thesis by (auto simp: le_less)
  next
    case False
    then show ?thesis
      by (auto simp: Suc Suc_le_eq) (metis le_neq_implies_less)+
  qed
qed

lemma scan_from_None_iff: "scan_from P i n = None \<longleftrightarrow> (\<forall>j. i \<le> j \<and> j < i + n \<longrightarrow> \<not> P j)"
proof (induction n arbitrary: i)
  case 0
  then show ?case by auto
next
  case (Suc n)
  then show ?case by (auto simp: Suc_le_eq) (metis le_neq_implies_less)
qed

lemma scan_Some_iff: "scan P n = Some k \<longleftrightarrow> k < n \<and> P k \<and> (\<forall>j < k. \<not> P j)"
  by (auto simp: scan_def scan_from_Some_iff)

lemma scan_None_iff: "scan P n = None \<longleftrightarrow> (\<forall>j < n. \<not> P j)"
  by (auto simp: scan_def scan_from_None_iff)

lemma scan_SomeD: "scan P n = Some k \<Longrightarrow> k < n \<and> P k"
  by (simp add: scan_Some_iff)

lemma scan_cong: "(\<And>j. j < n \<Longrightarrow> P j = Q j) \<Longrightarrow> scan P n = scan Q n"
proof -
  assume eq: "\<And>j. j < n \<Longrightarrow> P j = Q j"
  show ?thesis
  proof (cases "scan Q n")
    case None
    with eq have "scan P n = None" by (auto simp: scan_None_iff)
    with None show ?thesis by simp
  next
    case (Some k)
    with eq have "scan P n = Some k" by (auto simp: scan_Some_iff)
    with Some show ?thesis by simp
  qed
qed

lemma scan_exists: "i < n \<Longrightarrow> P i \<Longrightarrow> \<exists>k. scan P n = Some k \<and> k \<le> i"
proof -
  assume i: "i < n" "P i"
  then obtain k where k: "scan P n = Some k"
    by (cases "scan P n") (auto simp: scan_None_iff)
  with i have "k \<le> i" by (auto simp: scan_Some_iff not_less [symmetric])
  with k show ?thesis by blast
qed

section \<open>Counted loops\<close>

text \<open>\<^verbatim>\<open>for (f = lo; f < hi; f++) body(f)\<close> over a state, the counter being below \<open>2^64\<close>.\<close>

definition for_range :: "nat \<Rightarrow> nat \<Rightarrow> (nat \<Rightarrow> 's \<Rightarrow> 's) \<Rightarrow> 's \<Rightarrow> 's" where
  "for_range lo hi body s = fold body [lo..<hi] s"

lemma for_range_empty [simp]: "hi \<le> lo \<Longrightarrow> for_range lo hi body s = s"
  by (simp add: for_range_def)

lemma for_range_step: "lo < hi \<Longrightarrow> for_range lo hi body s = for_range (Suc lo) hi body (body lo s)"
  by (simp add: for_range_def upt_conv_Cons)

lemma for_range_last: "lo \<le> hi \<Longrightarrow> for_range lo (Suc hi) body s = body hi (for_range lo hi body s)"
  by (simp add: for_range_def)

lemma for_range_split: "lo \<le> k \<Longrightarrow> k \<le> hi \<Longrightarrow> for_range lo hi body s = for_range k hi body (for_range lo k body s)"
  using upt_add_eq_append [of lo k "hi - k"] by (simp add: for_range_def)

text \<open>The loop rule: an invariant indexed by the counter.\<close>

lemma for_range_inv:
  assumes "lo \<le> hi" and "I lo s"
    and "\<And>i s. lo \<le> i \<Longrightarrow> i < hi \<Longrightarrow> I i s \<Longrightarrow> I (Suc i) (body i s)"
  shows "I hi (for_range lo hi body s)"
  using assms
proof (induction "hi - lo" arbitrary: lo s)
  case 0
  then show ?case by simp
next
  case (Suc n)
  then have "lo < hi" by simp
  moreover have "I (Suc lo) (body lo s)" using Suc.prems \<open>lo < hi\<close> by simp
  ultimately show ?case
    using Suc.hyps(1) [of "Suc lo" "body lo s"] Suc.hyps(2) Suc.prems(3)
    by (simp add: for_range_step)
qed

section \<open>Words\<close>

lemma unat_and_mask [unat_simps]: "unat (x AND mask n) = unat x mod 2 ^ n"
  for x :: "'a::len word"
  by (simp flip: take_bit_eq_mask take_bit_eq_mod add: unsigned_take_bit_eq)

lemma unat_drop_bit [unat_simps]: "unat (drop_bit n x) = unat x div 2 ^ n"
  for x :: "'a::len word"
  unfolding unat_drop_bit_eq by (rule drop_bit_eq_div)

lemma unat_lt_64: "unat (x :: u64) < 18446744073709551616"
  using unsigned_less [of x, where ?'a = nat] by simp

lemma unat_lt_32: "unat (x :: u32) < 4294967296"
  using unsigned_less [of x, where ?'a = nat] by simp

lemma unat_lt_16: "unat (x :: u16) < 65536"
  using unsigned_less [of x, where ?'a = nat] by simp

lemma unat_lt_8: "unat (x :: u8) < 256"
  using unsigned_less [of x, where ?'a = nat] by simp

lemma unat_ucast_up [unat_simps]: "LENGTH('a) \<le> LENGTH('b) \<Longrightarrow> unat (ucast w :: 'b::len word) = unat w" for w :: "'a::len word"
proof -
  assume le: "LENGTH('a) \<le> LENGTH('b)"
  have "unat w < 2 ^ LENGTH('a)" by (rule unsigned_less)
  also have "\<dots> \<le> 2 ^ LENGTH('b)" using le by simp
  finally show ?thesis by (simp add: unsigned_ucast_eq take_bit_nat_eq_self)
qed

section \<open>Lists\<close>

lemma nth_list_update_split [simp]:
  "i < length xs \<Longrightarrow> (xs[i := x]) ! j = (if i = j then x else xs ! j)"
  by simp

section \<open>Alignment\<close>

lemma and_not_eq_diff: "x AND NOT m = x - (x AND m)" for x m :: "'a::len word"
proof -
  have "x - (x AND m) = x AND NOT (x AND m)" by (rule disjunctive_diff) (simp add: bit_simps)
  also have "\<dots> = x AND NOT m" by (rule bit_eqI) (auto simp: bit_simps)
  finally show ?thesis by simp
qed

lemma unat_and_not: "unat (x AND NOT m) = unat x - unat (x AND m)" for x m :: "'a::len word"
  by (simp add: and_not_eq_diff unat_sub word_and_le2)

lemma unat_and_le: "unat (x AND m) \<le> unat m" for x m :: "'a::len word"
  by (simp add: word_and_le1 flip: word_le_nat_alt)

lemma and_mask_less: "unat x < 2 ^ n \<Longrightarrow> x AND mask n = x" for x :: "'a::len word"
  by (simp add: word_unat_eq_iff unat_and_mask)

section \<open>Signed bytes\<close>

lemma sint_u8: "sint w = (if uint w < 128 then uint w else uint w - 256)" for w :: u8
proof -
  have b: "bit (uint w) 7 \<longleftrightarrow> \<not> uint w < 128"
  proof -
    have "uint w < 256" using unsigned_less [of w, where ?'a = int] by simp
    moreover have "0 \<le> uint w" by simp
    ultimately have "uint w div 128 = (if uint w < 128 then 0 else 1)"
      by (auto simp: div_pos_pos_trivial intro: int_div_pos_eq [where r = "uint w - 128"])
    then show ?thesis by (simp add: bit_iff_odd)
  qed
  have "sint w = signed_take_bit 7 (uint w)" by (simp add: sint_uint)
  also have "\<dots> = uint w - 256 * of_bool (bit (uint w) 7)"
    using unsigned_less [of w, where ?'a = int]
    by (simp add: signed_take_bit_eq_take_bit_minus take_bit_int_eq_self)
  finally show ?thesis by (simp add: b)
qed

end
