(* ===== verification/Frames.thy ===== *)
theory Frames
  imports Prelude
begin

text \<open>
  The interface between the physical memory manager and its clients (page tables, heap, ELF loader,
  anonymous mappings): hand out a frame address or 0, take a frame back. The clients rely on the
  laws of the locale only; \<^verbatim>\<open>Pmm\<close> interprets it on the bitmap allocator.
\<close>

definition page_no :: "u64 \<Rightarrow> nat" where
  "page_no a = unat a div 4096"

text \<open>A run of allocations as the loops of the clients make them: stop at the first failure.\<close>

fun alloc_run :: "('s \<Rightarrow> 's \<times> u64) \<Rightarrow> nat \<Rightarrow> 's \<Rightarrow> 's \<times> u64 list option" where
  "alloc_run alloc 0 s = (s, Some [])"
| "alloc_run alloc (Suc n) s =
     (case alloc s of (s', a) \<Rightarrow>
        if a = 0 then (s', None)
        else case alloc_run alloc n s' of (s'', r) \<Rightarrow> (s'', map_option (\<lambda>as. a # as) r))"

locale frame_allocator =
  fixes alloc :: "'s \<Rightarrow> 's \<times> u64"
    and release :: "u64 \<Rightarrow> 's \<Rightarrow> 's"
    and frames :: "'s \<Rightarrow> nat set"
    and ok :: "'s \<Rightarrow> bool"
    and limit :: nat
  assumes alloc_ok: "ok s \<Longrightarrow> ok (fst (alloc s))"
    and alloc_none: "ok s \<Longrightarrow> snd (alloc s) = 0 \<Longrightarrow> frames s = {} \<and> fst (alloc s) = s"
    and alloc_some: "ok s \<Longrightarrow> snd (alloc s) \<noteq> 0 \<Longrightarrow>
          page_no (snd (alloc s)) \<in> frames s \<and> unat (snd (alloc s)) mod 4096 = 0 \<and>
          frames (fst (alloc s)) = frames s - {page_no (snd (alloc s))}"
    and release_ok: "ok s \<Longrightarrow> 0 < page_no a \<Longrightarrow> ok (release a s)"
    and release_frames: "ok s \<Longrightarrow> frames (release a s) =
          (if page_no a < limit then insert (page_no a) (frames s) else frames s)"
    and frames_bound: "frames s \<subseteq> {..<limit}"
begin

lemma alloc_progress: "ok s \<Longrightarrow> frames s \<noteq> {} \<Longrightarrow> snd (alloc s) \<noteq> 0"
  using alloc_none by blast

lemma alloc_release:
  assumes "ok s" and "alloc s = (s', a)" and "a \<noteq> 0"
  shows "frames (release a s') = frames s"
proof -
  have *: "page_no a \<in> frames s" "frames s' = frames s - {page_no a}"
    using alloc_some [of s] assms by auto
  have "ok s'" using alloc_ok [OF assms(1)] assms(2) by simp
  moreover have "page_no a < limit" using *(1) frames_bound by auto
  ultimately show ?thesis using * by (auto simp: release_frames)
qed

lemma alloc_run_ok: "ok s \<Longrightarrow> alloc_run alloc n s = (s', r) \<Longrightarrow> ok s'"
proof (induction n arbitrary: s r)
  case 0
  then show ?case by simp
next
  case (Suc n)
  obtain s1 a where a: "alloc s = (s1, a)" by (cases "alloc s")
  then have "ok s1" using alloc_ok [OF Suc.prems(1)] by simp
  with Suc a show ?case by (auto split: if_splits prod.splits)
qed

text \<open>The frames of a successful run are pairwise distinct, were free before and are no longer.\<close>

lemma alloc_run_distinct:
  assumes "ok s" and "alloc_run alloc n s = (s', Some as)"
  shows "length as = n \<and> 0 \<notin> set as \<and> distinct (map page_no as) \<and>
         page_no ` set as \<subseteq> frames s \<and> frames s' = frames s - page_no ` set as"
  using assms
proof (induction n arbitrary: s as)
  case 0
  then show ?case by simp
next
  case (Suc n)
  obtain s1 a where a: "alloc s = (s1, a)" by (cases "alloc s")
  with Suc.prems obtain bs where nz: "a \<noteq> 0" and run: "alloc_run alloc n s1 = (s', Some bs)"
    and as: "as = a # bs"
    by (auto split: if_splits prod.splits)
  have ok1: "ok s1" using alloc_ok [OF Suc.prems(1)] a by simp
  have step: "page_no a \<in> frames s" "frames s1 = frames s - {page_no a}"
    using alloc_some [OF Suc.prems(1)] a nz by auto
  from Suc.IH [OF ok1 run] step show ?case
    by (auto simp: as nz)
qed

text \<open>A run succeeds as long as there are enough free frames.\<close>

lemma alloc_run_succeeds:
  assumes "ok s" and "n \<le> card (frames s)"
  shows "\<exists>s' as. alloc_run alloc n s = (s', Some as)"
  using assms
proof (induction n arbitrary: s)
  case 0
  then show ?case by simp
next
  case (Suc n)
  obtain s1 a where a: "alloc s = (s1, a)" by (cases "alloc s")
  have "frames s \<noteq> {}" using Suc.prems(2) by auto
  then have nz: "a \<noteq> 0" using alloc_progress [OF Suc.prems(1)] a by simp
  have ok1: "ok s1" using alloc_ok [OF Suc.prems(1)] a by simp
  have "page_no a \<in> frames s" "frames s1 = frames s - {page_no a}"
    using alloc_some [OF Suc.prems(1)] a nz by auto
  then have "n \<le> card (frames s1)" using Suc.prems(2) by (simp add: card_Diff_singleton)
  then obtain s' as where "alloc_run alloc n s1 = (s', Some as)" using Suc.IH [OF ok1] by blast
  with a nz show ?case by simp
qed

end

end
