(* ===== verification/Pmm.thy ===== *)
theory Pmm
  imports Prelude Frames
begin

text \<open>
  The physical memory manager, \<^verbatim>\<open>src/pmm/pmm.c\<close> and \<^verbatim>\<open>src/pmm/pmm_internal.h\<close>: one bit per 4 KB
  frame in an array of 64-bit words, first-fit allocation, range marking and a free-frame counter.
  Its construction from the Multiboot2 memory map is in \<^verbatim>\<open>Boot\<close>. Frame numbers are below \<open>2^52\<close>, so they
  are natural numbers here; addresses, lengths and the counter keep their 64 bits.
\<close>

section \<open>State\<close>

definition FRAME_SIZE :: u64 where [simp]: "FRAME_SIZE = 4096"
definition BITMAP_WORD_BITS :: nat where [simp]: "BITMAP_WORD_BITS = 64"
definition PMM_MAX_FRAMES :: nat where "PMM_MAX_FRAMES = 1048576"
definition PMM_BITMAP_WORDS :: nat where "PMM_BITMAP_WORDS = 16384"
definition KERNEL_VMA :: u64 where [simp]: "KERNEL_VMA = 0xFFFFFFFF80000000"

record pmm_state =
  bitmap :: "u64 list"      \<comment> \<open>1 = used, 0 = free\<close>
  total_frames :: u64
  free_frames :: u64
  mb2_info_phys :: u64

definition bitmap_set :: "u64 list \<Rightarrow> nat \<Rightarrow> u64 list" where
  "bitmap_set bm frame =
     bm[frame div BITMAP_WORD_BITS :=
          bm ! (frame div BITMAP_WORD_BITS) OR push_bit (frame mod BITMAP_WORD_BITS) 1]"

definition bitmap_clear :: "u64 list \<Rightarrow> nat \<Rightarrow> u64 list" where
  "bitmap_clear bm frame =
     bm[frame div BITMAP_WORD_BITS :=
          bm ! (frame div BITMAP_WORD_BITS) AND NOT (push_bit (frame mod BITMAP_WORD_BITS) 1)]"

definition bitmap_test :: "u64 list \<Rightarrow> nat \<Rightarrow> bool" where
  "bitmap_test bm frame \<longleftrightarrow>
     drop_bit (frame mod BITMAP_WORD_BITS) (bm ! (frame div BITMAP_WORD_BITS)) AND 1 \<noteq> 0"

section \<open>Operations\<close>

definition pmm_set_mb2 :: "u64 \<Rightarrow> pmm_state \<Rightarrow> pmm_state" where
  "pmm_set_mb2 phys st = st\<lparr>mb2_info_phys := phys\<rparr>"

definition mark_used_step :: "nat \<Rightarrow> pmm_state \<Rightarrow> pmm_state" where
  "mark_used_step f st =
     (if \<not> bitmap_test (bitmap st) f
      then let st' = st\<lparr>bitmap := bitmap_set (bitmap st) f\<rparr>
           in if free_frames st' > 0 then st'\<lparr>free_frames := free_frames st' - 1\<rparr> else st'
      else st)"

definition mark_range_used :: "u64 \<Rightarrow> u64 \<Rightarrow> pmm_state \<Rightarrow> pmm_state" where
  "mark_range_used base len st =
     (let frame_start = unat (base div FRAME_SIZE);
          frame_end = unat ((base + len + FRAME_SIZE - 1) div FRAME_SIZE);
          frame_end = (if frame_end > PMM_MAX_FRAMES then PMM_MAX_FRAMES else frame_end)
      in for_range frame_start frame_end mark_used_step st)"

definition mark_free_step :: "nat \<Rightarrow> pmm_state \<Rightarrow> pmm_state" where
  "mark_free_step f st =
     (if bitmap_test (bitmap st) f
      then st\<lparr>bitmap := bitmap_clear (bitmap st) f, free_frames := free_frames st + 1\<rparr>
      else st)"

definition mark_range_free :: "u64 \<Rightarrow> u64 \<Rightarrow> pmm_state \<Rightarrow> pmm_state" where
  "mark_range_free base len st =
     (let frame_start = unat (base div FRAME_SIZE);
          frame_end = unat ((base + len) div FRAME_SIZE);
          frame_end = (if frame_end > PMM_MAX_FRAMES then PMM_MAX_FRAMES else frame_end)
      in for_range frame_start frame_end mark_free_step st)"

text \<open>The word scan of \<^verbatim>\<open>pmm_alloc_frame\<close>: skip full words, then look for the first clear bit.\<close>

fun alloc_scan :: "u64 list \<Rightarrow> nat \<Rightarrow> nat \<Rightarrow> (nat \<times> nat) option" where
  "alloc_scan bm w 0 = None"
| "alloc_scan bm w (Suc n) =
     (if bm ! w = NOT 0 then alloc_scan bm (Suc w) n
      else case scan (\<lambda>b. drop_bit b (bm ! w) AND 1 = 0) BITMAP_WORD_BITS of
             Some b \<Rightarrow> Some (w, b)
           | None \<Rightarrow> alloc_scan bm (Suc w) n)"

definition pmm_alloc_frame :: "pmm_state \<Rightarrow> pmm_state \<times> u64" where
  "pmm_alloc_frame st =
     (case alloc_scan (bitmap st) 0 PMM_BITMAP_WORDS of
        None \<Rightarrow> (st, 0)
      | Some (w, b) \<Rightarrow>
          let frame = w * BITMAP_WORD_BITS + b
          in if frame \<ge> PMM_MAX_FRAMES then (st, 0)
             else (st\<lparr>bitmap := bitmap_set (bitmap st) frame, free_frames := free_frames st - 1\<rparr>,
                   of_nat frame * FRAME_SIZE))"

definition pmm_free_frame :: "u64 \<Rightarrow> pmm_state \<Rightarrow> pmm_state" where
  "pmm_free_frame phys st =
     (let frame = unat (phys div FRAME_SIZE)
      in if frame \<ge> PMM_MAX_FRAMES then st
         else if \<not> bitmap_test (bitmap st) frame then st
         else st\<lparr>bitmap := bitmap_clear (bitmap st) frame, free_frames := free_frames st + 1\<rparr>)"

section \<open>The set of free frames\<close>

text \<open>Abstraction: the frames whose bit is clear. \<open>pmm_ok\<close> is the well-formedness of the state:
  the array has its declared length and the null page is never free.\<close>

definition free_set :: "pmm_state \<Rightarrow> nat set" where
  "free_set st = {f. f < PMM_MAX_FRAMES \<and> \<not> bitmap_test (bitmap st) f}"

definition pmm_len :: "pmm_state \<Rightarrow> bool" where
  "pmm_len st \<longleftrightarrow> length (bitmap st) = PMM_BITMAP_WORDS"

definition pmm_ok :: "pmm_state \<Rightarrow> bool" where
  "pmm_ok st \<longleftrightarrow> pmm_len st \<and> 0 \<notin> free_set st"

text \<open>The counter agrees with the bitmap.\<close>

definition counter_ok :: "pmm_state \<Rightarrow> bool" where
  "counter_ok st \<longleftrightarrow> unat (free_frames st) = card (free_set st)"

lemma bitmap_test_bit: "bitmap_test bm f \<longleftrightarrow> bit (bm ! (f div 64)) (f mod 64)"
  by (simp add: bitmap_test_def bit_iff_odd_drop_bit and_one_eq mod_2_eq_odd)

lemma div_mod_64_eq: "f div 64 = g div 64 \<Longrightarrow> f mod 64 = g mod 64 \<Longrightarrow> f = g" for f g :: nat
  by (metis div_mult_mod_eq)

lemma bitmap_test_set:
  assumes "f div 64 < length bm"
  shows "bitmap_test (bitmap_set bm f) g \<longleftrightarrow> g = f \<or> bitmap_test bm g"
proof (cases "f div 64 = g div 64")
  case True
  with assms show ?thesis
    by (auto simp: bitmap_test_bit bitmap_set_def bit_simps dest: div_mod_64_eq)
next
  case False
  then show ?thesis by (auto simp: bitmap_test_bit bitmap_set_def)
qed

lemma bitmap_test_clear:
  assumes "f div 64 < length bm"
  shows "bitmap_test (bitmap_clear bm f) g \<longleftrightarrow> g \<noteq> f \<and> bitmap_test bm g"
proof (cases "f div 64 = g div 64")
  case True
  with assms show ?thesis
    by (auto simp: bitmap_test_bit bitmap_clear_def bit_simps dest: div_mod_64_eq)
next
  case False
  then show ?thesis by (auto simp: bitmap_test_bit bitmap_clear_def)
qed

lemma frame_word_bound: "pmm_len st \<Longrightarrow> f < PMM_MAX_FRAMES \<Longrightarrow> f div 64 < length (bitmap st)"
  by (simp add: pmm_len_def PMM_MAX_FRAMES_def PMM_BITMAP_WORDS_def less_mult_imp_div_less)

lemma length_bitmap_ops [simp]:
  "length (bitmap_set bm f) = length bm" "length (bitmap_clear bm f) = length bm"
  by (simp_all add: bitmap_set_def bitmap_clear_def)

lemma free_set_bound: "f \<in> free_set st \<Longrightarrow> f < PMM_MAX_FRAMES"
  by (simp add: free_set_def)

lemma finite_free_set [simp]: "finite (free_set st)"
  by (rule finite_subset [of _ "{..<PMM_MAX_FRAMES}"]) (auto simp: free_set_def)

lemma card_free_set_bound: "card (free_set st) \<le> PMM_MAX_FRAMES"
  by (rule order_trans [OF card_mono [of "{..<PMM_MAX_FRAMES}"]]) (auto simp: free_set_def)

lemma free_set_set:
  "pmm_len st \<Longrightarrow> f < PMM_MAX_FRAMES \<Longrightarrow>
   free_set (st\<lparr>bitmap := bitmap_set (bitmap st) f, free_frames := n\<rparr>) = free_set st - {f}"
  by (auto simp: free_set_def bitmap_test_set frame_word_bound)

lemma free_set_clear:
  "pmm_len st \<Longrightarrow> f < PMM_MAX_FRAMES \<Longrightarrow>
   free_set (st\<lparr>bitmap := bitmap_clear (bitmap st) f, free_frames := n\<rparr>) = insert f (free_set st)"
  by (auto simp: free_set_def bitmap_test_clear frame_word_bound)

lemma free_set_ext: "bitmap st' = bitmap st \<Longrightarrow> free_set st' = free_set st"
  by (simp add: free_set_def)

section \<open>Marking ranges\<close>

lemma mark_used_step_len: "pmm_len st \<Longrightarrow> pmm_len (mark_used_step f st)"
  by (simp add: mark_used_step_def pmm_len_def Let_def)

lemma mark_free_step_len: "pmm_len st \<Longrightarrow> pmm_len (mark_free_step f st)"
  by (simp add: mark_free_step_def pmm_len_def)

lemma free_set_mark_used_step:
  assumes "pmm_len st" and "f < PMM_MAX_FRAMES"
  shows "free_set (mark_used_step f st) = free_set st - {f}"
proof (cases "bitmap_test (bitmap st) f")
  case True
  then show ?thesis by (auto simp: mark_used_step_def free_set_def)
next
  case False
  have "bitmap (mark_used_step f st) = bitmap_set (bitmap st) f"
    using False by (simp add: mark_used_step_def Let_def)
  then have "free_set (mark_used_step f st) =
      free_set (st\<lparr>bitmap := bitmap_set (bitmap st) f, free_frames := 0\<rparr>)"
    by (intro free_set_ext) simp
  with assms show ?thesis by (simp only: free_set_set)
qed

lemma free_set_mark_free_step:
  assumes "pmm_len st" and "f < PMM_MAX_FRAMES"
  shows "free_set (mark_free_step f st) = insert f (free_set st)"
proof (cases "bitmap_test (bitmap st) f")
  case True
  with assms show ?thesis by (simp only: mark_free_step_def if_True free_set_clear)
next
  case False
  with assms(2) show ?thesis by (auto simp: mark_free_step_def free_set_def)
qed

lemma unat_dec: "0 < w \<Longrightarrow> unat (w - 1) = unat w - 1" for w :: u64
  by (rule unat_minus_one) auto

lemma counter_pos: "counter_ok st \<Longrightarrow> f \<in> free_set st \<Longrightarrow> 0 < free_frames st"
  unfolding counter_ok_def word_gt_0 by (metis card_gt_0_iff empty_iff finite_free_set not_less_zero unat_0)

lemma counter_dec:
  assumes "counter_ok st" and "f \<in> free_set st" and "free_set st' = free_set st - {f}"
    and "free_frames st' = free_frames st - 1"
  shows "counter_ok st'"
proof -
  have a: "unat (free_frames st - 1) = unat (free_frames st) - 1"
    using counter_pos [OF assms(1,2)] by (rule unat_dec)
  have b: "card (free_set st - {f}) = card (free_set st) - 1"
    using assms(2) by (simp add: card_Diff_singleton)
  show ?thesis
    using assms(1) unfolding counter_ok_def assms(3,4) a b by simp
qed

lemma counter_inc:
  assumes "counter_ok st" and "f \<notin> free_set st" and "free_set st' = insert f (free_set st)"
    and "free_frames st' = free_frames st + 1"
  shows "counter_ok st'"
proof -
  have "unat (free_frames st) \<le> PMM_MAX_FRAMES"
    using assms(1) card_free_set_bound [of st] by (simp add: counter_ok_def)
  then have "unat (free_frames st + 1) = unat (free_frames st) + 1"
    by (simp add: unat_word_ariths PMM_MAX_FRAMES_def)
  then show ?thesis using assms by (simp add: counter_ok_def)
qed

lemma mark_used_step_counter:
  assumes "pmm_len st" and "f < PMM_MAX_FRAMES" and "counter_ok st"
  shows "counter_ok (mark_used_step f st)"
proof (cases "bitmap_test (bitmap st) f")
  case True
  with assms(3) show ?thesis by (simp add: mark_used_step_def)
next
  case False
  then have f: "f \<in> free_set st" using assms(2) by (simp add: free_set_def)
  then have "free_frames st > 0"
    using assms(3) counter_pos by blast
  then have "free_frames (mark_used_step f st) = free_frames st - 1"
    using False by (simp add: mark_used_step_def Let_def)
  with assms f show ?thesis
    using counter_dec free_set_mark_used_step by blast
qed

lemma mark_free_step_counter:
  assumes "pmm_len st" and "f < PMM_MAX_FRAMES" and "counter_ok st"
  shows "counter_ok (mark_free_step f st)"
proof (cases "bitmap_test (bitmap st) f")
  case True
  then have "f \<notin> free_set st" by (simp add: free_set_def)
  moreover have "free_frames (mark_free_step f st) = free_frames st + 1"
    using True by (simp add: mark_free_step_def)
  ultimately show ?thesis
    using assms counter_inc free_set_mark_free_step by blast
next
  case False
  with assms(3) show ?thesis by (simp add: mark_free_step_def)
qed

lemma mark_used_loop:
  assumes "pmm_len st" and "lo \<le> hi" and "hi \<le> PMM_MAX_FRAMES"
  shows "pmm_len (for_range lo hi mark_used_step st)"
    and "free_set (for_range lo hi mark_used_step st) = free_set st - {lo..<hi}"
    and "counter_ok st \<Longrightarrow> counter_ok (for_range lo hi mark_used_step st)"
proof -
  let ?I = "\<lambda>i s. pmm_len s \<and> free_set s = free_set st - {lo..<i} \<and> (counter_ok st \<longrightarrow> counter_ok s)"
  have "?I hi (for_range lo hi mark_used_step st)"
  proof (rule for_range_inv)
    show "lo \<le> hi" by fact
    show "?I lo st" using assms by simp
  next
    fix i s assume i: "lo \<le> i" "i < hi" and I: "?I i s"
    then have b: "i < PMM_MAX_FRAMES" using assms(3) by simp
    have "free_set (mark_used_step i s) = free_set st - {lo..<i} - {i}"
      using I free_set_mark_used_step [OF _ b] by simp
    also have "\<dots> = free_set st - {lo..<Suc i}" using i by auto
    finally show "?I (Suc i) (mark_used_step i s)"
      using I b mark_used_step_len mark_used_step_counter by blast
  qed
  then show "pmm_len (for_range lo hi mark_used_step st)"
    and "free_set (for_range lo hi mark_used_step st) = free_set st - {lo..<hi}"
    and "counter_ok st \<Longrightarrow> counter_ok (for_range lo hi mark_used_step st)" by auto
qed

lemma mark_free_loop:
  assumes "pmm_len st" and "lo \<le> hi" and "hi \<le> PMM_MAX_FRAMES"
  shows "pmm_len (for_range lo hi mark_free_step st)"
    and "free_set (for_range lo hi mark_free_step st) = free_set st \<union> {lo..<hi}"
    and "counter_ok st \<Longrightarrow> counter_ok (for_range lo hi mark_free_step st)"
proof -
  let ?I = "\<lambda>i s. pmm_len s \<and> free_set s = free_set st \<union> {lo..<i} \<and> (counter_ok st \<longrightarrow> counter_ok s)"
  have "?I hi (for_range lo hi mark_free_step st)"
  proof (rule for_range_inv)
    show "lo \<le> hi" by fact
    show "?I lo st" using assms by simp
  next
    fix i s assume i: "lo \<le> i" "i < hi" and I: "?I i s"
    then have b: "i < PMM_MAX_FRAMES" using assms(3) by simp
    have "free_set (mark_free_step i s) = insert i (free_set st \<union> {lo..<i})"
      using I free_set_mark_free_step [OF _ b] by simp
    also have "\<dots> = free_set st \<union> {lo..<Suc i}" using i by auto
    finally show "?I (Suc i) (mark_free_step i s)"
      using I b mark_free_step_len mark_free_step_counter by blast
  qed
  then show "pmm_len (for_range lo hi mark_free_step st)"
    and "free_set (for_range lo hi mark_free_step st) = free_set st \<union> {lo..<hi}"
    and "counter_ok st \<Longrightarrow> counter_ok (for_range lo hi mark_free_step st)" by auto
qed

lemma clamp_frames: "(if e > PMM_MAX_FRAMES then PMM_MAX_FRAMES else e) = min e PMM_MAX_FRAMES"
  by simp

text \<open>The frames a range covers: all frames it touches when marking used, and the ones from the frame
  of its first byte on that end inside it when marking free.\<close>

lemma mark_range_used_free_set:
  assumes "pmm_len st"
  shows "free_set (mark_range_used base len st) =
    free_set st - {unat (base div 4096) ..< unat ((base + len + 4095) div 4096)}"
proof -
  let ?lo = "unat (base div 4096)" and ?hi = "unat ((base + len + 4095) div 4096)"
  have eq: "mark_range_used base len st = for_range ?lo (min ?hi PMM_MAX_FRAMES) mark_used_step st"
    by (simp add: mark_range_used_def Let_def clamp_frames add.commute add.left_commute
        flip: add_diff_eq)
  show ?thesis
  proof (cases "?lo \<le> min ?hi PMM_MAX_FRAMES")
    case True
    then have "free_set (mark_range_used base len st) = free_set st - {?lo ..< min ?hi PMM_MAX_FRAMES}"
      unfolding eq using assms by (intro mark_used_loop(2)) auto
    also have "\<dots> = free_set st - {?lo ..< ?hi}" by (auto dest: free_set_bound)
    finally show ?thesis .
  next
    case False
    then have "{?lo ..< ?hi} \<inter> free_set st = {}" by (auto dest: free_set_bound)
    with False show ?thesis unfolding eq by auto
  qed
qed

lemma mark_range_free_free_set:
  assumes "pmm_len st"
  shows "free_set (mark_range_free base len st) =
    free_set st \<union> {unat (base div 4096) ..< min (unat ((base + len) div 4096)) PMM_MAX_FRAMES}"
proof -
  let ?lo = "unat (base div 4096)" and ?hi = "min (unat ((base + len) div 4096)) PMM_MAX_FRAMES"
  have eq: "mark_range_free base len st = for_range ?lo ?hi mark_free_step st"
    by (simp add: mark_range_free_def Let_def clamp_frames)
  show ?thesis
  proof (cases "?lo \<le> ?hi")
    case True
    then show ?thesis
      unfolding eq using assms by (intro mark_free_loop(2)) auto
  next
    case False
    then show ?thesis unfolding eq by auto
  qed
qed

lemma mark_range_used_keeps:
  assumes "pmm_len st"
  shows "pmm_len (mark_range_used base len st)"
    and "counter_ok st \<Longrightarrow> counter_ok (mark_range_used base len st)"
proof -
  let ?lo = "unat (base div 4096)" and ?hi = "min (unat ((base + len + 4096 - 1) div 4096)) PMM_MAX_FRAMES"
  have eq: "mark_range_used base len st = for_range ?lo ?hi mark_used_step st"
    by (simp add: mark_range_used_def Let_def clamp_frames)
  have "pmm_len (for_range ?lo ?hi mark_used_step st) \<and>
        (counter_ok st \<longrightarrow> counter_ok (for_range ?lo ?hi mark_used_step st))"
    by (cases "?lo \<le> ?hi") (use assms mark_used_loop(1,3) in auto)
  then show "pmm_len (mark_range_used base len st)"
    and "counter_ok st \<Longrightarrow> counter_ok (mark_range_used base len st)"
    unfolding eq by blast+
qed

lemma mark_range_free_keeps:
  assumes "pmm_len st"
  shows "pmm_len (mark_range_free base len st)"
    and "counter_ok st \<Longrightarrow> counter_ok (mark_range_free base len st)"
proof -
  let ?lo = "unat (base div 4096)" and ?hi = "min (unat ((base + len) div 4096)) PMM_MAX_FRAMES"
  have eq: "mark_range_free base len st = for_range ?lo ?hi mark_free_step st"
    by (simp add: mark_range_free_def Let_def clamp_frames)
  have "pmm_len (for_range ?lo ?hi mark_free_step st) \<and>
        (counter_ok st \<longrightarrow> counter_ok (for_range ?lo ?hi mark_free_step st))"
    by (cases "?lo \<le> ?hi") (use assms mark_free_loop(1,3) in auto)
  then show "pmm_len (mark_range_free base len st)"
    and "counter_ok st \<Longrightarrow> counter_ok (mark_range_free base len st)"
    unfolding eq by blast+
qed

section \<open>Allocation and release\<close>

lemma clear_bit_iff: "drop_bit b w AND 1 = 0 \<longleftrightarrow> \<not> bit w b" for w :: u64
  by (simp add: bit_iff_odd_drop_bit and_one_eq mod_2_eq_odd)

lemma full_word: "bit (NOT 0 :: u64) n \<longleftrightarrow> n < 64"
  by (simp add: bit_simps)

lemma word_of_frame: "w * 64 \<le> f \<Longrightarrow> f < Suc w * 64 \<Longrightarrow> f div 64 = w" for f :: nat
  by (simp add: div_nat_eqI)

lemma alloc_scan_spec:
  "case alloc_scan bm w n of
     None \<Rightarrow> \<forall>f. w * 64 \<le> f \<longrightarrow> f < (w + n) * 64 \<longrightarrow> bitmap_test bm f
   | Some (w', b) \<Rightarrow> w' < w + n \<and> b < 64 \<and> \<not> bitmap_test bm (w' * 64 + b) \<and> w \<le> w' \<and>
       (\<forall>f. w * 64 \<le> f \<longrightarrow> f < w' * 64 + b \<longrightarrow> bitmap_test bm f)"
proof (induction bm w n rule: alloc_scan.induct)
  case (1 bm w)
  then show ?case by simp
next
  case (2 bm w n)
  show ?case
  proof (cases "scan (\<lambda>b. \<not> bit (bm ! w) b) 64")
    case (Some b)
    then have b: "b < 64" "\<not> bit (bm ! w) b" "\<forall>j<b. bit (bm ! w) j"
      by (auto simp: scan_Some_iff)
    then have "bm ! w \<noteq> NOT 0" by (auto simp: full_word)
    moreover have "bitmap_test bm f" if "w * 64 \<le> f" "f < w * 64 + b" for f
    proof -
      have "f div 64 = w" using that b(1) by (intro word_of_frame) auto
      moreover have "f = f div 64 * 64 + f mod 64" by simp
      then have "f mod 64 < b" using that calculation by linarith
      ultimately show ?thesis using b(3) by (simp add: bitmap_test_bit)
    qed
    ultimately show ?thesis using Some b(1,2) by (simp add: clear_bit_iff bitmap_test_bit)
  next
    case None
    then have full: "\<forall>j<64. bit (bm ! w) j" by (simp add: scan_None_iff)
    have skip: "alloc_scan bm w (Suc n) = alloc_scan bm (Suc w) n"
      using None by (simp add: clear_bit_iff)
    have here: "bitmap_test bm f" if "w * 64 \<le> f" "f < Suc w * 64" for f
      using full word_of_frame [OF that] by (simp add: bitmap_test_bit)
    have IH: "case alloc_scan bm (Suc w) n of
        None \<Rightarrow> \<forall>f. Suc w * 64 \<le> f \<longrightarrow> f < (Suc w + n) * 64 \<longrightarrow> bitmap_test bm f
      | Some (w', b) \<Rightarrow> w' < Suc w + n \<and> b < 64 \<and> \<not> bitmap_test bm (w' * 64 + b) \<and> Suc w \<le> w' \<and>
          (\<forall>f. Suc w * 64 \<le> f \<longrightarrow> f < w' * 64 + b \<longrightarrow> bitmap_test bm f)"
      using 2 None by (cases "bm ! w = NOT 0") (simp_all add: clear_bit_iff)
    show ?thesis
    proof (cases "alloc_scan bm (Suc w) n")
      case None
      with IH have "\<forall>f. Suc w * 64 \<le> f \<longrightarrow> f < (w + Suc n) * 64 \<longrightarrow> bitmap_test bm f" by simp
      then have "\<forall>f. w * 64 \<le> f \<longrightarrow> f < (w + Suc n) * 64 \<longrightarrow> bitmap_test bm f"
        using here by (meson not_le)
      with None show ?thesis unfolding skip by simp
    next
      case (Some p)
      obtain w' b where p: "p = (w', b)" by (cases p)
      with IH Some have *: "w' < Suc w + n" "b < 64" "\<not> bitmap_test bm (w' * 64 + b)" "Suc w \<le> w'"
        "\<forall>f. Suc w * 64 \<le> f \<longrightarrow> f < w' * 64 + b \<longrightarrow> bitmap_test bm f" by auto
      then have "\<forall>f. w * 64 \<le> f \<longrightarrow> f < w' * 64 + b \<longrightarrow> bitmap_test bm f"
        using here by (meson not_le)
      with * show ?thesis unfolding skip Some p by simp
    qed
  qed
qed

lemma frame_addr:
  assumes "f < PMM_MAX_FRAMES"
  shows "unat (of_nat f * 4096 :: u64) = f * 4096" and "page_no (of_nat f * 4096) = f"
    and "(of_nat f * 4096 :: u64) = 0 \<longleftrightarrow> f = 0"
proof -
  have "unat (of_nat (f * 4096) :: u64) = f * 4096"
    using assms by (simp only: unat_of_nat) (simp add: PMM_MAX_FRAMES_def)
  then show *: "unat (of_nat f * 4096 :: u64) = f * 4096" by simp
  then show "page_no (of_nat f * 4096) = f" by (simp add: page_no_def)
  show "(of_nat f * 4096 :: u64) = 0 \<longleftrightarrow> f = 0" using * by (metis mult_is_0 unat_eq_zero zero_neq_numeral)
qed

lemma unat_div_4096: "unat (a div 4096 :: u64) = page_no a"
  by (simp add: page_no_def unat_div)

lemma scan_bitmap:
  "alloc_scan (bitmap st) 0 PMM_BITMAP_WORDS =
     (if free_set st = {} then None
      else Some (Min (free_set st) div 64, Min (free_set st) mod 64))"
proof (cases "alloc_scan (bitmap st) 0 PMM_BITMAP_WORDS")
  case None
  with alloc_scan_spec [where bm = "bitmap st" and w = 0 and n = PMM_BITMAP_WORDS] have "free_set st = {}"
    by (auto simp: free_set_def PMM_BITMAP_WORDS_def PMM_MAX_FRAMES_def)
  with None show ?thesis by simp
next
  case (Some p)
  obtain w b where p: "p = (w, b)" by (cases p)
  with Some alloc_scan_spec [where bm = "bitmap st" and w = 0 and n = PMM_BITMAP_WORDS]
  have *: "w < PMM_BITMAP_WORDS" "b < 64" "\<not> bitmap_test (bitmap st) (w * 64 + b)"
    "\<forall>f. f < w * 64 + b \<longrightarrow> bitmap_test (bitmap st) f" by auto
  then have "w * 64 + b < PMM_MAX_FRAMES"
    by (simp add: PMM_BITMAP_WORDS_def PMM_MAX_FRAMES_def)
  with * have f: "w * 64 + b \<in> free_set st" by (simp add: free_set_def)
  have "Min (free_set st) = w * 64 + b"
    using f *(4) by (intro Min_eqI) (auto simp: free_set_def not_less [symmetric])
  with f *(2) Some p show ?thesis by auto
qed

text \<open>The two branches of the allocator: out of memory, and the lowest free frame.\<close>

lemma pmm_alloc_empty: "free_set st = {} \<Longrightarrow> pmm_alloc_frame st = (st, 0)"
  by (simp add: pmm_alloc_frame_def scan_bitmap)

lemma pmm_alloc_lowest:
  assumes "f = Min (free_set st)" and "free_set st \<noteq> {}"
  shows "pmm_alloc_frame st =
    (st\<lparr>bitmap := bitmap_set (bitmap st) f, free_frames := free_frames st - 1\<rparr>, of_nat f * 4096)"
proof -
  have "f \<in> free_set st" using assms by simp
  then have "f < PMM_MAX_FRAMES" by (rule free_set_bound)
  then show ?thesis
    unfolding pmm_alloc_frame_def scan_bitmap assms(1) [symmetric]
    using assms(2) by (simp add: Let_def)
qed

lemma pmm_len_update: "pmm_len (st\<lparr>bitmap := bitmap_set (bitmap st) f, free_frames := n\<rparr>) = pmm_len st"
  "pmm_len (st\<lparr>bitmap := bitmap_clear (bitmap st) f, free_frames := n\<rparr>) = pmm_len st"
  by (simp_all add: pmm_len_def)

lemma pmm_alloc_effect:
  assumes "pmm_ok st" and "pmm_alloc_frame st = (st', a)"
  shows "pmm_ok st'" and "counter_ok st \<Longrightarrow> counter_ok st'"
    and "a = 0 \<Longrightarrow> free_set st = {} \<and> st' = st"
    and "a \<noteq> 0 \<Longrightarrow> page_no a = Min (free_set st) \<and> page_no a \<in> free_set st \<and> unat a mod 4096 = 0 \<and>
           free_set st' = free_set st - {page_no a}"
proof -
  have "pmm_ok st' \<and> (counter_ok st \<longrightarrow> counter_ok st') \<and> (a = 0 \<longrightarrow> free_set st = {} \<and> st' = st) \<and>
    (a \<noteq> 0 \<longrightarrow> page_no a = Min (free_set st) \<and> page_no a \<in> free_set st \<and> unat a mod 4096 = 0 \<and>
           free_set st' = free_set st - {page_no a})"
  proof (cases "free_set st = {}")
    case True
    with assms show ?thesis by (auto simp: pmm_alloc_empty)
  next
    case False
    define f where f: "f = Min (free_set st)"
    have mem: "f \<in> free_set st" unfolding f using False by (intro Min_in) simp_all
    have b: "f < PMM_MAX_FRAMES" using mem by (rule free_set_bound)
    have len: "pmm_len st" and "f \<noteq> 0" using assms(1) mem by (auto simp: pmm_ok_def intro: ccontr)
    have st': "st' = st\<lparr>bitmap := bitmap_set (bitmap st) f, free_frames := free_frames st - 1\<rparr>"
      and a: "a = of_nat f * 4096" using pmm_alloc_lowest [OF f False] assms(2) by auto
    have fs: "free_set st' = free_set st - {f}" unfolding st' by (rule free_set_set [OF len b])
    have "pmm_ok st'" using assms(1) fs len by (simp add: pmm_ok_def st' pmm_len_update)
    moreover have "counter_ok st \<longrightarrow> counter_ok st'" using counter_dec [OF _ mem fs] by (simp add: st')
    moreover have "a \<noteq> 0" "page_no a = f" "unat a mod 4096 = 0"
      using frame_addr [OF b] \<open>f \<noteq> 0\<close> by (simp_all add: a)
    ultimately show ?thesis using fs mem f by simp
  qed
  then show "pmm_ok st'" and "counter_ok st \<Longrightarrow> counter_ok st'"
    and "a = 0 \<Longrightarrow> free_set st = {} \<and> st' = st"
    and "a \<noteq> 0 \<Longrightarrow> page_no a = Min (free_set st) \<and> page_no a \<in> free_set st \<and> unat a mod 4096 = 0 \<and>
           free_set st' = free_set st - {page_no a}" by blast+
qed

lemma pmm_free_ignored:
  "page_no a \<ge> PMM_MAX_FRAMES \<or> page_no a \<in> free_set st \<Longrightarrow> pmm_free_frame a st = st"
  by (auto simp: pmm_free_frame_def unat_div_4096 Let_def free_set_def)

lemma pmm_free_effect:
  assumes "pmm_len st"
  shows "pmm_len (pmm_free_frame a st)" and "counter_ok st \<Longrightarrow> counter_ok (pmm_free_frame a st)"
    and "free_set (pmm_free_frame a st) =
           (if page_no a < PMM_MAX_FRAMES then insert (page_no a) (free_set st) else free_set st)"
proof -
  let ?st = "pmm_free_frame a st"
  have "pmm_len ?st \<and> (counter_ok st \<longrightarrow> counter_ok ?st) \<and> free_set ?st =
     (if page_no a < PMM_MAX_FRAMES then insert (page_no a) (free_set st) else free_set st)"
  proof (cases "page_no a \<ge> PMM_MAX_FRAMES \<or> page_no a \<in> free_set st")
    case True
    then show ?thesis using assms by (auto simp: pmm_free_ignored)
  next
    case False
    then have eq: "?st = st\<lparr>bitmap := bitmap_clear (bitmap st) (page_no a), free_frames := free_frames st + 1\<rparr>"
      by (simp add: pmm_free_frame_def unat_div_4096 Let_def free_set_def)
    have fs: "free_set ?st = insert (page_no a) (free_set st)"
      unfolding eq using False assms by (intro free_set_clear) simp_all
    moreover have "counter_ok st \<longrightarrow> counter_ok ?st"
      using counter_inc [OF _ _ fs] False eq by simp
    ultimately show ?thesis using False assms by (simp add: eq pmm_len_update)
  qed
  then show "pmm_len ?st" and "counter_ok st \<Longrightarrow> counter_ok ?st"
    and "free_set ?st = (if page_no a < PMM_MAX_FRAMES then insert (page_no a) (free_set st) else free_set st)"
    by blast+
qed

interpretation pm: frame_allocator pmm_alloc_frame pmm_free_frame free_set pmm_ok PMM_MAX_FRAMES
proof
  fix s a assume s: "pmm_ok s"
  obtain s' p where p: "pmm_alloc_frame s = (s', p)" by (cases "pmm_alloc_frame s")
  note eff = pmm_alloc_effect [OF s p]
  show "pmm_ok (fst (pmm_alloc_frame s))" using eff(1) p by simp
  show "snd (pmm_alloc_frame s) = 0 \<Longrightarrow> free_set s = {} \<and> fst (pmm_alloc_frame s) = s"
    using eff(3) p by simp
  show "snd (pmm_alloc_frame s) \<noteq> 0 \<Longrightarrow> page_no (snd (pmm_alloc_frame s)) \<in> free_set s \<and>
     unat (snd (pmm_alloc_frame s)) mod 4096 = 0 \<and>
     free_set (fst (pmm_alloc_frame s)) = free_set s - {page_no (snd (pmm_alloc_frame s))}"
    unfolding p fst_conv snd_conv using eff(4) by blast
  have len: "pmm_len s" using s by (simp add: pmm_ok_def)
  show "free_set (pmm_free_frame a s) =
      (if page_no a < PMM_MAX_FRAMES then insert (page_no a) (free_set s) else free_set s)"
    by (rule pmm_free_effect(3) [OF len])
  then show "0 < page_no a \<Longrightarrow> pmm_ok (pmm_free_frame a s)"
    using s pmm_free_effect(1) [OF len] by (auto simp: pmm_ok_def)
next
  show "free_set s \<subseteq> {..<PMM_MAX_FRAMES}" for s by (auto dest: free_set_bound)
qed

section \<open>Properties\<close>

text \<open>A state with every frame of one word free but frame 0, for the witnesses.\<close>

definition pmm_demo :: pmm_state where
  "pmm_demo = \<lparr>bitmap = 1 # replicate 16383 (NOT 0), total_frames = 1048576, free_frames = 63,
               mb2_info_phys = 0\<rparr>"

lemma pmm_demo_free: "free_set pmm_demo = {1..<64}"
proof -
  have "bitmap_test (bitmap pmm_demo) f \<longleftrightarrow> f = 0 \<or> 64 \<le> f" if "f < PMM_MAX_FRAMES" for f
  proof (cases "f < 64")
    case True
    then show ?thesis by (simp add: bitmap_test_bit pmm_demo_def bit_1_iff)
  next
    case False
    then have "f div 64 \<noteq> 0" "f div 64 - 1 < 16383" using that by (auto simp: PMM_MAX_FRAMES_def)
    with False show ?thesis by (simp add: bitmap_test_bit pmm_demo_def nth_Cons' full_word)
  qed
  then show ?thesis by (auto simp: free_set_def PMM_MAX_FRAMES_def)
qed

lemma pmm_demo_ok: "pmm_ok pmm_demo" "counter_ok pmm_demo"
proof -
  show "pmm_ok pmm_demo"
    by (simp add: pmm_ok_def pmm_len_def pmm_demo_free) (simp add: pmm_demo_def PMM_BITMAP_WORDS_def)
  show "counter_ok pmm_demo" by (simp add: counter_ok_def pmm_demo_free) (simp add: pmm_demo_def)
qed

text \<open>C1. The bitmap allocator implements the frame pool: it fails (returns 0, state unchanged) exactly
  when no frame is free, and otherwise hands out the lowest free frame, page aligned and never the
  null page, and removes just that frame from the pool. Well-formedness and the agreement of the
  counter with the bitmap are kept.\<close>

theorem pmm_alloc_frame_refines:
  assumes "pmm_ok st"
  shows "case pmm_alloc_frame st of (st', a) \<Rightarrow>
    pmm_ok st' \<and> (counter_ok st \<longrightarrow> counter_ok st') \<and>
    (if free_set st = {} then a = 0 \<and> st' = st
     else a \<noteq> 0 \<and> unat a = Min (free_set st) * 4096 \<and>
          free_set st' = free_set st - {Min (free_set st)})"
proof -
  obtain st' a where e: "pmm_alloc_frame st = (st', a)" by (cases "pmm_alloc_frame st")
  note eff = pmm_alloc_effect [OF assms e]
  have "unat a mod 4096 = 0 \<Longrightarrow> unat a = page_no a * 4096" by (auto simp: page_no_def)
  moreover have "free_set st \<noteq> {} \<Longrightarrow> a \<noteq> 0" using pm.alloc_progress [OF assms] e by simp
  moreover have "free_set st = {} \<Longrightarrow> a = 0 \<and> st' = st" using e by (simp add: pmm_alloc_empty)
  ultimately show ?thesis
    unfolding e prod.case using eff by (metis (no_types, lifting))
qed

theorem pmm_alloc_frame_refines_witness:
  "pmm_ok pmm_demo \<and> unat (snd (pmm_alloc_frame pmm_demo)) = 4096 \<and>
   free_set (fst (pmm_alloc_frame pmm_demo)) = {2..<64} \<and> counter_ok (fst (pmm_alloc_frame pmm_demo))"
proof -
  obtain st a where e: "pmm_alloc_frame pmm_demo = (st, a)" by (cases "pmm_alloc_frame pmm_demo")
  have m: "Min {1..<64::nat} = 1" by (intro Min_eqI) auto
  have d: "{1..<64::nat} - {1} = {2..<64}" by auto
  have ne: "({1..<64} :: nat set) \<noteq> {}" by simp
  have "counter_ok st \<and> unat a = 4096 \<and> free_set st = {2..<64}"
    using pmm_alloc_frame_refines [OF pmm_demo_ok(1)] pmm_demo_ok(2) ne
    unfolding e prod.case pmm_demo_free m d by (metis mult_1)
  with e pmm_demo_ok(1) show ?thesis by simp
qed

text \<open>C17. Releasing a frame puts exactly that frame back; an address outside the managed 4 GB and a
  frame that is already free (double free) leave the whole state unchanged, and the counter keeps
  agreeing with the bitmap.\<close>

theorem pmm_free_frame_correct:
  assumes "pmm_len st"
  shows "pmm_len (pmm_free_frame a st) \<and> (counter_ok st \<longrightarrow> counter_ok (pmm_free_frame a st)) \<and>
    (if page_no a < PMM_MAX_FRAMES \<and> page_no a \<notin> free_set st
     then free_set (pmm_free_frame a st) = insert (page_no a) (free_set st)
     else pmm_free_frame a st = st)"
  using pmm_free_effect [OF assms] pmm_free_ignored [of a st] by auto

theorem pmm_free_frame_correct_witness:
  "free_set (pmm_free_frame 0x40000 pmm_demo) = {1..<65} \<and> pmm_free_frame 0x3000 pmm_demo = pmm_demo"
proof -
  have len: "pmm_len pmm_demo" using pmm_demo_ok by (simp add: pmm_ok_def)
  have "free_set (pmm_free_frame 0x40000 pmm_demo) = insert 64 {1..<64}"
    using pmm_free_frame_correct [OF len, of "0x40000"]
    by (simp add: pmm_demo_free page_no_def PMM_MAX_FRAMES_def)
  moreover have "insert 64 {1..<64::nat} = {1..<65}" by auto
  moreover have "pmm_free_frame 0x3000 pmm_demo = pmm_demo"
    using pmm_free_frame_correct [OF len, of "0x3000"]
    by (simp add: pmm_demo_free page_no_def PMM_MAX_FRAMES_def)
  ultimately show ?thesis by simp
qed

text \<open>C26. A loop of allocations, as the clients run it: when enough frames are free all succeed, and
  the frames are pairwise distinct, were free before, and are the only frames taken.\<close>

theorem pmm_alloc_run_distinct:
  assumes "pmm_ok st" and "n \<le> card (free_set st)"
  shows "\<exists>st' as. alloc_run pmm_alloc_frame n st = (st', Some as) \<and>
    length as = n \<and> 0 \<notin> set as \<and> distinct (map page_no as) \<and>
    page_no ` set as \<subseteq> free_set st \<and> free_set st' = free_set st - page_no ` set as"
  using pm.alloc_run_succeeds [OF assms] pm.alloc_run_distinct [OF assms(1)] by blast

theorem pmm_alloc_run_distinct_witness:
  "\<exists>st' as. alloc_run pmm_alloc_frame 3 pmm_demo = (st', Some as) \<and> length as = 3 \<and>
     distinct (map page_no as)"
  using pmm_alloc_run_distinct [OF pmm_demo_ok(1), of 3] by (auto simp: pmm_demo_free)

end
