(* ===== verification/Boot.thy ===== *)
theory Boot
  imports Pmm
begin

text \<open>
  The boot-time construction of the frame bitmap, \<^verbatim>\<open>pmm_init\<close> of \<^verbatim>\<open>src/pmm/pmm.c\<close>: the walk over the
  Multiboot2 tags and memory-map entries, and the reservation of the null page, the kernel image and
  the bitmap. The lemmas determine the set of free frames after boot exactly and show that the walk
  ends on well-formed boot information.
\<close>

section \<open>Boot: the Multiboot2 memory map\<close>

text \<open>
  Physical memory is identity mapped while \<^verbatim>\<open>pmm_init\<close> runs, so the boot information is read from a
  byte memory \<open>pm\<close>. The walks advance by sizes that the boot information contains; a size of zero
  makes them run forever, so they are partial functions.
\<close>

definition load32 :: "(u64 \<Rightarrow> u8) \<Rightarrow> u64 \<Rightarrow> u32" where
  "load32 pm a = ucast (pm a) OR push_bit 8 (ucast (pm (a + 1)))
               OR push_bit 16 (ucast (pm (a + 2))) OR push_bit 24 (ucast (pm (a + 3)))"

definition load64 :: "(u64 \<Rightarrow> u8) \<Rightarrow> u64 \<Rightarrow> u64" where
  "load64 pm a = ucast (load32 pm a) OR push_bit 32 (ucast (load32 pm (a + 4)))"

definition mmap_entry :: "(u64 \<Rightarrow> u8) \<Rightarrow> u64 \<Rightarrow> pmm_state \<Rightarrow> pmm_state" where
  "mmap_entry pm e st =
     (let base_addr = load64 pm e; len = load64 pm (e + 8); mem_type = load32 pm (e + 16)
      in if mem_type = 1 \<and> base_addr > 0 then mark_range_free base_addr len st else st)"

partial_function (option) mmap_loop ::
  "(u64 \<Rightarrow> u8) \<Rightarrow> u32 \<Rightarrow> u64 \<Rightarrow> u64 \<Rightarrow> pmm_state \<Rightarrow> pmm_state option" where
  "mmap_loop pm entry_size entry_addr mmap_end st =
     (if entry_addr < mmap_end
      then mmap_loop pm entry_size (entry_addr + ucast entry_size) mmap_end (mmap_entry pm entry_addr st)
      else Some st)"

partial_function (option) tag_loop ::
  "(u64 \<Rightarrow> u8) \<Rightarrow> u64 \<Rightarrow> u64 \<Rightarrow> pmm_state \<Rightarrow> pmm_state option" where
  "tag_loop pm tag_addr end_addr st =
     (if tag_addr < end_addr
      then (if load32 pm tag_addr = 0 then Some st
            else Option.bind
              (if load32 pm tag_addr = 6
               then mmap_loop pm (load32 pm (tag_addr + 8)) (tag_addr + 16)
                      (tag_addr + ucast (load32 pm (tag_addr + 4))) st
               else Some st)
              (\<lambda>st'. tag_loop pm (tag_addr + (ucast (load32 pm (tag_addr + 4) + 7) AND NOT 7))
                       end_addr st'))
      else Some st)"

text \<open>\<^verbatim>\<open>kernel_end\<close> and \<^verbatim>\<open>bitmap_va\<close> are the addresses the linker gives \<^verbatim>\<open>__kernel_end\<close> and
  \<^verbatim>\<open>pmm.bitmap\<close>. The byte and region counts of the source only feed the log line.\<close>

definition pmm_reserve :: "u64 \<Rightarrow> u64 \<Rightarrow> pmm_state \<Rightarrow> pmm_state" where
  "pmm_reserve kernel_end bitmap_va st =
     (let st1 = st\<lparr>bitmap := bitmap_set (bitmap st) 0\<rparr>;
          st2 = (if free_frames st1 > 0 then st1\<lparr>free_frames := free_frames st1 - 1\<rparr> else st1);
          kend_phys = kernel_end - KERNEL_VMA;
          st3 = mark_range_used 0x100000 (kend_phys - 0x100000) st2;
          bm_phys = bitmap_va - KERNEL_VMA
      in mark_range_used bm_phys (of_nat PMM_BITMAP_WORDS * 8) st3)"

definition pmm_init :: "(u64 \<Rightarrow> u8) \<Rightarrow> u64 \<Rightarrow> u64 \<Rightarrow> pmm_state \<Rightarrow> (pmm_state \<times> int) option" where
  "pmm_init pm kernel_end bitmap_va st =
     (let st0 = st\<lparr>bitmap := replicate PMM_BITMAP_WORDS (NOT 0),
                   total_frames := of_nat PMM_MAX_FRAMES, free_frames := 0\<rparr>;
          mb2 = mb2_info_phys st0
      in if mb2 = 0 then Some (st0, -1)
         else Option.bind (tag_loop pm (mb2 + 8) (mb2 + ucast (load32 pm mb2)) st0)
                (\<lambda>st1. Some (pmm_reserve kernel_end bitmap_va st1, 0)))"

section \<open>What the walk visits\<close>

inductive entry_from :: "u32 \<Rightarrow> u64 \<Rightarrow> u64 \<Rightarrow> u64 \<Rightarrow> bool" for entry_size mmap_end where
  here: "entry_from entry_size mmap_end e e"
| later: "e < mmap_end \<Longrightarrow> entry_from entry_size mmap_end (e + ucast entry_size) e' \<Longrightarrow>
    entry_from entry_size mmap_end e e'"

inductive tag_from :: "(u64 \<Rightarrow> u8) \<Rightarrow> u64 \<Rightarrow> u64 \<Rightarrow> u64 \<Rightarrow> bool" for pm end_addr where
  here: "tag_from pm end_addr t t"
| later: "t < end_addr \<Longrightarrow> load32 pm t \<noteq> 0 \<Longrightarrow>
    tag_from pm end_addr (t + (ucast (load32 pm (t + 4) + 7) AND NOT 7)) t' \<Longrightarrow> tag_from pm end_addr t t'"

text \<open>The memory the boot loader reports as available: base and length of every type-1 entry of every
  memory-map tag before the end tag. It has the entries at address 0, which \<^verbatim>\<open>pmm_init\<close> skips.\<close>

definition available_regions :: "(u64 \<Rightarrow> u8) \<Rightarrow> u64 \<Rightarrow> u64 \<Rightarrow> (u64 \<times> u64) set" where
  "available_regions pm end_addr a =
     {(load64 pm e, load64 pm (e + 8)) | t e. tag_from pm end_addr a t \<and> t < end_addr \<and> load32 pm t = 6 \<and>
        entry_from (load32 pm (t + 8)) (t + ucast (load32 pm (t + 4))) (t + 16) e \<and>
        e < t + ucast (load32 pm (t + 4)) \<and> load32 pm (e + 16) = 1}"

text \<open>The frames of a region, from the one its base lies in up to the one its end lies in.\<close>

definition region_frames :: "u64 \<Rightarrow> u64 \<Rightarrow> nat set" where
  "region_frames base len = {page_no base ..< min (page_no (base + len)) PMM_MAX_FRAMES}"

definition entry_frames :: "(u64 \<Rightarrow> u8) \<Rightarrow> u64 \<Rightarrow> nat set" where
  "entry_frames pm e =
     (if load32 pm (e + 16) = 1 \<and> load64 pm e > 0 then region_frames (load64 pm e) (load64 pm (e + 8)) else {})"

definition entries_frames :: "(u64 \<Rightarrow> u8) \<Rightarrow> u32 \<Rightarrow> u64 \<Rightarrow> u64 \<Rightarrow> nat set" where
  "entries_frames pm es mend a = {f. \<exists>e. entry_from es mend a e \<and> e < mend \<and> f \<in> entry_frames pm e}"

definition tag_frames :: "(u64 \<Rightarrow> u8) \<Rightarrow> u64 \<Rightarrow> nat set" where
  "tag_frames pm t =
     (if load32 pm t = 6
      then entries_frames pm (load32 pm (t + 8)) (t + ucast (load32 pm (t + 4))) (t + 16) else {})"

definition tags_frames :: "(u64 \<Rightarrow> u8) \<Rightarrow> u64 \<Rightarrow> u64 \<Rightarrow> nat set" where
  "tags_frames pm end_addr a = {f. \<exists>t. tag_from pm end_addr a t \<and> t < end_addr \<and> f \<in> tag_frames pm t}"

lemma tags_frames_regions:
  "tags_frames pm ea a = (\<Union>(base, len) \<in> {r \<in> available_regions pm ea a. fst r \<noteq> 0}. region_frames base len)"
  unfolding tags_frames_def tag_frames_def entries_frames_def entry_frames_def available_regions_def
  by (auto simp: word_gt_0 split: if_splits) blast+

lemma entry_from_unfold:
  "entry_from es mend a e \<longleftrightarrow> e = a \<or> a < mend \<and> entry_from es mend (a + ucast es) e"
  by (subst entry_from.simps) auto

lemma tag_from_unfold:
  "tag_from pm ea a t \<longleftrightarrow> t = a \<or> a < ea \<and> load32 pm a \<noteq> 0 \<and>
     tag_from pm ea (a + (ucast (load32 pm (a + 4) + 7) AND NOT 7)) t"
  by (subst tag_from.simps) auto

lemma entries_frames_unfold:
  "entries_frames pm es mend a =
     (if a < mend then entry_frames pm a \<union> entries_frames pm es mend (a + ucast es) else {})"
  unfolding entries_frames_def
  by (subst entry_from_unfold) auto

lemma tags_frames_unfold:
  "tags_frames pm ea a =
     (if a < ea \<and> load32 pm a \<noteq> 0
      then tag_frames pm a \<union> tags_frames pm ea (a + (ucast (load32 pm (a + 4) + 7) AND NOT 7)) else {})"
  unfolding tags_frames_def
  by (subst tag_from_unfold) (auto simp: tag_frames_def)

lemma mmap_entry_effect:
  assumes "pmm_len st"
  shows "pmm_len (mmap_entry pm e st)" and "counter_ok st \<Longrightarrow> counter_ok (mmap_entry pm e st)"
    and "free_set (mmap_entry pm e st) = free_set st \<union> entry_frames pm e"
  using assms mark_range_free_keeps [OF assms] mark_range_free_free_set [OF assms]
  by (simp_all add: mmap_entry_def entry_frames_def region_frames_def Let_def unat_div_4096)

lemma mmap_loop_effect:
  assumes "mmap_loop pm es a mend st = Some st'"
  shows "pmm_len st \<longrightarrow> pmm_len st' \<and> (counter_ok st \<longrightarrow> counter_ok st') \<and>
           free_set st' = free_set st \<union> entries_frames pm es mend a"
proof (rule mmap_loop.raw_induct [OF _ assms], goal_cases)
  case (1 loop pm es a mend st st')
  show ?case
  proof (cases "a < mend")
    case True
    with 1(2) have "loop pm es (a + ucast es) mend (mmap_entry pm a st) = Some st'" by simp
    from 1(1) [OF this] show ?thesis
      using True mmap_entry_effect [of st pm a]
      by (auto simp: entries_frames_unfold [of pm es mend a])
  next
    case False
    with 1(2) show ?thesis by (simp add: entries_frames_unfold [of pm es mend a])
  qed
qed

lemma tag_loop_effect:
  assumes "tag_loop pm a ea st = Some st'"
  shows "pmm_len st \<longrightarrow> pmm_len st' \<and> (counter_ok st \<longrightarrow> counter_ok st') \<and>
           free_set st' = free_set st \<union> tags_frames pm ea a"
proof (rule tag_loop.raw_induct [OF _ assms], goal_cases)
  case (1 loop pm a ea st st')
  show ?case
  proof (cases "a < ea \<and> load32 pm a \<noteq> 0")
    case True
    with 1(2) obtain st1 where st1: "(if load32 pm a = 6
        then mmap_loop pm (load32 pm (a + 8)) (a + 16) (a + ucast (load32 pm (a + 4))) st
        else Some st) = Some st1"
      and st': "loop pm (a + (ucast (load32 pm (a + 4) + 7) AND NOT 7)) ea st1 = Some st'"
      by (auto simp: bind_eq_Some_conv)
    have "pmm_len st \<longrightarrow> pmm_len st1 \<and> (counter_ok st \<longrightarrow> counter_ok st1) \<and>
        free_set st1 = free_set st \<union> tag_frames pm a"
      using st1 by (auto simp: tag_frames_def split: if_splits dest: mmap_loop_effect)
    with 1(1) [OF st'] True show ?thesis by (auto simp: tags_frames_unfold [of pm ea a])
  next
    case False
    with 1(2) have "st' = st" by (auto split: if_splits)
    with False show ?thesis by (auto simp: tags_frames_unfold [of pm ea a])
  qed
qed

section \<open>Reservation\<close>

text \<open>The counter is one below the number of clear bits (or both are zero): what the unconditional
  decrement for frame 0 leaves when frame 0 was not free.\<close>

definition counter_low :: "pmm_state \<Rightarrow> bool" where
  "counter_low st \<longleftrightarrow> unat (free_frames st) = card (free_set st) - 1"

lemma mark_used_step_low:
  assumes "pmm_len st" and "f < PMM_MAX_FRAMES" and "counter_low st"
  shows "counter_low (mark_used_step f st)"
proof (cases "bitmap_test (bitmap st) f")
  case True
  with assms(3) show ?thesis by (simp add: mark_used_step_def)
next
  case False
  then have f: "f \<in> free_set st" using assms(2) by (simp add: free_set_def)
  have c: "card (free_set st - {f}) = card (free_set st) - 1" using f by (simp add: card_Diff_singleton)
  have "unat (free_frames (mark_used_step f st)) = unat (free_frames st) - 1"
    using False unat_dec [of "free_frames st"] by (auto simp: mark_used_step_def Let_def word_gt_0)
  with assms c show ?thesis by (simp add: counter_low_def free_set_mark_used_step)
qed

lemma mark_range_used_low:
  assumes "pmm_len st" and "counter_low st"
  shows "counter_low (mark_range_used base len st)"
proof -
  let ?lo = "unat (base div 4096)" and ?hi = "min (unat ((base + len + 4096 - 1) div 4096)) PMM_MAX_FRAMES"
  have eq: "mark_range_used base len st = for_range ?lo ?hi mark_used_step st"
    by (simp add: mark_range_used_def Let_def clamp_frames)
  show ?thesis
  proof (cases "?lo \<le> ?hi")
    case True
    have "pmm_len (for_range ?lo ?hi mark_used_step st) \<and> counter_low (for_range ?lo ?hi mark_used_step st)"
      by (rule for_range_inv [OF True]) (use assms in \<open>auto simp: mark_used_step_low mark_used_step_len\<close>)
    then show ?thesis unfolding eq by blast
  next
    case False
    then have "?hi \<le> ?lo" by linarith
    with assms show ?thesis unfolding eq by (simp only: for_range_empty)
  qed
qed

definition kernel_frames :: "u64 \<Rightarrow> nat set" where
  "kernel_frames kernel_end = {256 ..< page_no (kernel_end - KERNEL_VMA + 4095)}"

definition bitmap_frames :: "u64 \<Rightarrow> nat set" where
  "bitmap_frames bitmap_va =
     {page_no (bitmap_va - KERNEL_VMA) ..< page_no (bitmap_va - KERNEL_VMA + 131072 + 4095)}"

definition null_reserved :: "pmm_state \<Rightarrow> pmm_state" where
  "null_reserved st =
     (let st1 = st\<lparr>bitmap := bitmap_set (bitmap st) 0\<rparr>
      in if free_frames st1 > 0 then st1\<lparr>free_frames := free_frames st1 - 1\<rparr> else st1)"

lemma pmm_reserve_eq:
  "pmm_reserve kernel_end bitmap_va st =
     mark_range_used (bitmap_va - KERNEL_VMA) 131072
       (mark_range_used 0x100000 (kernel_end - KERNEL_VMA - 0x100000) (null_reserved st))"
  by (simp only: pmm_reserve_def null_reserved_def Let_def PMM_BITMAP_WORDS_def) simp

lemma null_reserved_effect:
  assumes "pmm_len st"
  shows "pmm_len (null_reserved st)" and "free_set (null_reserved st) = free_set st - {0}"
proof -
  have b: "bitmap (null_reserved st) = bitmap_set (bitmap st) 0"
    by (simp add: null_reserved_def Let_def)
  show "pmm_len (null_reserved st)" using assms by (simp add: pmm_len_def b)
  have "free_set (null_reserved st) = free_set (st\<lparr>bitmap := bitmap_set (bitmap st) 0, free_frames := 0\<rparr>)"
    by (rule free_set_ext) (simp add: b)
  with assms show "free_set (null_reserved st) = free_set st - {0}"
    by (simp add: free_set_set PMM_MAX_FRAMES_def)
qed

lemma null_reserved_low:
  assumes "counter_ok st" and "0 \<notin> free_set st" and "pmm_len st"
  shows "counter_low (null_reserved st)"
proof -
  have "free_set (null_reserved st) = free_set st" using null_reserved_effect(2) [OF assms(3)] assms(2) by auto
  moreover have "unat (free_frames (null_reserved st)) = unat (free_frames st) - 1"
    using unat_dec [of "free_frames st"] by (auto simp: null_reserved_def Let_def word_gt_0)
  ultimately show ?thesis using assms(1) by (simp add: counter_low_def counter_ok_def)
qed

lemma null_reserved_ok:
  assumes "counter_ok st" and "0 \<in> free_set st" and "pmm_len st"
  shows "counter_ok (null_reserved st)"
  using counter_pos [OF assms(1,2)] null_reserved_effect(2) [OF assms(3)]
  by (intro counter_dec [OF assms(1,2)]) (simp_all add: null_reserved_def Let_def)

lemma pmm_reserve_effect:
  assumes "pmm_len st"
  shows "pmm_len (pmm_reserve ke bva st)"
    and "free_set (pmm_reserve ke bva st) = free_set st - {0} - kernel_frames ke - bitmap_frames bva"
proof -
  note n = null_reserved_effect [OF assms]
  let ?s = "mark_range_used 0x100000 (ke - KERNEL_VMA - 0x100000) (null_reserved st)"
  have l: "pmm_len ?s" by (rule mark_range_used_keeps(1) [OF n(1)])
  show "pmm_len (pmm_reserve ke bva st)"
    unfolding pmm_reserve_eq by (rule mark_range_used_keeps(1) [OF l])
  have "free_set ?s = free_set st - {0} - kernel_frames ke"
    unfolding mark_range_used_free_set [OF n(1)] n(2) unat_div_4096 kernel_frames_def
    by (simp add: page_no_def)
  then show "free_set (pmm_reserve ke bva st) = free_set st - {0} - kernel_frames ke - bitmap_frames bva"
    unfolding pmm_reserve_eq mark_range_used_free_set [OF l] unat_div_4096 bitmap_frames_def by simp
qed

section \<open>The whole of boot\<close>

definition mb2_end :: "(u64 \<Rightarrow> u8) \<Rightarrow> u64 \<Rightarrow> u64" where
  "mb2_end pm mb2 = mb2 + ucast (load32 pm mb2)"

definition boot_bitmap :: "pmm_state \<Rightarrow> pmm_state" where
  "boot_bitmap st = st\<lparr>bitmap := replicate PMM_BITMAP_WORDS (NOT 0),
                        total_frames := of_nat PMM_MAX_FRAMES, free_frames := 0\<rparr>"

lemma boot_bitmap_effect:
  "pmm_len (boot_bitmap st)" "free_set (boot_bitmap st) = {}" "counter_ok (boot_bitmap st)"
proof -
  have "bitmap_test (bitmap (boot_bitmap st)) f" if "f < PMM_MAX_FRAMES" for f
  proof -
    have "f div 64 < PMM_BITMAP_WORDS"
      using that by (simp add: PMM_MAX_FRAMES_def PMM_BITMAP_WORDS_def less_mult_imp_div_less)
    then show ?thesis by (simp add: boot_bitmap_def bitmap_test_bit full_word)
  qed
  then show *: "free_set (boot_bitmap st) = {}" by (auto simp: free_set_def)
  show "pmm_len (boot_bitmap st)" by (simp add: pmm_len_def boot_bitmap_def)
  show "counter_ok (boot_bitmap st)" by (simp add: counter_ok_def *) (simp add: boot_bitmap_def)
qed

lemma pmm_init_cases:
  assumes "mb2_info_phys st \<noteq> 0"
  shows "pmm_init pm ke bva st = Some (st', r) \<longleftrightarrow>
     r = 0 \<and> (\<exists>st1. tag_loop pm (mb2_info_phys st + 8) (mb2_end pm (mb2_info_phys st)) (boot_bitmap st) = Some st1 \<and>
        st' = pmm_reserve ke bva st1)"
  using assms by (auto simp: pmm_init_def boot_bitmap_def mb2_end_def Let_def bind_eq_Some_conv)

lemma boot_walk_effect:
  assumes "tag_loop pm a ea (boot_bitmap st) = Some st1"
  shows "pmm_len st1" and "counter_ok st1" and "free_set st1 = tags_frames pm ea a"
  using tag_loop_effect [OF assms] by (simp_all add: boot_bitmap_effect)

section \<open>Termination\<close>

text \<open>Boot information as the Multiboot2 specification describes it: a tag has at least its 8-byte
  header, its size rounded up fits 32 bits, and memory-map entries have a size.\<close>

definition tag_ok :: "(u64 \<Rightarrow> u8) \<Rightarrow> u64 \<Rightarrow> bool" where
  "tag_ok pm t \<longleftrightarrow> 8 \<le> load32 pm (t + 4) \<and> load32 pm (t + 4) \<le> 0xFFFFFFF8 \<and>
     (load32 pm t = 6 \<longrightarrow> load32 pm (t + 8) \<noteq> 0)"

lemma unat_add_ucast:
  "unat a < 2 ^ 63 \<Longrightarrow> unat (a + ucast s) = unat a + unat s" for a :: u64 and s :: u32
  using unat_lt_32 [of s] by (simp add: unat_word_ariths unsigned_ucast_eq take_bit_eq_mod)

lemma mmap_loop_terminates:
  assumes "es \<noteq> 0" and "unat mend < 2 ^ 63"
  shows "\<exists>st'. mmap_loop pm es a mend st = Some st'"
proof (induction "unat mend - unat a" arbitrary: a st rule: less_induct)
  case less
  show ?case
  proof (cases "a < mend")
    case True
    then have lt: "unat a < unat mend" by (simp add: word_less_nat_alt)
    have "unat (a + ucast es) = unat a + unat es" using lt assms(2) by (intro unat_add_ucast) simp
    moreover have "0 < unat es" using assms(1) by (simp add: unat_gt_0)
    ultimately have "unat mend - unat (a + ucast es) < unat mend - unat a" using lt by simp
    from less [OF this] True show ?thesis by (subst mmap_loop.simps) simp
  next
    case False
    then show ?thesis by (subst mmap_loop.simps) simp
  qed
qed

lemma tag_step_advances:
  assumes "tag_ok pm t" and "unat t < 2 ^ 63"
  shows "unat t < unat (t + (ucast (load32 pm (t + 4) + 7) AND NOT 7))"
proof -
  let ?s = "load32 pm (t + 4)" and ?x = "ucast (load32 pm (t + 4) + 7) :: u64"
  have "unat (?s + 7) = unat ?s + 7"
    using assms(1) by (simp add: tag_ok_def word_le_nat_alt unat_word_ariths)
  then have x: "unat ?x = unat ?s + 7" "unat ?x < 2 ^ 32"
    using unat_lt_32 [of "?s + 7"] by (simp_all add: unsigned_ucast_eq take_bit_eq_mod)
  have "unat (?x AND NOT 7) = unat ?x - unat (?x AND 7)" by (rule unat_and_not)
  moreover have "unat (?x AND 7) \<le> 7" using unat_and_le [of ?x 7] by simp
  moreover have "8 \<le> unat ?s" using assms(1) by (simp add: tag_ok_def word_le_nat_alt)
  ultimately have "8 \<le> unat (?x AND NOT 7)" "unat (?x AND NOT 7) < 2 ^ 32" using x by auto
  with assms(2) show ?thesis by (simp add: unat_word_ariths)
qed

lemma tag_loop_terminates:
  assumes "\<And>t. tag_from pm ea a t \<Longrightarrow> t < ea \<Longrightarrow> load32 pm t \<noteq> 0 \<Longrightarrow> tag_ok pm t"
    and "unat ea < 2 ^ 62"
  shows "\<exists>st'. tag_loop pm a ea st = Some st'"
  using assms(1)
proof (induction "unat ea - unat a" arbitrary: a st rule: less_induct)
  case less
  let ?n = "a + (ucast (load32 pm (a + 4) + 7) AND NOT 7)"
  show ?case
  proof (cases "a < ea \<and> load32 pm a \<noteq> 0")
    case True
    then have ok: "tag_ok pm a" using less(2) tag_from.here by blast
    have lt: "unat a < unat ea" using True by (simp add: word_less_nat_alt)
    then have "unat a < unat ?n" using ok assms(2) by (intro tag_step_advances) simp_all
    then have dec: "unat ea - unat ?n < unat ea - unat a" using lt by simp
    have next_ok: "tag_ok pm t" if "tag_from pm ea ?n t" "t < ea" "load32 pm t \<noteq> 0" for t
      using less(2) [OF tag_from.later] True that by blast
    have "unat (a + ucast (load32 pm (a + 4))) < 2 ^ 63"
      using lt assms(2) unat_lt_32 [of "load32 pm (a + 4)"] by (simp add: unat_add_ucast)
    then have "load32 pm a = 6 \<Longrightarrow> \<exists>st1. mmap_loop pm (load32 pm (a + 8)) (a + 16)
        (a + ucast (load32 pm (a + 4))) st = Some st1"
      using ok mmap_loop_terminates unfolding tag_ok_def by blast
    then obtain st1 where "(if load32 pm a = 6
        then mmap_loop pm (load32 pm (a + 8)) (a + 16) (a + ucast (load32 pm (a + 4))) st
        else Some st) = Some st1"
      by (cases "load32 pm a = 6") auto
    moreover obtain st2 where "tag_loop pm ?n ea st1 = Some st2"
      using less(1) [OF dec next_ok] by blast
    ultimately show ?thesis using True by (subst tag_loop.simps) simp
  next
    case False
    then show ?thesis by (subst tag_loop.simps) auto
  qed
qed

section \<open>A boot image\<close>

text \<open>Boot information at \<open>0x1000\<close>: one memory-map tag with the low memory at address 0 and a region of 4 MB at
  2 MB, both available, and the end tag. Only the non-zero bytes are listed.\<close>

definition boot_image :: "u64 \<Rightarrow> u8" where
  "boot_image a =
     (if a = 0x1000 then 80
      else if a = 0x1008 then 6 else if a = 0x100C then 64 else if a = 0x1010 then 24
      else if a = 0x1021 then 0xF0 else if a = 0x1022 then 9 else if a = 0x1028 then 1
      else if a = 0x1032 then 0x20 else if a = 0x103A then 0x40 else if a = 0x1040 then 1
      else if a = 0x104C then 8 else 0)"

definition boot_start :: pmm_state where
  "boot_start = \<lparr>bitmap = [], total_frames = 0, free_frames = 0, mb2_info_phys = 0x1000\<rparr>"

lemmas boot_image_eval = load64_def load32_def boot_image_def

lemma boot_image_words:
  "load32 boot_image 0x1000 = 80" "load32 boot_image 0x1008 = 6" "load32 boot_image 0x100C = 64"
  "load32 boot_image 0x1010 = 24" "load64 boot_image 0x1018 = 0" "load64 boot_image 0x1020 = 0x9F000"
  "load32 boot_image 0x1028 = 1" "load64 boot_image 0x1030 = 0x200000"
  "load64 boot_image 0x1038 = 0x400000" "load32 boot_image 0x1040 = 1" "load32 boot_image 0x1048 = 0"
  by (simp_all add: boot_image_eval)

lemma boot_image_end: "mb2_end boot_image 0x1000 = 0x1050"
  by (simp add: mb2_end_def boot_image_words)

lemma boot_image_tags: "tag_from boot_image 0x1050 0x1008 t \<longleftrightarrow> t = 0x1008 \<or> t = 0x1048"
  by (subst tag_from_unfold, simp add: boot_image_words, subst tag_from_unfold, simp add: boot_image_words)

lemma boot_image_entries: "entry_from 24 0x1048 0x1018 e \<longleftrightarrow> e = 0x1018 \<or> e = 0x1030 \<or> e = 0x1048"
  by (subst entry_from_unfold, simp, subst entry_from_unfold, simp, subst entry_from_unfold, simp)

lemma boot_image_regions: "available_regions boot_image 0x1050 0x1008 = {(0, 0x9F000), (0x200000, 0x400000)}"
proof -
  have "available_regions boot_image 0x1050 0x1008 = {(load64 boot_image e, load64 boot_image (e + 8)) | e.
      entry_from 24 0x1048 0x1018 e \<and> e < 0x1048 \<and> load32 boot_image (e + 16) = 1}"
    unfolding available_regions_def boot_image_tags
    by (auto simp: boot_image_words) (rule exI [of _ "0x1008"], auto simp: boot_image_words)
  also have "\<dots> = (\<lambda>e. (load64 boot_image e, load64 boot_image (e + 8))) `
      {e. entry_from 24 0x1048 0x1018 e \<and> e < 0x1048 \<and> load32 boot_image (e + 16) = 1}" by blast
  also have "{e. entry_from 24 0x1048 0x1018 e \<and> e < 0x1048 \<and> load32 boot_image (e + 16) = 1} = {0x1018, 0x1030}"
    unfolding boot_image_entries by (auto simp: boot_image_words)
  finally show ?thesis by (simp add: boot_image_words)
qed

lemma boot_image_frames: "tags_frames boot_image 0x1050 0x1008 = {512..<1536}"
  unfolding tags_frames_regions boot_image_regions
  by (auto simp: region_frames_def page_no_def PMM_MAX_FRAMES_def)

lemma boot_image_returns: "\<exists>st'. pmm_init boot_image ke bva boot_start = Some (st', 0)"
proof -
  have "\<exists>st'. tag_loop boot_image 0x1008 0x1050 (boot_bitmap boot_start) = Some st'"
    by (rule tag_loop_terminates) (auto simp: boot_image_tags tag_ok_def boot_image_words)
  then show ?thesis
    using pmm_init_cases [of boot_start] by (auto simp: boot_start_def boot_image_end)
qed

section \<open>Properties\<close>



text \<open>C32. Boot ends: on boot information below \<open>2^61\<close> whose visited tags have at least their header's
  size and whose memory maps have a positive entry size, \<^verbatim>\<open>pmm_init\<close> returns 0.\<close>

theorem pmm_init_terminates:
  assumes "mb2_info_phys st \<noteq> 0" and "unat (mb2_info_phys st) < 2 ^ 61"
    and "\<And>t. tag_from pm (mb2_end pm (mb2_info_phys st)) (mb2_info_phys st + 8) t \<Longrightarrow>
           t < mb2_end pm (mb2_info_phys st) \<Longrightarrow> load32 pm t \<noteq> 0 \<Longrightarrow> tag_ok pm t"
  shows "\<exists>st'. pmm_init pm ke bva st = Some (st', 0)"
proof -
  have "unat (mb2_end pm (mb2_info_phys st)) < 2 ^ 62"
    using assms(2) unat_lt_32 [of "load32 pm (mb2_info_phys st)"]
    by (simp add: mb2_end_def unat_add_ucast)
  then obtain st1 where
    "tag_loop pm (mb2_info_phys st + 8) (mb2_end pm (mb2_info_phys st)) (boot_bitmap st) = Some st1"
    using tag_loop_terminates assms(3) by blast
  then show ?thesis using pmm_init_cases [OF assms(1)] by blast
qed

theorem pmm_init_terminates_witness:
  "\<exists>st'. pmm_init boot_image 0xFFFFFFFF80500000 0xFFFFFFFF80110000 boot_start = Some (st', 0)"
  by (rule pmm_init_terminates)
    (auto simp: boot_start_def boot_image_end boot_image_tags tag_ok_def boot_image_words)

text \<open>The free-frame counter after boot: when no memory-map entry frees frame 0 (an entry at
  address 0 is skipped), the unconditional decrement leaves the counter one below the number of free
  frames, unless no frame is left.\<close>

theorem pmm_init_counter_low:
  assumes "mb2_info_phys st \<noteq> 0" and "pmm_init pm ke bva st = Some (st', r)"
    and "0 \<notin> tags_frames pm (mb2_end pm (mb2_info_phys st)) (mb2_info_phys st + 8)"
  shows "unat (free_frames st') = card (free_set st') - 1"
proof -
  obtain st1 where
    st1: "tag_loop pm (mb2_info_phys st + 8) (mb2_end pm (mb2_info_phys st)) (boot_bitmap st) = Some st1"
    and st': "st' = pmm_reserve ke bva st1"
    using assms pmm_init_cases by blast
  note w = boot_walk_effect [OF st1]
  have "counter_low (null_reserved st1)" using null_reserved_low w assms(3) by simp
  then have "counter_low st'"
    unfolding st' pmm_reserve_eq
    by (intro mark_range_used_low mark_range_used_keeps null_reserved_effect w)
  then show ?thesis by (simp add: counter_low_def)
qed

theorem pmm_init_counter_low_witness:
  "\<exists>st'. pmm_init boot_image 0xFFFFFFFF80500000 0xFFFFFFFF80110000 boot_start = Some (st', 0) \<and>
     unat (free_frames st') = card (free_set st') - 1"
proof -
  obtain st' where st': "pmm_init boot_image 0xFFFFFFFF80500000 0xFFFFFFFF80110000 boot_start = Some (st', 0)"
    using boot_image_returns by blast
  then have "unat (free_frames st') = card (free_set st') - 1"
    by (rule pmm_init_counter_low [rotated])
      (simp_all add: boot_start_def boot_image_end boot_image_frames)
  with st' show ?thesis by blast
qed

end
