(* ===== verification/Cpu.thy ===== *)
theory Cpu
  imports Prelude
begin

text \<open>
  The descriptor tables of the processor, \<^verbatim>\<open>src/gdt/gdt.c\<close> and \<^verbatim>\<open>src/idt/idt.c\<close>: the segment
  descriptors, the 16-byte TSS descriptor and the interrupt gates, written as the shifts and masks of
  the source, and read back the way the processor reads them. Loading the tables (\<^verbatim>\<open>lgdt\<close>, \<^verbatim>\<open>lidt\<close>,
  \<^verbatim>\<open>ltr\<close>) is recorded in the register fields of the state.
\<close>

section \<open>Global descriptor table\<close>

definition DESC_PRESENT :: u64 where "DESC_PRESENT = push_bit 47 1"
definition DESC_DPL0 :: u64 where "DESC_DPL0 = push_bit 45 0"
definition DESC_NON_SYS :: u64 where "DESC_NON_SYS = push_bit 44 1"
definition DESC_EXEC :: u64 where "DESC_EXEC = push_bit 43 1"
definition DESC_RW :: u64 where "DESC_RW = push_bit 41 1"
definition DESC_LONG :: u64 where "DESC_LONG = push_bit 53 1"
definition DESC_DPL3 :: u64 where "DESC_DPL3 = push_bit 45 3"

definition DESC_KERNEL_CODE :: u64 where
  "DESC_KERNEL_CODE = DESC_PRESENT OR DESC_DPL0 OR DESC_NON_SYS OR DESC_EXEC OR DESC_RW OR DESC_LONG"
definition DESC_KERNEL_DATA :: u64 where
  "DESC_KERNEL_DATA = DESC_PRESENT OR DESC_DPL0 OR DESC_NON_SYS OR DESC_RW"
definition DESC_USER_DATA :: u64 where
  "DESC_USER_DATA = DESC_PRESENT OR DESC_DPL3 OR DESC_NON_SYS OR DESC_RW"
definition DESC_USER_CODE :: u64 where
  "DESC_USER_CODE = DESC_PRESENT OR DESC_DPL3 OR DESC_NON_SYS OR DESC_EXEC OR DESC_RW OR DESC_LONG"

definition SEG_KERNEL_CODE :: u16 where "SEG_KERNEL_CODE = 1 * 8"
definition SEG_KERNEL_DATA :: u16 where "SEG_KERNEL_DATA = 2 * 8"
definition SEG_USER_DATA :: u16 where "SEG_USER_DATA = 3 * 8 OR 3"
definition SEG_USER_CODE :: u16 where "SEG_USER_CODE = 4 * 8 OR 3"
definition SEG_TSS :: u16 where "SEG_TSS = 5 * 8"

record tss64 =
  rsp0 :: u64
  rsp1 :: u64
  rsp2 :: u64
  ist_tab :: "u64 list"
  iomap_base :: u16

definition sizeof_tss64 :: nat where "sizeof_tss64 = 104"

definition gdt_set_tss :: "u64 \<Rightarrow> u32 \<Rightarrow> u64 \<times> u64" where
  "gdt_set_tss base limit =
     (let lo = 0;
          lo = lo OR ucast (limit AND 0xFFFF);
          lo = lo OR push_bit 16 (base AND 0xFFFFFF);
          lo = lo OR push_bit 40 0x9;
          lo = lo OR DESC_PRESENT;
          lo = lo OR push_bit 48 (ucast (drop_bit 16 limit AND 0xF));
          lo = lo OR push_bit 56 (drop_bit 24 base AND 0xFF)
      in (lo, drop_bit 32 base))"

text \<open>\<open>cs\<close>, \<open>ds\<close> and \<open>tr\<close> are the selector registers, \<open>gdtr_base\<close> and \<open>gdtr_limit\<close> the table register;
  \<^verbatim>\<open>es\<close>, \<^verbatim>\<open>fs\<close>, \<^verbatim>\<open>gs\<close> and \<^verbatim>\<open>ss\<close> are loaded with the same selector as \<^verbatim>\<open>ds\<close>.\<close>

record gdt_state =
  gdt :: "u64 list"
  tss :: tss64
  gdtr_limit :: u16
  gdtr_base :: u64
  cs :: u16
  ds :: u16
  tr :: u16

definition gdt_load :: "u64 \<Rightarrow> gdt_state \<Rightarrow> gdt_state" where
  "gdt_load gdt_va st = st\<lparr>gdtr_limit := 7 * 8 - 1, gdtr_base := gdt_va,
     cs := SEG_KERNEL_CODE, ds := SEG_KERNEL_DATA, tr := SEG_TSS\<rparr>"

definition gdt_set_tss_rsp0 :: "u64 \<Rightarrow> gdt_state \<Rightarrow> gdt_state" where
  "gdt_set_tss_rsp0 v st = st\<lparr>tss := (tss st)\<lparr>rsp0 := v\<rparr>\<rparr>"

text \<open>\<open>gdt_va\<close> and \<open>tss_va\<close> are the addresses the linker gives the two static objects.\<close>

definition gdt_init :: "u64 \<Rightarrow> u64 \<Rightarrow> gdt_state \<Rightarrow> gdt_state \<times> int" where
  "gdt_init gdt_va tss_va st =
     (let st = st\<lparr>gdt := replicate 7 0,
                  tss := \<lparr>rsp0 = 0, rsp1 = 0, rsp2 = 0, ist_tab = replicate 7 0, iomap_base = 0\<rparr>\<rparr>;
          g = (gdt st)[0 := 0, 1 := DESC_KERNEL_CODE, 2 := DESC_KERNEL_DATA,
                       3 := DESC_USER_DATA, 4 := DESC_USER_CODE];
          st = st\<lparr>tss := (tss st)\<lparr>iomap_base := of_nat sizeof_tss64\<rparr>\<rparr>;
          (lo, hi) = gdt_set_tss tss_va (of_nat (sizeof_tss64 - 1));
          st = st\<lparr>gdt := g[5 := lo, 6 := hi]\<rparr>
      in (gdt_load gdt_va st, 0))"

text \<open>How the processor reads a descriptor.\<close>

definition desc_dpl :: "u64 \<Rightarrow> u64" where "desc_dpl d = drop_bit 45 d AND 3"
definition desc_present :: "u64 \<Rightarrow> bool" where "desc_present d = bit d 47"
definition desc_code64 :: "u64 \<Rightarrow> bool" where
  "desc_code64 d \<longleftrightarrow> bit d 44 \<and> bit d 43 \<and> bit d 53 \<and> \<not> bit d 54"
definition tss_base :: "u64 \<Rightarrow> u64 \<Rightarrow> u64" where
  "tss_base lo hi = (drop_bit 16 lo AND 0xFFFFFF) OR push_bit 24 (drop_bit 56 lo AND 0xFF) OR push_bit 32 hi"
definition tss_limit :: "u64 \<Rightarrow> u64" where
  "tss_limit lo = (lo AND 0xFFFF) OR push_bit 16 (drop_bit 48 lo AND 0xF)"

section \<open>Interrupt descriptor table\<close>

record idt_entry =
  offset_lo :: u16
  selector :: u16
  ist :: u8
  type_attr :: u8
  offset_mid :: u16
  offset_hi :: u32
  reserved :: u32

definition idt_zero :: idt_entry where
  "idt_zero = \<lparr>offset_lo = 0, selector = 0, ist = 0, type_attr = 0, offset_mid = 0, offset_hi = 0, reserved = 0\<rparr>"

record idt_state =
  idt :: "idt_entry list"
  idtr_limit :: u16
  idtr_base :: u64

definition idt_set_gate :: "u8 \<Rightarrow> u64 \<Rightarrow> u8 \<Rightarrow> idt_state \<Rightarrow> idt_state" where
  "idt_set_gate vec handler i st = st\<lparr>idt := (idt st)[unat vec :=
     \<lparr>offset_lo = ucast (handler AND 0xFFFF), selector = 0x08, ist = i AND 0x7, type_attr = 0x8E,
      offset_mid = ucast (drop_bit 16 handler AND 0xFFFF), offset_hi = ucast (drop_bit 32 handler),
      reserved = 0\<rparr>]\<rparr>"

definition idt_init :: "(nat \<Rightarrow> u64) \<Rightarrow> u64 \<Rightarrow> idt_state \<Rightarrow> idt_state \<times> int" where
  "idt_init isr_table idt_va st =
     (let st = st\<lparr>idt := replicate 256 idt_zero\<rparr>;
          st = for_range 0 32 (\<lambda>i. idt_set_gate (of_nat i) (isr_table i) 0) st
      in (st\<lparr>idtr_limit := 256 * 16 - 1, idtr_base := idt_va\<rparr>, 0))"

definition gate_target :: "idt_entry \<Rightarrow> u64" where
  "gate_target e = ucast (offset_lo e) OR push_bit 16 (ucast (offset_mid e)) OR push_bit 32 (ucast (offset_hi e))"

definition gate_present :: "idt_entry \<Rightarrow> bool" where
  "gate_present e \<longleftrightarrow> bit (type_attr e) 7"

text \<open>A present interrupt gate of ring 0 to \<open>h\<close>.\<close>

definition gate_to :: "u64 \<Rightarrow> idt_entry \<Rightarrow> bool" where
  "gate_to h e \<longleftrightarrow> gate_target e = h \<and> gate_present e \<and> selector e = SEG_KERNEL_CODE \<and>
     drop_bit 5 (type_attr e) AND 3 = 0 \<and> type_attr e AND 0xF = 0xE"

section \<open>Lemmas\<close>

lemma mask_lits: "(0xFFFF :: u64) = mask 16" "(0xFFFFFF :: u64) = mask 24" "(0xFF :: u64) = mask 8"
  "(0xFFFF :: u32) = mask 16" "(0xF :: u32) = mask 4"
  by (simp_all add: mask_eq_exp_minus_1)

lemma split_target:
  "ucast (ucast (h AND 0xFFFF) :: u16) OR push_bit 16 (ucast (ucast (drop_bit 16 h AND 0xFFFF) :: u16))
     OR push_bit 32 (ucast (ucast (drop_bit 32 h) :: u32)) = (h :: u64)"
proof (rule bit_eqI, goal_cases)
  case (1 n)
  consider "n < 16" | "16 \<le> n" "n < 32" | "32 \<le> n" "n < 64" using 1 by force
  then show ?case by cases (auto simp: mask_lits bit_simps)
qed

lemma idt_set_gate_nth:
  assumes "length (idt st) = 256" and "j < 256"
  shows "idt (idt_set_gate v h i st) ! j =
    (if j = unat v then idt (idt_set_gate v h i st) ! unat v else idt st ! j)"
  using assms by (simp add: idt_set_gate_def)

lemma idt_set_gate_to:
  assumes "length (idt st) = 256"
  shows "gate_to h (idt (idt_set_gate v h i st) ! unat v)"
  using assms unat_lt_8 [of v]
  by (simp add: idt_set_gate_def gate_to_def gate_target_def gate_present_def split_target
      SEG_KERNEL_CODE_def)

lemma length_idt_set_gate [simp]: "length (idt (idt_set_gate v h i st)) = length (idt st)"
  by (simp add: idt_set_gate_def)

text \<open>Installing a block of gates at \<open>base\<close>.\<close>

lemma install_gates:
  fixes st :: idt_state
  assumes "length (idt st) = 256" and "base + n \<le> 256"
  shows "length (idt (for_range 0 n (\<lambda>i. idt_set_gate (of_nat (base + i)) (h i) 0) st)) = 256 \<and>
    (\<forall>j < 256. if base \<le> j \<and> j < base + n
       then gate_to (h (j - base)) (idt (for_range 0 n (\<lambda>i. idt_set_gate (of_nat (base + i)) (h i) 0) st) ! j)
       else idt (for_range 0 n (\<lambda>i. idt_set_gate (of_nat (base + i)) (h i) 0) st) ! j = idt st ! j)"
proof (rule for_range_inv [where I = "\<lambda>n s. length (idt s) = 256 \<and> (\<forall>j < 256.
    if base \<le> j \<and> j < base + n then gate_to (h (j - base)) (idt s ! j) else idt s ! j = idt st ! j)"])
  show "0 \<le> n" by simp
  show "length (idt st) = 256 \<and> (\<forall>j < 256.
    if base \<le> j \<and> j < base + 0 then gate_to (h (j - base)) (idt st ! j) else idt st ! j = idt st ! j)"
    using assms by auto
next
  fix i and s :: idt_state assume i: "0 \<le> i" "i < n" and I: "length (idt s) = 256 \<and> (\<forall>j < 256.
    if base \<le> j \<and> j < base + i then gate_to (h (j - base)) (idt s ! j) else idt s ! j = idt st ! j)"
  let ?v = "of_nat (base + i) :: u8" and ?s = "idt_set_gate (of_nat (base + i)) (h i) 0 s"
  have v: "unat ?v = base + i" using i assms(2) by (simp only: unat_of_nat) simp
  have "if base \<le> j \<and> j < base + Suc i then gate_to (h (j - base)) (idt ?s ! j) else idt ?s ! j = idt st ! j"
    if j: "j < 256" for j
  proof (cases "j = base + i")
    case True
    then show ?thesis using idt_set_gate_to [of s "h i" ?v 0] I v by simp
  next
    case False
    then have "idt ?s ! j = idt s ! j" using idt_set_gate_nth [of s j ?v "h i" 0] I j v by simp
    then show ?thesis using I j False by (auto split: if_splits)
  qed
  moreover have "length (idt ?s) = 256" using I by simp
  ultimately show "length (idt ?s) = 256 \<and> (\<forall>j < 256.
    if base \<le> j \<and> j < base + Suc i then gate_to (h (j - base)) (idt ?s ! j) else idt ?s ! j = idt st ! j)"
    by blast
qed

lemma tss_round_trip:
  "tss_base (fst (gdt_set_tss base limit)) (snd (gdt_set_tss base limit)) = base"
proof (rule bit_eqI, goal_cases)
  case (1 n)
  define c :: u64 where "c = push_bit 40 9 OR push_bit 47 1"
  have nine: "bit (9 :: u64) k \<Longrightarrow> k < 4" for k using bit_take_bit_iff [of 4 "9 :: u64" k] by simp
  have c: "bit c m \<Longrightarrow> 40 \<le> m \<and> m < 48" for m
    unfolding c_def using nine [of "m - 40"] by (fastforce simp only: bit_or_iff bit_push_bit_iff bit_1_iff)
  let ?lo = "ucast (limit AND mask 16) OR push_bit 16 (base AND mask 24) OR c OR
     push_bit 48 (ucast (drop_bit 16 limit AND mask 4)) OR push_bit 56 (drop_bit 24 base AND mask 8)"
  have eq: "gdt_set_tss base limit = (?lo, drop_bit 32 base)"
    by (simp only: gdt_set_tss_def Let_def DESC_PRESENT_def mask_lits c_def or.assoc or.left_neutral)
  consider "n < 24" | "24 \<le> n" "n < 32" | "32 \<le> n" "n < 64" using 1 by force
  then show ?case
    unfolding eq fst_conv snd_conv tss_base_def mask_lits
    by cases (auto simp: bit_simps dest: c)
qed

lemmas eval_desc = DESC_KERNEL_CODE_def DESC_KERNEL_DATA_def DESC_USER_DATA_def DESC_USER_CODE_def
  DESC_PRESENT_def DESC_DPL0_def DESC_DPL3_def DESC_NON_SYS_def DESC_EXEC_def DESC_RW_def DESC_LONG_def
  desc_present_def desc_dpl_def desc_code64_def SEG_KERNEL_CODE_def SEG_KERNEL_DATA_def SEG_TSS_def
  sizeof_tss64_def

text \<open>After \<^verbatim>\<open>idt_init\<close> every exception vector 0..31 has a present ring-0 interrupt gate whose
  target, as the processor reassembles it from the three offset fields, is the stub of that vector, and
  every other vector is not present.\<close>

lemma idt_init_gates:
  "length (idt (fst (idt_init isr_table va st))) = 256 \<and> (\<forall>v < 256. if v < 32 then gate_to (isr_table v) (idt (fst (idt_init isr_table va st)) ! v)
             else \<not> gate_present (idt (fst (idt_init isr_table va st)) ! v))"
proof -
  let ?z = "st\<lparr>idt := replicate 256 idt_zero\<rparr>"
  let ?s = "for_range 0 32 (\<lambda>i. idt_set_gate (of_nat (0 + i)) (isr_table i) 0) ?z"
  have "length (idt ?z) = 256" "0 + 32 \<le> (256 :: nat)" by simp_all
  from install_gates [OF this, of isr_table]
  have len: "length (idt ?s) = 256" and *: "\<forall>v < 256. if v < 32 then gate_to (isr_table v) (idt ?s ! v)
      else idt ?s ! v = idt_zero"
    by (auto split: if_splits)
  have "idt (fst (idt_init isr_table va st)) = idt ?s"
    by (simp add: idt_init_def Let_def)
  moreover have "\<not> gate_present idt_zero" by (simp add: gate_present_def idt_zero_def)
  ultimately show ?thesis using * len by (metis (no_types, lifting))
qed

section \<open>Properties\<close>



end
