(* ===== verification/Pic.thy ===== *)
theory Pic
  imports Cpu
begin

text \<open>
  The interrupt controller and the tick source: \<^verbatim>\<open>src/pic/pic.c\<close> (handler table, masks, remapping,
  dispatch) and \<^verbatim>\<open>src/timer/timer.c\<close> (tick counter and callbacks). Port writes are a log; what a
  read of an 8259A data port returns is the device's answer \<open>pic_in\<close> to the log so far. Handlers are
  names (type \<open>'h\<close>) that the dispatcher runs through its argument \<open>run\<close>.
\<close>

section \<open>8259A\<close>

definition PIC1_CMD :: u16 where [simp]: "PIC1_CMD = 0x20"
definition PIC1_DATA :: u16 where [simp]: "PIC1_DATA = 0x21"
definition PIC2_CMD :: u16 where [simp]: "PIC2_CMD = 0xA0"
definition PIC2_DATA :: u16 where [simp]: "PIC2_DATA = 0xA1"
definition PIC_EOI :: u8 where [simp]: "PIC_EOI = 0x20"
definition ICW1_INIT :: u8 where [simp]: "ICW1_INIT = 0x10"
definition ICW1_ICW4 :: u8 where [simp]: "ICW1_ICW4 = 0x01"
definition ICW4_8086 :: u8 where [simp]: "ICW4_8086 = 0x01"
definition IRQ_COUNT :: nat where [simp]: "IRQ_COUNT = 16"

type_synonym port_log = "(u16 \<times> u8) list"

record 'h pic_state =
  irq_handlers :: "'h option list"
  pic_out :: port_log         \<comment> \<open>most recent write first\<close>

definition pic_outb :: "u16 \<Rightarrow> u8 \<Rightarrow> 'h pic_state \<Rightarrow> 'h pic_state" where
  "pic_outb port val st = st\<lparr>pic_out := (port, val) # pic_out st\<rparr>"

definition pic_eoi :: "u8 \<Rightarrow> 'h pic_state \<Rightarrow> 'h pic_state" where
  "pic_eoi irq st =
     (let st = (if irq \<ge> 8 then pic_outb PIC2_CMD PIC_EOI st else st)
      in pic_outb PIC1_CMD PIC_EOI st)"

definition irq_enable :: "(port_log \<Rightarrow> u16 \<Rightarrow> u8) \<Rightarrow> u8 \<Rightarrow> 'h pic_state \<Rightarrow> 'h pic_state" where
  "irq_enable pic_in irq st =
     (let port = (if irq < 8 then PIC1_DATA else PIC2_DATA);
          b = irq AND 7
      in pic_outb port (pic_in (pic_out st) port AND NOT (push_bit (unat b) 1)) st)"

definition irq_disable :: "(port_log \<Rightarrow> u16 \<Rightarrow> u8) \<Rightarrow> u8 \<Rightarrow> 'h pic_state \<Rightarrow> 'h pic_state" where
  "irq_disable pic_in irq st =
     (let port = (if irq < 8 then PIC1_DATA else PIC2_DATA);
          b = irq AND 7
      in pic_outb port (pic_in (pic_out st) port OR push_bit (unat b) 1) st)"

definition irq_register :: "u8 \<Rightarrow> 'h \<Rightarrow> 'h pic_state \<Rightarrow> 'h pic_state" where
  "irq_register irq handler st =
     (if unat irq < IRQ_COUNT then st\<lparr>irq_handlers := (irq_handlers st)[unat irq := Some handler]\<rparr> else st)"

text \<open>\<open>sys\<close> is the state the handlers work on.\<close>

definition irq_dispatch :: "('h \<Rightarrow> 's \<Rightarrow> 's) \<Rightarrow> u8 \<Rightarrow> 'h pic_state \<times> 's \<Rightarrow> 'h pic_state \<times> 's" where
  "irq_dispatch run irq = (\<lambda>(st, sys).
     let st = pic_eoi irq st
     in if unat irq < IRQ_COUNT
        then case irq_handlers st ! unat irq of Some h \<Rightarrow> (st, run h sys) | None \<Rightarrow> (st, sys)
        else (st, sys))"

definition pic_init :: "(port_log \<Rightarrow> u16 \<Rightarrow> u8) \<Rightarrow> (nat \<Rightarrow> u64) \<Rightarrow> 'h pic_state \<Rightarrow> idt_state \<Rightarrow>
    'h pic_state \<times> idt_state \<times> int" where
  "pic_init pic_in irq_stub_table st ids =
     (let st = st\<lparr>irq_handlers := replicate IRQ_COUNT None\<rparr>;
          mask1 = pic_in (pic_out st) PIC1_DATA;
          mask2 = pic_in (pic_out st) PIC2_DATA;
          wait = pic_outb 0x80 0;
          st = wait (pic_outb PIC1_CMD (ICW1_INIT OR ICW1_ICW4) st);
          st = wait (pic_outb PIC2_CMD (ICW1_INIT OR ICW1_ICW4) st);
          st = wait (pic_outb PIC1_DATA 0x20 st);
          st = wait (pic_outb PIC2_DATA 0x28 st);
          st = wait (pic_outb PIC1_DATA 0x04 st);
          st = wait (pic_outb PIC2_DATA 0x02 st);
          st = wait (pic_outb PIC1_DATA ICW4_8086 st);
          st = wait (pic_outb PIC2_DATA ICW4_8086 st);
          st = pic_outb PIC1_DATA mask1 st;
          st = pic_outb PIC2_DATA mask2 st;
          st = pic_outb PIC1_DATA 0xFF st;
          st = pic_outb PIC2_DATA 0xFF st;
          ids = for_range 0 IRQ_COUNT (\<lambda>i. idt_set_gate (of_nat (0x20 + i)) (irq_stub_table i) 0) ids
      in (st, ids, 0))"

text \<open>
  An 8259A as its data sheet describes it, as far as the kernel uses it. A command with bit 4 set starts the
  initialisation: it clears the mask register and the data port then expects ICW2 (the vector of line 0), ICW3 unless
  bit 1 says that there is one chip only, and ICW4 if bit 0 asks for it. After them, data are the mask register, and the
  data port reads it back. \<open>master\<close> and \<open>slave\<close> are the chips before the log; writes to other ports do not reach them.
\<close>

datatype icw = ICW2 | ICW3 | ICW4

record pic_chip =
  icw_left :: "icw list"
  vector_base :: u8
  cascade :: u8
  pic_mode :: u8
  imr :: u8

definition chip_command :: "u8 \<Rightarrow> pic_chip \<Rightarrow> pic_chip" where
  "chip_command v c = (if bit v 4
     then c\<lparr>icw_left := ICW2 # (if bit v 1 then [] else [ICW3]) @ (if bit v 0 then [ICW4] else []), imr := 0\<rparr> else c)"

definition chip_data :: "u8 \<Rightarrow> pic_chip \<Rightarrow> pic_chip" where
  "chip_data v c = (case icw_left c of
       [] \<Rightarrow> c\<lparr>imr := v\<rparr>
     | ICW2 # r \<Rightarrow> c\<lparr>icw_left := r, vector_base := v AND 0xF8\<rparr>
     | ICW3 # r \<Rightarrow> c\<lparr>icw_left := r, cascade := v\<rparr>
     | ICW4 # r \<Rightarrow> c\<lparr>icw_left := r, pic_mode := v\<rparr>)"

fun chip_after :: "u16 \<Rightarrow> u16 \<Rightarrow> pic_chip \<Rightarrow> port_log \<Rightarrow> pic_chip" where
  "chip_after cmd data c [] = c"
| "chip_after cmd data c ((p, v) # l) =
     (if p = cmd then chip_command v (chip_after cmd data c l)
      else if p = data then chip_data v (chip_after cmd data c l) else chip_after cmd data c l)"

definition master_after :: "pic_chip \<Rightarrow> port_log \<Rightarrow> pic_chip" where
  "master_after = chip_after PIC1_CMD PIC1_DATA"

definition slave_after :: "pic_chip \<Rightarrow> port_log \<Rightarrow> pic_chip" where
  "slave_after = chip_after PIC2_CMD PIC2_DATA"

text \<open>Outside an initialisation, reading a data port answers with the mask register.\<close>

definition imr_readback :: "pic_chip \<Rightarrow> pic_chip \<Rightarrow> (port_log \<Rightarrow> u16 \<Rightarrow> u8) \<Rightarrow> bool" where
  "imr_readback master slave pic_in \<longleftrightarrow>
     (\<forall>l. (icw_left (master_after master l) = [] \<longrightarrow> pic_in l PIC1_DATA = imr (master_after master l)) \<and>
          (icw_left (slave_after slave l) = [] \<longrightarrow> pic_in l PIC2_DATA = imr (slave_after slave l)))"

text \<open>The chip of a line, whether it is masked there, and the vector the processor gets for it.\<close>

definition line_chip :: "pic_chip \<Rightarrow> pic_chip \<Rightarrow> port_log \<Rightarrow> u8 \<Rightarrow> pic_chip" where
  "line_chip master slave l irq = (if irq < 8 then master_after master l else slave_after slave l)"

definition irq_masked :: "pic_chip \<Rightarrow> pic_chip \<Rightarrow> port_log \<Rightarrow> u8 \<Rightarrow> bool" where
  "irq_masked master slave l irq \<longleftrightarrow> bit (imr (line_chip master slave l irq)) (unat (irq AND 7))"

definition irq_vector :: "pic_chip \<Rightarrow> pic_chip \<Rightarrow> port_log \<Rightarrow> u8 \<Rightarrow> u8" where
  "irq_vector master slave l irq = vector_base (line_chip master slave l irq) OR (irq AND 7)"

section \<open>Timer\<close>

record 'cb timer_state =
  ticks :: u64
  callbacks :: "'cb option list"
  callback_count :: u8

definition TIMER_MAX_CALLBACKS :: nat where [simp]: "TIMER_MAX_CALLBACKS = 8"
definition PIT_DIVISOR :: u16 where "PIT_DIVISOR = ucast (1193182 div 1000 :: u64)"

definition timer_irq_handler ::
    "('cb \<Rightarrow> 's \<Rightarrow> 's) \<Rightarrow> 'cb timer_state \<times> 's \<Rightarrow> 'cb timer_state \<times> 's" where
  "timer_irq_handler run = (\<lambda>(t, sys).
     let t = t\<lparr>ticks := ticks t + 1\<rparr>
     in (t, for_range 0 (unat (callback_count t))
              (\<lambda>i s. case callbacks t ! i of Some cb \<Rightarrow> run cb s | None \<Rightarrow> s) sys))"

definition timer_get_ticks :: "'cb timer_state \<Rightarrow> u64" where
  "timer_get_ticks t = ticks t"

definition timer_register_callback :: "'cb \<Rightarrow> 'cb timer_state \<Rightarrow> 'cb timer_state \<times> int" where
  "timer_register_callback fn t =
     (if unat (callback_count t) \<ge> TIMER_MAX_CALLBACKS then (t, -1)
      else (t\<lparr>callbacks := (callbacks t)[unat (callback_count t) := Some fn],
              callback_count := callback_count t + 1\<rparr>, 0))"

text \<open>The port writes that program channel 0, first write first.\<close>

definition timer_init :: "(port_log \<Rightarrow> u16 \<Rightarrow> u8) \<Rightarrow> 'h \<Rightarrow> 'h pic_state \<Rightarrow> 'h pic_state \<times> int" where
  "timer_init pic_in handler st =
     (let st = pic_outb 0x43 (0x00 OR 0x30 OR 0x04 OR 0x00) st;
          st = pic_outb 0x40 (ucast (PIT_DIVISOR AND 0xFF)) st;
          st = pic_outb 0x40 (ucast (drop_bit 8 PIT_DIVISOR)) st;
          st = irq_register 0 handler st;
          st = irq_enable pic_in 0 st
      in (st, 0))"

section \<open>Lemmas\<close>

lemma chip_after_outb:
  "chip_after cmd data c (pic_out (pic_outb q v st)) =
     (if q = cmd then chip_command v (chip_after cmd data c (pic_out st))
      else if q = data then chip_data v (chip_after cmd data c (pic_out st)) else chip_after cmd data c (pic_out st))"
  by (simp add: pic_outb_def)

lemmas chip_defs = master_after_def slave_after_def chip_after_outb chip_command_def chip_data_def

lemma irq_enable_master:
  assumes "imr_readback m s pic_in" and "icw_left (master_after m (pic_out st)) = []" and "irq < 8"
  shows "master_after m (pic_out (irq_enable pic_in irq st)) =
      (master_after m (pic_out st))\<lparr>imr := imr (master_after m (pic_out st)) AND NOT (push_bit (unat (irq AND 7)) 1)\<rparr>"
    and "slave_after s (pic_out (irq_enable pic_in irq st)) = slave_after s (pic_out st)"
proof -
  have "pic_in (pic_out st) PIC1_DATA = imr (master_after m (pic_out st))" using assms(1,2) by (simp add: imr_readback_def)
  then show "master_after m (pic_out (irq_enable pic_in irq st)) =
      (master_after m (pic_out st))\<lparr>imr := imr (master_after m (pic_out st)) AND NOT (push_bit (unat (irq AND 7)) 1)\<rparr>"
    using assms(2,3) by (simp add: irq_enable_def Let_def chip_defs)
  show "slave_after s (pic_out (irq_enable pic_in irq st)) = slave_after s (pic_out st)"
    using assms(3) by (simp add: irq_enable_def Let_def chip_defs)
qed

text \<open>The callbacks in registration order, the abstract content of the table.\<close>

definition timer_ok :: "'cb timer_state \<Rightarrow> bool" where
  "timer_ok t \<longleftrightarrow> length (callbacks t) = TIMER_MAX_CALLBACKS \<and> unat (callback_count t) \<le> TIMER_MAX_CALLBACKS \<and>
     (\<forall>i < unat (callback_count t). callbacks t ! i \<noteq> None)"

definition timer_list :: "'cb timer_state \<Rightarrow> 'cb list" where
  "timer_list t = map the (take (unat (callback_count t)) (callbacks t))"

lemma timer_register_effect:
  assumes "timer_ok t"
  shows "timer_ok (fst (timer_register_callback fn t)) \<and>
    (if length (timer_list t) < TIMER_MAX_CALLBACKS
     then snd (timer_register_callback fn t) = 0 \<and>
          timer_list (fst (timer_register_callback fn t)) = timer_list t @ [fn]
     else timer_register_callback fn t = (t, -1))"
proof -
  have len: "length (timer_list t) = unat (callback_count t)"
    using assms by (simp add: timer_list_def timer_ok_def)
  show ?thesis
  proof (cases "unat (callback_count t) < 8")
    case True
    then have "unat (callback_count t + 1) = Suc (unat (callback_count t))"
      by (simp add: unat_word_ariths)
    with True assms len show ?thesis
      by (auto simp: timer_register_callback_def timer_ok_def timer_list_def take_Suc_conv_app_nth
          less_Suc_eq)
  next
    case False
    with assms len show ?thesis by (simp add: timer_register_callback_def)
  qed
qed

lemma timer_irq_runs:
  assumes "timer_ok t"
  shows "snd (timer_irq_handler run (t, sys)) = fold run (timer_list t) sys"
proof -
  let ?body = "\<lambda>i s. case callbacks t ! i of Some cb \<Rightarrow> run cb s | None \<Rightarrow> s"
  have "for_range 0 n ?body sys = fold run (map the (take n (callbacks t))) sys"
    if "n \<le> unat (callback_count t)" for n
    using that
  proof (induction n)
    case 0
    then show ?case by simp
  next
    case (Suc n)
    then have "n < length (callbacks t)" "callbacks t ! n \<noteq> None" using assms by (auto simp: timer_ok_def)
    with Suc show ?case by (auto simp: for_range_last take_Suc_conv_app_nth)
  qed
  then show ?thesis by (simp add: timer_irq_handler_def timer_list_def Let_def)
qed

lemma pic_init_gates:
  fixes ids :: idt_state
  assumes "length (idt ids) = 256" and "pic_init pic_in stubs st ids = (st', ids', r)"
  shows "\<forall>v < 256. if 32 \<le> v \<and> v < 48 then gate_to (stubs (v - 32)) (idt ids' ! v) else idt ids' ! v = idt ids ! v"
proof -
  have "ids' = for_range 0 16 (\<lambda>i. idt_set_gate (of_nat (32 + i)) (stubs i) 0) ids"
    using assms(2) by (simp add: pic_init_def Let_def)
  moreover have b: "32 + 16 \<le> (256 :: nat)" and e: "32 + 16 = (48 :: nat)" by simp_all
  ultimately show ?thesis using install_gates [OF assms(1) b, of stubs, unfolded e] by blast
qed

lemma pic_init_chips:
  "master_after m (pic_out (fst (pic_init pic_in stubs st ids))) =
     \<lparr>icw_left = [], vector_base = 0x20, cascade = 0x04, pic_mode = 1, imr = 0xFF, \<dots> = pic_chip.more (master_after m (pic_out st))\<rparr>"
  "slave_after s (pic_out (fst (pic_init pic_in stubs st ids))) =
     \<lparr>icw_left = [], vector_base = 0x28, cascade = 0x02, pic_mode = 1, imr = 0xFF, \<dots> = pic_chip.more (slave_after s (pic_out st))\<rparr>"
  by (simp_all add: pic_init_def Let_def chip_defs)

lemma u8_lt_16: "i < 16 \<Longrightarrow> i \<in> {0, 1, 2, 3, 4, 5, 6, 7, 8, 9, 10, 11, 12, 13, 14, 15}" for i :: u8
proof -
  assume "i < 16"
  then have "unat i < 16" by (simp add: word_less_nat_alt)
  then show ?thesis by (simp add: word_unat_eq_iff) (auto simp: eval_nat_numeral less_Suc_eq)
qed

section \<open>Properties\<close>

text \<open>C36. Interrupt set-up, \<^verbatim>\<open>idt_init\<close> then \<^verbatim>\<open>pic_init\<close> then \<^verbatim>\<open>timer_init\<close>, on two 8259A chips whatever their state was:
  the initialisation sequence is complete with the slave cascaded on line 2 of the master and both in 8086 mode; a
  request on line \<open>i\<close> of the 16 is delivered as vector \<open>32 + i\<close>, whose gate leads to the stub of line \<open>i\<close>; exception
  vectors 0..31 lead to their stubs and every vector from 48 on is not present; of the 16 lines exactly the timer's is
  unmasked and its handler is registered; and the timer chip got mode 2 and the divisor 1193 of 1000 Hz.\<close>

theorem interrupt_setup:
  fixes ids :: idt_state
  assumes "imr_readback master slave pic_in"
    and "pic_init pic_in stubs st (fst (idt_init isrs va ids)) = (st1, ids1, r)"
    and "timer_init pic_in h st1 = (st2, r2)"
  shows "icw_left (master_after master (pic_out st2)) = [] \<and> icw_left (slave_after slave (pic_out st2)) = [] \<and>
    cascade (master_after master (pic_out st2)) = 2 ^ 2 \<and> cascade (slave_after slave (pic_out st2)) = 2 \<and>
    bit (pic_mode (master_after master (pic_out st2))) 0 \<and> bit (pic_mode (slave_after slave (pic_out st2))) 0 \<and>
    (\<forall>i < 16. unat (irq_vector master slave (pic_out st2) i) = 32 + unat i \<and>
       gate_to (stubs (unat i)) (idt ids1 ! unat (irq_vector master slave (pic_out st2) i)) \<and>
       (irq_masked master slave (pic_out st2) i \<longleftrightarrow> i \<noteq> 0)) \<and>
    (\<forall>v < 256. (v < 32 \<longrightarrow> gate_to (isrs v) (idt ids1 ! v)) \<and> (48 \<le> v \<longrightarrow> \<not> gate_present (idt ids1 ! v))) \<and>
    irq_handlers st2 ! 0 = Some h \<and> (\<forall>i \<in> {1..<16}. irq_handlers st2 ! i = None) \<and>
    filter (\<lambda>(p, v). p \<in> {0x40, 0x43}) (pic_out st2) =
      [(0x40, of_nat (1193 div 256)), (0x40, of_nat (1193 mod 256)), (0x43, 0x34)] @ filter (\<lambda>(p, v). p \<in> {0x40, 0x43}) (pic_out st1)"
proof -
  note g = idt_init_gates [of isrs va ids]
  have gates: "\<forall>v < 256. if v < 32 then gate_to (isrs v) (idt ids1 ! v)
      else if v < 48 then gate_to (stubs (v - 32)) (idt ids1 ! v) else \<not> gate_present (idt ids1 ! v)"
    using pic_init_gates [OF conjunct1 [OF g] assms(2)] conjunct2 [OF g] by (simp split: if_splits)
  define st3 where "st3 = irq_register 0 h (pic_outb 0x40 (ucast (drop_bit 8 PIT_DIVISOR))
    (pic_outb 0x40 (ucast (PIT_DIVISOR AND 0xFF)) (pic_outb 0x43 (0x00 OR 0x30 OR 0x04 OR 0x00) st1)))"
  have st2: "st2 = irq_enable pic_in 0 st3" using assms(3) by (simp add: timer_init_def Let_def st3_def)
  have reg: "pic_out (irq_register i k u) = pic_out u" for i k and u :: "'a pic_state" by (simp add: irq_register_def)
  have same: "master_after master (pic_out st3) = master_after master (pic_out st1)" "slave_after slave (pic_out st3) = slave_after slave (pic_out st1)"
    by (simp_all add: st3_def reg chip_defs)
  note chips = pic_init_chips [of master pic_in stubs st "fst (idt_init isrs va ids)"]
    pic_init_chips(2) [of slave pic_in stubs st "fst (idt_init isrs va ids)"]
  have m3: "icw_left (master_after master (pic_out st3)) = []" using chips(1) assms(2) by (simp add: same)
  note en = irq_enable_master [OF assms(1) m3, of 0, simplified]
  have m: "master_after master (pic_out st2) = \<lparr>icw_left = [], vector_base = 0x20, cascade = 4, pic_mode = 1, imr = 0xFE\<rparr>"
    using chips(1) assms(2) unfolding st2 en(1) by (simp add: same)
  have s: "slave_after slave (pic_out st2) = \<lparr>icw_left = [], vector_base = 0x28, cascade = 2, pic_mode = 1, imr = 0xFF\<rparr>"
    using chips(3) assms(2) unfolding st2 en(2) by (simp add: same)
  have vec: "unat (irq_vector master slave (pic_out st2) i) = 32 + unat i"
    and mask: "irq_masked master slave (pic_out st2) i \<longleftrightarrow> i \<noteq> 0" if "i < 16" for i
    using u8_lt_16 [OF that] by (auto simp: irq_vector_def irq_masked_def line_chip_def m s)
  have stub: "gate_to (stubs (unat i)) (idt ids1 ! unat (irq_vector master slave (pic_out st2) i))" if "i < 16" for i
    using gates [rule_format, of "32 + unat i"] that unfolding vec [OF that] by (simp add: word_less_nat_alt)
  have h1: "irq_handlers st1 = replicate 16 None" using assms(2) by (auto simp: pic_init_def Let_def pic_outb_def)
  have h: "irq_handlers st2 = (replicate 16 None)[0 := Some h]"
    by (simp add: st2 st3_def irq_enable_def irq_register_def pic_outb_def Let_def h1)
  have pit: "filter (\<lambda>(p, v). p \<in> {0x40, 0x43}) (pic_out st2) =
      [(0x40, of_nat (1193 div 256)), (0x40, of_nat (1193 mod 256)), (0x43, 0x34)] @ filter (\<lambda>(p, v). p \<in> {0x40, 0x43}) (pic_out st1)"
    by (simp add: st2 st3_def irq_enable_def reg pic_outb_def Let_def PIT_DIVISOR_def)
  have last: "\<not> gate_present (idt ids1 ! v)" if "48 \<le> v" "v < 256" for v using gates [rule_format, of v] that by simp
  have first: "gate_to (isrs v) (idt ids1 ! v)" if "v < 32" for v using gates [rule_format, of v] that by simp
  show ?thesis using vec mask stub first last pit by (simp add: m s h)
qed

text \<open>Two chips as they come up, and the answers of their data ports.\<close>

definition chip_demo :: pic_chip where
  "chip_demo = \<lparr>icw_left = [], vector_base = 8, cascade = 0, pic_mode = 0, imr = 0\<rparr>"

definition imr_demo :: "port_log \<Rightarrow> u16 \<Rightarrow> u8" where
  "imr_demo l p = (if p = PIC1_DATA then imr (master_after chip_demo l) else imr (slave_after chip_demo l))"

theorem interrupt_setup_witness:
  "\<exists>st1 ids1 st2. pic_init imr_demo (\<lambda>i. of_nat i + 100) \<lparr>irq_handlers = [], pic_out = []\<rparr>
       (fst (idt_init of_nat 0 \<lparr>idt = [], idtr_limit = 0, idtr_base = 0\<rparr>)) = (st1, ids1, 0) \<and>
     timer_init imr_demo True st1 = (st2, 0) \<and> gate_to 14 (idt ids1 ! 14) \<and>
     gate_to 101 (idt ids1 ! unat (irq_vector chip_demo chip_demo (pic_out st2) 1)) \<and>
     irq_masked chip_demo chip_demo (pic_out st2) 1 \<and> \<not> irq_masked chip_demo chip_demo (pic_out st2) 0"
proof -
  let ?ids = "fst (idt_init of_nat 0 \<lparr>idt = [], idtr_limit = 0, idtr_base = 0\<rparr>) :: idt_state"
  let ?st = "\<lparr>irq_handlers = [], pic_out = []\<rparr> :: bool pic_state"
  obtain st1 ids1 r where a: "pic_init imr_demo (\<lambda>i. of_nat i + 100) ?st ?ids = (st1, ids1, r)"
    by (cases "pic_init imr_demo (\<lambda>i. of_nat i + 100) ?st ?ids")
  obtain st2 r2 where b: "timer_init imr_demo True st1 = (st2, r2)" by (cases "timer_init imr_demo True st1")
  have "imr_readback chip_demo chip_demo imr_demo" by (simp add: imr_readback_def imr_demo_def)
  note t = interrupt_setup [OF this a b]
  have v: "\<forall>v < 256. (v < 32 \<longrightarrow> gate_to (of_nat v) (idt ids1 ! v)) \<and> (48 \<le> v \<longrightarrow> \<not> gate_present (idt ids1 ! v))"
    and i: "\<forall>i < 16. unat (irq_vector chip_demo chip_demo (pic_out st2) i) = 32 + unat i \<and>
       gate_to (of_nat (unat i) + 100) (idt ids1 ! unat (irq_vector chip_demo chip_demo (pic_out st2) i)) \<and>
       (irq_masked chip_demo chip_demo (pic_out st2) i \<longleftrightarrow> i \<noteq> 0)"
    using t by blast+
  have "gate_to (of_nat 14) (idt ids1 ! 14)" using v [rule_format, of 14] by simp
  moreover have "gate_to 101 (idt ids1 ! unat (irq_vector chip_demo chip_demo (pic_out st2) 1))"
    "irq_masked chip_demo chip_demo (pic_out st2) 1" "\<not> irq_masked chip_demo chip_demo (pic_out st2) 0"
    using i [rule_format, of 1] i [rule_format, of 0] by auto
  moreover have "r = 0" "r2 = 0" using a b by (auto simp: pic_init_def timer_init_def Let_def)
  ultimately show ?thesis using a b by simp
qed

end
