(* ===== verification/Ring.thy ===== *)
theory Ring
  imports Prelude
begin

text \<open>
  Circular byte buffers. The kernel has four of them with the same discipline (one slot stays empty,
  a byte that does not fit is dropped or not accepted): keyboard, terminal, TCP receive buffer and UDP
  socket buffer. This theory has the queue a buffer stands for, the two index lemmas every
  implementation uses, and the interface their clients rely on.
\<close>

definition ring_ok :: "nat \<Rightarrow> u8 list \<Rightarrow> nat \<Rightarrow> nat \<Rightarrow> bool" where
  "ring_ok n buf rd wr \<longleftrightarrow> 1 < n \<and> length buf = n \<and> rd < n \<and> wr < n"

definition ring_used :: "nat \<Rightarrow> nat \<Rightarrow> nat \<Rightarrow> nat" where
  "ring_used n rd wr = (wr + n - rd) mod n"

definition ring_queue :: "nat \<Rightarrow> u8 list \<Rightarrow> nat \<Rightarrow> nat \<Rightarrow> u8 list" where
  "ring_queue n buf rd wr = map (\<lambda>k. buf ! ((rd + k) mod n)) [0..<ring_used n rd wr]"

lemma length_ring_queue [simp]: "length (ring_queue n buf rd wr) = ring_used n rd wr"
  by (simp add: ring_queue_def)

lemma mod_once: "x < 2 * n \<Longrightarrow> x mod n = (if x < n then x else x - n)" for x n :: nat
  by (simp add: le_mod_geq not_less)

lemma ring_used_cases:
  "rd < n \<Longrightarrow> wr < n \<Longrightarrow> ring_used n rd wr = (if rd \<le> wr then wr - rd else wr + n - rd)"
  unfolding ring_used_def by (subst mod_once) auto

lemma ring_used_bound: "ring_ok n buf rd wr \<Longrightarrow> ring_used n rd wr < n"
  by (simp add: ring_ok_def ring_used_def)

lemma ring_used_zero: "rd < n \<Longrightarrow> wr < n \<Longrightarrow> ring_used n rd wr = 0 \<longleftrightarrow> rd = wr"
  by (auto simp: ring_used_cases)

lemma mod_Suc_cases: "i < n \<Longrightarrow> Suc i mod n = (if Suc i = n then 0 else Suc i)"
  by (simp add: mod_Suc)

lemma ring_full_iff: "rd < n \<Longrightarrow> wr < n \<Longrightarrow> 1 < n \<Longrightarrow> Suc wr mod n = rd \<longleftrightarrow> Suc (ring_used n rd wr) = n"
  by (auto simp: ring_used_cases mod_Suc_cases)

lemma ring_used_push:
  "rd < n \<Longrightarrow> wr < n \<Longrightarrow> Suc wr mod n \<noteq> rd \<Longrightarrow> ring_used n rd (Suc wr mod n) = Suc (ring_used n rd wr)"
  by (auto simp: ring_used_cases mod_Suc_cases split: if_splits)

lemma ring_used_pop:
  "rd < n \<Longrightarrow> wr < n \<Longrightarrow> rd \<noteq> wr \<Longrightarrow> ring_used n rd wr = Suc (ring_used n (Suc rd mod n) wr)"
  by (auto simp: ring_used_cases mod_Suc_cases split: if_splits)

lemma ring_index_end: "rd < n \<Longrightarrow> wr < n \<Longrightarrow> (rd + ring_used n rd wr) mod n = wr"
  by (auto simp: ring_used_cases)

lemma ring_index_inside: "rd < n \<Longrightarrow> wr < n \<Longrightarrow> k < ring_used n rd wr \<Longrightarrow> (rd + k) mod n \<noteq> wr"
  by (subst mod_once) (auto simp: ring_used_cases split: if_splits)

text \<open>Writing at the write index appends; reading at the read index takes the head.\<close>

lemma ring_push:
  assumes "ring_ok n buf rd wr" and "Suc wr mod n \<noteq> rd"
  shows "ring_queue n (buf[wr := c]) rd (Suc wr mod n) = ring_queue n buf rd wr @ [c]"
    and "ring_ok n (buf[wr := c]) rd (Suc wr mod n)"
proof -
  have b: "rd < n" "wr < n" "length buf = n" "1 < n" using assms(1) by (auto simp: ring_ok_def)
  show "ring_ok n (buf[wr := c]) rd (Suc wr mod n)" using b by (simp add: ring_ok_def)
  have old: "(buf[wr := c]) ! ((rd + k) mod n) = buf ! ((rd + k) mod n)" if "k < ring_used n rd wr" for k
    using ring_index_inside [OF b(1,2) that] by simp
  have new: "(buf[wr := c]) ! ((rd + ring_used n rd wr) mod n) = c"
    using b by (simp add: ring_index_end)
  show "ring_queue n (buf[wr := c]) rd (Suc wr mod n) = ring_queue n buf rd wr @ [c]"
    by (simp add: ring_queue_def ring_used_push [OF b(1,2) assms(2)] new)
      (simp add: old)
qed

lemma ring_pop:
  assumes "ring_ok n buf rd wr" and "rd \<noteq> wr"
  shows "ring_queue n buf rd wr = buf ! rd # ring_queue n buf (Suc rd mod n) wr"
    and "ring_ok n buf (Suc rd mod n) wr"
proof -
  have b: "rd < n" "wr < n" "length buf = n" "1 < n" using assms(1) by (auto simp: ring_ok_def)
  show "ring_ok n buf (Suc rd mod n) wr" using b by (simp add: ring_ok_def)
  have "(Suc rd mod n + k) mod n = (rd + Suc k) mod n" for k
    by (metis add_Suc_right add_Suc mod_add_left_eq)
  then show "ring_queue n buf rd wr = buf ! rd # ring_queue n buf (Suc rd mod n) wr"
    using b
    by (simp add: ring_queue_def ring_used_pop [OF b(1,2) assms(2)] map_upt_Suc del: upt_Suc)
qed

lemma ring_empty: "rd < n \<Longrightarrow> ring_queue n buf rd rd = []"
  by (simp add: ring_queue_def ring_used_cases)

lemma ring_empty_iff: "ring_ok n buf rd wr \<Longrightarrow> ring_queue n buf rd wr = [] \<longleftrightarrow> rd = wr"
  by (metis length_0_conv length_ring_queue ring_ok_def ring_used_zero)

section \<open>The interface\<close>

text \<open>What a client of a dropping buffer relies on: \<open>put\<close> appends unless the buffer is full, in which
  case the byte is lost; \<open>get\<close> returns the oldest byte, or -1 on an empty buffer.\<close>

locale byte_queue =
  fixes put :: "u8 \<Rightarrow> 's \<Rightarrow> 's"
    and get :: "'s \<Rightarrow> 's \<times> int"
    and queue :: "'s \<Rightarrow> u8 list"
    and ok :: "'s \<Rightarrow> bool"
    and capacity :: nat
  assumes put_ok: "ok s \<Longrightarrow> ok (put c s)"
    and put_queue: "ok s \<Longrightarrow> queue (put c s) =
          (if length (queue s) < capacity then queue s @ [c] else queue s)"
    and get_ok: "ok s \<Longrightarrow> ok (fst (get s))"
    and get_empty: "ok s \<Longrightarrow> queue s = [] \<Longrightarrow> get s = (s, -1)"
    and get_queue: "ok s \<Longrightarrow> queue s = c # cs \<Longrightarrow> snd (get s) = uint c \<and> queue (fst (get s)) = cs"
    and queue_bound: "ok s \<Longrightarrow> length (queue s) \<le> capacity"
begin

lemma get_minus_one: "ok s \<Longrightarrow> snd (get s) = -1 \<longleftrightarrow> queue s = []"
proof (cases "queue s")
  case Nil
  then show "ok s \<Longrightarrow> ?thesis" by (simp add: get_empty)
next
  case (Cons c cs)
  have "uint c \<noteq> -1" using uint_nonnegative [of c] by linarith
  with Cons show "ok s \<Longrightarrow> ?thesis" using get_queue by simp
qed

lemma fold_put_ok: "ok s \<Longrightarrow> ok (fold put cs s)"
  by (induction cs arbitrary: s) (auto simp: put_ok)

text \<open>A burst of bytes is kept in order up to the free space; the rest is dropped.\<close>

lemma fold_put_queue:
  "ok s \<Longrightarrow> queue (fold put cs s) = queue s @ take (capacity - length (queue s)) cs"
proof (induction cs arbitrary: s)
  case Nil
  then show ?case by simp
next
  case (Cons c cs)
  note IH = Cons.IH [OF put_ok [OF Cons.prems, of c]]
  show ?case
  proof (cases "length (queue s) < capacity")
    case True
    then obtain k where "capacity - length (queue s) = Suc k" by (metis Suc_diff_Suc)
    moreover from this have "capacity - Suc (length (queue s)) = k" by simp
    ultimately show ?thesis using IH True Cons.prems by (simp add: put_queue)
  next
    case False
    then show ?thesis using IH Cons.prems by (simp add: put_queue)
  qed
qed

end

text \<open>The receive buffers of TCP connections and UDP sockets are filled and drained in blocks: the caller asks for the
  free space before it puts bytes in and for the number of bytes before it takes them out.\<close>

fun take_bytes :: "('s \<Rightarrow> 's \<times> u8) \<Rightarrow> nat \<Rightarrow> 's \<Rightarrow> 's \<times> u8 list" where
  "take_bytes get 0 s = (s, [])"
| "take_bytes get (Suc n) s = (case get s of (s, b) \<Rightarrow> case take_bytes get n s of (s, bs) \<Rightarrow> (s, b # bs))"

locale block_queue =
  fixes put :: "u8 \<Rightarrow> 's \<Rightarrow> 's"
    and get :: "'s \<Rightarrow> 's \<times> u8"
    and queue :: "'s \<Rightarrow> u8 list"
    and ok :: "'s \<Rightarrow> bool"
    and capacity :: nat
  assumes put_law: "ok s \<Longrightarrow> length (queue s) < capacity \<Longrightarrow> ok (put c s) \<and> queue (put c s) = queue s @ [c]"
    and get_law: "ok s \<Longrightarrow> queue s = c # cs \<Longrightarrow> ok (fst (get s)) \<and> queue (fst (get s)) = cs \<and> snd (get s) = c"
begin

lemma put_block:
  "ok s \<Longrightarrow> length (queue s) + length cs \<le> capacity \<Longrightarrow> ok (fold put cs s) \<and> queue (fold put cs s) = queue s @ cs"
proof (induction cs arbitrary: s)
  case (Cons c cs)
  then have "ok (put c s) \<and> queue (put c s) = queue s @ [c]" by (intro put_law) simp_all
  then show ?case using Cons.IH [of "put c s"] Cons.prems by simp
qed simp

lemma get_block:
  "ok s \<Longrightarrow> n \<le> length (queue s) \<Longrightarrow> take_bytes get n s = (s', bs) \<Longrightarrow>
     ok s' \<and> bs = take n (queue s) \<and> queue s' = drop n (queue s)"
proof (induction n arbitrary: s bs)
  case (Suc n)
  obtain c cs where q: "queue s = c # cs" using Suc.prems(2) by (cases "queue s") auto
  obtain t b where g: "get s = (t, b)" by (cases "get s")
  then have t: "ok t" "queue t = cs" "b = c" using get_law [OF Suc.prems(1) q] by simp_all
  obtain bs' where bs: "take_bytes get n t = (s', bs')" "bs = b # bs'"
    using Suc.prems(3) g by (auto split: prod.splits)
  have "n \<le> length (queue t)" using Suc.prems(2) by (simp add: q t)
  from Suc.IH [OF t(1) this bs(1)] show ?case by (simp add: q t bs)
qed simp

end

end
