(* ===== verification/Keyboard.thy ===== *)
theory Keyboard
  imports Ring
begin

text \<open>
  The PS/2 keyboard driver, \<^verbatim>\<open>src/keyboard/keyboard.c\<close>: scancode translation and the 256-byte circular
  buffer between the interrupt handler and the terminal. The scancode that \<^verbatim>\<open>inb\<close> returns is an
  argument of the handler. The buffer is an instance of the byte queue of \<^verbatim>\<open>Ring\<close>.
\<close>

definition KB_SC_MAX :: nat where [simp]: "KB_SC_MAX = 0x58"
definition KB_BUF_SIZE :: nat where [simp]: "KB_BUF_SIZE = 256"
definition KB_BUF_MASK :: u32 where [simp]: "KB_BUF_MASK = 255"

definition sc_to_ascii :: "u8 list" where
  "sc_to_ascii =
    [0, 0x1B, 0x31, 0x32, 0x33, 0x34, 0x35, 0x36, 0x37, 0x38, 0x39, 0x30, 0x2D, 0x3D, 8, 9,
     0x71, 0x77, 0x65, 0x72, 0x74, 0x79, 0x75, 0x69, 0x6F, 0x70, 0x5B, 0x5D, 10, 0, 0x61, 0x73,
     0x64, 0x66, 0x67, 0x68, 0x6A, 0x6B, 0x6C, 0x3B, 0x27, 0x60, 0, 0x5C, 0x7A, 0x78, 0x63, 0x76,
     0x62, 0x6E, 0x6D, 0x2C, 0x2E, 0x2F, 0, 0x2A, 0, 0x20, 0, 0, 0, 0, 0, 0,
     0, 0, 0, 0, 0, 0, 0, 0x37, 0x38, 0x39, 0x2D, 0x34, 0x35, 0x36, 0x2B, 0x31,
     0x32, 0x33, 0x30, 0x2E, 0, 0, 0, 0]"

record kb_state =
  kb_buf :: "u8 list"
  kb_head :: u32
  kb_tail :: u32

definition buf_push :: "u8 \<Rightarrow> kb_state \<Rightarrow> kb_state" where
  "buf_push ch kb =
     (let next = (kb_head kb + 1) AND KB_BUF_MASK
      in if next = kb_tail kb then kb
         else kb\<lparr>kb_buf := (kb_buf kb)[unat (kb_head kb) := ch], kb_head := next\<rparr>)"

definition keyboard_irq_handler :: "u8 \<Rightarrow> kb_state \<Rightarrow> kb_state" where
  "keyboard_irq_handler sc kb =
     (if sc AND 0x80 \<noteq> 0 then kb
      else if sc = 0xE0 then kb
      else if unat sc < KB_SC_MAX
      then let ch = sc_to_ascii ! unat sc in if ch \<noteq> 0 then buf_push ch kb else kb
      else kb)"

definition keyboard_getc :: "kb_state \<Rightarrow> kb_state \<times> int" where
  "keyboard_getc kb =
     (if kb_tail kb = kb_head kb then (kb, -1)
      else let ch = kb_buf kb ! unat (kb_tail kb)
           in (kb\<lparr>kb_tail := (kb_tail kb + 1) AND KB_BUF_MASK\<rparr>, uint ch))"

section \<open>The buffer is a byte queue\<close>

definition kb_ok :: "kb_state \<Rightarrow> bool" where
  "kb_ok kb \<longleftrightarrow> ring_ok KB_BUF_SIZE (kb_buf kb) (unat (kb_tail kb)) (unat (kb_head kb))"

definition kb_queue :: "kb_state \<Rightarrow> u8 list" where
  "kb_queue kb = ring_queue KB_BUF_SIZE (kb_buf kb) (unat (kb_tail kb)) (unat (kb_head kb))"

lemma kb_next: "unat i < 256 \<Longrightarrow> unat ((i + 1) AND 255 :: u32) = Suc (unat i) mod 256"
proof -
  assume "unat i < 256"
  then have "unat (i + 1) = Suc (unat i)" by (simp add: unat_word_ariths)
  then show ?thesis using unat_and_mask [of "i + 1" 8] by (simp add: mask_eq_exp_minus_1)
qed

lemma kb_full: "kb_ok kb \<Longrightarrow> (kb_head kb + 1) AND 255 = kb_tail kb \<longleftrightarrow> length (kb_queue kb) \<ge> 255"
proof -
  assume ok: "kb_ok kb"
  then have b: "unat (kb_head kb) < 256" "unat (kb_tail kb) < 256" by (simp_all add: kb_ok_def ring_ok_def)
  have "(kb_head kb + 1) AND 255 = kb_tail kb \<longleftrightarrow> Suc (unat (kb_head kb)) mod 256 = unat (kb_tail kb)"
    by (simp only: word_unat_eq_iff kb_next [OF b(1)])
  also have "\<dots> \<longleftrightarrow> length (kb_queue kb) \<ge> 255"
    using ring_full_iff [OF b(2,1)] ring_used_bound [OF ok [unfolded kb_ok_def]] by (auto simp: kb_queue_def)
  finally show ?thesis .
qed

interpretation kb: byte_queue buf_push keyboard_getc kb_queue kb_ok 255
proof
  fix s c cs assume ok: "kb_ok s"
  then have b: "unat (kb_head s) < 256" "unat (kb_tail s) < 256" by (simp_all add: kb_ok_def ring_ok_def)
  note full = kb_full [OF ok]
  show bound: "length (kb_queue s) \<le> 255"
    using ring_used_bound [OF ok [unfolded kb_ok_def]] by (simp add: kb_queue_def)
  have "kb_ok (buf_push c s) \<and>
      kb_queue (buf_push c s) = (if length (kb_queue s) < 255 then kb_queue s @ [c] else kb_queue s)"
  proof (cases "length (kb_queue s) < 255")
    case True
    then have "(kb_head s + 1) AND 255 \<noteq> kb_tail s" using full by simp
    moreover from this have "Suc (unat (kb_head s)) mod 256 \<noteq> unat (kb_tail s)"
      by (simp only: word_unat_eq_iff kb_next [OF b(1)] simp_thms)
    ultimately show ?thesis
      using ring_push [of 256 "kb_buf s" "unat (kb_tail s)" "unat (kb_head s)" c] ok True
      by (simp add: kb_ok_def kb_queue_def buf_push_def Let_def kb_next b)
  next
    case False
    then show ?thesis using full ok by (simp add: buf_push_def Let_def)
  qed
  then show "kb_ok (buf_push c s)"
    and "kb_queue (buf_push c s) = (if length (kb_queue s) < 255 then kb_queue s @ [c] else kb_queue s)"
    by blast+
  have eq: "kb_tail s = kb_head s \<longleftrightarrow> kb_queue s = []"
    using ring_empty_iff [OF ok [unfolded kb_ok_def]] by (simp add: kb_queue_def word_unat_eq_iff)
  then show "kb_queue s = [] \<Longrightarrow> keyboard_getc s = (s, -1)" by (simp add: keyboard_getc_def)
  note pop = ring_pop [of 256 "kb_buf s" "unat (kb_tail s)" "unat (kb_head s)"]
  have ne: "unat (kb_tail s) = unat (kb_head s) \<longleftrightarrow> kb_tail s = kb_head s" by (simp only: word_unat_eq_iff)
  show "kb_ok (fst (keyboard_getc s))"
    using pop ok b ne by (auto simp: keyboard_getc_def Let_def kb_ok_def kb_next)
  show "kb_queue s = c # cs \<Longrightarrow> snd (keyboard_getc s) = uint c \<and> kb_queue (fst (keyboard_getc s)) = cs"
    using pop ok b eq ne by (auto simp: keyboard_getc_def Let_def kb_ok_def kb_queue_def kb_next)
qed

text \<open>A key press: what the handler appends to the queue.\<close>

definition key_bytes :: "u8 \<Rightarrow> u8 list" where
  "key_bytes sc = (if unat sc < KB_SC_MAX \<and> sc_to_ascii ! unat sc \<noteq> 0 then [sc_to_ascii ! unat sc] else [])"

lemma irq_handler_push:
  "keyboard_irq_handler sc kb = fold buf_push (key_bytes sc) kb"
proof (cases "sc AND 0x80 = 0")
  case True
  then show ?thesis by (auto simp: keyboard_irq_handler_def key_bytes_def Let_def)
next
  case False
  then have "bit sc 7" using and_exp_eq_0_iff_not_bit [of sc 7] by simp
  then have "bit (unat sc) 7" by (simp add: bit_unsigned_iff)
  then have "\<not> unat sc < 0x58" by (auto simp: bit_iff_odd)
  with False show ?thesis by (simp add: keyboard_irq_handler_def key_bytes_def)
qed

end
