(* ===== verification/Vga.thy ===== *)
theory Vga
  imports Prelude
begin

text \<open>
  The text console, \<^verbatim>\<open>src/vga/vga.c\<close>: the 80x25 cell buffer, the cursor, character output with line
  wrap and scrolling. The cursor ports are a log of writes, most recent first.
\<close>

definition VGA_COLS :: nat where [simp]: "VGA_COLS = 80"
definition VGA_ROWS :: nat where [simp]: "VGA_ROWS = 25"
definition VGA_DEFAULT_ATTR :: u16 where [simp]: "VGA_DEFAULT_ATTR = 0x07"

record vga_state =
  vga_buf :: "u16 list"
  vga_col :: int
  vga_row :: int
  vga_out :: "(u16 \<times> u8) list"

definition vga_outb :: "u16 \<Rightarrow> u8 \<Rightarrow> vga_state \<Rightarrow> vga_state" where
  "vga_outb port val v = v\<lparr>vga_out := (port, val) # vga_out v\<rparr>"

definition vga_update_cursor :: "vga_state \<Rightarrow> vga_state" where
  "vga_update_cursor v =
     (let pos = (of_int (vga_row v * int VGA_COLS + vga_col v) :: u16);
          v = vga_outb 0x3D4 0x0E v;
          v = vga_outb 0x3D5 (ucast (drop_bit 8 pos)) v;
          v = vga_outb 0x3D4 0x0F v
      in vga_outb 0x3D5 (ucast (pos AND 0xFF)) v)"

definition vga_blank :: u16 where
  "vga_blank = push_bit 8 VGA_DEFAULT_ATTR OR 0x20"

definition vga_clear :: "vga_state \<Rightarrow> vga_state" where
  "vga_clear v =
     (let b = for_range 0 (VGA_COLS * VGA_ROWS) (\<lambda>i b. b[i := vga_blank]) (vga_buf v)
      in vga_update_cursor (v\<lparr>vga_buf := b, vga_col := 0, vga_row := 0\<rparr>))"

definition scroll_row :: "nat \<Rightarrow> u16 list \<Rightarrow> u16 list" where
  "scroll_row r = for_range 0 VGA_COLS (\<lambda>c b. b[(r - 1) * VGA_COLS + c := b ! (r * VGA_COLS + c)])"

definition vga_scroll :: "vga_state \<Rightarrow> vga_state" where
  "vga_scroll v =
     (let b = for_range 1 VGA_ROWS scroll_row (vga_buf v);
          b = for_range 0 VGA_COLS (\<lambda>c b. b[(VGA_ROWS - 1) * VGA_COLS + c := vga_blank]) b
      in v\<lparr>vga_buf := b, vga_row := int VGA_ROWS - 1\<rparr>)"

definition vga_newline_if_full :: "vga_state \<Rightarrow> vga_state" where
  "vga_newline_if_full v =
     (if vga_col v \<ge> int VGA_COLS then v\<lparr>vga_col := 0, vga_row := vga_row v + 1\<rparr> else v)"

definition vga_putchar :: "u8 \<Rightarrow> vga_state \<Rightarrow> vga_state" where
  "vga_putchar c v =
     (let v = (if c = 10 then v\<lparr>vga_col := 0, vga_row := vga_row v + 1\<rparr>
               else if c = 13 then v\<lparr>vga_col := 0\<rparr>
               else if c = 9 then vga_newline_if_full (v\<lparr>vga_col := (vga_col v + 8) AND NOT 7\<rparr>)
               else vga_newline_if_full
                      (v\<lparr>vga_buf := (vga_buf v)[nat (vga_row v * int VGA_COLS + vga_col v) :=
                                                push_bit 8 VGA_DEFAULT_ATTR OR ucast c],
                         vga_col := vga_col v + 1\<rparr>));
          v = (if vga_row v \<ge> int VGA_ROWS then vga_scroll v else v)
      in vga_update_cursor v)"

text \<open>A C string without its terminator.\<close>

definition vga_write :: "u8 list \<Rightarrow> vga_state \<Rightarrow> vga_state" where
  "vga_write s v = fold vga_putchar (takeWhile (\<lambda>c. c \<noteq> 0) s) v"

definition vga_init :: "vga_state \<Rightarrow> vga_state \<times> int" where
  "vga_init v = (vga_clear v, 0)"

section \<open>Invariant\<close>

definition vga_ok :: "vga_state \<Rightarrow> bool" where
  "vga_ok v \<longleftrightarrow> length (vga_buf v) = 2000 \<and> 0 \<le> vga_col v \<and> vga_col v < 80 \<and> 0 \<le> vga_row v \<and> vga_row v < 25"

lemma vga_update_cursor_simps [simp]:
  "vga_buf (vga_update_cursor v) = vga_buf v" "vga_col (vga_update_cursor v) = vga_col v"
  "vga_row (vga_update_cursor v) = vga_row v"
  by (simp_all add: vga_update_cursor_def vga_outb_def Let_def)

lemma fill_loop:
  "length b = n \<Longrightarrow> lo + k \<le> n \<Longrightarrow>
   length (for_range 0 k (\<lambda>c b. b[lo + c := x]) b) = n \<and>
   (\<forall>j < n. for_range 0 k (\<lambda>c b. b[lo + c := x]) b ! j = (if lo \<le> j \<and> j < lo + k then x else b ! j))"
proof (induction k)
  case 0
  then show ?case by auto
next
  case (Suc k)
  then have IH: "length (for_range 0 k (\<lambda>c b. b[lo + c := x]) b) = n"
    "\<And>j. j < n \<Longrightarrow> for_range 0 k (\<lambda>c b. b[lo + c := x]) b ! j = (if lo \<le> j \<and> j < lo + k then x else b ! j)"
    by simp_all
  show ?case using IH Suc.prems by (auto simp: for_range_last nth_list_update)
qed

lemma copy_loop:
  assumes "length b = n" and "q + 80 + k \<le> n" and "k \<le> 80"
  shows "length (for_range 0 k (\<lambda>c b. b[q + c := b ! (q + 80 + c)]) b) = n \<and>
    (\<forall>j < n. for_range 0 k (\<lambda>c b. b[q + c := b ! (q + 80 + c)]) b ! j =
       (if q \<le> j \<and> j < q + k then b ! (j + 80) else b ! j))"
  using assms
proof (induction k)
  case 0
  then show ?case by auto
next
  case (Suc k)
  let ?b = "for_range 0 k (\<lambda>c b. b[q + c := b ! (q + 80 + c)]) b"
  have IH: "length ?b = n" "\<And>j. j < n \<Longrightarrow> ?b ! j = (if q \<le> j \<and> j < q + k then b ! (j + 80) else b ! j)"
    using Suc by simp_all
  have src: "?b ! (q + 80 + k) = b ! (q + 80 + k)" using IH(2) [of "q + 80 + k"] Suc.prems by simp
  have "(?b[q + k := ?b ! (q + 80 + k)]) ! j = (if q \<le> j \<and> j < q + Suc k then b ! (j + 80) else b ! j)"
    if "j < n" for j
    using that IH src by (cases "j = q + k") (auto simp: ac_simps)
  then show ?case using IH(1) by (simp add: for_range_last)
qed

lemma scroll_row_nth:
  assumes "length b = 2000" and "1 \<le> r" and "r < 25"
  shows "length (scroll_row r b) = 2000 \<and>
    (\<forall>j < 2000. scroll_row r b ! j = (if (r - 1) * 80 \<le> j \<and> j < r * 80 then b ! (j + 80) else b ! j))"
proof -
  have r: "r * 80 = (r - 1) * 80 + 80" using assms(2) by (simp add: diff_mult_distrib)
  have "(r - 1) * 80 + 80 + 80 \<le> 2000" using assms(2,3) by simp
  from copy_loop [OF assms(1) this] show ?thesis
    unfolding scroll_row_def VGA_COLS_def r by simp
qed

lemma scroll_rows:
  assumes "length b = 2000"
  shows "length (for_range 1 25 scroll_row b) = 2000 \<and>
    (\<forall>j < 2000. for_range 1 25 scroll_row b ! j = (if j < 1920 then b ! (j + 80) else b ! j))"
proof -
  have "length (for_range 1 25 scroll_row b) = 2000 \<and>
    (\<forall>j < 2000. for_range 1 25 scroll_row b ! j = (if j < (25 - 1) * 80 then b ! (j + 80) else b ! j))"
  proof (rule for_range_inv [where I = "\<lambda>r s. length s = 2000 \<and>
      (\<forall>j < 2000. s ! j = (if j < (r - 1) * 80 then b ! (j + 80) else b ! j))"], goal_cases)
    case (3 r s)
    have r: "r * 80 = (r - 1) * 80 + 80" using 3(1) by (simp add: diff_mult_distrib)
    note row = scroll_row_nth [of s r]
    show ?case using 3 row r by auto
  qed (use assms in simp_all)
  then show ?thesis by simp
qed

text \<open>Scrolling moves every row up by one and blanks the last.\<close>

lemma vga_scroll_buf:
  assumes "length (vga_buf v) = 2000"
  shows "vga_buf (vga_scroll v) = drop 80 (vga_buf v) @ replicate 80 vga_blank"
proof -
  let ?b = "for_range 1 25 scroll_row (vga_buf v)"
  note rows = scroll_rows [OF assms]
  note fill = fill_loop [of ?b 2000 1920 80 vga_blank]
  show ?thesis
  proof (rule nth_equalityI)
    show "length (vga_buf (vga_scroll v)) = length (drop 80 (vga_buf v) @ replicate 80 vga_blank)"
      using fill rows assms by (simp add: vga_scroll_def Let_def)
  next
    fix j assume "j < length (vga_buf (vga_scroll v))"
    then have j: "j < 2000" using fill rows by (simp add: vga_scroll_def Let_def)
    then have "vga_buf (vga_scroll v) ! j = (if 1920 \<le> j then vga_blank else ?b ! j)"
      using fill rows by (simp add: vga_scroll_def Let_def)
    then show "vga_buf (vga_scroll v) ! j = (drop 80 (vga_buf v) @ replicate 80 vga_blank) ! j"
      using rows j assms by (auto simp: nth_append add.commute)
  qed
qed

lemma tab_stop: "(x + 8) AND NOT 7 = x + 8 - (x + 8) mod 8" for x :: int
proof -
  have "x + 8 - ((x + 8) AND 7) = (x + 8) AND NOT ((x + 8) AND 7)"
    by (rule disjunctive_diff) (simp add: bit_simps)
  also have "\<dots> = (x + 8) AND NOT 7" by (rule bit_eqI) (auto simp: bit_simps)
  moreover have "(x + 8) AND 7 = (x + 8) mod 8"
    using take_bit_eq_mask [of 3 "x + 8"] by (simp add: mask_eq_exp_minus_1 take_bit_eq_mod)
  ultimately show ?thesis by simp
qed

text \<open>One character: the row may be one past the end before scrolling brings it back.\<close>

definition vga_step :: "u8 \<Rightarrow> vga_state \<Rightarrow> vga_state" where
  "vga_step c v =
     (if c = 10 then v\<lparr>vga_col := 0, vga_row := vga_row v + 1\<rparr>
      else if c = 13 then v\<lparr>vga_col := 0\<rparr>
      else if c = 9 then vga_newline_if_full (v\<lparr>vga_col := (vga_col v + 8) AND NOT 7\<rparr>)
      else vga_newline_if_full
             (v\<lparr>vga_buf := (vga_buf v)[nat (vga_row v * 80 + vga_col v) := push_bit 8 7 OR ucast c],
                vga_col := vga_col v + 1\<rparr>))"

lemma vga_putchar_step:
  "vga_putchar c v = vga_update_cursor
     (if vga_row (vga_step c v) \<ge> 25 then vga_scroll (vga_step c v) else vga_step c v)"
  by (simp add: vga_putchar_def vga_step_def Let_def)

lemma vga_step_bounds:
  assumes "vga_ok v"
  shows "length (vga_buf (vga_step c v)) = 2000 \<and> 0 \<le> vga_col (vga_step c v) \<and> vga_col (vga_step c v) < 80 \<and>
    vga_row v \<le> vga_row (vga_step c v) \<and> vga_row (vga_step c v) \<le> vga_row v + 1"
  using assms by (auto simp: vga_ok_def vga_step_def vga_newline_if_full_def tab_stop)

lemma vga_putchar_ok: "vga_ok v \<Longrightarrow> vga_ok (vga_putchar c v)"
  using vga_step_bounds [of v c] vga_scroll_buf [of "vga_step c v"]
  by (auto simp: vga_ok_def vga_putchar_step) (simp_all add: vga_scroll_def Let_def)

lemma vga_write_index:
  "vga_ok v \<Longrightarrow> nat (vga_row v * 80 + vga_col v) < length (vga_buf v)"
  by (auto simp: vga_ok_def)

lemma vga_clear_ok: "length (vga_buf v) = 2000 \<Longrightarrow> vga_ok (vga_clear v) \<and> vga_buf (vga_clear v) = replicate 2000 vga_blank"
  using fill_loop [of "vga_buf v" 2000 0 2000 vga_blank]
  by (auto simp: vga_ok_def vga_clear_def Let_def intro: nth_equalityI)

end
