(* ===== verification/Tty.thy ===== *)
theory Tty
  imports Keyboard Vga
begin

text \<open>
  The terminal, \<^verbatim>\<open>src/tty/tty.c\<close>: the cooked-mode line discipline run on every timer tick, the read
  ring behind \<^verbatim>\<open>/dev/tty0\<close> and the blocking read. The keyboard and the console are parts of the state.
  The lemmas give the line discipline as a fold over the typed characters and show that polling ends
  with the keyboard buffer empty.
\<close>

definition TTY_LBUF_SIZE :: nat where [simp]: "TTY_LBUF_SIZE = 256"
definition TTY_RBUF_SIZE :: u32 where [simp]: "TTY_RBUF_SIZE = 1024"

record tty_state =
  lbuf :: "u8 list"
  lbuf_len :: u32
  rbuf :: "u8 list"
  rbuf_head :: u32      \<comment> \<open>next byte to consume\<close>
  rbuf_tail :: u32      \<comment> \<open>next free slot\<close>
  tty_kb :: kb_state
  tty_vga :: vga_state

definition rbuf_avail :: "tty_state \<Rightarrow> u32" where
  "rbuf_avail t = (rbuf_tail t - rbuf_head t) mod TTY_RBUF_SIZE"

definition rbuf_push :: "u8 \<Rightarrow> tty_state \<Rightarrow> tty_state" where
  "rbuf_push c t =
     (let next = (rbuf_tail t + 1) mod TTY_RBUF_SIZE
      in if next = rbuf_head t then t
         else t\<lparr>rbuf := (rbuf t)[unat (rbuf_tail t) := c], rbuf_tail := next\<rparr>)"

definition rbuf_pop :: "tty_state \<Rightarrow> tty_state \<times> int" where
  "rbuf_pop t =
     (if rbuf_head t = rbuf_tail t then (t, -1)
      else let c = rbuf t ! unat (rbuf_head t)
           in (t\<lparr>rbuf_head := (rbuf_head t + 1) mod TTY_RBUF_SIZE\<rparr>, uint c))"

definition tty_putchar :: "u8 \<Rightarrow> tty_state \<Rightarrow> tty_state" where
  "tty_putchar c t = t\<lparr>tty_vga := vga_putchar c (tty_vga t)\<rparr>"

text \<open>The body of the polling loop. \<^verbatim>\<open>char\<close> is signed, so the range test is on the signed value.\<close>

definition tty_char :: "u8 \<Rightarrow> tty_state \<Rightarrow> tty_state" where
  "tty_char ch t =
     (if ch = 13 \<or> ch = 10
      then let t = for_range 0 (unat (lbuf_len t)) (\<lambda>i t. rbuf_push (lbuf t ! i) t) t;
               t = rbuf_push 10 t;
               t = t\<lparr>lbuf_len := 0\<rparr>
           in tty_putchar 10 t
      else if ch = 8 \<or> ch = 127
      then if lbuf_len t > 0
           then tty_putchar 8 (tty_putchar 32 (tty_putchar 8 (t\<lparr>lbuf_len := lbuf_len t - 1\<rparr>)))
           else t
      else if sint ch \<ge> 0x20 \<and> sint ch < 0x7F
      then if unat (lbuf_len t) < TTY_LBUF_SIZE - 1
           then tty_putchar ch (t\<lparr>lbuf := (lbuf t)[unat (lbuf_len t) := ch], lbuf_len := lbuf_len t + 1\<rparr>)
           else t
      else t)"

partial_function (option) tty_poll :: "tty_state \<Rightarrow> tty_state option" where
  "tty_poll t =
     (let r = keyboard_getc (tty_kb t)
      in if snd r = -1 then Some (t\<lparr>tty_kb := fst r\<rparr>)
         else tty_poll (tty_char (of_int (snd r)) (t\<lparr>tty_kb := fst r\<rparr>)))"

text \<open>The blocking read. \<open>yield\<close> is the rest of the system while the reader has given up the
  processor: it may change the terminal (by running \<^verbatim>\<open>tty_poll\<close>) and its own state \<open>e\<close>.\<close>

partial_function (option) tty_read_loop ::
  "('e \<Rightarrow> tty_state \<Rightarrow> 'e \<times> tty_state) \<Rightarrow> nat \<Rightarrow> u8 list \<Rightarrow> 'e \<Rightarrow> tty_state \<Rightarrow> ('e \<times> tty_state \<times> u8 list) option" where
  "tty_read_loop yield sz acc e t =
     (if length acc < sz
      then if rbuf_avail t > 0
           then let r = rbuf_pop t
                in if snd r < 0 then Some (e, fst r, acc)
                   else if (of_int (snd r) :: u8) = 10 then Some (e, fst r, acc @ [of_int (snd r)])
                   else tty_read_loop yield sz (acc @ [of_int (snd r)]) e (fst r)
           else tty_read_loop yield sz acc (fst (yield e t)) (snd (yield e t))
      else Some (e, t, acc))"

definition tty_read :: "('e \<Rightarrow> tty_state \<Rightarrow> 'e \<times> tty_state) \<Rightarrow> u32 \<Rightarrow> 'e \<Rightarrow> tty_state \<Rightarrow>
    ('e \<times> tty_state \<times> u8 list) option" where
  "tty_read yield sz e t =
     (if sz = 0 then Some (e, t, []) else tty_read_loop yield (unat sz) [] e t)"

definition tty_write :: "u8 list \<Rightarrow> tty_state \<Rightarrow> tty_state \<times> int" where
  "tty_write buf t = (fold tty_putchar buf t, int (length buf))"

section \<open>The read ring is a byte queue\<close>

definition rbuf_ok :: "tty_state \<Rightarrow> bool" where
  "rbuf_ok t \<longleftrightarrow> ring_ok 1024 (rbuf t) (unat (rbuf_head t)) (unat (rbuf_tail t))"

definition rbuf_queue :: "tty_state \<Rightarrow> u8 list" where
  "rbuf_queue t = ring_queue 1024 (rbuf t) (unat (rbuf_head t)) (unat (rbuf_tail t))"

lemma rbuf_next: "unat i < 1024 \<Longrightarrow> unat ((i + 1) mod 1024 :: u32) = Suc (unat i) mod 1024"
  by (simp add: unat_mod unat_word_ariths)

lemma rbuf_bounds: "rbuf_ok t \<Longrightarrow> unat (rbuf_tail t) < 1024 \<and> unat (rbuf_head t) < 1024"
  by (simp add: rbuf_ok_def ring_ok_def)

lemma rbuf_full: "rbuf_ok t \<Longrightarrow> (rbuf_tail t + 1) mod 1024 = rbuf_head t \<longleftrightarrow> length (rbuf_queue t) \<ge> 1023"
proof -
  assume ok: "rbuf_ok t"
  note b = rbuf_bounds [OF ok]
  have "(rbuf_tail t + 1) mod 1024 = rbuf_head t \<longleftrightarrow> Suc (unat (rbuf_tail t)) mod 1024 = unat (rbuf_head t)"
    by (simp only: word_unat_eq_iff rbuf_next b)
  also have "\<dots> \<longleftrightarrow> length (rbuf_queue t) \<ge> 1023"
    using ring_full_iff [of "unat (rbuf_head t)" 1024 "unat (rbuf_tail t)"] b
      ring_used_bound [OF ok [unfolded rbuf_ok_def]] by (auto simp: rbuf_queue_def)
  finally show ?thesis .
qed

interpretation rb: byte_queue rbuf_push rbuf_pop rbuf_queue rbuf_ok 1023
proof
  fix s c cs assume ok: "rbuf_ok s"
  note b = rbuf_bounds [OF ok] and full = rbuf_full [OF ok]
  show bound: "length (rbuf_queue s) \<le> 1023"
    using ring_used_bound [OF ok [unfolded rbuf_ok_def]] by (simp add: rbuf_queue_def)
  have "rbuf_ok (rbuf_push c s) \<and>
      rbuf_queue (rbuf_push c s) = (if length (rbuf_queue s) < 1023 then rbuf_queue s @ [c] else rbuf_queue s)"
  proof (cases "length (rbuf_queue s) < 1023")
    case True
    then have "(rbuf_tail s + 1) mod 1024 \<noteq> rbuf_head s" using full by simp
    moreover from this have "Suc (unat (rbuf_tail s)) mod 1024 \<noteq> unat (rbuf_head s)"
      by (simp only: word_unat_eq_iff rbuf_next b simp_thms)
    ultimately show ?thesis
      using ring_push [of 1024 "rbuf s" "unat (rbuf_head s)" "unat (rbuf_tail s)" c] ok True
      by (simp add: rbuf_ok_def rbuf_queue_def rbuf_push_def Let_def rbuf_next b)
  next
    case False
    then show ?thesis using full ok by (simp add: rbuf_push_def Let_def)
  qed
  then show "rbuf_ok (rbuf_push c s)"
    and "rbuf_queue (rbuf_push c s) = (if length (rbuf_queue s) < 1023 then rbuf_queue s @ [c] else rbuf_queue s)"
    by blast+
  have ne: "unat (rbuf_head s) = unat (rbuf_tail s) \<longleftrightarrow> rbuf_head s = rbuf_tail s"
    by (simp only: word_unat_eq_iff)
  then have eq: "rbuf_head s = rbuf_tail s \<longleftrightarrow> rbuf_queue s = []"
    using ring_empty_iff [OF ok [unfolded rbuf_ok_def]] by (simp add: rbuf_queue_def)
  then show "rbuf_queue s = [] \<Longrightarrow> rbuf_pop s = (s, -1)" by (simp add: rbuf_pop_def)
  note pop = ring_pop [of 1024 "rbuf s" "unat (rbuf_head s)" "unat (rbuf_tail s)"]
  show "rbuf_ok (fst (rbuf_pop s))"
    using pop ok b ne by (auto simp: rbuf_pop_def Let_def rbuf_ok_def rbuf_next)
  show "rbuf_queue s = c # cs \<Longrightarrow> snd (rbuf_pop s) = uint c \<and> rbuf_queue (fst (rbuf_pop s)) = cs"
    using pop ok b eq ne by (auto simp: rbuf_pop_def Let_def rbuf_ok_def rbuf_queue_def rbuf_next)
qed

lemma rbuf_avail_queue: "rbuf_ok t \<Longrightarrow> rbuf_avail t > 0 \<longleftrightarrow> rbuf_queue t \<noteq> []"
proof -
  assume ok: "rbuf_ok t"
  note b = rbuf_bounds [OF ok]
  have wrap: "(x + 4294967296 - y) mod 1024 = (x + 1024 - y) mod 1024" if "y \<le> 1024" for x y :: nat
  proof -
    have "x + 4294967296 - y = (x + 1024 - y) + 4194303 * 1024" using that by simp
    then show ?thesis by (metis mod_mult_self1)
  qed
  have "unat ((rbuf_tail t - rbuf_head t) mod 1024) = ring_used 1024 (unat (rbuf_head t)) (unat (rbuf_tail t))"
  proof (cases "unat (rbuf_head t) \<le> unat (rbuf_tail t)")
    case True
    then show ?thesis using b by (simp add: unat_mod unat_sub_if' ring_used_cases less_imp_diff_less)
  next
    case False
    then show ?thesis using b by (simp add: unat_mod unat_sub_if' wrap ring_used_def)
  qed
  then have "unat ((rbuf_tail t - rbuf_head t) mod 1024) = 0 \<longleftrightarrow> unat (rbuf_head t) = unat (rbuf_tail t)"
    using b by (simp only: ring_used_zero)
  moreover have "unat (rbuf_head t) = unat (rbuf_tail t) \<longleftrightarrow> rbuf_queue t = []"
    using ring_empty_iff [OF ok [unfolded rbuf_ok_def]] by (simp add: rbuf_queue_def)
  ultimately show ?thesis by (simp add: rbuf_avail_def word_gt_0_no word_gt_0 unat_eq_zero)
qed

section \<open>Line discipline\<close>

text \<open>Canonical mode on lists: the line being edited and the bytes handed to readers.\<close>

definition cook :: "u8 \<Rightarrow> u8 list \<times> u8 list \<Rightarrow> u8 list \<times> u8 list" where
  "cook ch = (\<lambda>(line, out).
     if ch = 13 \<or> ch = 10 then ([], out @ line @ [10])
     else if ch = 8 \<or> ch = 127 then (butlast line, out)
     else if 0x20 \<le> ch \<and> ch < 0x7F \<and> length line < 255 then (line @ [ch], out)
     else (line, out))"

definition tty_line :: "tty_state \<Rightarrow> u8 list" where
  "tty_line t = take (unat (lbuf_len t)) (lbuf t)"

definition tty_ok :: "tty_state \<Rightarrow> bool" where
  "tty_ok t \<longleftrightarrow> rbuf_ok t \<and> kb_ok (tty_kb t) \<and> vga_ok (tty_vga t) \<and> length (lbuf t) = 256 \<and> unat (lbuf_len t) \<le> 255"

lemma sint_printable: "0x20 \<le> sint ch \<and> sint ch < 0x7F \<longleftrightarrow> 0x20 \<le> ch \<and> ch < 0x7F" for ch :: u8
  using uint_nonnegative [of ch] unsigned_less [of ch, where ?'a = int] by (auto simp: sint_u8 word_le_def word_less_def)

lemma rbuf_push_frame [simp]:
  "lbuf (rbuf_push c t) = lbuf t" "lbuf_len (rbuf_push c t) = lbuf_len t"
  "tty_kb (rbuf_push c t) = tty_kb t" "tty_vga (rbuf_push c t) = tty_vga t"
  by (simp_all add: rbuf_push_def Let_def)

lemma fold_push_frame [simp]:
  "lbuf (fold rbuf_push cs t) = lbuf t" "lbuf_len (fold rbuf_push cs t) = lbuf_len t"
  "tty_kb (fold rbuf_push cs t) = tty_kb t" "tty_vga (fold rbuf_push cs t) = tty_vga t"
  by (induction cs arbitrary: t) simp_all

lemma push_loop:
  "n \<le> length (lbuf t) \<Longrightarrow>
   for_range 0 n (\<lambda>i t. rbuf_push (lbuf t ! i) t) t = fold rbuf_push (take n (lbuf t)) t"
  by (induction n) (simp_all add: for_range_last take_Suc_conv_app_nth)

lemma rbuf_ext:
  assumes "rbuf t' = rbuf t" and "rbuf_head t' = rbuf_head t" and "rbuf_tail t' = rbuf_tail t"
  shows "rbuf_queue t' = rbuf_queue t" and "rbuf_ok t' = rbuf_ok t"
  by (simp_all add: rbuf_queue_def rbuf_ok_def assms)

lemma tty_putchar_frame [simp]:
  "lbuf (tty_putchar c t) = lbuf t" "lbuf_len (tty_putchar c t) = lbuf_len t"
  "tty_kb (tty_putchar c t) = tty_kb t" "rbuf_queue (tty_putchar c t) = rbuf_queue t"
  "rbuf_ok (tty_putchar c t) = rbuf_ok t" "tty_vga (tty_putchar c t) = vga_putchar c (tty_vga t)"
  by (simp_all add: tty_putchar_def rbuf_ext [of "t\<lparr>tty_vga := v\<rparr>" t for v])

lemma tty_field_frame [simp]:
  "rbuf_queue (t\<lparr>lbuf_len := n\<rparr>) = rbuf_queue t" "rbuf_ok (t\<lparr>lbuf_len := n\<rparr>) = rbuf_ok t"
  "rbuf_queue (t\<lparr>lbuf := b\<rparr>) = rbuf_queue t" "rbuf_ok (t\<lparr>lbuf := b\<rparr>) = rbuf_ok t"
  "rbuf_queue (t\<lparr>tty_kb := k\<rparr>) = rbuf_queue t" "rbuf_ok (t\<lparr>tty_kb := k\<rparr>) = rbuf_ok t"
  by (simp_all add: rbuf_queue_def rbuf_ok_def)

lemma take_append_cap: "length q \<le> n \<Longrightarrow> q @ take (n - length q) xs = take n (q @ xs)"
  by simp

text \<open>One typed character refines one step of the line discipline; what does not fit the ring is lost.\<close>

lemma tty_char_refines:
  assumes "tty_ok t"
  shows "tty_ok (tty_char ch t) \<and> tty_kb (tty_char ch t) = tty_kb t \<and>
    tty_line (tty_char ch t) = fst (cook ch (tty_line t, out)) \<and>
    rbuf_queue (tty_char ch t) = take 1023 (rbuf_queue t @ snd (cook ch (tty_line t, [])))"
proof -
  have ok: "rbuf_ok t" "kb_ok (tty_kb t)" "vga_ok (tty_vga t)" "length (lbuf t) = 256" "unat (lbuf_len t) \<le> 255"
    using assms by (simp_all add: tty_ok_def)
  have q: "length (rbuf_queue t) \<le> 1023" using rb.queue_bound [OF ok(1)] .
  then have keep: "take 1023 (rbuf_queue t) = rbuf_queue t" by simp
  consider (line) "ch = 13 \<or> ch = 10" | (erase) "ch = 8 \<or> ch = 127"
    | (printable) "\<not> (ch = 13 \<or> ch = 10)" "\<not> (ch = 8 \<or> ch = 127)" "0x20 \<le> sint ch \<and> sint ch < 0x7F"
    | (other) "\<not> (ch = 13 \<or> ch = 10)" "\<not> (ch = 8 \<or> ch = 127)" "\<not> (0x20 \<le> sint ch \<and> sint ch < 0x7F)"
    by blast
  then show ?thesis
  proof cases
    case line
    let ?t = "fold rbuf_push (tty_line t @ [10]) t"
    have "tty_char ch t = tty_putchar 10 (?t\<lparr>lbuf_len := 0\<rparr>)"
      using line ok(4,5) by (simp add: tty_char_def Let_def push_loop tty_line_def)
    moreover have "rbuf_ok ?t" by (rule rb.fold_put_ok [OF ok(1)])
    moreover have "rbuf_queue ?t = take 1023 (rbuf_queue t @ tty_line t @ [10])"
      by (simp only: rb.fold_put_queue [OF ok(1)] take_append_cap [OF q])
    ultimately show ?thesis
      using line ok by (auto simp: tty_ok_def tty_line_def cook_def vga_putchar_ok)
  next
    case erase
    show ?thesis
    proof (cases "lbuf_len t > 0")
      case True
      have "unat (lbuf_len t - 1) = unat (lbuf_len t) - 1" using True by (intro unat_minus_one) auto
      moreover have "0 < unat (lbuf_len t)" using True by (simp add: unat_gt_0 word_gt_0)
      ultimately show ?thesis
        using True erase ok keep
        by (auto simp: tty_char_def tty_ok_def tty_line_def cook_def vga_putchar_ok butlast_take)
    next
      case False
      then have "lbuf_len t = 0" by (simp add: word_gt_0)
      with False erase ok keep show ?thesis
        by (auto simp: tty_char_def tty_ok_def tty_line_def cook_def)
    qed
  next
    case printable
    show ?thesis
    proof (cases "unat (lbuf_len t) < 255")
      case True
      then have "unat (lbuf_len t + 1) = Suc (unat (lbuf_len t))" by (simp add: unat_word_ariths)
      with True printable ok keep show ?thesis
        by (simp add: tty_char_def tty_ok_def tty_line_def cook_def sint_printable vga_putchar_ok
            take_Suc_conv_app_nth)
    next
      case False
      with printable ok keep show ?thesis
        by (simp add: tty_char_def tty_ok_def tty_line_def cook_def sint_printable)
    qed
  next
    case other
    with ok keep show ?thesis
      by (auto simp: tty_char_def tty_ok_def tty_line_def cook_def sint_printable)
  qed
qed

lemma cook_out: "cook ch (l, o1 @ o2) = (fst (cook ch (l, o2)), o1 @ snd (cook ch (l, o2)))"
  by (simp add: cook_def)

lemma fold_cook_out:
  "fold cook cs (l, o1 @ o2) = (fst (fold cook cs (l, o2)), o1 @ snd (fold cook cs (l, o2)))"
proof (induction cs arbitrary: l o2)
  case (Cons c cs)
  show ?case
    using Cons.IH [of "fst (cook c (l, o2))" "snd (cook c (l, o2))"] by (simp add: cook_out)
qed simp

lemma take_take_append: "take n (take n xs @ ys) = take n (xs @ ys)"
  by (cases "length xs \<le> n") simp_all

text \<open>C8. Polling ends with the keyboard buffer drained, and implements the canonical line discipline:
  the line being edited and the bytes handed to readers are those of folding \<open>cook\<close> over the typed
  characters, cut at the capacity of the read ring.\<close>

theorem tty_poll_line_discipline:
  "tty_ok t \<Longrightarrow> \<exists>t'. tty_poll t = Some t' \<and> tty_ok t' \<and> kb_queue (tty_kb t') = [] \<and>
     tty_line t' = fst (fold cook (kb_queue (tty_kb t)) (tty_line t, [])) \<and>
     rbuf_queue t' = take 1023 (rbuf_queue t @ snd (fold cook (kb_queue (tty_kb t)) (tty_line t, [])))"
proof (induction "kb_queue (tty_kb t)" arbitrary: t)
  case Nil
  then have "keyboard_getc (tty_kb t) = (tty_kb t, -1)" using kb.get_empty by (simp add: tty_ok_def)
  moreover have "length (rbuf_queue t) \<le> 1023" using rb.queue_bound Nil.prems by (simp add: tty_ok_def)
  ultimately show ?case using Nil by (subst tty_poll.simps) (simp add: Nil.hyps [symmetric])
next
  case (Cons c cs)
  let ?k = "fst (keyboard_getc (tty_kb t))"
  let ?t1 = "t\<lparr>tty_kb := ?k\<rparr>" and ?r = "cook c (tty_line t, [])"
  have kb: "kb_ok (tty_kb t)" using Cons.prems by (simp add: tty_ok_def)
  have g: "snd (keyboard_getc (tty_kb t)) = uint c" "kb_queue ?k = cs"
    using kb.get_queue [OF kb] Cons.hyps(2) [symmetric] by blast+
  have "snd (keyboard_getc (tty_kb t)) \<noteq> -1"
    using kb.get_minus_one [OF kb] Cons.hyps(2) [symmetric] by simp
  then have poll: "tty_poll t = tty_poll (tty_char c ?t1)"
    by (subst tty_poll.simps) (simp add: Let_def g)
  have ok1: "tty_ok ?t1" using Cons.prems kb.get_ok [OF kb] by (simp add: tty_ok_def)
  have l1: "tty_line ?t1 = tty_line t" by (simp add: tty_line_def)
  note step = tty_char_refines [OF ok1, of c "[]"]
  have q2: "kb_queue (tty_kb (tty_char c ?t1)) = cs" using step g(2) by simp
  obtain t' where t': "tty_poll (tty_char c ?t1) = Some t'" "tty_ok t'" "kb_queue (tty_kb t') = []"
    "tty_line t' = fst (fold cook cs (fst ?r, []))"
    "rbuf_queue t' = take 1023 (take 1023 (rbuf_queue t @ snd ?r) @ snd (fold cook cs (fst ?r, [])))"
    using Cons.hyps(1) [of "tty_char c ?t1"] step q2 l1 by auto
  have split: "fold cook cs ?r = (fst (fold cook cs (fst ?r, [])), snd ?r @ snd (fold cook cs (fst ?r, [])))"
    using fold_cook_out [of cs "fst ?r" "snd ?r" "[]"] by simp
  have "rbuf_queue t' = take 1023 (rbuf_queue t @ snd ?r @ snd (fold cook cs (fst ?r, [])))"
    unfolding t'(5) by (simp only: take_take_append append_assoc)
  with t' poll split show ?case by (simp add: Cons.hyps(2) [symmetric])
qed

section \<open>Reading\<close>

text \<open>The first line of a queue with its newline, or all of it.\<close>

fun first_line :: "u8 list \<Rightarrow> u8 list" where
  "first_line [] = []"
| "first_line (c # cs) = c # (if c = 10 then [] else first_line cs)"

lemma tty_read_loop_line:
  "rbuf_ok t \<Longrightarrow> k = sz - length acc \<Longrightarrow> length acc < sz \<Longrightarrow> 10 \<in> set (rbuf_queue t) \<or> k \<le> length (rbuf_queue t) \<Longrightarrow>
   \<exists>t'. tty_read_loop yield sz acc e t = Some (e, t', acc @ take k (first_line (rbuf_queue t))) \<and> rbuf_ok t' \<and>
     rbuf_queue t' = drop (length (take k (first_line (rbuf_queue t)))) (rbuf_queue t)"
proof (induction "rbuf_queue t" arbitrary: t acc k)
  case Nil
  then show ?case by auto
next
  case (Cons c cs)
  let ?t = "fst (rbuf_pop t)"
  have g: "snd (rbuf_pop t) = uint c" "rbuf_queue ?t = cs"
    using rb.get_queue [OF Cons.prems(1)] Cons.hyps(2) [symmetric] by blast+
  have av: "rbuf_avail t > 0" using rbuf_avail_queue [OF Cons.prems(1)] Cons.hyps(2) by auto
  have ok: "rbuf_ok ?t" by (rule rb.get_ok [OF Cons.prems(1)])
  have nn: "\<not> uint c < 0" using uint_nonnegative [of c] by linarith
  have "k \<noteq> 0" using Cons.prems(2,3) by simp
  then obtain k' where k: "k = Suc k'" using not0_implies_Suc by blast
  have loop: "tty_read_loop yield sz acc e t =
      (if c = 10 then Some (e, ?t, acc @ [c]) else tty_read_loop yield sz (acc @ [c]) e ?t)"
    using av Cons.prems(3) nn by (subst tty_read_loop.simps) (simp add: Let_def g)
  show ?case
  proof (cases "c = 10 \<or> k' = 0")
    case True
    have "length acc + 1 = sz" if "k' = 0" using that k Cons.prems(2) by simp
    then have "tty_read_loop yield sz (acc @ [c]) e ?t = Some (e, ?t, acc @ [c])" if "k' = 0"
      using that by (subst tty_read_loop.simps) simp
    with True loop g ok show ?thesis by (auto simp: Cons.hyps(2) [symmetric] k)
  next
    case False
    have hyp: "10 \<in> set (rbuf_queue ?t) \<or> k' \<le> length (rbuf_queue ?t)"
      using Cons.prems(4) False by (auto simp: Cons.hyps(2) [symmetric] g k)
    have "k' = sz - length (acc @ [c])" "length (acc @ [c]) < sz" using k Cons.prems(2) False by auto
    from Cons.hyps(1) [OF g(2) [symmetric] ok this hyp] loop False show ?thesis
      by (auto simp: Cons.hyps(2) [symmetric] k g)
  qed
qed

section \<open>Properties\<close>

text \<open>A terminal on which \<open>h i x\<close>, backspace and return have been typed.\<close>

definition tty_demo :: tty_state where
  "tty_demo = \<lparr>lbuf = replicate 256 0, lbuf_len = 0, rbuf = replicate 1024 0, rbuf_head = 0, rbuf_tail = 0,
     tty_kb = \<lparr>kb_buf = [0x68, 0x69, 0x78, 8, 10] @ replicate 251 0, kb_head = 5, kb_tail = 0\<rparr>,
     tty_vga = \<lparr>vga_buf = replicate 2000 0, vga_col = 0, vga_row = 0, vga_out = []\<rparr>\<rparr>"

definition tty_demo2 :: tty_state where
  "tty_demo2 = tty_demo\<lparr>rbuf := [0x68, 0x69, 10, 0x78] @ replicate 1020 0, rbuf_tail := 4,
     lbuf := 0x78 # replicate 255 0, lbuf_len := 1\<rparr>"

lemma tty_demo_ok: "tty_ok tty_demo" "tty_ok tty_demo2"
  by (simp_all add: tty_ok_def tty_demo_def tty_demo2_def rbuf_ok_def kb_ok_def ring_ok_def vga_ok_def)

lemma tty_demo_queues:
  "kb_queue (tty_kb tty_demo) = [0x68, 0x69, 0x78, 8, 10]" "rbuf_queue tty_demo = []" "tty_line tty_demo = []"
  "rbuf_queue tty_demo2 = [0x68, 0x69, 10, 0x78]"
  by (simp_all add: kb_queue_def rbuf_queue_def tty_line_def tty_demo_def tty_demo2_def ring_queue_def
      ring_used_def upt_rec)

theorem tty_poll_line_discipline_witness:
  "\<exists>t'. tty_poll tty_demo = Some t' \<and> tty_line t' = [] \<and> rbuf_queue t' = [0x68, 0x69, 10]"
  using tty_poll_line_discipline [OF tty_demo_ok(1)] by (auto simp: tty_demo_queues cook_def)

text \<open>C34. A read from the terminal that finds a full line, or enough bytes, returns without giving up
  the processor: it returns the first line (or the part of it that fits the request) and consumes
  exactly what it returns.\<close>

theorem tty_read_line:
  assumes "tty_ok t" and "sz \<noteq> 0" and "10 \<in> set (rbuf_queue t) \<or> unat sz \<le> length (rbuf_queue t)"
  shows "\<exists>t'. tty_read yield sz e t = Some (e, t', take (unat sz) (first_line (rbuf_queue t))) \<and>
    rbuf_queue t' = drop (length (take (unat sz) (first_line (rbuf_queue t)))) (rbuf_queue t)"
proof -
  have "rbuf_ok t" "length [] < unat sz" using assms by (simp_all add: tty_ok_def unat_gt_0)
  then have "\<exists>t'. tty_read_loop yield (unat sz) [] e t =
        Some (e, t', [] @ take (unat sz) (first_line (rbuf_queue t))) \<and> rbuf_ok t' \<and>
      rbuf_queue t' = drop (length (take (unat sz) (first_line (rbuf_queue t)))) (rbuf_queue t)"
    using assms(3) by (intro tty_read_loop_line) simp_all
  with assms(2) show ?thesis by (auto simp: tty_read_def)
qed

theorem tty_read_line_witness:
  "\<exists>t'. tty_read (\<lambda>e t. (e, t)) 64 () tty_demo2 = Some ((), t', [0x68, 0x69, 10]) \<and> rbuf_queue t' = [0x78]"
  using tty_read_line [OF tty_demo_ok(2), of 64 "\<lambda>e t. (e, t)" "()"] by (auto simp: tty_demo_queues)

text \<open>The console does not interpret the backspace that the line discipline echoes: erasing a
  character moves the cursor three cells forward and leaves every cell before it as it was, the
  erased character included.\<close>

theorem tty_backspace_echo:
  assumes "tty_ok t" and "lbuf_len t \<noteq> 0" and "vga_col (tty_vga t) < 77"
  shows "vga_col (tty_vga (tty_char 8 t)) = vga_col (tty_vga t) + 3 \<and>
    vga_row (tty_vga (tty_char 8 t)) = vga_row (tty_vga t) \<and>
    (\<forall>i. int i < vga_row (tty_vga t) * 80 + vga_col (tty_vga t) \<longrightarrow>
       vga_buf (tty_vga (tty_char 8 t)) ! i = vga_buf (tty_vga t) ! i)"
proof -
  have "vga_ok (tty_vga t)" using assms(1) by (simp add: tty_ok_def)
  moreover have "tty_vga (tty_char 8 t) = vga_putchar 8 (vga_putchar 32 (vga_putchar 8 (tty_vga t)))"
    using assms(2) by (simp add: tty_char_def word_gt_0)
  ultimately show ?thesis
    using assms(3) by (auto simp: vga_putchar_step vga_step_def vga_newline_if_full_def vga_ok_def)
qed

theorem tty_backspace_echo_witness:
  "vga_col (tty_vga (tty_char 8 tty_demo2)) = 3"
  using tty_backspace_echo [OF tty_demo_ok(2)] by (simp add: tty_demo2_def tty_demo_def)

end
