(* ===== verification/Kstring.thy ===== *)
theory Kstring
  imports Prelude
begin

text \<open>
  The C string routines of the kernel (\<^verbatim>\<open>src/lib/string.c\<close>) and of the user-space library
  (\<^verbatim>\<open>userspace/libc/string.c\<close>), and the number formatting of \<^verbatim>\<open>src/lib/printf.c\<close>. Pointers are 64-bit
  words into a byte memory; a loop that runs until a zero byte is a partial function. The routines
  that the two files share line by line are modelled once.
\<close>

type_synonym i64 = u64

type_synonym mem = "u64 \<Rightarrow> u8"

section \<open>Memory blocks\<close>

fun memset :: "u64 \<Rightarrow> int \<Rightarrow> nat \<Rightarrow> mem \<Rightarrow> mem" where
  "memset p c 0 m = m"
| "memset p c (Suc n) m = memset (p + 1) c n (m(p := of_int c))"

fun memcpy :: "u64 \<Rightarrow> u64 \<Rightarrow> nat \<Rightarrow> mem \<Rightarrow> mem" where
  "memcpy d s 0 m = m"
| "memcpy d s (Suc n) m = memcpy (d + 1) (s + 1) n (m(d := m s))"

fun copy_down :: "u64 \<Rightarrow> u64 \<Rightarrow> nat \<Rightarrow> mem \<Rightarrow> mem" where
  "copy_down d s 0 m = m"
| "copy_down d s (Suc n) m = copy_down (d - 1) (s - 1) n (m(d - 1 := m (s - 1)))"

definition memmove :: "u64 \<Rightarrow> u64 \<Rightarrow> nat \<Rightarrow> mem \<Rightarrow> mem" where
  "memmove d s n m =
     (if d < s then memcpy d s n m
      else if d > s then copy_down (d + of_nat n) (s + of_nat n) n m
      else m)"

definition libc_memmove :: "u64 \<Rightarrow> u64 \<Rightarrow> nat \<Rightarrow> mem \<Rightarrow> mem" where
  "libc_memmove d s n m =
     (if d < s then memcpy d s n m else copy_down (d + of_nat n) (s + of_nat n) n m)"

fun memcmp :: "u64 \<Rightarrow> u64 \<Rightarrow> nat \<Rightarrow> mem \<Rightarrow> int" where
  "memcmp p q 0 m = 0"
| "memcmp p q (Suc n) m = (if m p \<noteq> m q then uint (m p) - uint (m q) else memcmp (p + 1) (q + 1) n m)"

section \<open>Strings\<close>

partial_function (option) strlen_loop :: "u64 \<Rightarrow> nat \<Rightarrow> mem \<Rightarrow> nat option" where
  "strlen_loop s len m = (if m s = 0 then Some len else strlen_loop (s + 1) (Suc len) m)"

definition strlen :: "u64 \<Rightarrow> mem \<Rightarrow> nat option" where
  "strlen s m = strlen_loop s 0 m"

partial_function (option) strcmp :: "u64 \<Rightarrow> u64 \<Rightarrow> mem \<Rightarrow> int option" where
  "strcmp a b m =
     (if m a \<noteq> 0 \<and> m a = m b then strcmp (a + 1) (b + 1) m else Some (uint (m a) - uint (m b)))"

partial_function (option) strcpy :: "u64 \<Rightarrow> u64 \<Rightarrow> mem \<Rightarrow> mem option" where
  "strcpy d s m =
     (let m' = m(d := m s) in if m s = 0 then Some m' else strcpy (d + 1) (s + 1) m')"

text \<open>\<^verbatim>\<open>while (n && (*dst++ = *src++)) n--;\<close>: the count is not decremented for the terminator.\<close>

fun strncpy_copy :: "u64 \<Rightarrow> u64 \<Rightarrow> nat \<Rightarrow> mem \<Rightarrow> u64 \<times> nat \<times> mem" where
  "strncpy_copy d s 0 m = (d, 0, m)"
| "strncpy_copy d s (Suc n) m =
     (if m s = 0 then (d + 1, Suc n, m(d := m s))
      else strncpy_copy (d + 1) (s + 1) n (m(d := m s)))"

definition strncpy :: "u64 \<Rightarrow> u64 \<Rightarrow> nat \<Rightarrow> mem \<Rightarrow> mem" where
  "strncpy d s n m = (case strncpy_copy d s n m of (d', n', m') \<Rightarrow> memset d' 0 n' m')"

fun strncmp :: "u64 \<Rightarrow> u64 \<Rightarrow> nat \<Rightarrow> mem \<Rightarrow> int" where
  "strncmp a b 0 m = 0"
| "strncmp a b (Suc n) m =
     (let diff = uint (m a) - uint (m b)
      in if diff \<noteq> 0 \<or> m a = 0 then diff else strncmp (a + 1) (b + 1) n m)"

text \<open>The user-space \<^verbatim>\<open>strncmp\<close>: \<^verbatim>\<open>while (n-- && *a && *a == *b) { a++; b++; }\<close>. The loop
  returns the 64-bit counter after its last decrement together with the two pointers.\<close>

fun libc_strncmp_loop :: "u64 \<Rightarrow> u64 \<Rightarrow> nat \<Rightarrow> mem \<Rightarrow> u64 \<times> u64 \<times> u64" where
  "libc_strncmp_loop a b 0 m = (0 - 1, a, b)"
| "libc_strncmp_loop a b (Suc n) m =
     (if m a \<noteq> 0 \<and> m a = m b then libc_strncmp_loop (a + 1) (b + 1) n m else (of_nat n, a, b))"

definition libc_strncmp :: "u64 \<Rightarrow> u64 \<Rightarrow> nat \<Rightarrow> mem \<Rightarrow> int" where
  "libc_strncmp a b n m =
     (case libc_strncmp_loop a b n m of (n', a', b') \<Rightarrow>
        if n' = 0 then 0 else uint (m a') - uint (m b'))"

partial_function (option) libc_strend :: "u64 \<Rightarrow> mem \<Rightarrow> u64 option" where
  "libc_strend p m = (if m p \<noteq> 0 then libc_strend (p + 1) m else Some p)"

definition libc_strcat :: "u64 \<Rightarrow> u64 \<Rightarrow> mem \<Rightarrow> mem option" where
  "libc_strcat d s m = Option.bind (libc_strend d m) (\<lambda>p. strcpy p s m)"

partial_function (option) libc_strchr :: "u64 \<Rightarrow> int \<Rightarrow> mem \<Rightarrow> u64 option" where
  "libc_strchr s c m =
     (if m s \<noteq> 0 then (if m s = of_int c then Some s else libc_strchr (s + 1) c m)
      else Some (if c = 0 then s else 0))"

section \<open>Lemmas on blocks\<close>

definition in_block :: "u64 \<Rightarrow> nat \<Rightarrow> u64 \<Rightarrow> bool" where
  "in_block d n a \<longleftrightarrow> unat d \<le> unat a \<and> unat a < unat d + n"

definition fits :: "u64 \<Rightarrow> nat \<Rightarrow> bool" where
  "fits d n \<longleftrightarrow> unat d + n \<le> 2 ^ 64"

lemma in_block_0 [simp]: "\<not> in_block d 0 a"
  by (simp add: in_block_def)

lemma in_block_1 [simp]: "in_block d (Suc 0) a \<longleftrightarrow> a = d"
  by (auto simp: in_block_def word_unat_eq_iff)

lemma unat_Suc: "unat d + Suc n \<le> 2 ^ 64 \<Longrightarrow> 0 < n \<Longrightarrow> unat (d + 1) = Suc (unat d)" for d :: u64
  by (simp add: unat_word_ariths)

lemma in_block_Suc:
  assumes "fits d (Suc n)"
  shows "in_block d (Suc n) a \<longleftrightarrow> a = d \<or> in_block (d + 1) n a"
proof (cases "n = 0")
  case True
  then show ?thesis by (auto simp: in_block_def word_unat_eq_iff)
next
  case False
  then have "unat (d + 1) = Suc (unat d)" using assms by (intro unat_Suc) (auto simp: fits_def)
  then show ?thesis by (auto simp: in_block_def word_unat_eq_iff)
qed

lemma fits_Suc: "fits d (Suc n) \<Longrightarrow> 0 < n \<Longrightarrow> fits (d + 1) n"
  by (simp add: fits_def unat_word_ariths)

lemma memset_block:
  "fits p n \<Longrightarrow> memset p c n m = (\<lambda>a. if in_block p n a then of_int c else m a)"
proof (induction n arbitrary: p m)
  case 0
  then show ?case by simp
next
  case (Suc n)
  show ?case
  proof (cases "n = 0")
    case True
    then show ?thesis by (auto simp: fun_eq_iff)
  next
    case False
    then have IH: "memset (p + 1) c n (m(p := of_int c)) =
        (\<lambda>a. if in_block (p + 1) n a then of_int c else (m(p := of_int c)) a)"
      using Suc fits_Suc by blast
    show ?thesis using IH by (auto simp: fun_eq_iff in_block_Suc [OF Suc.prems])
  qed
qed

text \<open>Upward copying is right when the destination is below the source (or they do not overlap).\<close>

lemma memcpy_block:
  assumes "fits d n" and "fits s n" and "unat d \<le> unat s \<or> unat s + n \<le> unat d"
  shows "memcpy d s n m = (\<lambda>a. if in_block d n a then m (s + (a - d)) else m a)"
  using assms
proof (induction n arbitrary: d s m)
  case 0
  then show ?case by simp
next
  case (Suc n)
  show ?case
  proof (cases "n = 0")
    case True
    then show ?thesis by (auto simp: fun_eq_iff)
  next
    case False
    let ?m = "m(d := m s)"
    have d1: "unat (d + 1) = Suc (unat d)" and s1: "unat (s + 1) = Suc (unat s)"
      using Suc.prems False by (auto simp: fits_def intro!: unat_Suc)
    have IH: "memcpy (d + 1) (s + 1) n ?m =
        (\<lambda>a. if in_block (d + 1) n a then ?m (s + 1 + (a - (d + 1))) else ?m a)"
      using Suc.prems False d1 s1 by (intro Suc.IH fits_Suc) auto
    have src: "?m (s + 1 + (a - (d + 1))) = m (s + (a - d))" if "in_block (d + 1) n a" for a
    proof -
      have lt: "unat d < unat a" "unat a < unat d + Suc n" using that d1 by (auto simp: in_block_def)
      then have "unat (a - d) = unat a - unat d" by (simp add: unat_sub word_le_nat_alt)
      then have "unat (s + (a - d)) = unat s + (unat a - unat d)"
        using lt Suc.prems(2) by (simp add: unat_word_ariths fits_def)
      then have "s + (a - d) \<noteq> d" using lt Suc.prems(3) by (auto simp: word_unat_eq_iff)
      then show ?thesis by (simp add: algebra_simps)
    qed
    show ?thesis unfolding memcpy.simps IH
    proof (rule ext)
      fix a
      show "(if in_block (d + 1) n a then ?m (s + 1 + (a - (d + 1))) else ?m a) =
          (if in_block d (Suc n) a then m (s + (a - d)) else m a)"
        using src [of a] by (cases "in_block (d + 1) n a") (simp_all add: in_block_Suc [OF Suc.prems(1)])
    qed
  qed
qed

lemma unat_plus: "fits d n \<Longrightarrow> i < n \<Longrightarrow> unat (d + of_nat i) = unat d + i"
proof -
  assume a: "fits d n" "i < n"
  then have "unat d + i < 2 ^ 64" by (simp add: fits_def)
  then show ?thesis by (simp add: unat_word_ariths unat_of_nat)
qed

lemma in_block_last:
  assumes "fits d (Suc n)"
  shows "in_block d (Suc n) a \<longleftrightarrow> a = d + of_nat n \<or> in_block d n a"
proof -
  have "unat (d + of_nat n) = unat d + n" using assms by (intro unat_plus) auto
  then show ?thesis by (auto simp: in_block_def word_unat_eq_iff)
qed

text \<open>Downward copying is right when the destination is not below the source.\<close>

lemma copy_down_block:
  assumes "fits d n" and "fits s n" and "unat s \<le> unat d"
  shows "copy_down (d + of_nat n) (s + of_nat n) n m = (\<lambda>a. if in_block d n a then m (s + (a - d)) else m a)"
  using assms(1,2)
proof (induction n arbitrary: m)
  case 0
  then show ?case by simp
next
  case (Suc n)
  have dn: "unat (d + of_nat n) = unat d + n" using Suc.prems(1) by (intro unat_plus) auto
  let ?m = "m(d + of_nat n := m (s + of_nat n))"
  have IH: "copy_down (d + of_nat n) (s + of_nat n) n ?m = (\<lambda>a. if in_block d n a then ?m (s + (a - d)) else ?m a)"
    using Suc.prems by (intro Suc.IH) (auto simp: fits_def)
  have src: "?m (s + (a - d)) = m (s + (a - d))" if "in_block d n a" for a
  proof -
    have lt: "unat d \<le> unat a" "unat a < unat d + n" using that by (auto simp: in_block_def)
    then have "unat (a - d) = unat a - unat d" by (simp add: unat_sub word_le_nat_alt)
    then have "unat (s + (a - d)) = unat s + (unat a - unat d)"
      using lt Suc.prems(2) by (simp add: unat_word_ariths fits_def)
    then have "unat (s + (a - d)) \<noteq> unat d + n" using lt assms(3) by simp
    then have "s + (a - d) \<noteq> d + of_nat n" using dn by metis
    then show ?thesis by (rule fun_upd_other)
  qed
  have "copy_down (d + of_nat (Suc n)) (s + of_nat (Suc n)) (Suc n) m = copy_down (d + of_nat n) (s + of_nat n) n ?m"
    by (simp add: algebra_simps)
  then show ?case unfolding IH
    using src by (auto simp: fun_eq_iff in_block_last [OF Suc.prems(1)])
qed

section \<open>Lemmas on strings\<close>

lemma strncpy_copy_short:
  assumes "k < n" and "fits s (Suc k)" and "fits d (Suc k)"
    and "\<forall>i<k. m (s + of_nat i) \<noteq> 0" and "m (s + of_nat k) = 0"
    and "\<forall>i\<le>k. \<not> in_block d k (s + of_nat i)"
  shows "\<exists>m'. strncpy_copy d s n m = (d + of_nat (Suc k), n - k, m')"
  using assms
proof (induction k arbitrary: d s n m)
  case 0
  then obtain n' where "n = Suc n'" by (cases n) auto
  with 0 show ?case by simp
next
  case (Suc k)
  obtain n' where n: "n = Suc n'" "k < n'" using Suc.prems(1) by (cases n) auto
  let ?m = "m(d := m s)"
  have sd: "s + of_nat i \<noteq> d" if "i \<le> Suc k" for i
  proof -
    have "in_block d (Suc k) d" by (simp add: in_block_def)
    then show ?thesis using Suc.prems(6) that by metis
  qed
  have eq: "?m (s + 1 + of_nat i) = m (s + of_nat (Suc i))" if "i \<le> k" for i
    using sd [of "Suc i"] that by (auto simp: algebra_simps)
  have "m s \<noteq> 0" using spec [OF Suc.prems(4), of 0] by simp
  moreover have "\<exists>m'. strncpy_copy (d + 1) (s + 1) n' ?m = (d + 1 + of_nat (Suc k), n' - k, m')"
  proof (rule Suc.IH [OF n(2)])
    show "fits (s + 1) (Suc k)" "fits (d + 1) (Suc k)" using Suc.prems(2,3) fits_Suc by blast+
    show "\<forall>i<k. ?m (s + 1 + of_nat i) \<noteq> 0"
    proof (intro allI impI)
      fix i assume "i < k"
      then show "?m (s + 1 + of_nat i) \<noteq> 0" using eq [of i] spec [OF Suc.prems(4), of "Suc i"] by (simp only: less_imp_le Suc_less_eq) blast
    qed
    show "?m (s + 1 + of_nat k) = 0" using eq [of k] Suc.prems(5) by (simp only: order_refl)
    show "\<forall>i\<le>k. \<not> in_block (d + 1) k (s + 1 + of_nat i)"
    proof (intro allI impI)
      fix i assume "i \<le> k"
      then have "\<not> in_block d (Suc k) (s + of_nat (Suc i))" using Suc.prems(6) by blast
      moreover have "fits d (Suc k)" using Suc.prems(3) by (simp add: fits_def)
      ultimately show "\<not> in_block (d + 1) k (s + 1 + of_nat i)"
        by (simp add: in_block_Suc algebra_simps)
    qed
  qed
  ultimately show ?case by (simp add: n algebra_simps)
qed

lemma strncmp_prefix:
  assumes "\<forall>i<n. m (a + of_nat i) \<noteq> 0 \<and> m (a + of_nat i) = m (b + of_nat i)"
  shows "strncmp a b (n + k) m = strncmp (a + of_nat n) (b + of_nat n) k m \<and>
    libc_strncmp_loop a b (n + k) m = libc_strncmp_loop (a + of_nat n) (b + of_nat n) k m"
  using assms
proof (induction n arbitrary: a b)
  case (Suc n)
  have h: "m a \<noteq> 0" "m a = m b" using spec [OF Suc.prems, of 0] by auto
  have t: "\<forall>i<n. m (a + 1 + of_nat i) \<noteq> 0 \<and> m (a + 1 + of_nat i) = m (b + 1 + of_nat i)"
  proof (intro allI impI)
    fix i assume "i < n"
    then have "Suc i < Suc n" by simp
    with Suc.prems have "m (a + of_nat (Suc i)) \<noteq> 0 \<and> m (a + of_nat (Suc i)) = m (b + of_nat (Suc i))" by blast
    then show "m (a + 1 + of_nat i) \<noteq> 0 \<and> m (a + 1 + of_nat i) = m (b + 1 + of_nat i)"
      by (auto simp: algebra_simps)
  qed
  show ?case using Suc.IH [OF t] h by (simp add: algebra_simps)
qed simp_all

section \<open>Number formatting\<close>

text \<open>\<^verbatim>\<open>emit_uint\<close> fills a buffer of digits from the least significant one and prints it backwards. The
  output is the list of emitted characters. The loop ends for a base above 1; the 64-byte buffer is
  large enough for every base of 2 or more.\<close>

definition digits_lo :: "u8 list" where
  "digits_lo = [0x30, 0x31, 0x32, 0x33, 0x34, 0x35, 0x36, 0x37, 0x38, 0x39, 0x61, 0x62, 0x63, 0x64, 0x65, 0x66]"

definition digits_hi :: "u8 list" where
  "digits_hi = [0x30, 0x31, 0x32, 0x33, 0x34, 0x35, 0x36, 0x37, 0x38, 0x39, 0x41, 0x42, 0x43, 0x44, 0x45, 0x46]"

partial_function (option) emit_loop :: "u8 list \<Rightarrow> u64 \<Rightarrow> u64 \<Rightarrow> u8 list \<Rightarrow> u8 list option" where
  "emit_loop digits base val buf =
     (if val = 0 then Some buf
      else emit_loop digits base (val div base) (buf @ [digits ! unat (val mod base)]))"

definition emit_uint :: "u64 \<Rightarrow> u64 \<Rightarrow> bool \<Rightarrow> u8 list option" where
  "emit_uint val base upper =
     (let digits = (if upper then digits_hi else digits_lo)
      in if val = 0 then Some [0x30] else map_option rev (emit_loop digits base val []))"

definition emit_int :: "i64 \<Rightarrow> u8 list option" where
  "emit_int val =
     (if val <s 0 then map_option (\<lambda>ds. 0x2D # ds) (emit_uint (- val) 10 False) else emit_uint val 10 False)"

text \<open>The arguments of a call, and the format interpreter. \<open>None\<close> stands for the undefined cases: an
  argument of another type, and a read past the end of the format after a trailing percent sign.\<close>

datatype karg = KStr "u8 list option" | KInt u32 | KPtr u64

definition emit_str :: "u8 list option \<Rightarrow> u8 list" where
  "emit_str s = (case s of None \<Rightarrow> [0x28, 0x6E, 0x75, 0x6C, 0x29] | Some cs \<Rightarrow> cs)"

fun vkprintf :: "u8 list \<Rightarrow> karg list \<Rightarrow> u8 list option" where
  "vkprintf [] ap = Some []"
| "vkprintf (c # fmt) ap =
     (if c \<noteq> 0x25 then map_option (\<lambda>out. c # out) (vkprintf fmt ap)
      else case fmt of
        [] \<Rightarrow> None
      | f # fmt' \<Rightarrow>
          (if f = 0x73 then (case ap of KStr s # ap' \<Rightarrow> map_option (\<lambda>out. emit_str s @ out) (vkprintf fmt' ap') | _ \<Rightarrow> None)
           else if f = 0x64 then (case ap of KInt v # ap' \<Rightarrow>
               Option.bind (emit_int (scast v)) (\<lambda>ds. map_option (\<lambda>out. ds @ out) (vkprintf fmt' ap')) | _ \<Rightarrow> None)
           else if f = 0x75 then (case ap of KInt v # ap' \<Rightarrow>
               Option.bind (emit_uint (ucast v) 10 False) (\<lambda>ds. map_option (\<lambda>out. ds @ out) (vkprintf fmt' ap')) | _ \<Rightarrow> None)
           else if f = 0x78 then (case ap of KInt v # ap' \<Rightarrow>
               Option.bind (emit_uint (ucast v) 16 False) (\<lambda>ds. map_option (\<lambda>out. ds @ out) (vkprintf fmt' ap')) | _ \<Rightarrow> None)
           else if f = 0x58 then (case ap of KInt v # ap' \<Rightarrow>
               Option.bind (emit_uint (ucast v) 16 True) (\<lambda>ds. map_option (\<lambda>out. ds @ out) (vkprintf fmt' ap')) | _ \<Rightarrow> None)
           else if f = 0x70 then (case ap of KPtr v # ap' \<Rightarrow>
               Option.bind (emit_uint v 16 False) (\<lambda>ds. map_option (\<lambda>out. [0x30, 0x78] @ ds @ out) (vkprintf fmt' ap')) | _ \<Rightarrow> None)
           else if f = 0x63 then (case ap of KInt v # ap' \<Rightarrow>
               map_option (\<lambda>out. ucast v # out) (vkprintf fmt' ap') | _ \<Rightarrow> None)
           else if f = 0x25 then map_option (\<lambda>out. 0x25 # out) (vkprintf fmt' ap)
           else map_option (\<lambda>out. [0x25, f] @ out) (vkprintf fmt' ap)))"

text \<open>Reading a number back.\<close>

definition digit_val :: "u8 \<Rightarrow> nat" where
  "digit_val c = (if c < 0x3A then unat c - 0x30 else if c < 0x47 then unat c - 0x37 else unat c - 0x57)"

definition parse_num :: "nat \<Rightarrow> u8 list \<Rightarrow> nat" where
  "parse_num base ds = foldl (\<lambda>v c. v * base + digit_val c) 0 ds"

lemma digit_val_digits: "i < 16 \<Longrightarrow> digit_val (digits_lo ! i) = i \<and> digit_val (digits_hi ! i) = i"
proof -
  assume "i < 16"
  then have "i \<in> set [0..<16]" by simp
  moreover have "\<forall>i \<in> set [0..<16]. digit_val (digits_lo ! i) = i \<and> digit_val (digits_hi ! i) = i"
    by (simp add: upt_rec digits_lo_def digits_hi_def digit_val_def)
  ultimately show ?thesis by blast
qed

lemma emit_loop_digits:
  assumes "2 \<le> unat base" and "unat base \<le> 16" and "\<And>i. i < 16 \<Longrightarrow> digit_val (digits ! i) = i"
  shows "\<exists>ds. emit_loop digits base val buf = Some (buf @ ds) \<and> parse_num (unat base) (rev ds) = unat val"
proof (induction "unat val" arbitrary: val buf rule: less_induct)
  case less
  show ?case
  proof (cases "val = 0")
    case True
    then show ?thesis by (subst emit_loop.simps) (simp add: parse_num_def)
  next
    case False
    let ?d = "digits ! unat (val mod base)"
    have dv: "unat (val div base) = unat val div unat base" and md: "unat (val mod base) = unat val mod unat base"
      by (simp_all add: unat_div unat_mod)
    have "unat (val div base) < unat val" using False assms(1) by (simp add: dv unat_gt_0)
    from less [OF this, of "buf @ [?d]"] obtain ds where
      ds: "emit_loop digits base (val div base) (buf @ [?d]) = Some ((buf @ [?d]) @ ds)"
        "parse_num (unat base) (rev ds) = unat val div unat base" unfolding dv by blast
    have "unat val mod unat base < unat base" using assms(1) by (intro mod_less_divisor) simp
    then have "unat (val mod base) < 16" using assms(2) by (simp add: md)
    then have "parse_num (unat base) (rev (?d # ds)) = unat val div unat base * unat base + unat val mod unat base"
      using ds(2) assms(3) by (simp add: parse_num_def md)
    then show ?thesis using False ds(1) by (subst emit_loop.simps) (auto intro!: exI [of _ "?d # ds"])
  qed
qed

section \<open>Properties\<close>

text \<open>C31. Both \<^verbatim>\<open>memmove\<close>s copy correctly for every overlap of two blocks that do not wrap around the
  address space: the destination holds the old contents of the source, all other bytes keep theirs.\<close>

theorem memmove_correct:
  assumes "fits d n" and "fits s n"
  shows "memmove d s n m = (\<lambda>a. if in_block d n a then m (s + (a - d)) else m a) \<and>
    libc_memmove d s n m = memmove d s n m"
proof (cases "d < s")
  case True
  then have "unat d \<le> unat s" by (simp add: word_less_nat_alt)
  with True assms show ?thesis by (simp add: memmove_def libc_memmove_def memcpy_block)
next
  case False
  then have le: "unat s \<le> unat d" by (simp add: word_less_nat_alt)
  note down = copy_down_block [OF assms le]
  show ?thesis
  proof (cases "d = s")
    case True
    then show ?thesis using down by (auto simp: memmove_def libc_memmove_def fun_eq_iff)
  next
    case ne: False
    with False have "s < d" by simp
    with False show ?thesis by (simp add: memmove_def libc_memmove_def down)
  qed
qed

theorem memmove_correct_witness:
  "memmove 101 100 3 (\<lambda>a. ucast a) 103 = 102 \<and> memmove 99 100 3 (\<lambda>a. ucast a) 99 = 100"
proof -
  have "memmove 101 100 3 (\<lambda>a. ucast a) = (\<lambda>a. if in_block 101 3 a then ucast (100 + (a - 101)) else ucast a)"
    using memmove_correct [of 101 3 100 "\<lambda>a. ucast a"] by (simp add: fits_def)
  moreover have "memmove 99 100 3 (\<lambda>a. ucast a) = (\<lambda>a. if in_block 99 3 a then ucast (100 + (a - 99)) else ucast a)"
    using memmove_correct [of 99 3 100 "\<lambda>a. ucast a"] by (simp add: fits_def)
  ultimately show ?thesis by (simp add: in_block_def)
qed

text \<open>C35. Number formatting ends and round trips: reading the digits that \<^verbatim>\<open>emit_uint\<close> prints in base 10
  or 16, in either case, gives the number back.\<close>

theorem emit_uint_round_trip:
  assumes "base = 10 \<or> base = 16"
  shows "\<exists>ds. emit_uint val base upper = Some ds \<and> ds \<noteq> [] \<and> parse_num (unat base) ds = unat val"
proof (cases "val = 0")
  case True
  then show ?thesis by (simp add: emit_uint_def parse_num_def digit_val_def)
next
  case False
  let ?digits = "if upper then digits_hi else digits_lo"
  have "2 \<le> unat base" "unat base \<le> 16" using assms by auto
  moreover have "\<And>i. i < 16 \<Longrightarrow> digit_val (?digits ! i) = i" using digit_val_digits by simp
  ultimately obtain ds where
    ds: "emit_loop ?digits base val [] = Some ([] @ ds)" "parse_num (unat base) (rev ds) = unat val"
    using emit_loop_digits by blast
  have "ds \<noteq> []" using ds(2) False by (auto simp: parse_num_def unat_eq_zero)
  with ds False show ?thesis by (simp add: emit_uint_def Let_def)
qed

theorem emit_uint_round_trip_witness:
  "\<exists>ds. emit_uint 0xBEEF 16 True = Some ds \<and> parse_num 16 ds = 0xBEEF"
  using emit_uint_round_trip [of 16 "0xBEEF" True] by auto

text \<open>\<^verbatim>\<open>strncpy\<close> with a source shorter than the limit writes one byte more than the limit: the byte
  just behind the destination buffer becomes zero.\<close>

theorem strncpy_writes_past_end:
  assumes "k < n" and "fits s (Suc k)" and "fits d (Suc n)"
    and "\<forall>i<k. m (s + of_nat i) \<noteq> 0" and "m (s + of_nat k) = 0"
    and "\<forall>i\<le>k. \<not> in_block d (Suc n) (s + of_nat i)"
  shows "\<not> in_block d n (d + of_nat n) \<and> strncpy d s n m (d + of_nat n) = 0"
proof -
  have sub: "in_block d k a \<Longrightarrow> in_block d (Suc n) a" for a using assms(1) by (auto simp: in_block_def)
  have fk: "fits d (Suc k)" using assms(1,3) by (simp add: fits_def)
  obtain m' where m': "strncpy_copy d s n m = (d + of_nat (Suc k), n - k, m')"
    using strncpy_copy_short [OF assms(1,2) fk assms(4,5)] assms(6) sub by blast
  have dn: "unat (d + of_nat n) = unat d + n" using assms(3) by (intro unat_plus) auto
  have dk: "unat (d + of_nat (Suc k)) = unat d + Suc k" using assms(1,3) by (intro unat_plus) auto
  have "fits (d + of_nat (Suc k)) (n - k)" using assms(1,3) dk by (simp add: fits_def)
  then have "strncpy d s n m = (\<lambda>a. if in_block (d + of_nat (Suc k)) (n - k) a then of_int 0 else m' a)"
    by (simp add: strncpy_def m' memset_block)
  moreover have "in_block (d + of_nat (Suc k)) (n - k) (d + of_nat n)"
    using assms(1) dn dk by (simp only: in_block_def) simp
  ultimately show ?thesis using dn by (simp add: in_block_def)
qed

lemma le_2_cases: "i \<le> 2 \<longleftrightarrow> i = 0 \<or> i = 1 \<or> i = 2" for i :: nat
  by auto

theorem strncpy_writes_past_end_witness:
  "strncpy 200 100 4 (\<lambda>a. if a = 102 then 0 else 0x41) 204 = 0"
  using strncpy_writes_past_end [of 2 4 100 200 "\<lambda>a. if a = 102 then 0 else 0x41"]
  by (simp add: fits_def in_block_def less_2_cases_iff le_2_cases)

text \<open>The user-space \<^verbatim>\<open>strncmp\<close> reports equality for strings whose first difference is in the last
  compared character, where the kernel's one reports the difference.\<close>

theorem libc_strncmp_misses_last:
  assumes "\<forall>i<n. m (a + of_nat i) \<noteq> 0 \<and> m (a + of_nat i) = m (b + of_nat i)"
    and "m (a + of_nat n) \<noteq> m (b + of_nat n)"
  shows "libc_strncmp a b (n + 1) m = 0 \<and> strncmp a b (n + 1) m \<noteq> 0"
  using strncmp_prefix [OF assms(1), of 1] assms(2)
  by (simp add: libc_strncmp_def Let_def word_uint_eq_iff)

theorem libc_strncmp_misses_last_witness:
  "libc_strncmp 100 200 (2 + 1) (\<lambda>a. if a = 102 then 0x43 else 0x41) = 0 \<and>
   strncmp 100 200 (2 + 1) (\<lambda>a. if a = 102 then 0x43 else 0x41) \<noteq> 0"
  by (rule libc_strncmp_misses_last) (simp_all add: less_2_cases_iff)

end
