(* ===== verification/Slots.thy ===== *)
theory Slots
  imports Prelude
begin

text \<open>
  Fixed tables with a used flag per slot, searched from the start for the first free one: inodes, file
  descriptors, process ids, TCP connections, sockets. The interface below is what the code that asks
  for a slot relies on; each table's theory interprets it.
\<close>

fun take_slots :: "('s \<Rightarrow> ('s \<times> nat) option) \<Rightarrow> nat \<Rightarrow> 's \<Rightarrow> ('s \<times> nat list) option" where
  "take_slots alloc 0 s = Some (s, [])"
| "take_slots alloc (Suc k) s =
     (case alloc s of None \<Rightarrow> None
      | Some (s', i) \<Rightarrow> map_option (\<lambda>(s'', is). (s'', i # is)) (take_slots alloc k s'))"

locale slot_table =
  fixes alloc :: "'s \<Rightarrow> ('s \<times> nat) option"
    and used :: "'s \<Rightarrow> nat set"
    and ok :: "'s \<Rightarrow> bool"
    and slots :: "nat set"
  assumes finite_slots: "finite slots"
    and alloc_some: "ok s \<Longrightarrow> alloc s = Some (s', i) \<Longrightarrow>
          i \<in> slots \<and> i \<notin> used s \<and> (\<forall>j \<in> slots. j < i \<longrightarrow> j \<in> used s) \<and> used s' = insert i (used s) \<and> ok s'"
    and alloc_none: "ok s \<Longrightarrow> alloc s = None \<Longrightarrow> slots \<subseteq> used s"
begin

lemma alloc_least: "ok s \<Longrightarrow> alloc s = Some (s', i) \<Longrightarrow> i = (LEAST j. j \<in> slots \<and> j \<notin> used s)"
proof -
  assume "ok s" "alloc s = Some (s', i)"
  then have a: "i \<in> slots" "i \<notin> used s" "\<And>j. j \<in> slots \<Longrightarrow> j < i \<Longrightarrow> j \<in> used s"
    using alloc_some by blast+
  show ?thesis by (rule Least_equality [symmetric]) (use a in \<open>auto intro: leI\<close>)
qed

lemma alloc_succeeds: "ok s \<Longrightarrow> i \<in> slots \<Longrightarrow> i \<notin> used s \<Longrightarrow> \<exists>s' j. alloc s = Some (s', j)"
  using alloc_none [of s] by (cases "alloc s") auto

text \<open>Slots handed out one after another are distinct and were all free.\<close>

lemma take_slots_distinct:
  "ok s \<Longrightarrow> take_slots alloc k s = Some (s', is) \<Longrightarrow>
   length is = k \<and> distinct is \<and> set is \<subseteq> slots - used s \<and> used s' = used s \<union> set is \<and> ok s'"
proof (induction k arbitrary: s "is")
  case 0
  then show ?case by simp
next
  case (Suc k)
  from Suc.prems(2) obtain s1 i js where a: "alloc s = Some (s1, i)"
    and t: "take_slots alloc k s1 = Some (s', js)" and "is": "is = i # js"
    by (auto split: option.splits)
  note one = alloc_some [OF Suc.prems(1) a]
  from Suc.IH [OF _ t] one show ?case by (auto simp: "is")
qed

lemma take_slots_succeeds:
  "ok s \<Longrightarrow> k \<le> card (slots - used s) \<Longrightarrow> take_slots alloc k s \<noteq> None"
proof (induction k arbitrary: s)
  case 0
  then show ?case by simp
next
  case (Suc k)
  have "slots - used s \<noteq> {}" using Suc.prems(2) by (metis card.empty not_less_eq_eq le0)
  then obtain s1 i where a: "alloc s = Some (s1, i)" using alloc_succeeds [OF Suc.prems(1)] by blast
  note one = alloc_some [OF Suc.prems(1) a]
  have "slots - used s = insert i (slots - used s1)" "i \<notin> slots - used s1" using one by auto
  then have "card (slots - used s) = Suc (card (slots - used s1))"
    using finite_slots by (metis card_insert_disjoint finite_Diff)
  then have "k \<le> card (slots - used s1)" using Suc.prems(2) by simp
  then show ?case using Suc.IH one a by auto
qed

end

end
