(* ===== verification/Tmpfs.thy ===== *)
theory Tmpfs
  imports Slots
begin

text \<open>
  The in-memory file system, \<^verbatim>\<open>src/tmpfs/tmpfs.c\<close>: a pool of 64 inodes, directories as arrays of inode
  references, file contents in a heap block that grows on writes past the end. An inode pointer is the
  index of the inode in the pool; names are the bytes before the terminator. \<open>krealloc\<close> is an argument
  (the block it returns, or \<open>None\<close>), with its contract as a named hypothesis. A copy that leaves the
  data block is the error value \<open>OutOfBounds\<close>.
\<close>

section \<open>Nodes and inodes\<close>

definition VFS_FILE :: u32 where [simp]: "VFS_FILE = 0x01"
definition VFS_DIR :: u32 where [simp]: "VFS_DIR = 0x02"
definition VFS_CHARDEV :: u32 where [simp]: "VFS_CHARDEV = 0x04"
definition VFS_MOUNTPOINT :: u32 where [simp]: "VFS_MOUNTPOINT = 0x20"
definition VFS_NAME_MAX :: nat where [simp]: "VFS_NAME_MAX = 128"
definition VFS_MAX_FS :: nat where [simp]: "VFS_MAX_FS = 8"
definition VFS_MAX_FDS :: nat where [simp]: "VFS_MAX_FDS = 64"

text \<open>The operation tables the kernel defines, and what the \<^verbatim>\<open>ptr\<close> field of a node holds: a node of the
  node pool, or the table that \<^verbatim>\<open>devfs_init\<close> stashes there.\<close>

datatype ops = TmpfsOps | DevDirOps | NullOps | ZeroOps | TtyOps

datatype node_ptr = PtrNull | PtrNode nat | PtrOps ops

record vfs_node =
  nd_name :: "u8 list"
  nd_flags :: u32
  nd_inode :: u32
  nd_size :: u32
  nd_uid :: u32
  nd_gid :: u32
  nd_mask :: u32
  nd_ops :: "ops option"
  nd_ptr :: node_ptr

definition TMPFS_MAX_NODES :: nat where [simp]: "TMPFS_MAX_NODES = 64"
definition TMPFS_MAX_CHILDREN :: nat where [simp]: "TMPFS_MAX_CHILDREN = 16"
definition TMPFS_MAX_FILE_SIZE :: u32 where [simp]: "TMPFS_MAX_FILE_SIZE = 65536"

record tmpfs_inode =
  in_name :: "u8 list"
  in_flags :: u32
  in_data :: "u8 list"      \<comment> \<open>the heap block; empty for NULL\<close>
  in_size :: u32
  in_children :: "nat list"  \<comment> \<open>array of inode indices\<close>
  in_count :: u32
  in_used :: bool

type_synonym inode_pool = "tmpfs_inode list"

text \<open>\<^verbatim>\<open>strncpy(dst, src, n)\<close> into an array of \<^verbatim>\<open>n + 1\<close> bytes whose last byte is zero.\<close>

definition store_name :: "nat \<Rightarrow> u8 list \<Rightarrow> u8 list" where
  "store_name n s = take n s"

section \<open>Operations\<close>

definition alloc_inode :: "inode_pool \<Rightarrow> (inode_pool \<times> nat) option" where
  "alloc_inode ip =
     (case scan (\<lambda>i. \<not> in_used (ip ! i)) TMPFS_MAX_NODES of
        Some i \<Rightarrow> Some (ip[i := (ip ! i)\<lparr>in_used := True, in_count := 0, in_data := [], in_size := 0\<rparr>], i)
      | None \<Rightarrow> None)"

definition inode_to_node :: "inode_pool \<Rightarrow> nat \<Rightarrow> vfs_node" where
  "inode_to_node ip i =
     \<lparr>nd_name = store_name (VFS_NAME_MAX - 1) (in_name (ip ! i)), nd_flags = in_flags (ip ! i), nd_inode = of_nat i,
      nd_size = in_size (ip ! i), nd_uid = 0, nd_gid = 0, nd_mask = 0x1ED, nd_ops = Some TmpfsOps, nd_ptr = PtrNull\<rparr>"

definition node_to_inode :: "vfs_node \<Rightarrow> nat option" where
  "node_to_inode node = (if unat (nd_inode node) \<ge> TMPFS_MAX_NODES then None else Some (unat (nd_inode node)))"

definition tmpfs_read :: "inode_pool \<Rightarrow> vfs_node \<Rightarrow> u32 \<Rightarrow> u32 \<Rightarrow> mem_err + int \<times> u8 list" where
  "tmpfs_read ip node offset sz =
     (case node_to_inode node of None \<Rightarrow> Inr (-1, [])
      | Some i \<Rightarrow>
          if in_flags (ip ! i) AND VFS_FILE = 0 then Inr (-1, [])
          else if offset \<ge> in_size (ip ! i) then Inr (0, [])
          else let avail = in_size (ip ! i) - offset;
                   n = (if sz < avail then sz else avail)
               in if unat offset + unat n \<le> length (in_data (ip ! i))
                  then Inr (sint n, take (unat n) (drop (unat offset) (in_data (ip ! i))))
                  else Inl OutOfBounds)"

definition overwrite :: "u8 list \<Rightarrow> nat \<Rightarrow> u8 list \<Rightarrow> u8 list" where
  "overwrite block off bs = take off block @ bs @ drop (off + length bs) block"

text \<open>The growing part of \<^verbatim>\<open>tmpfs_write\<close>: \<open>None\<close> when \<^verbatim>\<open>krealloc\<close> fails.\<close>

definition tmpfs_grow :: "(u8 list \<Rightarrow> nat \<Rightarrow> u8 list option) \<Rightarrow> tmpfs_inode \<Rightarrow> u32 \<Rightarrow> u32 \<Rightarrow> tmpfs_inode option" where
  "tmpfs_grow krealloc ino offset end =
     (case krealloc (in_data ino) (unat end) of None \<Rightarrow> None
      | Some newdata \<Rightarrow>
          let newdata = (if offset > in_size ino
                         then overwrite newdata (unat (in_size ino)) (replicate (unat (offset - in_size ino)) 0)
                         else newdata)
          in Some (ino\<lparr>in_data := newdata, in_size := end\<rparr>))"

definition tmpfs_write :: "(u8 list \<Rightarrow> nat \<Rightarrow> u8 list option) \<Rightarrow> inode_pool \<Rightarrow> vfs_node \<Rightarrow> u32 \<Rightarrow> u8 list \<Rightarrow>
    mem_err + inode_pool \<times> vfs_node \<times> int" where
  "tmpfs_write krealloc ip node offset buf =
     (let sz = (of_nat (length buf) :: u32)
      in case node_to_inode node of None \<Rightarrow> Inr (ip, node, -1)
      | Some i \<Rightarrow>
          if in_flags (ip ! i) AND VFS_FILE = 0 then Inr (ip, node, -1)
          else let end = offset + sz
               in if end > TMPFS_MAX_FILE_SIZE then Inr (ip, node, -1)
                  else case (if end > in_size (ip ! i) then tmpfs_grow krealloc (ip ! i) offset end
                             else Some (ip ! i)) of
                    None \<Rightarrow> Inr (ip, node, -1)
                  | Some ino' \<Rightarrow>
                      let node' = (if end > in_size (ip ! i) then node\<lparr>nd_size := end\<rparr> else node)
                      in if unat offset + length buf \<le> length (in_data ino')
                         then Inr (ip[i := ino'\<lparr>in_data := overwrite (in_data ino') (unat offset) buf\<rparr>],
                                   node', sint sz)
                         else Inl OutOfBounds)"

definition tmpfs_readdir :: "inode_pool \<Rightarrow> vfs_node \<Rightarrow> u32 \<Rightarrow> vfs_node option" where
  "tmpfs_readdir ip node index =
     (case node_to_inode node of None \<Rightarrow> None
      | Some i \<Rightarrow>
          if in_flags (ip ! i) AND VFS_DIR = 0 then None
          else if index \<ge> in_count (ip ! i) then None
          else Some (inode_to_node ip (in_children (ip ! i) ! unat index)))"

definition tmpfs_finddir :: "inode_pool \<Rightarrow> vfs_node \<Rightarrow> u8 list \<Rightarrow> vfs_node option" where
  "tmpfs_finddir ip node nm =
     (case node_to_inode node of None \<Rightarrow> None
      | Some i \<Rightarrow>
          if in_flags (ip ! i) AND VFS_DIR = 0 then None
          else map_option (\<lambda>k. inode_to_node ip (in_children (ip ! i) ! k))
                 (scan (\<lambda>k. in_name (ip ! (in_children (ip ! i) ! k)) = nm) (unat (in_count (ip ! i)))))"

definition tmpfs_mount :: "inode_pool \<Rightarrow> vfs_node list \<Rightarrow> (inode_pool \<times> vfs_node list) option" where
  "tmpfs_mount ip nodes =
     (case alloc_inode ip of None \<Rightarrow> None
      | Some (ip, i) \<Rightarrow>
          let ip = ip[i := (ip ! i)\<lparr>in_name := store_name 127 [0x2F], in_flags := VFS_DIR\<rparr>]
          in Some (ip, nodes[0 := inode_to_node ip i]))"

definition tmpfs_create :: "inode_pool \<Rightarrow> vfs_node \<Rightarrow> u8 list \<Rightarrow> u32 \<Rightarrow> inode_pool \<times> nat option" where
  "tmpfs_create ip parent nm fl =
     (case node_to_inode parent of None \<Rightarrow> (ip, None)
      | Some p \<Rightarrow>
          if in_flags (ip ! p) AND VFS_DIR = 0 then (ip, None)
          else if unat (in_count (ip ! p)) \<ge> TMPFS_MAX_CHILDREN then (ip, None)
          else case alloc_inode ip of None \<Rightarrow> (ip, None)
               | Some (ip, i) \<Rightarrow>
                   let ip = ip[i := (ip ! i)\<lparr>in_name := store_name 127 nm, in_flags := fl\<rparr>];
                       pin = ip ! p;
                       pin = pin\<lparr>in_children := (in_children pin)[unat (in_count pin) := i],
                                 in_count := in_count pin + 1\<rparr>
                   in (ip[p := pin], Some i))"

section \<open>Invariant\<close>

definition inode_ok :: "inode_pool \<Rightarrow> tmpfs_inode \<Rightarrow> bool" where
  "inode_ok ip n \<longleftrightarrow> length (in_children n) = 16 \<and> length (in_name n) \<le> 127 \<and>
     (in_used n \<longrightarrow> length (in_data n) = unat (in_size n) \<and> in_size n \<le> 65536 \<and> unat (in_count n) \<le> 16 \<and>
        (\<forall>k < unat (in_count n). in_children n ! k < 64 \<and> in_used (ip ! (in_children n ! k))))"

definition tmpfs_ok :: "inode_pool \<Rightarrow> bool" where
  "tmpfs_ok ip \<longleftrightarrow> length ip = 64 \<and> (\<forall>i < 64. inode_ok ip (ip ! i))"

definition used_inodes :: "inode_pool \<Rightarrow> nat set" where
  "used_inodes ip = {i. i < 64 \<and> in_used (ip ! i)}"

lemma inode_ok_mono:
  "inode_ok ip n \<Longrightarrow> (\<And>j. j < 64 \<Longrightarrow> in_used (ip ! j) \<Longrightarrow> in_used (ip' ! j)) \<Longrightarrow> inode_ok ip' n"
  by (auto simp: inode_ok_def)

text \<open>Replacing one inode keeps the invariant if the new one is well formed and not less used.\<close>

lemma tmpfs_ok_update:
  assumes "tmpfs_ok ip" and "inode_ok ip n" and "in_used (ip ! i) \<Longrightarrow> in_used n"
  shows "tmpfs_ok (ip[i := n])"
proof -
  have len: "length ip = 64" using assms(1) by (simp add: tmpfs_ok_def)
  have up: "in_used (ip ! j) \<Longrightarrow> in_used (ip[i := n] ! j)" if "j < 64" for j
    using that assms(3) len by (cases "i = j") auto
  have "inode_ok (ip[i := n]) (ip[i := n] ! j)" if "j < 64" for j
  proof (cases "i = j")
    case True
    then show ?thesis using inode_ok_mono [OF assms(2) up] that len by simp
  next
    case False
    have "inode_ok ip (ip ! j)" using assms(1) that by (simp add: tmpfs_ok_def)
    from inode_ok_mono [OF this up] show ?thesis using False by simp
  qed
  then show ?thesis using len by (simp add: tmpfs_ok_def)
qed

lemma alloc_inode_some:
  assumes "tmpfs_ok ip" and "alloc_inode ip = Some (ip', i)"
  shows "i < 64 \<and> \<not> in_used (ip ! i) \<and> (\<forall>j < i. in_used (ip ! j)) \<and> tmpfs_ok ip' \<and>
    ip' = ip[i := (ip ! i)\<lparr>in_used := True, in_count := 0, in_data := [], in_size := 0\<rparr>]"
proof -
  have i: "i < 64" "\<not> in_used (ip ! i)" "\<forall>j < i. in_used (ip ! j)"
    and ip': "ip' = ip[i := (ip ! i)\<lparr>in_used := True, in_count := 0, in_data := [], in_size := 0\<rparr>]"
    using assms(2) by (auto simp: alloc_inode_def scan_Some_iff split: option.splits)
  have "inode_ok ip (ip ! i)" using assms(1) i(1) by (simp add: tmpfs_ok_def)
  then have "tmpfs_ok ip'" unfolding ip' by (intro tmpfs_ok_update assms) (auto simp: inode_ok_def)
  with i ip' show ?thesis by simp
qed

interpretation inodes: slot_table alloc_inode used_inodes tmpfs_ok "{..<64}"
proof
  show "finite {..<64::nat}" by simp
  fix s s' i assume ok: "tmpfs_ok s"
  show "i \<in> {..<64} \<and> i \<notin> used_inodes s \<and> (\<forall>j\<in>{..<64}. j < i \<longrightarrow> j \<in> used_inodes s) \<and>
      used_inodes s' = insert i (used_inodes s) \<and> tmpfs_ok s'" if "alloc_inode s = Some (s', i)"
    using alloc_inode_some [OF ok that] ok by (auto simp: used_inodes_def tmpfs_ok_def nth_list_update)
  show "{..<64} \<subseteq> used_inodes s" if "alloc_inode s = None"
    using that by (auto simp: alloc_inode_def used_inodes_def scan_None_iff split: option.splits)
qed

section \<open>File contents\<close>

text \<open>The contract of \<^verbatim>\<open>krealloc\<close> in \<^verbatim>\<open>src/heap/heap.h\<close>: the new block has the requested size and
  starts with the old contents. Its other bytes are arbitrary.\<close>

definition realloc_ok :: "(u8 list \<Rightarrow> nat \<Rightarrow> u8 list option) \<Rightarrow> bool" where
  "realloc_ok kr \<longleftrightarrow> (\<forall>old n new. kr old n = Some new \<longrightarrow>
     length new = n \<and> take (min (length old) n) new = take (min (length old) n) old)"

text \<open>Writing to a file on byte lists: a gap behind the end reads as zeros.\<close>

definition write_file :: "u8 list \<Rightarrow> nat \<Rightarrow> u8 list \<Rightarrow> u8 list" where
  "write_file c off bs = take off (c @ replicate (off - length c) 0) @ bs @ drop (off + length bs) c"

definition read_file :: "u8 list \<Rightarrow> nat \<Rightarrow> nat \<Rightarrow> u8 list" where
  "read_file c off n = take n (drop off c)"

lemma read_write_same: "read_file (write_file c off bs) off (length bs) = bs"
  by (simp add: read_file_def write_file_def)

lemma length_write_file: "length (write_file c off bs) = max (off + length bs) (length c)"
  by (auto simp: write_file_def max_def)

lemma grow_contents:
  assumes "realloc_ok kr" and "length (in_data n) = unat (in_size n)" and "in_size n < end"
    and "tmpfs_grow kr n offset end = Some n'" and "unat offset + length bs = unat end"
  shows "in_size n' = end \<and> length (in_data n') = unat end \<and>
    overwrite (in_data n') (unat offset) bs = write_file (in_data n) (unat offset) bs \<and>
    n' = n\<lparr>in_data := in_data n', in_size := end\<rparr>"
proof -
  let ?c = "in_data n" and ?o = "unat offset" and ?l = "length (in_data n)"
  obtain new where new: "kr ?c (unat end) = Some new"
    and n': "n' = n\<lparr>in_data := (if offset > in_size n
       then overwrite new (unat (in_size n)) (replicate (unat (offset - in_size n)) 0) else new), in_size := end\<rparr>"
    using assms(4) by (auto simp: tmpfs_grow_def Let_def split: option.splits)
  have lt: "?l < unat end" using assms(2,3) by (simp add: word_less_nat_alt)
  have nl: "length new = unat end" and nc: "take ?l new = ?c"
    using assms(1) new lt by (auto simp: realloc_ok_def min_def dest!: spec)
  show ?thesis
  proof (cases "offset > in_size n")
    case True
    then have gt: "?l < ?o" using assms(2) by (simp add: word_less_nat_alt)
    have d: "unat (offset - in_size n) = ?o - ?l"
      using True assms(2) by (simp add: unat_sub word_less_nat_alt word_le_nat_alt)
    have data: "in_data n' = ?c @ replicate (?o - ?l) 0 @ drop ?o new"
      using True gt nc assms(2) by (simp add: n' overwrite_def d)
    then have "length (in_data n') = unat end" using nl gt assms(5) by simp
    moreover have "overwrite (in_data n') ?o bs = write_file ?c ?o bs"
      using gt nl assms(5) by (simp add: data overwrite_def write_file_def)
    ultimately show ?thesis by (simp add: n')
  next
    case False
    then have le: "?o \<le> ?l" using assms(2) by (simp add: word_less_nat_alt)
    have "take ?o new = take ?o ?c" using nc le by (metis min.absorb1 take_take)
    then show ?thesis using False nl le lt assms(5) by (simp add: n' overwrite_def write_file_def)
  qed
qed

lemma sint_small: "unat n \<le> 65536 \<Longrightarrow> sint n = int (unat n)" for n :: u32
proof -
  assume le: "unat n \<le> 65536"
  then have u: "uint n \<le> 65536" by (metis of_nat_le_iff of_nat_numeral uint_nat)
  have "uint n div 2147483648 = 0" using u by (simp add: div_pos_pos_trivial)
  then have "\<not> bit (uint n) 31" by (simp add: bit_iff_odd)
  moreover have "take_bit 32 (uint n) = uint n" using u by (simp add: take_bit_int_eq_self)
  ultimately have "signed_take_bit 31 (uint n) = uint n"
    by (simp add: signed_take_bit_eq_take_bit_minus)
  then have "sint n = uint n" by (simp add: sint_uint)
  then show ?thesis by simp
qed

text \<open>A write inside the size limit to a regular file: it either fails because the heap is exhausted,
  changing nothing, or it updates the contents of that file only.\<close>

lemma tmpfs_write_effect:
  assumes ok: "tmpfs_ok ip" and kr: "realloc_ok kr" and i: "node_to_inode node = Some i"
    and reg: "in_used (ip ! i)" "in_flags (ip ! i) AND VFS_FILE \<noteq> 0"
    and fit: "unat offset + length buf \<le> 65536"
  shows "(kr (in_data (ip ! i)) (unat offset + length buf) = None \<and>
            tmpfs_write kr ip node offset buf = Inr (ip, node, -1)) \<or>
    (\<exists>n' z node'. tmpfs_write kr ip node offset buf = Inr (ip[i := n'], node', int (length buf)) \<and>
       (ip ! i)\<lparr>in_data := write_file (in_data (ip ! i)) (unat offset) buf, in_size := z\<rparr> = n' \<and>
       tmpfs_ok (ip[i := n']) \<and>
       (node' = node \<or> node' = node\<lparr>nd_size := offset + of_nat (length buf)\<rparr>))"
proof -
  have i64: "i < 64" using i by (auto simp: node_to_inode_def split: if_splits)
  then have io: "inode_ok ip (ip ! i)" using ok by (simp add: tmpfs_ok_def)
  have len: "length (in_data (ip ! i)) = unat (in_size (ip ! i))" using io reg(1) by (simp add: inode_ok_def)
  let ?sz = "of_nat (length buf) :: u32" and ?fin = "offset + of_nat (length buf)"
  have sz: "unat ?sz = length buf" using fit by (simp add: unat_of_nat)
  have en: "unat ?fin = unat offset + length buf" using fit by (simp add: unat_word_ariths sz)
  have le: "\<not> ?fin > 65536" using fit by (simp add: word_less_nat_alt en)
  have ret: "sint ?sz = int (length buf)" using sint_small [of ?sz] fit by (simp add: sz)
  have okn: "tmpfs_ok (ip[i := (ip ! i)\<lparr>in_data := d, in_size := z\<rparr>])" if "length d = unat z" "z \<le> 65536" for d z
    using that io ok by (intro tmpfs_ok_update) (auto simp: inode_ok_def)
  show ?thesis
  proof (cases "?fin > in_size (ip ! i)")
    case True
    show ?thesis
    proof (cases "tmpfs_grow kr (ip ! i) offset ?fin")
      case None
      then have "kr (in_data (ip ! i)) (unat offset + length buf) = None"
        by (auto simp: tmpfs_grow_def en Let_def split: option.splits)
      with None True le reg(2) i show ?thesis by (simp add: tmpfs_write_def Let_def)
    next
      case (Some n1)
      note g = grow_contents [OF kr len True Some, of buf]
      let ?d = "write_file (in_data (ip ! i)) (unat offset) buf"
      have g1: "in_size n1 = ?fin" "length (in_data n1) = unat ?fin" "overwrite (in_data n1) (unat offset) buf = ?d"
        "n1 = (ip ! i)\<lparr>in_data := in_data n1, in_size := ?fin\<rparr>" using g en by auto
      have w: "tmpfs_write kr ip node offset buf = Inr (ip[i := n1\<lparr>in_data := ?d\<rparr>], node\<lparr>nd_size := ?fin\<rparr>, int (length buf))"
        using Some True le reg(2) i g1 en ret by (simp add: tmpfs_write_def Let_def)
      have n1: "n1\<lparr>in_data := ?d\<rparr> = (ip ! i)\<lparr>in_data := ?d, in_size := ?fin\<rparr>" by (subst g1(4)) simp
      have "length ?d = unat ?fin" using True len en by (simp add: length_write_file word_less_nat_alt)
      then have "tmpfs_ok (ip[i := n1\<lparr>in_data := ?d\<rparr>])" unfolding n1 using le by (intro okn) auto
      with w n1 show ?thesis
        by (intro disjI2 exI [of _ "n1\<lparr>in_data := ?d\<rparr>"] exI [of _ ?fin] exI [of _ "node\<lparr>nd_size := ?fin\<rparr>"]) simp
    qed
  next
    case False
    then have fits: "unat offset + length buf \<le> length (in_data (ip ! i))" by (simp add: len word_less_nat_alt en)
    let ?d = "write_file (in_data (ip ! i)) (unat offset) buf"
    have ow: "overwrite (in_data (ip ! i)) (unat offset) buf = ?d" using fits by (simp add: overwrite_def write_file_def)
    have w: "tmpfs_write kr ip node offset buf = Inr (ip[i := (ip ! i)\<lparr>in_data := ?d\<rparr>], node, int (length buf))"
      using False le reg(2) i fits ow ret by (simp add: tmpfs_write_def Let_def)
    have "length ?d = unat (in_size (ip ! i))" using fits len by (simp add: length_write_file)
    then have "tmpfs_ok (ip[i := (ip ! i)\<lparr>in_data := ?d\<rparr>])"
      using okn [of ?d "in_size (ip ! i)"] io reg(1) by (simp add: inode_ok_def)
    with w show ?thesis
      by (intro disjI2 exI [of _ "(ip ! i)\<lparr>in_data := ?d\<rparr>"] exI [of _ "in_size (ip ! i)"] exI [of _ node]) simp
  qed
qed

lemma tmpfs_write_succeeds:
  assumes "tmpfs_ok ip" and "realloc_ok kr" and "node_to_inode node = Some i" and "in_used (ip ! i)"
    and "in_flags (ip ! i) AND VFS_FILE \<noteq> 0" and "unat offset + length buf \<le> 65536"
    and "kr (in_data (ip ! i)) (unat offset + length buf) \<noteq> None"
  obtains z node' where "tmpfs_write kr ip node offset buf =
      Inr (ip[i := (ip ! i)\<lparr>in_data := write_file (in_data (ip ! i)) (unat offset) buf, in_size := z\<rparr>], node', int (length buf))"
    and "tmpfs_ok (ip[i := (ip ! i)\<lparr>in_data := write_file (in_data (ip ! i)) (unat offset) buf, in_size := z\<rparr>])"
    and "node' = node \<or> node' = node\<lparr>nd_size := offset + of_nat (length buf)\<rparr>"
proof (rule disjE [OF tmpfs_write_effect [OF assms(1-6)]], goal_cases)
  case 1
  with assms(7) show ?case by simp
next
  case 2
  then show ?case by (elim exE conjE) (hypsubst, rule that)
qed

lemma tmpfs_read_effect:
  assumes ok: "tmpfs_ok ip" and i: "node_to_inode node = Some i"
    and reg: "in_used (ip ! i)" "in_flags (ip ! i) AND VFS_FILE \<noteq> 0"
  shows "tmpfs_read ip node offset sz =
    Inr (int (length (read_file (in_data (ip ! i)) (unat offset) (unat sz))),
         read_file (in_data (ip ! i)) (unat offset) (unat sz))"
proof -
  have i64: "i < 64" using i by (auto simp: node_to_inode_def split: if_splits)
  then have len: "length (in_data (ip ! i)) = unat (in_size (ip ! i))" and max: "unat (in_size (ip ! i)) \<le> 65536"
    using ok reg(1) by (auto simp: tmpfs_ok_def inode_ok_def word_le_nat_alt)
  show ?thesis
  proof (cases "offset \<ge> in_size (ip ! i)")
    case True
    then show ?thesis using i reg(2) len by (simp add: tmpfs_read_def read_file_def word_le_nat_alt)
  next
    case False
    let ?av = "in_size (ip ! i) - offset" and ?c = "in_data (ip ! i)"
    let ?n = "if sz < ?av then sz else ?av"
    have av: "unat ?av = length ?c - unat offset" "unat offset < length ?c"
      using False len by (simp_all add: unat_sub word_le_nat_alt)
    have n: "unat ?n = min (unat sz) (length ?c - unat offset)"
      using av by (auto simp: word_less_nat_alt)
    have "unat offset + unat ?n \<le> length ?c" using n av by simp
    moreover have "sint ?n = int (unat ?n)" using n max len by (intro sint_small) simp
    moreover have "take (min (unat sz) (length ?c - unat offset)) (drop (unat offset) ?c) =
        take (unat sz) (drop (unat offset) ?c)" by (simp add: min_def)
    ultimately show ?thesis
      using False i reg(2) n by (simp add: tmpfs_read_def read_file_def Let_def min.commute)
  qed
qed

section \<open>Directories\<close>

text \<open>The entries of a directory, in creation order.\<close>

definition dir_entries :: "inode_pool \<Rightarrow> nat \<Rightarrow> nat list" where
  "dir_entries ip p = take (unat (in_count (ip ! p))) (in_children (ip ! p))"

lemma node_inode_bound: "node_to_inode node = Some i \<Longrightarrow> i < 64"
  by (auto simp: node_to_inode_def split: if_splits)

lemma used_children:
  assumes "tmpfs_ok ip" and "p < 64" and "in_used (ip ! p)"
  shows "length (in_children (ip ! p)) = 16" "unat (in_count (ip ! p)) \<le> 16"
    "\<And>i. i \<in> set (dir_entries ip p) \<Longrightarrow> i < 64 \<and> in_used (ip ! i)"
proof -
  have io: "inode_ok ip (ip ! p)" using assms by (simp add: tmpfs_ok_def)
  then show "length (in_children (ip ! p)) = 16" "unat (in_count (ip ! p)) \<le> 16"
    using assms(3) by (auto simp: inode_ok_def)
  show "\<And>i. i \<in> set (dir_entries ip p) \<Longrightarrow> i < 64 \<and> in_used (ip ! i)"
    using io assms(3) by (auto simp: inode_ok_def dir_entries_def in_set_conv_nth)
qed

lemma find_scan: "(case scan (\<lambda>k. P (xs ! k)) (length xs) of Some k \<Rightarrow> Some (xs ! k) | None \<Rightarrow> None) = find P xs"
proof (cases "scan (\<lambda>k. P (xs ! k)) (length xs)")
  case None
  then have "find P xs = None" by (auto simp: scan_None_iff find_None_iff in_set_conv_nth)
  with None show ?thesis by simp
next
  case (Some k)
  then have "find P xs = Some (xs ! k)"
    unfolding find_Some_iff by (intro exI [of _ k]) (simp add: scan_Some_iff)
  with Some show ?thesis by simp
qed

text \<open>Looking up a name is a search of the entries.\<close>

lemma tmpfs_finddir_find:
  assumes "tmpfs_ok ip" and "node_to_inode node = Some p" and "in_used (ip ! p)" and "in_flags (ip ! p) AND VFS_DIR \<noteq> 0"
  shows "tmpfs_finddir ip node nm =
    map_option (inode_to_node ip) (find (\<lambda>i. in_name (ip ! i) = nm) (dir_entries ip p))"
proof -
  have b: "unat (in_count (ip ! p)) \<le> length (in_children (ip ! p))"
    using used_children(1,2) [OF assms(1) node_inode_bound [OF assms(2)] assms(3)] by simp
  let ?n = "unat (in_count (ip ! p))" and ?xs = "dir_entries ip p"
  have len: "length ?xs = ?n" using b by (simp add: dir_entries_def)
  have "scan (\<lambda>k. in_name (ip ! (in_children (ip ! p) ! k)) = nm) ?n = scan (\<lambda>k. in_name (ip ! (?xs ! k)) = nm) (length ?xs)"
    unfolding len by (rule scan_cong) (simp add: dir_entries_def)
  moreover have "map_option (\<lambda>k. inode_to_node ip (in_children (ip ! p) ! k)) (scan (\<lambda>k. in_name (ip ! (?xs ! k)) = nm) (length ?xs))
      = map_option (inode_to_node ip) (find (\<lambda>i. in_name (ip ! i) = nm) ?xs)"
    (is "map_option ?f ?s = _")
  proof (cases ?s)
    case None
    then show ?thesis unfolding find_scan [symmetric] by simp
  next
    case (Some k)
    then have "k < ?n" using scan_SomeD len by fastforce
    then have "in_children (ip ! p) ! k = ?xs ! k" by (simp add: dir_entries_def)
    with Some show ?thesis unfolding find_scan [symmetric] by simp
  qed
  ultimately show ?thesis using assms(2,4) by (simp add: tmpfs_finddir_def)
qed

lemma tmpfs_create_effect:
  assumes "tmpfs_ok ip" and "node_to_inode parent = Some p" and "in_used (ip ! p)"
    and "tmpfs_create ip parent nm fl = (ip', Some i)"
  shows "tmpfs_ok ip'" and "i < 64" and "\<not> in_used (ip ! i)" and "in_used (ip' ! i)"
    and "dir_entries ip' p = dir_entries ip p @ [i]"
    and "in_name (ip' ! i) = take 127 nm \<and> in_flags (ip' ! i) = fl \<and> in_data (ip' ! i) = []"
    and "\<And>j. j < 64 \<Longrightarrow> j \<noteq> i \<Longrightarrow> j \<noteq> p \<Longrightarrow> ip' ! j = ip ! j"
    and "in_name (ip' ! p) = in_name (ip ! p) \<and> in_flags (ip' ! p) = in_flags (ip ! p) \<and> in_used (ip' ! p)"
proof -
  have p: "p < 64" by (rule node_inode_bound [OF assms(2)])
  obtain ip1 where al: "alloc_inode ip = Some (ip1, i)" and c: "unat (in_count (ip ! p)) < 16"
    using assms(2,4) by (auto simp: tmpfs_create_def Let_def split: if_splits option.splits)
  note a = alloc_inode_some [OF assms(1) al]
  have ne: "i \<noteq> p" using a assms(3) by auto
  let ?n = "(ip ! i)\<lparr>in_used := True, in_count := 0, in_data := [], in_size := 0, in_name := take 127 nm, in_flags := fl\<rparr>"
  let ?p = "(ip ! p)\<lparr>in_children := (in_children (ip ! p))[unat (in_count (ip ! p)) := i], in_count := in_count (ip ! p) + 1\<rparr>"
  have len: "length ip = 64" using assms(1) by (simp add: tmpfs_ok_def)
  have ip': "ip' = ip[i := ?n, p := ?p]"
    using assms(2,4) a al ne c len
    by (auto simp: tmpfs_create_def Let_def store_name_def split: if_splits)
  have cnt: "unat (in_count (ip ! p) + 1) = Suc (unat (in_count (ip ! p)))" using c by (simp add: unat_word_ariths)
  have ok1: "tmpfs_ok (ip[i := ?n])"
    using assms(1) a by (intro tmpfs_ok_update) (auto simp: inode_ok_def tmpfs_ok_def)
  have up: "in_used (ip ! j) \<Longrightarrow> in_used (ip[i := ?n] ! j)" if "j < 64" for j
    using that len by (cases "i = j") auto
  have iop: "inode_ok ip (ip ! p)" using assms(1) p by (simp add: tmpfs_ok_def)
  have "inode_ok (ip[i := ?n]) (ip ! p)" using inode_ok_mono [OF iop up] by blast
  then have okp: "inode_ok (ip[i := ?n]) ?p"
    using assms(3) a c cnt len by (auto simp: inode_ok_def less_Suc_eq)
  show "tmpfs_ok ip'" unfolding ip' by (rule tmpfs_ok_update [OF ok1 okp]) (simp add: assms(3))
  show "i < 64" "\<not> in_used (ip ! i)" using a by blast+
  show "in_used (ip' ! i)" "in_name (ip' ! i) = take 127 nm \<and> in_flags (ip' ! i) = fl \<and> in_data (ip' ! i) = []"
    using conjunct1 [OF a] ne len by (simp_all add: ip')
  show "dir_entries ip' p = dir_entries ip p @ [i]"
    using used_children(1) [OF assms(1) p assms(3)] c len p
    by (simp add: ip' dir_entries_def cnt take_Suc_conv_app_nth)
  show "\<And>j. j < 64 \<Longrightarrow> j \<noteq> i \<Longrightarrow> j \<noteq> p \<Longrightarrow> ip' ! j = ip ! j" by (simp add: ip')
  show "in_name (ip' ! p) = in_name (ip ! p) \<and> in_flags (ip' ! p) = in_flags (ip ! p) \<and> in_used (ip' ! p)"
    using ne p len assms(3) by (simp add: ip')
qed

end
