(* ===== verification/Vfs.thy ===== *)
theory Vfs
  imports Tmpfs
begin

text \<open>
  The virtual file system switch and its clients: node operations through the operation tables, mounting,
  the file-descriptor table (\<^verbatim>\<open>src/vfs/vfs.c\<close>) and the device directory (\<^verbatim>\<open>src/devfs/devfs.c\<close>). A pointer
  to an operation table is a value of \<open>ops\<close>; a pointer to a node of the node pool is its index. The
  terminal device is reached through the arguments \<open>tty_rd\<close> and \<open>tty_wr\<close> on the device state.
\<close>

section \<open>State\<close>

datatype filesystem = TmpfsFs

definition fs_name :: "filesystem \<Rightarrow> u8 list" where
  "fs_name f = [0x74, 0x6D, 0x70, 0x66, 0x73]"

record fd_entry =
  fd_node :: vfs_node
  fd_offset :: u32
  fd_open :: bool

record devfs_entry =
  dev_name :: "u8 list"
  dev_ops :: "ops option"

definition DEVFS_MAX_DEVICES :: nat where [simp]: "DEVFS_MAX_DEVICES = 16"

record 'd fs_state =
  inodes :: inode_pool
  node_pool :: "vfs_node list"
  vfs_root :: "nat option"
  fs_table :: "filesystem list"     \<comment> \<open>the registered prefix\<close>
  fd_table :: "fd_entry list"
  dev_table :: "devfs_entry list"
  dev_count :: u32
  dev_dir :: vfs_node
  tty_dev :: 'd

text \<open>A node and the node its mount point stands for; \<open>None\<close> is a wild pointer.\<close>

definition vfs_target :: "'d fs_state \<Rightarrow> vfs_node \<Rightarrow> vfs_node option" where
  "vfs_target st node =
     (if nd_flags node AND VFS_MOUNTPOINT \<noteq> 0
      then (case nd_ptr node of PtrNode i \<Rightarrow> Some (node_pool st ! i) | _ \<Rightarrow> None)
      else Some node)"

definition null_read :: "u32 \<Rightarrow> int \<times> u8 list" where
  "null_read sz = (0, [])"

definition null_write :: "u32 \<Rightarrow> int" where
  "null_write sz = sint sz"

definition zero_read :: "u32 \<Rightarrow> int \<times> u8 list" where
  "zero_read sz = (sint sz, replicate (unat sz) 0)"

definition ops_read :: "(u32 \<Rightarrow> 'd \<Rightarrow> 'd \<times> u8 list) \<Rightarrow> ops \<Rightarrow> vfs_node \<Rightarrow> u32 \<Rightarrow> u32 \<Rightarrow> 'd fs_state \<Rightarrow>
    mem_err + 'd fs_state \<times> int \<times> u8 list" where
  "ops_read tty_rd op node offset sz st =
     (case op of
        TmpfsOps \<Rightarrow> map_sum id (\<lambda>(r, bs). (st, r, bs)) (tmpfs_read (inodes st) node offset sz)
      | DevDirOps \<Rightarrow> map_sum id (\<lambda>(r, bs). (st, r, bs)) (tmpfs_read (inodes st) node offset sz)
      | NullOps \<Rightarrow> Inr (st, fst (null_read sz), snd (null_read sz))
      | ZeroOps \<Rightarrow> Inr (st, fst (zero_read sz), snd (zero_read sz))
      | TtyOps \<Rightarrow> (case tty_rd sz (tty_dev st) of (d, bs) \<Rightarrow> Inr (st\<lparr>tty_dev := d\<rparr>, int (length bs), bs)))"

definition ops_write :: "(u8 list \<Rightarrow> nat \<Rightarrow> u8 list option) \<Rightarrow> (u8 list \<Rightarrow> 'd \<Rightarrow> 'd \<times> int) \<Rightarrow> ops \<Rightarrow> vfs_node \<Rightarrow>
    u32 \<Rightarrow> u8 list \<Rightarrow> 'd fs_state \<Rightarrow> mem_err + 'd fs_state \<times> vfs_node \<times> int" where
  "ops_write kr tty_wr op node offset buf st =
     (if op = TmpfsOps \<or> op = DevDirOps
      then map_sum id (\<lambda>(ip, node', r). (st\<lparr>inodes := ip\<rparr>, node', r)) (tmpfs_write kr (inodes st) node offset buf)
      else if op = TtyOps then (case tty_wr buf (tty_dev st) of (d, r) \<Rightarrow> Inr (st\<lparr>tty_dev := d\<rparr>, node, r))
      else Inr (st, node, null_write (of_nat (length buf))))"

definition vfs_read :: "(u32 \<Rightarrow> 'd \<Rightarrow> 'd \<times> u8 list) \<Rightarrow> vfs_node \<Rightarrow> u32 \<Rightarrow> u32 \<Rightarrow> 'd fs_state \<Rightarrow>
    mem_err + 'd fs_state \<times> int \<times> u8 list" where
  "vfs_read tty_rd node offset sz st =
     (if nd_ops node = None then Inr (st, -1, [])
      else case vfs_target st node of None \<Rightarrow> Inl OutOfBounds
           | Some target \<Rightarrow>
               (case nd_ops target of None \<Rightarrow> Inl OutOfBounds
                | Some op \<Rightarrow> ops_read tty_rd op target offset sz st))"

text \<open>The node is passed by reference: the updated node comes back, or goes to the node pool when it was
  reached through a mount point.\<close>

definition vfs_write :: "(u8 list \<Rightarrow> nat \<Rightarrow> u8 list option) \<Rightarrow> (u8 list \<Rightarrow> 'd \<Rightarrow> 'd \<times> int) \<Rightarrow> vfs_node \<Rightarrow>
    u32 \<Rightarrow> u8 list \<Rightarrow> 'd fs_state \<Rightarrow> mem_err + 'd fs_state \<times> vfs_node \<times> int" where
  "vfs_write kr tty_wr node offset buf st =
     (if nd_ops node = None then Inr (st, node, -1)
      else case vfs_target st node of None \<Rightarrow> Inl OutOfBounds
           | Some target \<Rightarrow>
               (case nd_ops target of None \<Rightarrow> Inl OutOfBounds
                | Some op \<Rightarrow>
                    map_sum id (\<lambda>(st', target', r).
                        (case nd_ptr node of
                           PtrNode i \<Rightarrow> (if nd_flags node AND VFS_MOUNTPOINT \<noteq> 0
                                         then (st'\<lparr>node_pool := (node_pool st')[i := target']\<rparr>, node, r)
                                         else (st', target', r))
                         | _ \<Rightarrow> (st', target', r)))
                      (ops_write kr tty_wr op target offset buf st)))"

text \<open>No operation table has an \<^verbatim>\<open>open\<close> or \<^verbatim>\<open>close\<close> that does anything.\<close>

definition vfs_open :: "vfs_node \<Rightarrow> 'd fs_state \<Rightarrow> int" where
  "vfs_open node st = 0"

section \<open>Device directory\<close>

definition dev_finddir :: "'d fs_state \<Rightarrow> vfs_node \<Rightarrow> u8 list \<Rightarrow> vfs_node option" where
  "dev_finddir st node nm =
     (if nd_ptr node = PtrOps TmpfsOps
      then case tmpfs_finddir (inodes st) node nm of None \<Rightarrow> None
           | Some out \<Rightarrow>
               (case scan (\<lambda>i. dev_name (dev_table st ! i) = nm) (unat (dev_count st)) of
                  Some i \<Rightarrow> Some (out\<lparr>nd_ops := dev_ops (dev_table st ! i)\<rparr>)
                | None \<Rightarrow> Some out)
      else None)"

definition vfs_finddir :: "'d fs_state \<Rightarrow> vfs_node \<Rightarrow> u8 list \<Rightarrow> vfs_node option" where
  "vfs_finddir st node nm =
     (if nd_flags node AND VFS_DIR = 0 then None
      else case vfs_target st node of None \<Rightarrow> None
           | Some target \<Rightarrow>
               (case nd_ops target of
                  Some TmpfsOps \<Rightarrow> tmpfs_finddir (inodes st) target nm
                | Some DevDirOps \<Rightarrow> dev_finddir st target nm
                | _ \<Rightarrow> None))"

definition vfs_readdir :: "'d fs_state \<Rightarrow> vfs_node \<Rightarrow> u32 \<Rightarrow> vfs_node option" where
  "vfs_readdir st node index =
     (if nd_flags node AND VFS_DIR = 0 then None
      else case vfs_target st node of None \<Rightarrow> None
           | Some target \<Rightarrow>
               (if nd_ops target = Some TmpfsOps \<or> nd_ops target = Some DevDirOps
                then tmpfs_readdir (inodes st) target index else None))"

definition devfs_register :: "u8 list \<Rightarrow> u32 \<Rightarrow> ops \<Rightarrow> 'd fs_state \<Rightarrow> 'd fs_state \<times> int" where
  "devfs_register nm fl op st =
     (if unat (dev_count st) \<ge> DEVFS_MAX_DEVICES then (st, -1)
      else case tmpfs_create (inodes st) (dev_dir st) nm fl of
             (ip, None) \<Rightarrow> (st\<lparr>inodes := ip\<rparr>, -1)
           | (ip, Some i) \<Rightarrow>
               (st\<lparr>inodes := ip,
                   dev_table := (dev_table st)[unat (dev_count st) := \<lparr>dev_name = store_name 31 nm, dev_ops = Some op\<rparr>],
                   dev_count := dev_count st + 1\<rparr>, 0))"

definition devfs_get_node :: "u8 list \<Rightarrow> 'd fs_state \<Rightarrow> vfs_node option" where
  "devfs_get_node nm st =
     (case scan (\<lambda>i. dev_name (dev_table st ! i) = nm) (unat (dev_count st)) of
        Some i \<Rightarrow> dev_finddir st (dev_dir st) nm
      | None \<Rightarrow> None)"

definition s_dev :: "u8 list" where "s_dev = [0x64, 0x65, 0x76]"
definition s_null :: "u8 list" where "s_null = [0x6E, 0x75, 0x6C, 0x6C]"
definition s_zero :: "u8 list" where "s_zero = [0x7A, 0x65, 0x72, 0x6F]"
definition s_root :: "u8 list" where "s_root = [0x2F]"

definition devfs_init :: "'d fs_state \<Rightarrow> 'd fs_state \<times> int" where
  "devfs_init st =
     (let st = st\<lparr>dev_count := 0\<rparr>
      in case vfs_root st of None \<Rightarrow> (st, -1)
         | Some r \<Rightarrow>
             (case tmpfs_create (inodes st) (node_pool st ! r) s_dev VFS_DIR of
                (ip, None) \<Rightarrow> (st\<lparr>inodes := ip\<rparr>, -1)
              | (ip, Some i) \<Rightarrow>
                  let st = st\<lparr>inodes := ip,
                              dev_dir := (inode_to_node ip i)\<lparr>nd_ptr := PtrOps TmpfsOps, nd_ops := Some DevDirOps\<rparr>\<rparr>;
                      st = fst (devfs_register s_null VFS_CHARDEV NullOps st);
                      st = fst (devfs_register s_zero VFS_CHARDEV ZeroOps st)
                  in (st, 0)))"

section \<open>Registration and mounting\<close>

definition vfs_register_fs :: "filesystem \<Rightarrow> 'd fs_state \<Rightarrow> 'd fs_state \<times> int" where
  "vfs_register_fs f st =
     (if length (fs_table st) \<ge> VFS_MAX_FS then (st, -1) else (st\<lparr>fs_table := fs_table st @ [f]\<rparr>, 0))"

definition vfs_mount :: "u8 list \<Rightarrow> u8 list \<Rightarrow> 'd fs_state \<Rightarrow> 'd fs_state \<times> int" where
  "vfs_mount fsn path st =
     (case find (\<lambda>f. fs_name f = fsn) (fs_table st) of None \<Rightarrow> (st, -1)
      | Some TmpfsFs \<Rightarrow>
          (case tmpfs_mount (inodes st) (node_pool st) of None \<Rightarrow> (st, -1)
           | Some (ip, nodes) \<Rightarrow>
               let st = st\<lparr>inodes := ip, node_pool := nodes\<rparr>
               in if path = s_root then (st\<lparr>vfs_root := Some 0\<rparr>, 0)
                  else case vfs_root st of None \<Rightarrow> (st, -1)
                       | Some r \<Rightarrow>
                           let nm = (if path \<noteq> [] \<and> hd path = 0x2F then tl path else path)
                           in case vfs_finddir st (node_pool st ! r) nm of
                                None \<Rightarrow> (st, -1)
                              | Some target \<Rightarrow>
                                  let target' = target\<lparr>nd_flags := nd_flags target OR VFS_MOUNTPOINT, nd_ptr := PtrNode 0\<rparr>
                                  in (st, 0)))"

section \<open>File descriptors\<close>

definition vfs_fd_open :: "vfs_node \<Rightarrow> 'd fs_state \<Rightarrow> 'd fs_state \<times> int" where
  "vfs_fd_open node st =
     (case scan (\<lambda>i. \<not> fd_open (fd_table st ! i)) VFS_MAX_FDS of
        Some i \<Rightarrow> (st\<lparr>fd_table := (fd_table st)[i := \<lparr>fd_node = node, fd_offset = 0, fd_open = True\<rparr>]\<rparr>, int i)
      | None \<Rightarrow> (st, -1))"

definition fd_valid :: "int \<Rightarrow> 'd fs_state \<Rightarrow> bool" where
  "fd_valid fd st \<longleftrightarrow> \<not> (fd < 0 \<or> fd \<ge> int VFS_MAX_FDS \<or> \<not> fd_open (fd_table st ! nat fd))"

definition vfs_fd_read :: "(u32 \<Rightarrow> 'd \<Rightarrow> 'd \<times> u8 list) \<Rightarrow> int \<Rightarrow> u32 \<Rightarrow> 'd fs_state \<Rightarrow>
    mem_err + 'd fs_state \<times> int \<times> u8 list" where
  "vfs_fd_read tty_rd fd sz st =
     (if \<not> fd_valid fd st then Inr (st, -1, [])
      else let e = fd_table st ! nat fd
           in map_sum id (\<lambda>(st', ret, bs).
                (if ret > 0
                 then st'\<lparr>fd_table := (fd_table st')[nat fd := e\<lparr>fd_offset := fd_offset e + of_int ret\<rparr>]\<rparr>
                 else st', ret, bs))
              (vfs_read tty_rd (fd_node e) (fd_offset e) sz st))"

definition vfs_fd_write :: "(u8 list \<Rightarrow> nat \<Rightarrow> u8 list option) \<Rightarrow> (u8 list \<Rightarrow> 'd \<Rightarrow> 'd \<times> int) \<Rightarrow> int \<Rightarrow> u8 list \<Rightarrow>
    'd fs_state \<Rightarrow> mem_err + 'd fs_state \<times> int" where
  "vfs_fd_write kr tty_wr fd buf st =
     (if \<not> fd_valid fd st then Inr (st, -1)
      else let e = fd_table st ! nat fd
           in map_sum id (\<lambda>(st', node', ret).
                (st'\<lparr>fd_table := (fd_table st')[nat fd := e\<lparr>fd_node := node',
                     fd_offset := (if ret > 0 then fd_offset e + of_int ret else fd_offset e)\<rparr>]\<rparr>, ret))
              (vfs_write kr tty_wr (fd_node e) (fd_offset e) buf st))"

definition vfs_fd_close :: "int \<Rightarrow> 'd fs_state \<Rightarrow> 'd fs_state" where
  "vfs_fd_close fd st =
     (if \<not> fd_valid fd st then st
      else st\<lparr>fd_table := (fd_table st)[nat fd := (fd_table st ! nat fd)\<lparr>fd_open := False, fd_offset := 0\<rparr>]\<rparr>)"

definition vfs_init :: "'d fs_state \<Rightarrow> 'd fs_state \<times> int" where
  "vfs_init st = (st\<lparr>fs_table := [], vfs_root := None,
     fd_table := map (\<lambda>e. e\<lparr>fd_open := False, fd_offset := 0\<rparr>) (fd_table st)\<rparr>, 0)"

definition tmpfs_init :: "'d fs_state \<Rightarrow> 'd fs_state \<times> int" where
  "tmpfs_init st =
     (let st = st\<lparr>inodes := map (\<lambda>n. n\<lparr>in_used := False\<rparr>) (inodes st)\<rparr>;
          st = fst (vfs_register_fs TmpfsFs st);
          (st, r) = vfs_mount (fs_name TmpfsFs) s_root st
      in if r \<noteq> 0 then (st, -1) else (st, 0))"

section \<open>Descriptor table\<close>

definition fs_ok :: "'d fs_state \<Rightarrow> bool" where
  "fs_ok st \<longleftrightarrow> tmpfs_ok (inodes st) \<and> length (fd_table st) = 64"

definition open_fds :: "'d fs_state \<Rightarrow> nat set" where
  "open_fds st = {i. i < 64 \<and> fd_open (fd_table st ! i)}"

definition fd_alloc :: "vfs_node \<Rightarrow> 'd fs_state \<Rightarrow> ('d fs_state \<times> nat) option" where
  "fd_alloc node st = (case vfs_fd_open node st of (st', r) \<Rightarrow> if r < 0 then None else Some (st', nat r))"

interpretation fds: slot_table "fd_alloc node" open_fds fs_ok "{..<64}" for node
proof
  show "finite {..<64::nat}" by simp
  fix s s' :: "'d fs_state" and i assume ok: "fs_ok s"
  show "i \<in> {..<64} \<and> i \<notin> open_fds s \<and> (\<forall>j\<in>{..<64}. j < i \<longrightarrow> j \<in> open_fds s) \<and>
      open_fds s' = insert i (open_fds s) \<and> fs_ok s'" if a: "fd_alloc node s = Some (s', i)"
  proof -
    have i: "scan (\<lambda>i. \<not> fd_open (fd_table s ! i)) 64 = Some i"
      and s': "s' = s\<lparr>fd_table := (fd_table s)[i := \<lparr>fd_node = node, fd_offset = 0, fd_open = True\<rparr>]\<rparr>"
      using a by (auto simp: fd_alloc_def vfs_fd_open_def split: option.splits)
    have len: "length (fd_table s) = 64" using ok by (simp add: fs_ok_def)
    have "open_fds s' = insert i (open_fds s)"
      using i len by (auto simp: s' open_fds_def scan_Some_iff nth_list_update split: if_splits)
    then show ?thesis using i ok by (auto simp: scan_Some_iff open_fds_def s' fs_ok_def)
  qed
  show "{..<64} \<subseteq> open_fds s" if "fd_alloc node s = None"
    using that by (auto simp: fd_alloc_def vfs_fd_open_def open_fds_def scan_None_iff split: option.splits)
qed

section \<open>Files through descriptors\<close>

text \<open>A valid descriptor of a regular file, inode \<open>i\<close>.\<close>

definition fd_file :: "'d fs_state \<Rightarrow> int \<Rightarrow> nat \<Rightarrow> bool" where
  "fd_file st fd i \<longleftrightarrow> fd_valid fd st \<and>
     (let node = fd_node (fd_table st ! nat fd)
      in nd_ops node = Some TmpfsOps \<and> nd_flags node AND VFS_MOUNTPOINT = 0 \<and> node_to_inode node = Some i) \<and>
     in_used (inodes st ! i) \<and> in_flags (inodes st ! i) AND VFS_FILE \<noteq> 0"

definition contents :: "'d fs_state \<Rightarrow> nat \<Rightarrow> u8 list" where
  "contents st i = in_data (inodes st ! i)"

definition fd_off :: "'d fs_state \<Rightarrow> int \<Rightarrow> nat" where
  "fd_off st fd = unat (fd_offset (fd_table st ! nat fd))"

lemma fd_write_effect:
  assumes "fs_ok st" and "realloc_ok kr" and "fd_file st fd i"
    and fit: "fd_off st fd + length buf \<le> 65536" and "kr (contents st i) (fd_off st fd + length buf) \<noteq> None"
  shows "\<exists>st'. vfs_fd_write kr tty_wr fd buf st = Inr (st', int (length buf)) \<and> fs_ok st' \<and>
    contents st' i = write_file (contents st i) (fd_off st fd) buf \<and>
    (\<forall>j < 64. j \<noteq> i \<longrightarrow> inodes st' ! j = inodes st ! j) \<and>
    (\<forall>k < 64. k \<noteq> nat fd \<longrightarrow> fd_table st' ! k = fd_table st ! k) \<and>
    fd_off st' fd = fd_off st fd + length buf \<and> (\<forall>fd2 k. fd_file st fd2 k \<longrightarrow> fd_file st' fd2 k)"
proof -
  let ?e = "fd_table st ! nat fd" and ?ip = "inodes st"
  let ?node = "fd_node ?e" and ?o = "fd_offset ?e"
  have f: "fd_valid fd st" "nd_ops ?node = Some TmpfsOps" "nd_flags ?node AND VFS_MOUNTPOINT = 0"
    "node_to_inode ?node = Some i" "in_used (?ip ! i)" "in_flags (?ip ! i) AND VFS_FILE \<noteq> 0"
    using assms(3) by (auto simp: fd_file_def Let_def)
  have ok: "tmpfs_ok ?ip" and len: "length (fd_table st) = 64" using assms(1) by (auto simp: fs_ok_def)
  have i64: "i < length ?ip" using node_inode_bound [OF f(4)] ok by (simp add: tmpfs_ok_def)
  have fd: "nat fd < 64" "0 \<le> fd" using f(1) by (auto simp: fd_valid_def)
  have fit': "unat ?o + length buf \<le> 65536" using fit by (simp add: fd_off_def)
  have "kr (in_data (?ip ! i)) (unat ?o + length buf) \<noteq> None" using assms(5) by (simp add: contents_def fd_off_def)
  then obtain z node' where
    w: "tmpfs_write kr ?ip ?node ?o buf = Inr (?ip[i := (?ip ! i)\<lparr>in_data := write_file (in_data (?ip ! i)) (unat ?o) buf,
          in_size := z\<rparr>], node', int (length buf))"
    and ok': "tmpfs_ok (?ip[i := (?ip ! i)\<lparr>in_data := write_file (in_data (?ip ! i)) (unat ?o) buf, in_size := z\<rparr>])"
    and node': "node' = ?node \<or> node' = ?node\<lparr>nd_size := ?o + of_nat (length buf)\<rparr>"
    by (rule tmpfs_write_succeeds [OF ok assms(2) f(4-6) fit'])
  define n' where n': "n' = (?ip ! i)\<lparr>in_data := write_file (in_data (?ip ! i)) (unat ?o) buf, in_size := z\<rparr>"
  note w = w [folded n'] and ok' = ok' [folded n']
  have nf: "in_used n'" "in_flags n' = in_flags (?ip ! i)"
    and d: "in_data n' = write_file (in_data (?ip ! i)) (unat ?o) buf" using f(5) by (simp_all add: n')
  let ?off = "if int (length buf) > 0 then ?o + of_int (int (length buf)) else ?o"
  let ?st = "st\<lparr>inodes := ?ip[i := n'], fd_table := (fd_table st)[nat fd := ?e\<lparr>fd_node := node', fd_offset := ?off\<rparr>]\<rparr>"
  have wr: "vfs_fd_write kr tty_wr fd buf st = Inr (?st, int (length buf))"
    using f w by (simp add: vfs_fd_write_def vfs_write_def vfs_target_def ops_write_def Let_def split: node_ptr.splits)
  have off: "unat ?off = unat ?o + length buf"
    using fit' by (auto simp: unat_word_ariths unat_of_nat)
  have keep: "fd_file ?st fd2 k" if k: "fd_file st fd2 k" for fd2 k
  proof -
    have fd2: "nat fd2 < 64" "0 \<le> fd2" using k by (auto simp: fd_file_def fd_valid_def)
    have "in_used (?ip[i := n'] ! k) \<and> in_flags (?ip[i := n'] ! k) AND VFS_FILE \<noteq> 0"
      using k i64 nf f(6) by (cases "k = i") (auto simp: fd_file_def)
    moreover have "nd_ops node' = nd_ops ?node \<and> nd_flags node' = nd_flags ?node \<and> node_to_inode node' = node_to_inode ?node"
      using node' by (auto simp: node_to_inode_def)
    ultimately show ?thesis
      using k len fd by (cases "nat fd2 = nat fd") (auto simp: fd_file_def fd_valid_def Let_def)
  qed
  show ?thesis
  proof (intro exI conjI)
    show "vfs_fd_write kr tty_wr fd buf st = Inr (?st, int (length buf))" by (rule wr)
    show "fs_ok ?st" using ok' len by (simp add: fs_ok_def)
    show "contents ?st i = write_file (contents st i) (fd_off st fd) buf" using d i64 by (simp add: contents_def fd_off_def)
    show "\<forall>j < 64. j \<noteq> i \<longrightarrow> inodes ?st ! j = inodes st ! j" by simp
    show "\<forall>k < 64. k \<noteq> nat fd \<longrightarrow> fd_table ?st ! k = fd_table st ! k" by simp
    show "fd_off ?st fd = fd_off st fd + length buf" using off fd len by (simp add: fd_off_def)
    show "\<forall>fd2 k. fd_file st fd2 k \<longrightarrow> fd_file ?st fd2 k" using keep by blast
  qed
qed

lemma fd_read_effect:
  assumes "fs_ok st" and "fd_file st fd i"
  shows "\<exists>st'. vfs_fd_read tty_rd fd sz st =
      Inr (st', int (length (read_file (contents st i) (fd_off st fd) (unat sz))),
           read_file (contents st i) (fd_off st fd) (unat sz)) \<and>
    fs_ok st' \<and> inodes st' = inodes st \<and> (\<forall>k < 64. k \<noteq> nat fd \<longrightarrow> fd_table st' ! k = fd_table st ! k) \<and>
    fd_off st' fd = fd_off st fd + length (read_file (contents st i) (fd_off st fd) (unat sz))"
proof -
  let ?e = "fd_table st ! nat fd" and ?ip = "inodes st"
  let ?node = "fd_node ?e" and ?o = "fd_offset ?e"
  let ?r = "read_file (in_data (?ip ! i)) (unat ?o) (unat sz)"
  have f: "fd_valid fd st" "nd_ops ?node = Some TmpfsOps" "nd_flags ?node AND VFS_MOUNTPOINT = 0"
    "node_to_inode ?node = Some i" "in_used (?ip ! i)" "in_flags (?ip ! i) AND VFS_FILE \<noteq> 0"
    using assms(2) by (auto simp: fd_file_def Let_def)
  have ok: "tmpfs_ok ?ip" and len: "length (fd_table st) = 64" using assms(1) by (auto simp: fs_ok_def)
  have fd: "nat fd < 64" "0 \<le> fd" using f(1) by (auto simp: fd_valid_def)
  have max: "length (in_data (?ip ! i)) \<le> 65536"
    using ok node_inode_bound [OF f(4)] f(5) by (auto simp: tmpfs_ok_def inode_ok_def word_le_nat_alt)
  let ?st = "if int (length ?r) > 0
     then st\<lparr>fd_table := (fd_table st)[nat fd := ?e\<lparr>fd_offset := ?o + of_int (int (length ?r))\<rparr>]\<rparr> else st"
  have rd: "vfs_fd_read tty_rd fd sz st = Inr (?st, int (length ?r), ?r)"
    using f tmpfs_read_effect [OF ok f(4-6), of ?o sz]
    by (simp add: vfs_fd_read_def vfs_read_def vfs_target_def ops_read_def Let_def)
  have off: "unat (?o + of_int (int (length ?r))) = unat ?o + length ?r" if "?r \<noteq> []"
  proof -
    have "unat ?o < length (in_data (?ip ! i))" using that by (auto simp: read_file_def)
    then have "unat ?o + length ?r \<le> 65536" using max by (simp add: read_file_def)
    then show ?thesis by (simp add: unat_word_ariths unat_of_nat)
  qed
  show ?thesis unfolding contents_def fd_off_def
  proof (intro exI conjI)
    show "vfs_fd_read tty_rd fd sz st = Inr (?st, int (length ?r), ?r)" by (rule rd)
    show "fs_ok ?st" using ok len by (simp add: fs_ok_def)
    show "inodes ?st = ?ip" by simp
    show "\<forall>k < 64. k \<noteq> nat fd \<longrightarrow> fd_table ?st ! k = fd_table st ! k" by simp
    show "unat (fd_offset (fd_table ?st ! nat fd)) = unat ?o + length ?r"
      using off fd len by (cases "?r = []") simp_all
  qed
qed

section \<open>Mounting\<close>

definition dir_node :: "'d fs_state \<Rightarrow> vfs_node \<Rightarrow> nat \<Rightarrow> bool" where
  "dir_node st node p \<longleftrightarrow> nd_ops node = Some TmpfsOps \<and> nd_flags node AND VFS_DIR \<noteq> 0 \<and>
     nd_flags node AND VFS_MOUNTPOINT = 0 \<and> node_to_inode node = Some p \<and>
     in_used (inodes st ! p) \<and> in_flags (inodes st ! p) AND VFS_DIR \<noteq> 0"

lemma tmpfs_mount_effect:
  assumes "tmpfs_ok ip" and "0 < length nodes" and "tmpfs_mount ip nodes = Some (ip', nodes')"
  shows "\<exists>i < 64. \<not> in_used (ip ! i) \<and> tmpfs_ok ip' \<and> nodes' = nodes[0 := inode_to_node ip' i] \<and>
    in_used (ip' ! i) \<and> in_flags (ip' ! i) = VFS_DIR \<and> dir_entries ip' i = [] \<and>
    (\<forall>j < 64. j \<noteq> i \<longrightarrow> ip' ! j = ip ! j)"
proof -
  obtain ip1 i where al: "alloc_inode ip = Some (ip1, i)"
    and ip': "ip' = ip1[i := (ip1 ! i)\<lparr>in_name := store_name 127 [0x2F], in_flags := VFS_DIR\<rparr>]"
    and nodes': "nodes' = nodes[0 := inode_to_node ip' i]"
    using assms(3) by (auto simp: tmpfs_mount_def Let_def split: option.splits)
  note a = alloc_inode_some [OF assms(1) al]
  have len: "length ip1 = 64" "length ip = 64" using a assms(1) by (auto simp: tmpfs_ok_def)
  have ok1: "tmpfs_ok ip1" and i: "i < 64" using a by blast+
  then have io: "inode_ok ip1 (ip1 ! i)" by (simp add: tmpfs_ok_def)
  have "tmpfs_ok ip'" unfolding ip'
    by (rule tmpfs_ok_update [OF ok1]) (use io in \<open>auto simp: inode_ok_def store_name_def\<close>)
  moreover have "ip' ! j = ip ! j" if "j < 64" "j \<noteq> i" for j using a that by (simp add: ip')
  moreover have "in_used (ip' ! i) \<and> in_flags (ip' ! i) = VFS_DIR \<and> dir_entries ip' i = []"
    using a len by (auto simp: ip' dir_entries_def)
  ultimately show ?thesis using a nodes' by blast
qed

section \<open>Devices\<close>

definition devfs_ok :: "'d fs_state \<Rightarrow> nat \<Rightarrow> bool" where
  "devfs_ok st p \<longleftrightarrow> tmpfs_ok (inodes st) \<and> node_to_inode (dev_dir st) = Some p \<and> in_used (inodes st ! p) \<and>
     in_flags (inodes st ! p) AND VFS_DIR \<noteq> 0 \<and> nd_ptr (dev_dir st) = PtrOps TmpfsOps \<and>
     length (dev_table st) = 16 \<and> unat (dev_count st) \<le> 16"

lemma create_then_find:
  assumes "tmpfs_ok ip" and "node_to_inode parent = Some p" and "in_used (ip ! p)" and "in_flags (ip ! p) AND VFS_DIR \<noteq> 0"
    and "tmpfs_create ip parent nm fl = (ip', Some i)" and "length nm \<le> 127"
    and "\<forall>j \<in> set (dir_entries ip p). in_name (ip ! j) \<noteq> nm"
  shows "tmpfs_finddir ip' parent nm = Some (inode_to_node ip' i)"
proof -
  note c = tmpfs_create_effect [OF assms(1,2,3,5)]
  have p: "p < 64" by (rule node_inode_bound [OF assms(2)])
  have "in_name (ip' ! j) \<noteq> nm" if j: "j \<in> set (dir_entries ip p)" for j
  proof -
    have "j < 64" "in_used (ip ! j)" using used_children(3) [OF assms(1) p assms(3) j] by auto
    moreover from this c(3) have "j \<noteq> i" by auto
    ultimately show ?thesis using c(7) [of j] c(8) assms(7) j by (cases "j = p") auto
  qed
  then have "find (\<lambda>i. in_name (ip' ! i) = nm) (dir_entries ip p) = None" by (auto simp: find_None_iff)
  moreover have "find P (xs @ [y]) = (case find P xs of None \<Rightarrow> if P y then Some y else None | Some x \<Rightarrow> Some x)"
    for P :: "nat \<Rightarrow> bool" and xs y by (induction xs) auto
  ultimately have "find (\<lambda>i. in_name (ip' ! i) = nm) (dir_entries ip' p) = Some i"
    using c(5,6) assms(6) by simp
  then show ?thesis
    using tmpfs_finddir_find [OF c(1) assms(2), of nm] c(8) assms(4) by simp
qed

section \<open>Properties\<close>


text \<open>C39. Mounting a file system below the root never works: \<^verbatim>\<open>tmpfs_mount\<close> reuses node 0 of its node
  pool, which is the root node, so the root directory is replaced by a new empty one, the mount point is
  then not found there, and \<^verbatim>\<open>vfs_mount\<close> returns -1.\<close>

theorem vfs_mount_below_root:
  assumes "fs_ok st" and "vfs_root st = Some 0" and "0 < length (node_pool st)"
    and "TmpfsFs \<in> set (fs_table st)" and "path \<noteq> s_root" and "\<exists>i < 64. \<not> in_used (inodes st ! i)"
  shows "\<exists>st'. vfs_mount (fs_name TmpfsFs) path st = (st', -1) \<and>
    (\<forall>nm. vfs_finddir st' (node_pool st' ! 0) nm = None)"
proof -
  have ok: "tmpfs_ok (inodes st)" using assms(1) by (simp add: fs_ok_def)
  have "find (\<lambda>f. fs_name f = fs_name TmpfsFs) (fs_table st) = Some TmpfsFs"
    using assms(4) by (cases "find (\<lambda>f. fs_name f = fs_name TmpfsFs) (fs_table st)")
      (auto simp: find_None_iff intro: filesystem.exhaust)
  moreover obtain ip1 k where "alloc_inode (inodes st) = Some (ip1, k)"
    using inodes.alloc_succeeds [OF ok] assms(6) unfolding used_inodes_def by blast
  then obtain ip nodes where m: "tmpfs_mount (inodes st) (node_pool st) = Some (ip, nodes)"
    by (auto simp: tmpfs_mount_def Let_def)
  moreover from tmpfs_mount_effect [OF ok assms(3) m] obtain i where i: "i < 64" "tmpfs_ok ip"
    "nodes ! 0 = inode_to_node ip i" "in_used (ip ! i)" "in_flags (ip ! i) = VFS_DIR" "dir_entries ip i = []"
    using assms(3) by auto
  have n: "node_to_inode (inode_to_node ip i) = Some i"
    using i(1) by (simp add: node_to_inode_def inode_to_node_def unat_of_nat)
  have none: "vfs_finddir (st\<lparr>inodes := ip, node_pool := nodes\<rparr>) (nodes ! 0) nm = None" for nm
    using tmpfs_finddir_find [OF i(2) n i(4), of nm] i(3,5,6)
    by (simp add: vfs_finddir_def vfs_target_def inode_to_node_def)
  ultimately show ?thesis
    using assms(2,5) by (auto simp: vfs_mount_def Let_def none)
qed

text \<open>C33. A registered device can be found: after a successful \<^verbatim>\<open>devfs_register\<close> of a new name that fits the
  device table, \<^verbatim>\<open>devfs_get_node\<close> returns a node of that type whose operations are the device's.\<close>

theorem devfs_register_lookup:
  assumes "devfs_ok st p" and "devfs_register nm fl op st = (st', 0)" and "length nm \<le> 31"
    and "\<forall>j \<in> set (dir_entries (inodes st) p). in_name (inodes st ! j) \<noteq> nm"
    and "\<forall>k < unat (dev_count st). dev_name (dev_table st ! k) \<noteq> nm"
  shows "\<exists>node. devfs_get_node nm st' = Some node \<and> nd_ops node = Some op \<and> nd_flags node = fl \<and> devfs_ok st' p"
proof -
  let ?n = "unat (dev_count st)"
  have d: "tmpfs_ok (inodes st)" "node_to_inode (dev_dir st) = Some p" "in_used (inodes st ! p)"
    "in_flags (inodes st ! p) AND VFS_DIR \<noteq> 0" using assms(1) by (auto simp: devfs_ok_def)
  obtain ip i where n: "?n < 16" and c: "tmpfs_create (inodes st) (dev_dir st) nm fl = (ip, Some i)"
    and st': "st' = st\<lparr>inodes := ip, dev_table := (dev_table st)[?n := \<lparr>dev_name = take 31 nm, dev_ops = Some op\<rparr>],
                      dev_count := dev_count st + 1\<rparr>"
    using assms(2) by (auto simp: devfs_register_def store_name_def split: if_splits prod.splits option.splits)
  note e = tmpfs_create_effect [OF d(1-3) c]
  have cnt: "unat (dev_count st + 1) = Suc ?n" using n by (simp add: unat_word_ariths)
  have f: "tmpfs_finddir ip (dev_dir st) nm = Some (inode_to_node ip i)"
    using create_then_find [OF d c] assms(3,4) by simp
  have "scan (\<lambda>k. dev_name (dev_table st' ! k) = nm) (unat (dev_count st')) = Some ?n"
    using assms(1,3,5) n by (auto simp: scan_Some_iff st' cnt devfs_ok_def)
  moreover have "dev_ops (dev_table st' ! ?n) = Some op" using assms(1) n by (simp add: st' devfs_ok_def)
  moreover have "nd_flags (inode_to_node ip i) = fl" using e(6) by (simp add: inode_to_node_def)
  moreover have "devfs_ok st' p" using assms(1) e(1,8) n by (simp add: devfs_ok_def st' cnt)
  ultimately show ?thesis
    using assms(1) f by (auto simp: devfs_get_node_def dev_finddir_def devfs_ok_def st')
qed

text \<open>C40. The size check of \<^verbatim>\<open>tmpfs_write\<close> is made on a 32-bit sum: when offset plus length wraps around to a
  value inside the file, the check passes and the copy runs outside the file's block.\<close>

theorem tmpfs_write_wraps:
  assumes "tmpfs_ok ip" and "node_to_inode node = Some i" and "in_used (ip ! i)" and "in_flags (ip ! i) AND VFS_FILE \<noteq> 0"
    and "length buf < 2 ^ 32" and "2 ^ 32 \<le> unat offset + length buf"
    and "unat offset + length buf - 2 ^ 32 \<le> unat (in_size (ip ! i))"
  shows "tmpfs_write kr ip node offset buf = Inl OutOfBounds"
proof -
  have io: "inode_ok ip (ip ! i)" using assms(1) node_inode_bound [OF assms(2)] by (simp add: tmpfs_ok_def)
  then have len: "length (in_data (ip ! i)) = unat (in_size (ip ! i))" and max: "unat (in_size (ip ! i)) \<le> 65536"
    using assms(3) by (auto simp: inode_ok_def word_le_nat_alt)
  let ?fin = "offset + of_nat (length buf)"
  have "unat ?fin = (unat offset + length buf) mod 2 ^ 32"
    using assms(5) by (simp add: unat_word_ariths unat_of_nat)
  also have "\<dots> = unat offset + length buf - 2 ^ 32"
    using assms(5,6) unat_lt_32 [of offset] by (simp add: mod_if)
  finally have e: "unat ?fin = unat offset + length buf - 2 ^ 32" .
  have "\<not> ?fin > 65536" "\<not> ?fin > in_size (ip ! i)" using e assms(7) max by (simp_all add: word_less_nat_alt)
  moreover have "\<not> unat offset + length buf \<le> length (in_data (ip ! i))" using assms(6) len max by simp
  ultimately show ?thesis using assms(2,4) by (simp add: tmpfs_write_def Let_def)
qed

section \<open>A file system\<close>

text \<open>The root directory with one file \<open>a\<close> that holds two bytes and is open twice, and the directory \<open>dev\<close>.\<close>

definition inode_blank :: tmpfs_inode where
  "inode_blank = \<lparr>in_name = [], in_flags = 0, in_data = [], in_size = 0, in_children = replicate 16 0,
                  in_count = 0, in_used = False\<rparr>"

definition inodes_demo :: inode_pool where
  "inodes_demo =
     [inode_blank\<lparr>in_name := s_root, in_flags := 2, in_children := [1, 2] @ replicate 14 0, in_count := 2, in_used := True\<rparr>,
      inode_blank\<lparr>in_name := [0x61], in_flags := 1, in_data := [7, 8], in_size := 2, in_used := True\<rparr>,
      inode_blank\<lparr>in_name := s_dev, in_flags := 2, in_used := True\<rparr>] @ replicate 61 inode_blank"

definition fs_demo :: "unit fs_state" where
  "fs_demo = \<lparr>inodes = inodes_demo, node_pool = [inode_to_node inodes_demo 0], vfs_root = Some 0, fs_table = [TmpfsFs],
     fd_table = [\<lparr>fd_node = inode_to_node inodes_demo 1, fd_offset = 0, fd_open = True\<rparr>,
                 \<lparr>fd_node = inode_to_node inodes_demo 1, fd_offset = 0, fd_open = True\<rparr>] @
                replicate 62 \<lparr>fd_node = inode_to_node inodes_demo 0, fd_offset = 0, fd_open = False\<rparr>,
     dev_table = replicate 16 \<lparr>dev_name = [], dev_ops = None\<rparr>, dev_count = 0,
     dev_dir = (inode_to_node inodes_demo 2)\<lparr>nd_ptr := PtrOps TmpfsOps, nd_ops := Some DevDirOps\<rparr>, tty_dev = ()\<rparr>"

definition kr_demo :: "u8 list \<Rightarrow> nat \<Rightarrow> u8 list option" where
  "kr_demo old n = Some (take n old @ replicate (n - length old) 0xCC)"

lemma inodes_demo_nth: "3 \<le> i \<Longrightarrow> i < 64 \<Longrightarrow> inodes_demo ! i = inode_blank"
  unfolding inodes_demo_def by (subst nth_append) simp

lemma inodes_demo_ok: "tmpfs_ok inodes_demo"
proof -
  have "inode_ok inodes_demo (inodes_demo ! i)" if "i < 64" for i
  proof -
    consider "i = 0" | "i = 1" | "i = 2" | "3 \<le> i" by linarith
    then show ?thesis
    proof cases
      case 4
      then show ?thesis using that by (simp add: inodes_demo_nth inode_ok_def inode_blank_def)
    qed (simp_all add: inode_ok_def inodes_demo_def inode_blank_def s_root_def s_dev_def less_2_cases_iff)
  qed
  moreover have "length inodes_demo = 64" by (simp add: inodes_demo_def)
  ultimately show ?thesis by (simp add: tmpfs_ok_def)
qed

lemma fs_demo_ok: "fs_ok fs_demo"
  by (simp add: fs_ok_def fs_demo_def inodes_demo_ok)

lemma kr_demo_ok: "realloc_ok kr_demo"
  by (auto simp: realloc_ok_def kr_demo_def min_def)

lemma fs_demo_files: "fd_file fs_demo 0 1" "fd_file fs_demo 1 1"
  by (simp_all add: fd_file_def fd_valid_def Let_def fs_demo_def inode_to_node_def node_to_inode_def inodes_demo_def inode_blank_def)


theorem vfs_mount_below_root_witness:
  "\<exists>st'. vfs_mount (fs_name TmpfsFs) [0x2F, 0x64, 0x65, 0x76] fs_demo = (st', -1) \<and>
     vfs_finddir st' (node_pool st' ! 0) [0x61] = None"
proof -
  have "\<not> in_used (inodes fs_demo ! 3)" by (simp add: fs_demo_def inodes_demo_nth inode_blank_def)
  then have "\<exists>i < 64. \<not> in_used (inodes fs_demo ! i)" by (intro exI [of _ 3]) simp
  then show ?thesis
    using vfs_mount_below_root [OF fs_demo_ok, of "[0x2F, 0x64, 0x65, 0x76]"] by (auto simp: fs_demo_def s_root_def)
qed

theorem devfs_register_lookup_witness:
  "\<exists>st' node. devfs_register s_null VFS_CHARDEV NullOps fs_demo = (st', 0) \<and>
     devfs_get_node s_null st' = Some node \<and> nd_ops node = Some NullOps"
proof -
  have ok: "devfs_ok fs_demo 2"
    by (simp add: devfs_ok_def fs_demo_def inodes_demo_ok node_to_inode_def inode_to_node_def)
      (simp add: inodes_demo_def inode_blank_def)
  obtain ip i where a: "alloc_inode inodes_demo = Some (ip, i)"
    using inodes.alloc_succeeds [OF inodes_demo_ok, of 3] by (auto simp: used_inodes_def inodes_demo_nth inode_blank_def)
  have "in_flags (inodes_demo ! 2) AND VFS_DIR \<noteq> 0" "in_count (inodes_demo ! 2) = 0"
    by (simp_all add: inodes_demo_def inode_blank_def)
  moreover have "node_to_inode (dev_dir fs_demo) = Some 2"
    by (simp add: fs_demo_def node_to_inode_def inode_to_node_def)
  ultimately obtain ip' where "tmpfs_create inodes_demo (dev_dir fs_demo) s_null VFS_CHARDEV = (ip', Some i)"
    using a by (simp add: tmpfs_create_def Let_def)
  then obtain st' where st': "devfs_register s_null VFS_CHARDEV NullOps fs_demo = (st', 0)"
    by (auto simp: devfs_register_def fs_demo_def)
  have "dir_entries (inodes fs_demo) 2 = []"
    by (simp add: dir_entries_def fs_demo_def inodes_demo_def inode_blank_def)
  then show ?thesis
    using devfs_register_lookup [OF ok st'] st' by (auto simp: s_null_def fs_demo_def)
qed

theorem tmpfs_write_wraps_witness:
  "tmpfs_write kr_demo inodes_demo (inode_to_node inodes_demo 1) 0xFFFFFFFF [1, 2, 3] = Inl OutOfBounds"
  by (rule tmpfs_write_wraps [OF inodes_demo_ok, of _ 1])
    (simp_all add: node_to_inode_def inode_to_node_def inodes_demo_def inode_blank_def)

end
