(* ===== verification/Scheduler.thy ===== *)
theory Scheduler
  imports Prelude
begin

text \<open>
  The process descriptors (\<^verbatim>\<open>src/process/process.h\<close>) and the round-robin scheduler
  (\<^verbatim>\<open>src/scheduler/scheduler.c\<close>, \<^verbatim>\<open>src/scheduler/scheduler.asm\<close>): the run queue is a circular list linked
  through the descriptors. A descriptor pointer is its index in the process table. Walks along the
  links are partial functions: a broken link or a list that never closes gives \<open>None\<close>. The lemmas relate
  the linked list to a list of process numbers and the operations to list operations.
\<close>

section \<open>Descriptors and state\<close>

record cpu_context =
  rbx :: u64
  rbp :: u64
  r12 :: u64
  r13 :: u64
  r14 :: u64
  r15 :: u64
  rsp :: u64
  rip :: u64

datatype proc_state = PROC_UNUSED | PROC_READY | PROC_RUNNING | PROC_BLOCKED | PROC_ZOMBIE

definition PROC_MAX :: nat where [simp]: "PROC_MAX = 64"
definition KSTACK_SIZE :: u64 where [simp]: "KSTACK_SIZE = 8192"

record process =
  pid :: u32
  ppid :: u32
  pstate :: proc_state
  exit_status :: "32 word"
  pname :: "u8 list"
  kstack :: u64
  ctx :: cpu_context
  pml4_phys :: u64
  user_rip :: u64
  user_rsp :: u64
  user_rflags :: u64
  mmap_next :: u64
  nxt :: "nat option"

text \<open>\<open>cpu\<close> is the context of the code that runs, as \<^verbatim>\<open>context_switch\<close> would save it at a call; \<open>tss_rsp0\<close>
  and \<open>kernel_rsp\<close> are the stack pointers for entries from user mode.\<close>

record sched_state =
  proc_table :: "process list"
  current_proc :: "nat option"
  run_queue :: "nat option"
  tick_counter :: u32
  yield_pending :: u32
  cpu :: cpu_context
  cr3 :: u64
  tss_rsp0 :: u64
  kernel_rsp :: u64

definition proc :: "sched_state \<Rightarrow> nat \<Rightarrow> process" where
  "proc st p = proc_table st ! p"

definition set_proc :: "nat \<Rightarrow> (process \<Rightarrow> process) \<Rightarrow> sched_state \<Rightarrow> sched_state" where
  "set_proc p f st = st\<lparr>proc_table := (proc_table st)[p := f (proc_table st ! p)]\<rparr>"

section \<open>Operations\<close>

definition scheduler_add :: "nat \<Rightarrow> sched_state \<Rightarrow> sched_state" where
  "scheduler_add p st =
     (case run_queue st of
        None \<Rightarrow> (set_proc p (\<lambda>d. d\<lparr>nxt := Some p\<rparr>) st)\<lparr>run_queue := Some p\<rparr>
      | Some h \<Rightarrow>
          let st = set_proc p (\<lambda>d. d\<lparr>nxt := nxt (proc st h)\<rparr>) st
          in set_proc h (\<lambda>d. d\<lparr>nxt := Some p\<rparr>) st)"

definition unlink :: "nat \<Rightarrow> nat \<Rightarrow> sched_state \<Rightarrow> sched_state" where
  "unlink prev p st =
     (let st = (if nxt (proc st p) = Some p then st\<lparr>run_queue := None\<rparr>
                else let st = set_proc prev (\<lambda>d. d\<lparr>nxt := nxt (proc st p)\<rparr>) st
                     in if run_queue st = Some p then st\<lparr>run_queue := nxt (proc st p)\<rparr> else st)
      in set_proc p (\<lambda>d. d\<lparr>nxt := None\<rparr>) st)"

partial_function (option) remove_loop :: "nat \<Rightarrow> nat \<Rightarrow> sched_state \<Rightarrow> sched_state option" where
  "remove_loop p prev st =
     (case nxt (proc st prev) of None \<Rightarrow> None
      | Some n \<Rightarrow>
          if n = p then Some (unlink prev p st)
          else if Some n = run_queue st then Some st
          else remove_loop p n st)"

definition scheduler_remove :: "nat \<Rightarrow> sched_state \<Rightarrow> sched_state option" where
  "scheduler_remove p st =
     (case run_queue st of None \<Rightarrow> Some st | Some h \<Rightarrow> remove_loop p h st)"

definition SCHED_TICKS_PER_SLICE :: u32 where [simp]: "SCHED_TICKS_PER_SLICE = 10"

definition scheduler_tick :: "sched_state \<Rightarrow> sched_state" where
  "scheduler_tick st =
     (let st = st\<lparr>tick_counter := tick_counter st + 1\<rparr>
      in if tick_counter st \<ge> SCHED_TICKS_PER_SLICE
         then let st = st\<lparr>tick_counter := 0\<rparr>
              in case current_proc st of
                   Some c \<Rightarrow> if pid (proc st c) \<noteq> 0 then st\<lparr>yield_pending := 1\<rparr> else st
                 | None \<Rightarrow> st
         else st)"

definition runnable :: "sched_state \<Rightarrow> nat \<Rightarrow> bool" where
  "runnable st p \<longleftrightarrow> pstate (proc st p) = PROC_READY \<or> pstate (proc st p) = PROC_RUNNING"

partial_function (option) pick_loop :: "nat \<Rightarrow> nat \<Rightarrow> sched_state \<Rightarrow> nat option" where
  "pick_loop start n st =
     (case nxt (proc st n) of None \<Rightarrow> None
      | Some m \<Rightarrow>
          if runnable st m then Some m
          else if m = start then Some m
          else pick_loop start m st)"

definition context_switch :: "nat \<Rightarrow> nat \<Rightarrow> u64 \<Rightarrow> sched_state \<Rightarrow> sched_state" where
  "context_switch old new new_pml4 st =
     (let st = set_proc old (\<lambda>d. d\<lparr>ctx := cpu st\<rparr>) st;
          st = st\<lparr>cpu := ctx (proc st new)\<rparr>
      in if new_pml4 = 0 then st
         else if cr3 st AND 0xFFFFFFFFFF000 = new_pml4 then st
         else st\<lparr>cr3 := new_pml4\<rparr>)"

definition switch_to :: "nat \<Rightarrow> sched_state \<Rightarrow> sched_state" where
  "switch_to n st =
     (let current = current_proc st;
          st = st\<lparr>run_queue := Some n\<rparr>;
          st = (case current of
                  Some c \<Rightarrow> if pstate (proc st c) = PROC_RUNNING then set_proc c (\<lambda>d. d\<lparr>pstate := PROC_READY\<rparr>) st else st
                | None \<Rightarrow> st);
          st = set_proc n (\<lambda>d. d\<lparr>pstate := PROC_RUNNING\<rparr>) st;
          st = st\<lparr>current_proc := Some n\<rparr>;
          st = (if kstack (proc st n) \<noteq> 0
                then st\<lparr>tss_rsp0 := kstack (proc st n) + KSTACK_SIZE, kernel_rsp := kstack (proc st n) + KSTACK_SIZE\<rparr>
                else st);
          old = (case current of Some c \<Rightarrow> c | None \<Rightarrow> n)
      in context_switch old n (pml4_phys (proc st n)) st)"

definition scheduler_yield :: "sched_state \<Rightarrow> sched_state option" where
  "scheduler_yield st =
     (case run_queue st of None \<Rightarrow> Some st
      | Some h \<Rightarrow>
          (case pick_loop h h st of None \<Rightarrow> None
           | Some n \<Rightarrow> Some (if Some n = current_proc st then st else switch_to n st)))"

section \<open>The run queue as a list\<close>

text \<open>\<open>chain st a xs b\<close>: following the links from \<open>a\<close> visits \<open>xs\<close> and arrives at \<open>b\<close>.\<close>

fun chain :: "sched_state \<Rightarrow> nat \<Rightarrow> nat list \<Rightarrow> nat \<Rightarrow> bool" where
  "chain st a [] b \<longleftrightarrow> a = b"
| "chain st a (x # xs) b \<longleftrightarrow> a = x \<and> (\<exists>n. nxt (proc st x) = Some n \<and> chain st n xs b)"

definition ring :: "sched_state \<Rightarrow> nat list \<Rightarrow> bool" where
  "ring st xs \<longleftrightarrow> length (proc_table st) = 64 \<and> distinct xs \<and> set xs \<subseteq> {..<64} \<and>
     (case xs of [] \<Rightarrow> run_queue st = None | h # ys \<Rightarrow> run_queue st = Some h \<and> chain st h xs h)"

lemma chain_append: "chain st a (xs @ ys) b \<longleftrightarrow> (\<exists>c. chain st a xs c \<and> chain st c ys b)"
  by (induction xs arbitrary: a) auto

lemma chain_cong: "(\<And>x. x \<in> set xs \<Longrightarrow> nxt (proc st' x) = nxt (proc st x)) \<Longrightarrow> chain st' a xs b = chain st a xs b"
  by (induction xs arbitrary: a) auto

lemma proc_set_proc: "p < length (proc_table st) \<Longrightarrow> proc (set_proc p f st) q = (if q = p then f (proc st p) else proc st q)"
  by (simp add: proc_def set_proc_def)

lemma set_proc_simps [simp]:
  "length (proc_table (set_proc p f st)) = length (proc_table st)" "current_proc (set_proc p f st) = current_proc st"
  "run_queue (set_proc p f st) = run_queue st" "cpu (set_proc p f st) = cpu st" "cr3 (set_proc p f st) = cr3 st"
  "tss_rsp0 (set_proc p f st) = tss_rsp0 st" "kernel_rsp (set_proc p f st) = kernel_rsp st"
  by (simp_all add: set_proc_def)

lemma proc_update_simps [simp]:
  "proc (st\<lparr>run_queue := q\<rparr>) p = proc st p" "proc (st\<lparr>current_proc := c\<rparr>) p = proc st p"
  "proc (st\<lparr>tss_rsp0 := a\<rparr>) p = proc st p" "proc (st\<lparr>kernel_rsp := a\<rparr>) p = proc st p"
  "proc (st\<lparr>cpu := r\<rparr>) p = proc st p" "proc (st\<lparr>cr3 := a\<rparr>) p = proc st p"
  "proc (st\<lparr>yield_pending := y\<rparr>) p = proc st p" "proc (st\<lparr>tick_counter := t\<rparr>) p = proc st p"
  by (simp_all add: proc_def)

lemma chain_update_simps [simp]:
  "chain (st\<lparr>run_queue := q\<rparr>) a xs b = chain st a xs b" "chain (st\<lparr>current_proc := c\<rparr>) a xs b = chain st a xs b"
  by (rule chain_cong, simp)+

text \<open>Adding puts the new process right behind the head.\<close>

lemma scheduler_add_ring:
  assumes "ring st xs" and "p < 64" and "p \<notin> set xs"
  shows "ring (scheduler_add p st) (case xs of [] \<Rightarrow> [p] | h # ys \<Rightarrow> h # p # ys)"
proof (cases xs)
  case Nil
  with assms show ?thesis by (simp add: ring_def scheduler_add_def proc_set_proc)
next
  case (Cons h ys)
  let ?n = "nxt (proc st h)"
  define s where "s = set_proc h (\<lambda>d. d\<lparr>nxt := Some p\<rparr>) (set_proc p (\<lambda>d. d\<lparr>nxt := ?n\<rparr>) st)"
  have len: "length (proc_table st) = 64" and d: "distinct (h # ys)" "h < 64" "set ys \<subseteq> {..<64}"
    and rq: "run_queue st = Some h" and ch: "chain st h (h # ys) h"
    using assms(1) by (auto simp: ring_def Cons)
  then obtain n where n: "?n = Some n" "chain st n ys h" by auto
  have ne: "p \<noteq> h" using assms(3) Cons by auto
  have pr: "proc s q = (if q = h then (proc st h)\<lparr>nxt := Some p\<rparr> else if q = p then (proc st p)\<lparr>nxt := ?n\<rparr> else proc st q)" for q
    using len assms(2) d(2) ne by (simp add: s_def proc_set_proc)
  have "chain s n ys h" using n(2) d assms(3) Cons by (subst chain_cong [of _ _ st]) (auto simp: pr)
  then have "chain s h (h # p # ys) h" using n(1) ne by (simp add: pr)
  moreover have "scheduler_add p st = s" using rq by (simp add: scheduler_add_def Let_def s_def)
  moreover have "run_queue s = Some h" "length (proc_table s) = 64" using rq len by (simp_all add: s_def)
  ultimately show ?thesis using d assms(2,3) Cons by (simp add: ring_def)
qed

text \<open>Removing: the loop finds the predecessor; unlinking closes the gap.\<close>

lemma proc_unlink:
  assumes "length (proc_table st) = 64" and "p < 64" and "v < 64" and "v \<noteq> p" and "nxt (proc st p) \<noteq> Some p"
  shows "nxt (proc (unlink v p st) q) = (if q = p then None else if q = v then nxt (proc st p) else nxt (proc st q))"
    and "run_queue (unlink v p st) = (if run_queue st = Some p then nxt (proc st p) else run_queue st)"
    and "length (proc_table (unlink v p st)) = 64"
  using assms by (simp_all add: unlink_def Let_def proc_set_proc)

lemma remove_loop_finds:
  assumes "chain st h (us @ v # ws) b" and "h \<notin> set (tl (us @ v # ws))" and "p \<notin> set (tl (us @ [v]))"
    and "nxt (proc st v) = Some p" and "run_queue st = Some h"
  shows "remove_loop p h st = Some (unlink v p st)"
proof -
  have "remove_loop p a st = Some (unlink v p st)"
    if "chain st a (us @ v # ws) b" "h \<notin> set (tl (us @ v # ws))" "p \<notin> set (tl (us @ [v]))" for a us
    using that
  proof (induction us arbitrary: a)
    case Nil
    then show ?case using assms(4) by (subst remove_loop.simps) simp
  next
    case (Cons u us)
    then obtain n where n: "nxt (proc st u) = Some n" "a = u" "chain st n (us @ v # ws) b" by auto
    then have hd: "n = hd (us @ [v])" by (cases us) auto
    then have "n \<noteq> p" "n \<noteq> h" using Cons.prems by (cases us; auto)+
    moreover have "h \<notin> set (tl (us @ v # ws))" "p \<notin> set (tl (us @ [v]))"
      using Cons.prems(2,3) by (cases us; auto)+
    ultimately show ?case using Cons.IH [OF n(3)] n assms(5) by (subst remove_loop.simps) simp
  qed
  from this [OF assms(1-3)] show ?thesis .
qed

lemma unlink_ring:
  assumes "length (proc_table st) = 64" and "set (us @ v # p # ws) \<subseteq> {..<64}" and "distinct (us @ v # p # ws)"
    and "chain st a (us @ v # p # ws) b" and "b \<noteq> p"
  shows "chain (unlink v p st) a (us @ v # ws) b"
proof -
  obtain n where n: "nxt (proc st p) = Some n" "chain st n ws b" "chain st a us v"
    using assms(4) by (auto simp: chain_append)
  have "n \<noteq> p" using n(2) assms(3,5) by (cases ws) auto
  then have np: "nxt (proc st p) \<noteq> Some p" using n(1) by simp
  note u = proc_unlink(1) [OF assms(1) _ _ _ np]
  have "chain (unlink v p st) a us v" using n(3) assms(2,3) by (subst chain_cong [of _ _ st]) (auto simp: u)
  moreover have "chain (unlink v p st) n ws b" using n(2) assms(2,3) by (subst chain_cong [of _ _ st]) (auto simp: u)
  moreover have "nxt (proc (unlink v p st) v) = Some n" using assms(2,3) n(1) by (auto simp: u)
  ultimately show ?thesis by (auto simp: chain_append)
qed

lemma scheduler_remove_ring:
  assumes "ring st xs" and "p \<in> set xs"
  shows "\<exists>v \<in> set xs. scheduler_remove p st = Some (unlink v p st) \<and> ring (unlink v p st) (remove1 p xs)"
proof -
  obtain h ys where xs: "xs = h # ys" using assms(2) by (cases xs) auto
  have len: "length (proc_table st) = 64" and d: "distinct xs" "set xs \<subseteq> {..<64}"
    and rq: "run_queue st = Some h" and ch: "chain st h xs h" using assms(1) by (auto simp: ring_def xs)
  consider (only) "xs = [p]" | (head) us v where "xs = p # us @ [v]" | (inner) us v ws where "xs = us @ v # p # ws"
  proof (cases "p = h")
    case True
    then show ?thesis using xs that(1,2) by (cases ys rule: rev_cases) auto
  next
    case False
    then have "p \<in> set ys" using assms(2) xs by simp
    then obtain as bs where ys: "ys = as @ p # bs" using split_list by metis
    obtain us v where usv: "h # as = us @ [v]" by (metis list.distinct(1) rev_exhaust)
    have "xs = (h # as) @ p # bs" using xs ys by simp
    then have "xs = us @ v # p # bs" unfolding usv by simp
    then show ?thesis by (rule that(3))
  qed
  then show ?thesis
  proof cases
    case only
    then have "nxt (proc st p) = Some p" "h = p" using ch xs by auto
    moreover from this have "scheduler_remove p st = Some (unlink p p st)"
      using rq by (simp add: scheduler_remove_def) (subst remove_loop.simps, simp)
    ultimately show ?thesis using only len d by (auto simp: ring_def unlink_def Let_def)
  next
    case head
    then have h: "h = p" and sp: "xs = (p # us) @ v # []" using xs by auto
    obtain n where n: "nxt (proc st p) = Some n" "chain st n us v" "nxt (proc st v) = Some p"
      using ch by (auto simp: head h chain_append)
    have vp: "v \<noteq> p" "v < 64" "p < 64" using d head by auto
    have nh: "n = hd (us @ [v])" using n(2) by (cases us) auto
    then have np: "n \<noteq> p" using d head by (cases us) auto
    have "remove_loop p h st = Some (unlink v p st)"
      using ch d rq n(3) unfolding h sp
      by (intro remove_loop_finds [where us = "p # us" and ws = "[]" and b = p]) auto
    moreover have "ring (unlink v p st) (us @ [v])"
    proof -
      note u = proc_unlink [OF len vp(3,2,1)]
      have npn: "nxt (proc st p) \<noteq> Some p" using n(1) np by simp
      have "chain (unlink v p st) n us v"
        using n(2) d head by (subst chain_cong [of _ _ st]) (auto simp: u(1) [OF npn])
      moreover have "nxt (proc (unlink v p st) v) = Some n" using vp n(1) by (simp add: u(1) [OF npn])
      ultimately have "chain (unlink v p st) n (us @ [v]) n" by (auto simp: chain_append)
      moreover have "run_queue (unlink v p st) = Some n" using rq h n(1) by (simp add: u(2) [OF npn])
      ultimately show ?thesis using d head nh u(3) [OF npn] by (cases us) (auto simp: ring_def)
    qed
    ultimately show ?thesis using head rq d by (auto simp: scheduler_remove_def)
  next
    case inner
    have hd: "h = hd (us @ [v])" using xs inner by (cases us) auto
    have hp: "h \<noteq> p" using inner hd d by (cases us) auto
    have nv: "nxt (proc st v) = Some p" using ch by (auto simp: inner chain_append)
    have rl: "remove_loop p h st = Some (unlink v p st)"
      using ch d rq nv hd unfolding inner by (intro remove_loop_finds [where us = us and ws = "p # ws" and b = h]) (cases us; auto)+
    have c: "chain (unlink v p st) h (us @ v # ws) h"
      using len d ch hp unfolding inner by (intro unlink_ring) auto
    obtain n where n: "nxt (proc st p) = Some n" "chain st n ws h" using ch by (auto simp: inner chain_append)
    have "n \<noteq> p" using n(2) d hp by (cases ws) (auto simp: inner)
    then have npn: "nxt (proc st p) \<noteq> Some p" using n(1) by simp
    have "p < 64" "v < 64" "v \<noteq> p" using d by (auto simp: inner)
    note u = proc_unlink [OF len this npn]
    have rm: "remove1 p xs = us @ v # ws" using d by (simp add: inner remove1_append)
    have "ring (unlink v p st) (us @ v # ws)"
      using c d u(2,3) rq hp hd by (cases us) (auto simp: ring_def inner)
    then show ?thesis using rl rm rq by (intro bexI [of _ v]) (auto simp: scheduler_remove_def inner)
  qed
qed

section \<open>Choosing the next process\<close>

lemma find_SomeD: "find P xs = Some x \<Longrightarrow> x \<in> set xs \<and> P x"
  by (induction xs) (auto split: if_splits)

lemma pick_loop_find:
  "nxt (proc st a) = Some n \<Longrightarrow> chain st n ys h \<Longrightarrow> h \<notin> set ys \<Longrightarrow>
   pick_loop h a st = Some (case find (runnable st) ys of Some m \<Rightarrow> m | None \<Rightarrow> h)"
proof (induction ys arbitrary: a n)
  case Nil
  then show ?case by (subst pick_loop.simps) simp
next
  case (Cons y ys)
  then obtain m where m: "n = y" "nxt (proc st y) = Some m" "chain st m ys h" by auto
  show ?case
  proof (cases "runnable st y")
    case True
    then show ?thesis using Cons.prems(1) m(1) by (subst pick_loop.simps) simp
  next
    case False
    then show ?thesis using Cons m by (subst pick_loop.simps) simp
  qed
qed

definition choice :: "sched_state \<Rightarrow> nat list \<Rightarrow> nat" where
  "choice st xs = (case find (runnable st) (tl xs) of Some m \<Rightarrow> m | None \<Rightarrow> hd xs)"

lemma pick_choice:
  assumes "ring st xs" and "xs \<noteq> []"
  shows "pick_loop (hd xs) (hd xs) st = Some (choice st xs)" and "choice st xs \<in> set xs"
proof -
  obtain h ys where xs: "xs = h # ys" using assms(2) by (cases xs) auto
  then obtain n where n: "nxt (proc st h) = Some n" "chain st n ys h" "h \<notin> set ys"
    using assms(1) by (auto simp: ring_def)
  from pick_loop_find [OF n] show "pick_loop (hd xs) (hd xs) st = Some (choice st xs)"
    by (simp add: xs choice_def split: option.split)
  show "choice st xs \<in> set xs"
    by (cases "find (runnable st) ys") (auto simp: xs choice_def dest: find_SomeD)
qed

section \<open>Switching\<close>

text \<open>What a switch from \<open>c\<close> to \<open>n\<close> does to the descriptors and the processor.\<close>

lemma context_switch_effect:
  assumes "old < length (proc_table st)" and "new \<noteq> old"
  shows "proc (context_switch old new pml4 st) q = (if q = old then (proc st old)\<lparr>ctx := cpu st\<rparr> else proc st q)"
    and "current_proc (context_switch old new pml4 st) = current_proc st"
    and "run_queue (context_switch old new pml4 st) = run_queue st"
    and "cpu (context_switch old new pml4 st) = ctx (proc st new)"
    and "length (proc_table (context_switch old new pml4 st)) = length (proc_table st)"
    and "cr3 (context_switch old new pml4 st) = (if pml4 = 0 \<or> cr3 st AND 0xFFFFFFFFFF000 = pml4 then cr3 st else pml4)"
    and "tss_rsp0 (context_switch old new pml4 st) = tss_rsp0 st"
    and "kernel_rsp (context_switch old new pml4 st) = kernel_rsp st"
  using assms by (simp_all add: context_switch_def Let_def proc_set_proc)

definition hand_over :: "nat \<Rightarrow> nat \<Rightarrow> sched_state \<Rightarrow> sched_state" where
  "hand_over c n st =
     (let st = st\<lparr>run_queue := Some n\<rparr>;
          st = (if pstate (proc st c) = PROC_RUNNING then set_proc c (\<lambda>d. d\<lparr>pstate := PROC_READY\<rparr>) st else st);
          st = set_proc n (\<lambda>d. d\<lparr>pstate := PROC_RUNNING\<rparr>) st
      in st\<lparr>current_proc := Some n\<rparr>)"

lemma hand_over_effect:
  assumes "length (proc_table st) = 64" and "c < 64" and "n < 64" and "n \<noteq> c"
  shows "proc (hand_over c n st) q =
      (if q = n then (proc st n)\<lparr>pstate := PROC_RUNNING\<rparr>
       else if q = c then (proc st c)\<lparr>pstate := (if pstate (proc st c) = PROC_RUNNING then PROC_READY else pstate (proc st c))\<rparr>
       else proc st q)"
    and "current_proc (hand_over c n st) = Some n" and "run_queue (hand_over c n st) = Some n"
    and "cpu (hand_over c n st) = cpu st" and "length (proc_table (hand_over c n st)) = 64"
    and "cr3 (hand_over c n st) = cr3 st"
  using assms by (simp_all add: hand_over_def Let_def proc_set_proc)

lemma switch_to_hand_over:
  assumes "current_proc st = Some c"
  shows "switch_to n st = (let s = hand_over c n st;
     s = (if kstack (proc s n) \<noteq> 0 then s\<lparr>tss_rsp0 := kstack (proc s n) + KSTACK_SIZE, kernel_rsp := kstack (proc s n) + KSTACK_SIZE\<rparr> else s)
     in context_switch c n (pml4_phys (proc s n)) s)"
  unfolding switch_to_def hand_over_def assms option.case Let_def by (rule refl)

lemma switch_to_effect:
  assumes "length (proc_table st) = 64" and "c < 64" and "n < 64" and "n \<noteq> c" and "current_proc st = Some c"
  shows "proc (switch_to n st) q =
      (if q = n then (proc st n)\<lparr>pstate := PROC_RUNNING\<rparr>
       else if q = c then (proc st c)\<lparr>pstate := (if pstate (proc st c) = PROC_RUNNING then PROC_READY else pstate (proc st c)), ctx := cpu st\<rparr>
       else proc st q)"
    and "current_proc (switch_to n st) = Some n" and "run_queue (switch_to n st) = Some n"
    and "cpu (switch_to n st) = ctx (proc st n)" and "length (proc_table (switch_to n st)) = 64"
    and "cr3 (switch_to n st) = (if pml4_phys (proc st n) = 0 \<or> cr3 st AND 0xFFFFFFFFFF000 = pml4_phys (proc st n)
           then cr3 st else pml4_phys (proc st n))"
    and "kstack (proc st n) \<noteq> 0 \<longrightarrow> tss_rsp0 (switch_to n st) = kstack (proc st n) + KSTACK_SIZE \<and>
           kernel_rsp (switch_to n st) = kstack (proc st n) + KSTACK_SIZE"
  using assms(2-4)
  by (simp_all add: switch_to_hand_over [OF assms(5)] Let_def context_switch_effect hand_over_effect [OF assms(1-4)]
     )

lemma ring_rotate:
  assumes "ring st (us @ n # vs)" and "\<And>q. nxt (proc st' q) = nxt (proc st q)" and "run_queue st' = Some n"
    and "length (proc_table st') = 64"
  shows "ring st' (n # vs @ us)"
proof -
  obtain h ys where h: "us @ n # vs = h # ys" by (cases us) auto
  then have "chain st h (us @ n # vs) h" using assms(1) by (simp add: ring_def)
  then have "chain st h us n" "chain st n (n # vs) h" by (auto simp: chain_append)
  then have "chain st n ((n # vs) @ us) n" unfolding chain_append by blast
  then have "chain st' n (n # vs @ us) n" using assms(2) by (subst chain_cong [of _ _ st]) auto
  then show ?thesis using assms by (auto simp: ring_def)
qed

definition sched_inv :: "sched_state \<Rightarrow> nat list \<Rightarrow> nat \<Rightarrow> bool" where
  "sched_inv st xs c \<longleftrightarrow> ring st xs \<and> current_proc st = Some c \<and> c \<in> set xs \<and>
     (\<forall>p \<in> set xs. pstate (proc st p) = PROC_RUNNING \<longrightarrow> p = c)"

lemma sched_inv_bounds: "sched_inv st xs c \<Longrightarrow> length (proc_table st) = 64 \<and> c < 64 \<and> xs \<noteq> [] \<and> set xs \<subseteq> {..<64} \<and> distinct xs"
  by (auto simp: sched_inv_def ring_def)

lemma scheduler_yield_choice:
  assumes "sched_inv st xs c"
  shows "scheduler_yield st = Some (if choice st xs = c then st else switch_to (choice st xs) st)"
proof -
  have r: "ring st xs" "xs \<noteq> []" using assms sched_inv_bounds by (auto simp: sched_inv_def)
  then have "run_queue st = Some (hd xs)" by (cases xs) (auto simp: ring_def)
  then show ?thesis
    using pick_choice(1) [OF r] assms by (auto simp: scheduler_yield_def sched_inv_def)
qed

lemma switch_keeps_inv:
  assumes "sched_inv st (us @ n # vs) c" and "n \<noteq> c"
  shows "sched_inv (switch_to n st) (n # vs @ us) n"
proof -
  note b = sched_inv_bounds [OF assms(1)]
  have cur: "current_proc st = Some c" and n: "n < 64" using assms(1) b by (auto simp: sched_inv_def)
  note e = switch_to_effect [OF _ _ n assms(2) cur]
  have "nxt (proc (switch_to n st) q) = nxt (proc st q)" for q using b by (simp add: e(1))
  then have "ring (switch_to n st) (n # vs @ us)"
    using assms(1) b e(3,5) by (intro ring_rotate) (auto simp: sched_inv_def)
  then show ?thesis using assms b e(1,2) by (auto simp: sched_inv_def)
qed

fun yields :: "nat \<Rightarrow> sched_state \<Rightarrow> sched_state option" where
  "yields 0 st = Some st"
| "yields (Suc k) st = Option.bind (yields k st) scheduler_yield"

lemma yield_next:
  assumes "sched_inv st xs (hd xs)" and "\<forall>p \<in> set xs. runnable st p"
  shows "\<exists>st'. scheduler_yield st = Some st' \<and> sched_inv st' (rotate1 xs) (hd (rotate1 xs)) \<and> (\<forall>p \<in> set xs. runnable st' p)"
proof -
  note b = sched_inv_bounds [OF assms(1)]
  obtain h ys where xs: "xs = h # ys" using b by (cases xs) auto
  show ?thesis
  proof (cases ys)
    case Nil
    then show ?thesis using assms scheduler_yield_choice [OF assms(1)] by (simp add: xs choice_def)
  next
    case (Cons n vs)
    have ch: "choice st xs = n" using assms(2) by (simp add: xs Cons choice_def)
    have ne: "n \<noteq> hd xs" "n < 64" using b by (auto simp: xs Cons)
    have inv: "sched_inv (switch_to n st) (n # vs @ [h]) n"
      using switch_keeps_inv [of st "[h]" n vs "hd xs"] assms(1) ne by (simp add: xs Cons)
    have cur: "current_proc st = Some (hd xs)" using assms(1) by (simp add: sched_inv_def)
    note e = switch_to_effect(1) [OF _ _ ne(2,1) cur]
    have "runnable (switch_to n st) p" if "p \<in> set xs" for p
      using assms(2) that b by (auto simp: runnable_def e)
    then show ?thesis using scheduler_yield_choice [OF assms(1)] inv ch ne by (simp add: xs Cons)
  qed
qed

lemma yields_rotate:
  assumes "sched_inv st xs (hd xs)" and "\<forall>p \<in> set xs. runnable st p"
  shows "\<exists>st'. yields k st = Some st' \<and> sched_inv st' (rotate k xs) (hd (rotate k xs)) \<and> (\<forall>p \<in> set xs. runnable st' p)"
proof (induction k)
  case 0
  then show ?case using assms by simp
next
  case (Suc k)
  then obtain s where s: "yields k st = Some s" "sched_inv s (rotate k xs) (hd (rotate k xs))"
    "\<forall>p \<in> set (rotate k xs). runnable s p" by auto
  have "set (rotate k xs) = set xs" "rotate (Suc k) xs = rotate1 (rotate k xs)" by (simp_all add: rotate_def [symmetric])
  then show ?case using yield_next [OF s(2,3)] s(1) by auto
qed

section \<open>Properties\<close>

text \<open>A four-entry excerpt of the process table, used to instantiate the properties: process 0 is running, 1 and 2
  are ready, 3 is a zombie, and all four are on the ring.\<close>

definition no_context :: cpu_context where
  "no_context = \<lparr>rbx = 0, rbp = 0, r12 = 0, r13 = 0, r14 = 0, r15 = 0, rsp = 0, rip = 0\<rparr>"

definition sample_proc :: "nat \<Rightarrow> proc_state \<Rightarrow> nat option \<Rightarrow> process" where
  "sample_proc i s n = \<lparr>pid = of_nat i, ppid = 0, pstate = s, exit_status = 0, pname = [], kstack = 0x1000 * of_nat i,
     ctx = no_context\<lparr>rip := of_nat i\<rparr>, pml4_phys = 0, user_rip = 0, user_rsp = 0, user_rflags = 0, mmap_next = 0, nxt = n\<rparr>"

definition sample_sched :: sched_state where
  "sample_sched = \<lparr>proc_table = [sample_proc 0 PROC_RUNNING (Some 3), sample_proc 1 PROC_READY (Some 2),
       sample_proc 2 PROC_READY (Some 0), sample_proc 3 PROC_ZOMBIE (Some 1)] @ replicate 60 (sample_proc 9 PROC_UNUSED None),
     current_proc = Some 0, run_queue = Some 0, tick_counter = 0, yield_pending = 0, cpu = no_context, cr3 = 0,
     tss_rsp0 = 0, kernel_rsp = 0\<rparr>"

lemma sample_sched_inv: "sched_inv sample_sched [0, 3, 1, 2] 0"
  by (simp add: sched_inv_def ring_def sample_sched_def proc_def sample_proc_def)

text \<open>C5. Whenever the run queue is a ring of processes and the current process is the only one of them marked running,
  a yield terminates and picks the first ready or running process behind the head of the queue, falling back to the
  head itself; the invariant holds again afterwards with the chosen process current, and the ring has the same
  members in the same cyclic order, rotated so that the chosen process is at its head. When the choice differs from
  the caller, the caller's registers are stored in its descriptor and the processor continues with the registers
  stored in the chosen one.\<close>

theorem scheduler_yield_round_robin:
  assumes "sched_inv st xs c"
  shows "\<exists>st'. scheduler_yield st = Some st' \<and>
     (if choice st xs = c then st' = st
      else (\<exists>us vs. xs = us @ choice st xs # vs \<and> sched_inv st' (choice st xs # vs @ us) (choice st xs)) \<and>
        ctx (proc st' c) = cpu st \<and> cpu st' = ctx (proc st (choice st xs)) \<and>
        (\<forall>q. q \<noteq> c \<and> q \<noteq> choice st xs \<longrightarrow> proc st' q = proc st q))"
proof (cases "choice st xs = c")
  case True
  then show ?thesis using scheduler_yield_choice [OF assms] by simp
next
  case False
  note b = sched_inv_bounds [OF assms]
  have mem: "choice st xs \<in> set xs" using pick_choice(2) assms b by (auto simp: sched_inv_def)
  then have n: "choice st xs < 64" using b by auto
  have cur: "current_proc st = Some c" using assms by (simp add: sched_inv_def)
  obtain us vs where xs: "xs = us @ choice st xs # vs" using split_list [OF mem] by blast
  have "sched_inv (switch_to (choice st xs) st) (choice st xs # vs @ us) (choice st xs)"
    using assms xs False by (intro switch_keeps_inv) auto
  then show ?thesis
    using scheduler_yield_choice [OF assms] switch_to_effect(1,4) [OF _ _ n False cur] False xs b by auto
qed

theorem scheduler_yield_round_robin_witness:
  "\<exists>st'. scheduler_yield sample_sched = Some st' \<and> current_proc st' = Some 1 \<and> rip (cpu st') = 1"
proof -
  have c: "choice sample_sched [0, 3, 1, 2] = 1"
    by (simp add: choice_def runnable_def sample_sched_def proc_def sample_proc_def)
  have "rip (ctx (proc sample_sched 1)) = 1" by (simp add: sample_sched_def proc_def sample_proc_def)
  then show ?thesis using scheduler_yield_round_robin [OF sample_sched_inv] unfolding c by (auto simp: sched_inv_def)
qed

text \<open>C12. No process starves: from a ring of runnable processes whose head is the current one, the k-th yield runs the
  process at position k modulo the length of the ring, so each of n processes runs once in every n yields.\<close>

theorem yields_fair:
  assumes "sched_inv st xs (hd xs)" and "\<forall>p \<in> set xs. runnable st p"
  shows "\<exists>st'. yields k st = Some st' \<and> current_proc st' = Some (xs ! (k mod length xs))"
  using yields_rotate [OF assms, of k] sched_inv_bounds [OF assms(1)] by (auto simp: sched_inv_def hd_rotate_conv_nth)

definition sample_ready :: sched_state where
  "sample_ready = set_proc 3 (\<lambda>d. d\<lparr>pstate := PROC_READY\<rparr>) sample_sched"

theorem yields_fair_witness:
  "\<exists>st'. yields 1001 sample_ready = Some st' \<and> current_proc st' = Some 3"
  using yields_fair [of sample_ready "[0, 3, 1, 2]" 1001]
  by (simp add: sched_inv_def ring_def sample_ready_def set_proc_def runnable_def sample_sched_def proc_def sample_proc_def)

end
