(* ===== verification/Vmm.thy ===== *)
theory Vmm
  imports Pmm Cpu
begin

text \<open>
  The virtual memory manager (\<^verbatim>\<open>src/vmm/vmm.c\<close>): four-level page tables in physical frames that the
  kernel reads and writes through its window at \<open>KERNEL_VMA\<close>. Memory is a map from the addresses of
  64-bit cells to their contents; every access of this component is to an aligned cell. The lemmas
  show that the tables of an address space form a tree that the operations keep, and what mapping a page
  and resolving a copy-on-write fault do to the translation of every address. The translation caches
  of the processor are not modelled, so \<^verbatim>\<open>invlpg\<close> has no effect here.
\<close>

section \<open>Constants and state\<close>

definition PAGE_SIZE :: u64 where [simp]: "PAGE_SIZE = 4096"
definition PTE_PRESENT :: u64 where [simp]: "PTE_PRESENT = 0x1"
definition PTE_WRITE :: u64 where [simp]: "PTE_WRITE = 0x2"
definition PTE_USER :: u64 where [simp]: "PTE_USER = 0x4"
definition PTE_HUGE :: u64 where [simp]: "PTE_HUGE = 0x80"
definition PTE_COW :: u64 where [simp]: "PTE_COW = 0x200"
definition PTE_ADDR_MASK :: u64 where "PTE_ADDR_MASK = 0x000FFFFFFFFFF000"
definition PT_ENTRIES :: nat where [simp]: "PT_ENTRIES = 512"

definition VA_PML4_IDX :: "u64 \<Rightarrow> nat" where "VA_PML4_IDX va = unat (drop_bit 39 va AND 0x1FF)"
definition VA_PDPT_IDX :: "u64 \<Rightarrow> nat" where "VA_PDPT_IDX va = unat (drop_bit 30 va AND 0x1FF)"
definition VA_PDT_IDX :: "u64 \<Rightarrow> nat" where "VA_PDT_IDX va = unat (drop_bit 21 va AND 0x1FF)"
definition VA_PT_IDX :: "u64 \<Rightarrow> nat" where "VA_PT_IDX va = unat (drop_bit 12 va AND 0x1FF)"

definition PHYS_TO_VIRT :: "u64 \<Rightarrow> u64" where "PHYS_TO_VIRT p = KERNEL_VMA + p"
definition VIRT_TO_PHYS :: "u64 \<Rightarrow> u64" where "VIRT_TO_PHYS v = v - KERNEL_VMA"

text \<open>\<open>vmm_pml4\<close> is the file's static \<^verbatim>\<open>pml4_phys\<close>, \<open>kernel_pml4\<close> its exported \<^verbatim>\<open>kernel_pml4_phys\<close>; \<open>vcr3\<close> the processor's CR3.\<close>

record vm_state =
  pmm :: pmm_state
  kmem :: "u64 \<Rightarrow> u64"
  vmm_pml4 :: u64
  kernel_pml4 :: u64
  vcr3 :: u64

definition wr :: "u64 \<Rightarrow> u64 \<Rightarrow> 'a vm_state_scheme \<Rightarrow> 'a vm_state_scheme" where
  "wr a v st = st\<lparr>kmem := (kmem st)(a := v)\<rparr>"

definition alloc_frame :: "'a vm_state_scheme \<Rightarrow> 'a vm_state_scheme \<times> u64" where
  "alloc_frame st = (case pmm_alloc_frame (pmm st) of (p, a) \<Rightarrow> (st\<lparr>pmm := p\<rparr>, a))"

definition free_frame :: "u64 \<Rightarrow> 'a vm_state_scheme \<Rightarrow> 'a vm_state_scheme" where
  "free_frame a st = st\<lparr>pmm := pmm_free_frame a (pmm st)\<rparr>"

text \<open>\<^verbatim>\<open>memset(p, 0, 8 * n)\<close> and \<^verbatim>\<open>memcpy(d, s, 8 * n)\<close> on aligned addresses.\<close>

definition zero_cells :: "u64 \<Rightarrow> nat \<Rightarrow> 'a vm_state_scheme \<Rightarrow> 'a vm_state_scheme" where
  "zero_cells p n st = for_range 0 n (\<lambda>i. wr (p + 8 * of_nat i) 0) st"

definition copy_cells :: "u64 \<Rightarrow> u64 \<Rightarrow> nat \<Rightarrow> 'a vm_state_scheme \<Rightarrow> 'a vm_state_scheme" where
  "copy_cells d s n st = for_range 0 n (\<lambda>i st. wr (d + 8 * of_nat i) (kmem st (s + 8 * of_nat i)) st) st"

section \<open>Mapping\<close>

text \<open>The result is the address of the next table, 0 for the null pointer.\<close>

definition get_or_alloc_table :: "u64 \<Rightarrow> u64 \<Rightarrow> 'a vm_state_scheme \<Rightarrow> 'a vm_state_scheme \<times> u64" where
  "get_or_alloc_table entry flags st =
     (if kmem st entry AND PTE_PRESENT = 0
      then case alloc_frame st of (st, frame) \<Rightarrow>
             if frame = 0 then (st, 0)
             else let st = zero_cells (PHYS_TO_VIRT frame) PT_ENTRIES st;
                      st = wr entry (frame OR flags OR PTE_PRESENT) st
                  in (st, PHYS_TO_VIRT (kmem st entry AND PTE_ADDR_MASK))
      else (st, PHYS_TO_VIRT (kmem st entry AND PTE_ADDR_MASK)))"

text \<open>The body the three mapping functions share: they differ in the root table and in the flags of the
  intermediate entries.\<close>

definition map_in :: "u64 \<Rightarrow> u64 \<Rightarrow> u64 \<Rightarrow> u64 \<Rightarrow> u64 \<Rightarrow> 'a vm_state_scheme \<Rightarrow> 'a vm_state_scheme \<times> int" where
  "map_in root tflags virt phys flags st =
     (case get_or_alloc_table (PHYS_TO_VIRT root + 8 * of_nat (VA_PML4_IDX virt)) tflags st of (st, pdpt) \<Rightarrow>
      if pdpt = 0 then (st, -1) else
      case get_or_alloc_table (pdpt + 8 * of_nat (VA_PDPT_IDX virt)) tflags st of (st, pdt) \<Rightarrow>
      if pdt = 0 then (st, -1) else
      case get_or_alloc_table (pdt + 8 * of_nat (VA_PDT_IDX virt)) tflags st of (st, pt) \<Rightarrow>
      if pt = 0 then (st, -1) else
      (wr (pt + 8 * of_nat (VA_PT_IDX virt)) ((phys AND PTE_ADDR_MASK) OR flags OR PTE_PRESENT) st, 0))"

definition vmm_map_page :: "u64 \<Rightarrow> u64 \<Rightarrow> u64 \<Rightarrow> 'a vm_state_scheme \<Rightarrow> 'a vm_state_scheme \<times> int" where
  "vmm_map_page virt phys flags st = map_in (vmm_pml4 st) (PTE_WRITE OR PTE_USER) virt phys flags st"

definition vmm_map_user_page :: "u64 \<Rightarrow> u64 \<Rightarrow> u64 \<Rightarrow> u64 \<Rightarrow> 'a vm_state_scheme \<Rightarrow> 'a vm_state_scheme \<times> int" where
  "vmm_map_user_page target virt phys flags st = map_in target (PTE_WRITE OR PTE_USER) virt phys flags st"

definition vmm_map_kernel_in_user_pml4 :: "u64 \<Rightarrow> u64 \<Rightarrow> u64 \<Rightarrow> u64 \<Rightarrow> 'a vm_state_scheme \<Rightarrow> 'a vm_state_scheme \<times> int" where
  "vmm_map_kernel_in_user_pml4 target virt phys flags st = map_in target PTE_WRITE virt phys flags st"

definition vmm_unmap_page :: "u64 \<Rightarrow> 'a vm_state_scheme \<Rightarrow> 'a vm_state_scheme" where
  "vmm_unmap_page virt st =
     (let e4 = kmem st (PHYS_TO_VIRT (vmm_pml4 st) + 8 * of_nat (VA_PML4_IDX virt)) in
      if e4 AND PTE_PRESENT = 0 then st else
      let e3 = kmem st (PHYS_TO_VIRT (e4 AND PTE_ADDR_MASK) + 8 * of_nat (VA_PDPT_IDX virt)) in
      if e3 AND PTE_PRESENT = 0 then st else
      let e2 = kmem st (PHYS_TO_VIRT (e3 AND PTE_ADDR_MASK) + 8 * of_nat (VA_PDT_IDX virt)) in
      if e2 AND PTE_PRESENT = 0 then st else
      wr (PHYS_TO_VIRT (e2 AND PTE_ADDR_MASK) + 8 * of_nat (VA_PT_IDX virt)) 0 st)"

text \<open>\<^verbatim>\<open>vmm_get_phys\<close> with its root table as an argument.\<close>

definition get_phys_in :: "u64 \<Rightarrow> 'a vm_state_scheme \<Rightarrow> u64 \<Rightarrow> u64" where
  "get_phys_in root st virt =
     (let e4 = kmem st (PHYS_TO_VIRT root + 8 * of_nat (VA_PML4_IDX virt)) in
      if e4 AND PTE_PRESENT = 0 then 0 else
      let e3 = kmem st (PHYS_TO_VIRT (e4 AND PTE_ADDR_MASK) + 8 * of_nat (VA_PDPT_IDX virt)) in
      if e3 AND PTE_PRESENT = 0 then 0
      else if e3 AND PTE_HUGE \<noteq> 0 then (e3 AND 0x000FFFFFC0000000) OR (virt AND 0x3FFFFFFF) else
      let e2 = kmem st (PHYS_TO_VIRT (e3 AND PTE_ADDR_MASK) + 8 * of_nat (VA_PDT_IDX virt)) in
      if e2 AND PTE_PRESENT = 0 then 0
      else if e2 AND PTE_HUGE \<noteq> 0 then (e2 AND 0x000FFFFFFFE00000) OR (virt AND 0x1FFFFF) else
      let e1 = kmem st (PHYS_TO_VIRT (e2 AND PTE_ADDR_MASK) + 8 * of_nat (VA_PT_IDX virt)) in
      if e1 AND PTE_PRESENT = 0 then 0
      else (e1 AND PTE_ADDR_MASK) OR (virt AND (PAGE_SIZE - 1)))"

definition vmm_get_phys :: "'a vm_state_scheme \<Rightarrow> u64 \<Rightarrow> u64" where
  "vmm_get_phys st virt = get_phys_in (vmm_pml4 st) st virt"

definition vmm_switch_to :: "u64 \<Rightarrow> 'a vm_state_scheme \<Rightarrow> 'a vm_state_scheme" where
  "vmm_switch_to new_pml4_phys st =
     (if new_pml4_phys \<noteq> vcr3 st AND PTE_ADDR_MASK then st\<lparr>vcr3 := new_pml4_phys\<rparr> else st)"

section \<open>Address spaces\<close>

definition vmm_create_user_pml4 :: "'a vm_state_scheme \<Rightarrow> 'a vm_state_scheme \<times> u64" where
  "vmm_create_user_pml4 st =
     (case alloc_frame st of (st, frame) \<Rightarrow>
      if frame = 0 then (st, 0)
      else let new_pml4 = PHYS_TO_VIRT frame;
               boot_pml4 = PHYS_TO_VIRT (vmm_pml4 st);
               st = zero_cells new_pml4 256 st;
               st = copy_cells (new_pml4 + 8 * 256) (boot_pml4 + 8 * 256) 256 st
           in (st, frame))"

definition cow_clone_entry :: "u64 \<Rightarrow> u64 \<Rightarrow> nat \<Rightarrow> 'a vm_state_scheme \<Rightarrow> 'a vm_state_scheme" where
  "cow_clone_entry src dst i st =
     (let e = kmem st (src + 8 * of_nat i) in
      if e AND PTE_PRESENT = 0 then wr (dst + 8 * of_nat i) 0 st
      else if e AND PTE_WRITE \<noteq> 0
      then let e = (e AND NOT PTE_WRITE) OR PTE_COW
           in wr (dst + 8 * of_nat i) e (wr (src + 8 * of_nat i) e st)
      else wr (dst + 8 * of_nat i) e st)"

definition cow_clone_pt :: "u64 \<Rightarrow> 'a vm_state_scheme \<Rightarrow> 'a vm_state_scheme \<times> u64" where
  "cow_clone_pt src_pt st =
     (case alloc_frame st of (st, frame) \<Rightarrow>
      if frame = 0 then (st, 0)
      else (for_range 0 PT_ENTRIES (cow_clone_entry src_pt (PHYS_TO_VIRT frame)) st, frame))"

text \<open>The loop over the entries of an upper table: \<open>n\<close> entries from index \<open>i\<close> on, each cloned by
  \<open>sub\<close>; the flag is false when a clone failed and the loop was left.\<close>

fun clone_loop :: "(u64 \<Rightarrow> 'a vm_state_scheme \<Rightarrow> 'a vm_state_scheme \<times> u64) \<Rightarrow> bool \<Rightarrow> u64 \<Rightarrow> u64 \<Rightarrow> nat \<Rightarrow> nat \<Rightarrow>
    'a vm_state_scheme \<Rightarrow> 'a vm_state_scheme \<times> bool" where
  "clone_loop sub huge src dst i 0 st = (st, True)"
| "clone_loop sub huge src dst i (Suc n) st =
     (let e = kmem st (src + 8 * of_nat i) in
      if e AND PTE_PRESENT = 0 then clone_loop sub huge src dst (Suc i) n (wr (dst + 8 * of_nat i) 0 st)
      else if huge \<and> e AND PTE_HUGE \<noteq> 0 then clone_loop sub huge src dst (Suc i) n (wr (dst + 8 * of_nat i) e st)
      else case sub (PHYS_TO_VIRT (e AND PTE_ADDR_MASK)) st of (st, new) \<Rightarrow>
           if new = 0 then (st, False)
           else clone_loop sub huge src dst (Suc i) n (wr (dst + 8 * of_nat i) ((e AND NOT PTE_ADDR_MASK) OR new) st))"

definition cow_clone_pdt :: "u64 \<Rightarrow> 'a vm_state_scheme \<Rightarrow> 'a vm_state_scheme \<times> u64" where
  "cow_clone_pdt src_pdt st =
     (case alloc_frame st of (st, frame) \<Rightarrow>
      if frame = 0 then (st, 0)
      else case clone_loop cow_clone_pt True src_pdt (PHYS_TO_VIRT frame) 0 PT_ENTRIES st of (st, ok) \<Rightarrow>
           if ok then (st, frame) else (free_frame frame st, 0))"

definition cow_clone_pdpt :: "u64 \<Rightarrow> 'a vm_state_scheme \<Rightarrow> 'a vm_state_scheme \<times> u64" where
  "cow_clone_pdpt src_pdpt st =
     (case alloc_frame st of (st, frame) \<Rightarrow>
      if frame = 0 then (st, 0)
      else case clone_loop cow_clone_pdt True src_pdpt (PHYS_TO_VIRT frame) 0 PT_ENTRIES st of (st, ok) \<Rightarrow>
           if ok then (st, frame) else (free_frame frame st, 0))"

definition free_user_pdt :: "u64 \<Rightarrow> 'a vm_state_scheme \<Rightarrow> 'a vm_state_scheme" where
  "free_user_pdt pdt st = for_range 0 PT_ENTRIES (\<lambda>j st.
     let e1 = kmem st (pdt + 8 * of_nat j)
     in if e1 AND PTE_PRESENT = 0 \<or> e1 AND PTE_HUGE \<noteq> 0 then st
        else free_frame (e1 AND PTE_ADDR_MASK) st) st"

definition free_user_pdpt :: "u64 \<Rightarrow> 'a vm_state_scheme \<Rightarrow> 'a vm_state_scheme" where
  "free_user_pdpt pdpt_phys st =
     free_frame pdpt_phys (for_range 0 PT_ENTRIES (\<lambda>i st.
       let e2 = kmem st (PHYS_TO_VIRT pdpt_phys + 8 * of_nat i)
       in if e2 AND PTE_PRESENT = 0 \<or> e2 AND PTE_HUGE \<noteq> 0 then st
          else free_frame (e2 AND PTE_ADDR_MASK) (free_user_pdt (PHYS_TO_VIRT (e2 AND PTE_ADDR_MASK)) st)) st)"

definition vmm_destroy_user_pml4 :: "u64 \<Rightarrow> 'a vm_state_scheme \<Rightarrow> 'a vm_state_scheme" where
  "vmm_destroy_user_pml4 target st =
     free_frame target (for_range 0 256 (\<lambda>i st.
       let e = kmem st (PHYS_TO_VIRT target + 8 * of_nat i)
       in if e AND PTE_PRESENT = 0 then st else free_user_pdpt (e AND PTE_ADDR_MASK) st) st)"

definition vmm_fork_pml4 :: "u64 \<Rightarrow> 'a vm_state_scheme \<Rightarrow> 'a vm_state_scheme \<times> u64" where
  "vmm_fork_pml4 src_pml4_phys st =
     (case alloc_frame st of (st, frame) \<Rightarrow>
      if frame = 0 then (st, 0)
      else let src_pml4 = PHYS_TO_VIRT src_pml4_phys;
               dst_pml4 = PHYS_TO_VIRT frame;
               st = zero_cells dst_pml4 256 st;
               st = copy_cells (dst_pml4 + 8 * 256) (src_pml4 + 8 * 256) 256 st
           in case clone_loop cow_clone_pdpt False src_pml4 dst_pml4 0 256 st of (st, ok) \<Rightarrow>
              if ok then (st\<lparr>vcr3 := src_pml4_phys\<rparr>, frame)
              else (vmm_destroy_user_pml4 frame st, 0))"

section \<open>Faults\<close>

definition cow_handle :: "u64 \<Rightarrow> 'a vm_state_scheme \<Rightarrow> 'a vm_state_scheme \<times> bool" where
  "cow_handle cr2 st =
     (let cur_pml4 = vcr3 st AND PTE_ADDR_MASK;
          e4 = kmem st (PHYS_TO_VIRT cur_pml4 + 8 * of_nat (VA_PML4_IDX cr2)) in
      if e4 AND PTE_PRESENT = 0 then (st, False) else
      let e3 = kmem st (PHYS_TO_VIRT (e4 AND PTE_ADDR_MASK) + 8 * of_nat (VA_PDPT_IDX cr2)) in
      if e3 AND PTE_PRESENT = 0 \<or> e3 AND PTE_HUGE \<noteq> 0 then (st, False) else
      let e2 = kmem st (PHYS_TO_VIRT (e3 AND PTE_ADDR_MASK) + 8 * of_nat (VA_PDT_IDX cr2)) in
      if e2 AND PTE_PRESENT = 0 \<or> e2 AND PTE_HUGE \<noteq> 0 then (st, False) else
      let pte = PHYS_TO_VIRT (e2 AND PTE_ADDR_MASK) + 8 * of_nat (VA_PT_IDX cr2) in
      if kmem st pte AND PTE_PRESENT = 0 \<or> kmem st pte AND PTE_COW = 0 then (st, False) else
      let old_phys = kmem st pte AND PTE_ADDR_MASK in
      case alloc_frame st of (st, new_phys) \<Rightarrow>
      if new_phys = 0 then (st, False) else
      let st = copy_cells (PHYS_TO_VIRT new_phys) (PHYS_TO_VIRT old_phys) 512 st;
          st = wr pte ((kmem st pte AND NOT (PTE_ADDR_MASK OR PTE_COW)) OR new_phys OR PTE_WRITE) st
      in (st, True))"

text \<open>The handler either resolves the fault and returns (\<open>Some\<close>) or reports it and stops the processor.\<close>

definition page_fault_handler_c :: "u64 \<Rightarrow> u64 \<Rightarrow> 'a vm_state_scheme \<Rightarrow> 'a vm_state_scheme option" where
  "page_fault_handler_c cr2 err st =
     (if err AND 3 = 3
      then case cow_handle cr2 st of (st, handled) \<Rightarrow> if handled then Some st else None
      else None)"

definition vmm_init :: "u64 \<Rightarrow> idt_state \<Rightarrow> 'a vm_state_scheme \<Rightarrow> idt_state \<times> 'a vm_state_scheme \<times> int" where
  "vmm_init pf_stub i st =
     (let st = st\<lparr>vmm_pml4 := vcr3 st AND PTE_ADDR_MASK\<rparr>;
          st = st\<lparr>kernel_pml4 := vmm_pml4 st\<rparr>
      in (idt_set_gate 14 pf_stub 0 i, st, 0))"

section \<open>Tables and their entries\<close>

definition entry :: "'a vm_state_scheme \<Rightarrow> u64 \<Rightarrow> nat \<Rightarrow> u64" where
  "entry st t i = kmem st (PHYS_TO_VIRT t + 8 * of_nat i)"

text \<open>A frame address the kernel window reaches.\<close>

definition is_table :: "u64 \<Rightarrow> bool" where
  "is_table t \<longleftrightarrow> t \<noteq> 0 \<and> t AND PTE_ADDR_MASK = t \<and> page_no t < 524288"

definition used_table :: "'a vm_state_scheme \<Rightarrow> u64 \<Rightarrow> bool" where
  "used_table st t \<longleftrightarrow> is_table t \<and> page_no t \<notin> free_set (pmm st)"

definition vm_ok :: "'a vm_state_scheme \<Rightarrow> bool" where
  "vm_ok st \<longleftrightarrow> pmm_ok (pmm st) \<and> free_set (pmm st) \<subseteq> {..<524288}"

lemma addr_mask_bit: "bit PTE_ADDR_MASK n \<longleftrightarrow> 12 \<le> n \<and> n < 52"
proof -
  have "PTE_ADDR_MASK = push_bit 12 (mask 40)" by (simp add: PTE_ADDR_MASK_def mask_eq_exp_minus_1)
  then have "bit PTE_ADDR_MASK n = bit (push_bit 12 (mask 40) :: u64) n" by metis
  then show ?thesis by (auto simp: bit_simps)
qed

lemma masked_bits: "t AND PTE_ADDR_MASK = t \<Longrightarrow> bit t n \<Longrightarrow> 12 \<le> n \<and> n < 52"
  by (metis addr_mask_bit bit_and_iff)

lemma aligned_unat: "t AND PTE_ADDR_MASK = t \<Longrightarrow> unat t = 4096 * page_no t"
proof -
  assume t: "t AND PTE_ADDR_MASK = t"
  have "take_bit 12 t = 0" by (rule bit_eqI) (use masked_bits [OF t] in \<open>fastforce simp: bit_simps\<close>)
  then have "unat t mod 2 ^ 12 = 0" by (metis take_bit_eq_mod unsigned_0 unsigned_take_bit_eq)
  then show ?thesis using mult_div_mod_eq [of 4096 "unat t"] by (simp add: page_no_def)
qed

lemma masked_of_page: "unat t mod 4096 = 0 \<Longrightarrow> page_no t < 1048576 \<Longrightarrow> t AND PTE_ADDR_MASK = t"
proof -
  assume t: "unat t mod 4096 = 0" "page_no t < 1048576"
  have "\<not> bit t n" if "n < 12" for n
  proof -
    have "take_bit 12 (unat t) = 0" using t(1) by (simp add: take_bit_eq_mod)
    then have "\<not> bit (take_bit 12 (unat t)) n" by simp
    then show ?thesis using that by (simp add: bit_simps bit_unsigned_iff)
  qed
  moreover have "\<not> bit t n" if "n \<ge> 52" for n
  proof -
    have "unat t < 2 ^ 52" using t(2) by (simp add: page_no_def)
    then have "take_bit 52 (unat t) = unat t" by (simp add: take_bit_nat_eq_self)
    then have "\<not> bit (unat t) n" using that by (metis bit_take_bit_iff not_less)
    then show ?thesis by (simp add: bit_unsigned_iff)
  qed
  ultimately show ?thesis by (intro bit_eqI) (auto simp: bit_and_iff addr_mask_bit not_le [symmetric])
qed

lemma table_addr_inj:
  assumes "is_table t" "is_table t'" "i < 512" "j < 512"
    and "PHYS_TO_VIRT t + 8 * of_nat i = PHYS_TO_VIRT t' + 8 * of_nat j"
  shows "t = t' \<and> i = j"
proof -
  have cell: "unat (x + 8 * of_nat k) = 4096 * page_no x + 8 * k" if "is_table x" "k < 512" for x :: u64 and k
  proof -
    have x: "unat x = 4096 * page_no x" "page_no x < 524288" using that aligned_unat by (auto simp: is_table_def)
    have "unat (8 * of_nat k :: u64) = 8 * k"
      using that(2) by (simp add: unat_word_ariths unat_of_nat)
    moreover have "unat (x + 8 * of_nat k) = unat x + unat (8 * of_nat k :: u64)"
      using x calculation that(2) by (intro iffD1 [OF unat_add_lem]) simp
    ultimately show ?thesis using x(1) by simp
  qed
  have "t + 8 * of_nat i = t' + 8 * of_nat j" using assms(5) by (simp add: PHYS_TO_VIRT_def)
  then have eq: "4096 * page_no t + 8 * i = 4096 * page_no t' + 8 * j" using cell assms by metis
  have ij: "i = j" using arg_cong [OF eq, of "\<lambda>x. x mod 4096"] assms(3,4) by (simp add: mod_simps)
  then have "unat t = unat t'" using eq assms(1,2) by (simp add: aligned_unat is_table_def)
  then show ?thesis using ij by (simp add: word_unat_eq_iff)
qed

lemma entry_wr:
  "is_table t \<Longrightarrow> is_table t' \<Longrightarrow> i < 512 \<Longrightarrow> j < 512 \<Longrightarrow>
   entry (wr (PHYS_TO_VIRT t + 8 * of_nat i) v st) t' j = (if t' = t \<and> j = i then v else entry st t' j)"
  using table_addr_inj [of t' t j i] by (auto simp: entry_def wr_def simp del: add_left_cancel add_right_cancel)

lemma wr_simps [simp]:
  "pmm (wr a v st) = pmm st" "vmm_pml4 (wr a v st) = vmm_pml4 st" "vcr3 (wr a v st) = vcr3 st"
  "vm_ok (wr a v st) = vm_ok st" "used_table (wr a v st) t = used_table st t"
  by (simp_all add: wr_def vm_ok_def used_table_def)

lemma zero_cells_eq:
  "zero_cells p n st = st\<lparr>kmem := (\<lambda>a. if \<exists>i < n. a = p + 8 * of_nat i then 0 else kmem st a)\<rparr>"
  unfolding zero_cells_def
proof (induction n)
  case 0
  then show ?case by simp
next
  case (Suc n)
  have "(\<lambda>a. if \<exists>i < n. a = p + 8 * of_nat i then 0 else kmem st a)(p + 8 * of_nat n := 0) =
      (\<lambda>a. if \<exists>i < Suc n. a = p + 8 * of_nat i then 0 else kmem st a)"
    by (rule ext) (auto simp: less_Suc_eq)
  then show ?case unfolding for_range_last [OF le0] Suc by (simp add: wr_def)
qed

lemma zero_cells_simps [simp]:
  "pmm (zero_cells p n st) = pmm st" "vmm_pml4 (zero_cells p n st) = vmm_pml4 st"
  "vcr3 (zero_cells p n st) = vcr3 st" "vm_ok (zero_cells p n st) = vm_ok st"
  by (simp_all add: zero_cells_eq vm_ok_def)

lemma entry_zero_cells:
  assumes "is_table f" "is_table t" "i < 512"
  shows "entry (zero_cells (PHYS_TO_VIRT f) 512 st) t i = (if t = f then 0 else entry st t i)"
proof (cases "t = f")
  case True
  then show ?thesis using assms(3) by (auto simp: entry_def zero_cells_eq)
next
  case False
  then have "\<not> (\<exists>j < 512. PHYS_TO_VIRT t + 8 * of_nat i = PHYS_TO_VIRT f + 8 * of_nat j)"
    using table_addr_inj [of t f i] assms by blast
  then show ?thesis unfolding entry_def zero_cells_eq using False by auto
qed

lemma alloc_frame_effect:
  assumes "vm_ok st" and "alloc_frame st = (st', f)"
  shows "vm_ok st'" and "f = 0 \<Longrightarrow> free_set (pmm st) = {} \<and> st' = st" and "kmem st' = kmem st"
    and "f \<noteq> 0 \<Longrightarrow> is_table f \<and> page_no f \<in> free_set (pmm st) \<and> free_set (pmm st') = free_set (pmm st) - {page_no f}"
    and "vmm_pml4 st' = vmm_pml4 st" and "vcr3 st' = vcr3 st"
proof -
  obtain p where p: "pmm_alloc_frame (pmm st) = (p, f)" and st': "st' = st\<lparr>pmm := p\<rparr>"
    using assms(2) by (auto simp: alloc_frame_def split: prod.splits)
  have ok: "pmm_ok (pmm st)" using assms(1) by (simp add: vm_ok_def)
  note e = pmm_alloc_effect [OF ok p]
  show "f = 0 \<Longrightarrow> free_set (pmm st) = {} \<and> st' = st" using e(3) by (simp add: st')
  have nz: "page_no f \<in> free_set (pmm st) \<and> unat f mod 4096 = 0 \<and> free_set p = free_set (pmm st) - {page_no f}"
    if "f \<noteq> 0" using e(4) that by blast
  moreover have "page_no f < 524288" if "f \<noteq> 0" using nz [OF that] assms(1) by (auto simp: vm_ok_def)
  ultimately show "f \<noteq> 0 \<Longrightarrow> is_table f \<and> page_no f \<in> free_set (pmm st) \<and> free_set (pmm st') = free_set (pmm st) - {page_no f}"
    by (auto simp: is_table_def st' masked_of_page)
  show "vm_ok st'" using assms(1) e(1,3) nz by (cases "f = 0") (auto simp: vm_ok_def st')
qed (use assms(2) in \<open>auto simp: alloc_frame_def split: prod.splits\<close>)

section \<open>The tree of tables\<close>

definition links :: "u64 \<Rightarrow> bool" where
  "links e \<longleftrightarrow> e AND PTE_PRESENT \<noteq> 0 \<and> e AND PTE_HUGE = 0"

text \<open>\<open>walk st t p\<close> is the table reached from \<open>t\<close> along the indices \<open>p\<close>.\<close>

fun walk :: "'a vm_state_scheme \<Rightarrow> u64 \<Rightarrow> nat list \<Rightarrow> u64 option" where
  "walk st t [] = Some t"
| "walk st t (i # p) = (if links (entry st t i) then walk st (entry st t i AND PTE_ADDR_MASK) p else None)"

definition paths :: "nat set \<Rightarrow> nat list set" where
  "paths I = {p. length p \<le> 3 \<and> set p \<subseteq> {..<512} \<and> (p \<noteq> [] \<longrightarrow> hd p \<in> I)}"

definition tables :: "'a vm_state_scheme \<Rightarrow> u64 \<Rightarrow> nat set \<Rightarrow> u64 set" where
  "tables st root I = {t. \<exists>p \<in> paths I. walk st root p = Some t}"

text \<open>The tables below the root entries \<open>I\<close> form a tree of allocated frames: different paths lead to
  different tables.\<close>

definition space :: "'a vm_state_scheme \<Rightarrow> u64 \<Rightarrow> nat set \<Rightarrow> bool" where
  "space st root I \<longleftrightarrow> vm_ok st \<and> I \<subseteq> {..<512} \<and>
     (\<forall>p t. p \<in> paths I \<and> walk st root p = Some t \<longrightarrow> used_table st t) \<and>
     (\<forall>p q t. p \<in> paths I \<and> q \<in> paths I \<and> walk st root p = Some t \<and> walk st root q = Some t \<longrightarrow> p = q) \<and>
     (\<forall>i \<in> I. entry st root i AND PTE_PRESENT \<noteq> 0 \<longrightarrow> entry st root i AND PTE_HUGE = 0)"

lemma spaceD:
  assumes "space st root I"
  shows "vm_ok st" and "p \<in> paths I \<Longrightarrow> walk st root p = Some t \<Longrightarrow> used_table st t"
    and "p \<in> paths I \<Longrightarrow> q \<in> paths I \<Longrightarrow> walk st root p = Some t \<Longrightarrow> walk st root q = Some t \<Longrightarrow> p = q"
    and "i \<in> I \<Longrightarrow> entry st root i AND PTE_PRESENT \<noteq> 0 \<Longrightarrow> entry st root i AND PTE_HUGE = 0"
    and "I \<subseteq> {..<512}"
  using assms unfolding space_def by blast+

lemma walk_append: "walk st t (p @ q) = Option.bind (walk st t p) (\<lambda>t'. walk st t' q)"
  by (induction p arbitrary: t) auto

lemma walk_snoc: "walk st t (p @ [i]) = Option.bind (walk st t p)
    (\<lambda>t'. if links (entry st t' i) then Some (entry st t' i AND PTE_ADDR_MASK) else None)"
  by (cases "walk st t p") (simp_all add: walk_append)

lemma paths_nil [simp]: "[] \<in> paths I"
  by (simp add: paths_def)

lemma paths_snoc: "p @ [i] \<in> paths I \<longleftrightarrow> p \<in> paths I \<and> length p < 3 \<and> i < 512 \<and> (p = [] \<longrightarrow> i \<in> I)"
  by (cases p) (auto simp: paths_def)

lemma paths_prefix: "p @ q \<in> paths I \<Longrightarrow> p \<in> paths I"
  by (cases p) (auto simp: paths_def)

lemma walk_cong:
  assumes "\<And>q i r t. p = q @ i # r \<Longrightarrow> walk st root q = Some t \<Longrightarrow> entry st' t i = entry st t i"
  shows "walk st' root p = walk st root p"
  using assms
proof (induction p rule: rev_induct)
  case Nil
  then show ?case by simp
next
  case (snoc i p)
  have p: "walk st' root p = walk st root p"
  proof (rule snoc.IH)
    fix q j r t assume "p = q @ j # r" "walk st root q = Some t"
    then show "entry st' t j = entry st t j" by (intro snoc.prems [of q j "r @ [i]"]) auto
  qed
  show ?case
  proof (cases "walk st root p")
    case None
    then show ?thesis by (simp add: walk_snoc p)
  next
    case (Some t)
    then have "entry st' t i = entry st t i" by (intro snoc.prems [of p i "[]"]) auto
    then show ?thesis by (simp add: walk_snoc p Some)
  qed
qed

text \<open>The indices of an address, and its translation in terms of walks.\<close>

definition va_path :: "u64 \<Rightarrow> nat list" where
  "va_path va = [VA_PML4_IDX va, VA_PDPT_IDX va, VA_PDT_IDX va, VA_PT_IDX va]"

lemma va_idx_bound:
  "VA_PML4_IDX va < 512" "VA_PDPT_IDX va < 512" "VA_PDT_IDX va < 512" "VA_PT_IDX va < 512"
proof -
  have "unat (x AND 0x1FF) < 512" for x :: u64
  proof -
    have "(0x1FF :: u64) = mask 9" by (simp add: mask_eq_exp_minus_1)
    then show ?thesis by (simp only: unat_and_mask) simp
  qed
  then show "VA_PML4_IDX va < 512" "VA_PDPT_IDX va < 512" "VA_PDT_IDX va < 512" "VA_PT_IDX va < 512"
    by (simp_all add: VA_PML4_IDX_def VA_PDPT_IDX_def VA_PDT_IDX_def VA_PT_IDX_def)
qed

lemma va_paths:
  "VA_PML4_IDX va \<in> I \<Longrightarrow> [VA_PML4_IDX va] \<in> paths I \<and> [VA_PML4_IDX va, VA_PDPT_IDX va] \<in> paths I \<and>
     [VA_PML4_IDX va, VA_PDPT_IDX va, VA_PDT_IDX va] \<in> paths I"
  using va_idx_bound [of va] by (simp add: paths_def)

lemma get_phys_entries: "get_phys_in root st virt =
     (let e4 = entry st root (VA_PML4_IDX virt) in
      if e4 AND PTE_PRESENT = 0 then 0 else
      let e3 = entry st (e4 AND PTE_ADDR_MASK) (VA_PDPT_IDX virt) in
      if e3 AND PTE_PRESENT = 0 then 0
      else if e3 AND PTE_HUGE \<noteq> 0 then (e3 AND 0x000FFFFFC0000000) OR (virt AND 0x3FFFFFFF) else
      let e2 = entry st (e3 AND PTE_ADDR_MASK) (VA_PDT_IDX virt) in
      if e2 AND PTE_PRESENT = 0 then 0
      else if e2 AND PTE_HUGE \<noteq> 0 then (e2 AND 0x000FFFFFFFE00000) OR (virt AND 0x1FFFFF) else
      let e1 = entry st (e2 AND PTE_ADDR_MASK) (VA_PT_IDX virt) in
      if e1 AND PTE_PRESENT = 0 then 0
      else (e1 AND PTE_ADDR_MASK) OR (virt AND (PAGE_SIZE - 1)))"
  unfolding get_phys_in_def entry_def by (rule refl)

lemma get_phys_cong:
  assumes "\<And>q i r t. va_path va = q @ i # r \<Longrightarrow> walk st root q = Some t \<Longrightarrow> entry st' t i = entry st t i"
    and "entry st root (VA_PML4_IDX va) AND PTE_PRESENT \<noteq> 0 \<Longrightarrow> entry st root (VA_PML4_IDX va) AND PTE_HUGE = 0"
  shows "get_phys_in root st' va = get_phys_in root st va"
proof -
  let ?a = "VA_PML4_IDX va" and ?b = "VA_PDPT_IDX va" and ?c = "VA_PDT_IDX va" and ?d = "VA_PT_IDX va"
  let ?e4 = "entry st root ?a"
  let ?e3 = "entry st (?e4 AND PTE_ADDR_MASK) ?b"
  let ?e2 = "entry st (?e3 AND PTE_ADDR_MASK) ?c"
  have 4: "entry st' root ?a = ?e4" by (rule assms(1) [of "[]" _ "[?b, ?c, ?d]"]) (simp_all add: va_path_def)
  have 3: "entry st' (?e4 AND PTE_ADDR_MASK) ?b = ?e3" if "?e4 AND PTE_PRESENT \<noteq> 0"
    by (rule assms(1) [of "[?a]" _ "[?c, ?d]"]) (use that assms(2) in \<open>simp_all add: va_path_def links_def\<close>)
  have 2: "entry st' (?e3 AND PTE_ADDR_MASK) ?c = ?e2"
    if "?e4 AND PTE_PRESENT \<noteq> 0" "?e3 AND PTE_PRESENT \<noteq> 0" "?e3 AND PTE_HUGE = 0"
    by (rule assms(1) [of "[?a, ?b]" _ "[?d]"]) (use that assms(2) in \<open>simp_all add: va_path_def links_def\<close>)
  have 1: "entry st' (?e2 AND PTE_ADDR_MASK) ?d = entry st (?e2 AND PTE_ADDR_MASK) ?d"
    if "?e4 AND PTE_PRESENT \<noteq> 0" "?e3 AND PTE_PRESENT \<noteq> 0" "?e3 AND PTE_HUGE = 0" "?e2 AND PTE_PRESENT \<noteq> 0" "?e2 AND PTE_HUGE = 0"
    by (rule assms(1) [of "[?a, ?b, ?c]" _ "[]"]) (use that assms(2) in \<open>simp_all add: va_path_def links_def\<close>)
  show ?thesis unfolding get_phys_entries Let_def using 4 3 2 1 by (simp cong: if_cong)
qed

lemma get_phys_walk:
  assumes "walk st root [VA_PML4_IDX va, VA_PDPT_IDX va, VA_PDT_IDX va] = Some t"
  shows "get_phys_in root st va = (if entry st t (VA_PT_IDX va) AND PTE_PRESENT = 0 then 0
     else (entry st t (VA_PT_IDX va) AND PTE_ADDR_MASK) OR (va AND 0xFFF))"
  using assms by (auto simp: get_phys_entries Let_def links_def split: if_splits)

lemma get_phys_unmapped:
  assumes "va_path va = q @ i # r" and "walk st root q = Some t" and "entry st t i AND PTE_PRESENT = 0"
  shows "get_phys_in root st va = 0"
proof -
  consider "q = []" | "q = [VA_PML4_IDX va]" | "q = [VA_PML4_IDX va, VA_PDPT_IDX va]"
    | "q = [VA_PML4_IDX va, VA_PDPT_IDX va, VA_PDT_IDX va]"
    using assms(1) unfolding va_path_def by (auto simp: Cons_eq_append_conv)
  then show ?thesis
    by cases (use assms in \<open>auto simp: va_path_def get_phys_entries Let_def links_def split: if_splits\<close>)
qed

section \<open>Adding a table\<close>

text \<open>No 1 GB or 2 MB page on the way to \<open>va\<close>.\<close>

definition no_huge :: "'a vm_state_scheme \<Rightarrow> u64 \<Rightarrow> u64 \<Rightarrow> bool" where
  "no_huge st root va \<longleftrightarrow> (\<forall>q i r t. va_path va = q @ i # r \<and> r \<noteq> [] \<and> walk st root q = Some t \<and>
     entry st t i AND PTE_PRESENT \<noteq> 0 \<longrightarrow> entry st t i AND PTE_HUGE = 0)"

lemma no_hugeD: "no_huge st root va \<Longrightarrow> va_path va = q @ i # r \<Longrightarrow> r \<noteq> [] \<Longrightarrow> walk st root q = Some t \<Longrightarrow>
    entry st t i AND PTE_PRESENT \<noteq> 0 \<Longrightarrow> entry st t i AND PTE_HUGE = 0"
  unfolding no_huge_def by blast

lemma va_path_split:
  assumes "va_path va = q @ i # r" and "VA_PML4_IDX va \<in> I"
  shows "q \<in> paths I" and "i < 512" and "r \<noteq> [] \<Longrightarrow> q @ [i] \<in> paths I"
  using assms va_idx_bound [of va] by (auto simp: va_path_def paths_def Cons_eq_append_conv)

text \<open>\<open>st'\<close> extends \<open>st\<close>: the tree is still one, every table is where it was, every address translates as
  before, and no frame in use outside the tree has changed.\<close>

definition extends :: "u64 \<Rightarrow> nat set \<Rightarrow> 'a vm_state_scheme \<Rightarrow> 'a vm_state_scheme \<Rightarrow> bool" where
  "extends root I st st' \<longleftrightarrow> space st' root I \<and>
     (\<forall>va. VA_PML4_IDX va \<in> I \<longrightarrow> get_phys_in root st' va = get_phys_in root st va) \<and>
     (\<forall>va. VA_PML4_IDX va \<in> I \<and> no_huge st root va \<longrightarrow> no_huge st' root va) \<and>
     (\<forall>p t. p \<in> paths I \<and> walk st root p = Some t \<longrightarrow> walk st' root p = Some t) \<and>
     free_set (pmm st') \<subseteq> free_set (pmm st) \<and>
     (\<forall>t. used_table st t \<and> t \<notin> tables st root I \<longrightarrow> t \<notin> tables st' root I \<and> (\<forall>i < 512. entry st' t i = entry st t i)) \<and>
     (\<forall>i < 512. i \<notin> I \<longrightarrow> entry st' root i = entry st root i)"

lemma extends_refl: "space st root I \<Longrightarrow> extends root I st st"
  by (simp add: extends_def)

lemma used_table_mono: "free_set (pmm st') \<subseteq> free_set (pmm st) \<Longrightarrow> used_table st t \<Longrightarrow> used_table st' t"
  by (auto simp: used_table_def)

lemma extends_trans: "extends root I st st' \<Longrightarrow> extends root I st' st'' \<Longrightarrow> extends root I st st''"
  unfolding extends_def using used_table_mono [of st' st] by (intro conjI allI impI; (simp; fail)?; blast?)

lemma new_entry_bits:
  assumes "is_table f" and "fl = 2 \<or> fl = 6"
  shows "links (f OR fl OR PTE_PRESENT)" and "(f OR fl OR PTE_PRESENT) AND PTE_ADDR_MASK = f"
proof -
  have b: "bit f n \<longrightarrow> 12 \<le> n \<and> n < 52" for n using masked_bits assms(1) by (auto simp: is_table_def)
  have "f AND 1 = 0" "f AND 0x80 = 0"
  proof -
    show "f AND 1 = 0" using b [of 0] by (simp add: and_one_eq even_bit_succ_iff) (metis bit_0 even_iff_mod_2_eq_zero)
    show "f AND 0x80 = 0"
    proof (rule bit_eqI)
      fix n
      have "(0x80 :: u64) = push_bit 7 1" by simp
      then show "bit (f AND 0x80) n = bit 0 n" using b [of n] by (auto simp only: bit_and_iff bit_push_bit_iff bit_0_eq bit_1_iff)
    qed
  qed
  then show "links (f OR fl OR PTE_PRESENT)" using assms(2) by (auto simp: links_def bit.conj_disj_distrib2)
  show "(f OR fl OR PTE_PRESENT) AND PTE_ADDR_MASK = f"
    using assms by (auto simp: bit.conj_disj_distrib2 is_table_def) (simp_all add: PTE_ADDR_MASK_def)
qed

text \<open>Installing a fresh zeroed table \<open>f\<close> at the absent entry \<open>i\<close> of the table at \<open>p\<close>.\<close>

lemma install_walk:
  assumes sp: "space st root I" and pi: "p @ [i] \<in> paths I" and wp: "walk st root p = Some t"
    and np: "entry st t i AND PTE_PRESENT = 0"
    and f: "is_table f" "f \<notin> tables st root I" and v: "links v" "v AND PTE_ADDR_MASK = f"
    and en: "\<And>x j. is_table x \<Longrightarrow> j < 512 \<Longrightarrow>
      entry st' x j = (if x = t \<and> j = i then v else if x = f then 0 else entry st x j)"
    and q: "q \<in> paths I"
  shows "walk st' root q = (if q = p @ [i] then Some f else walk st root q)"
proof -
  have pp: "p \<in> paths I" and i: "i < 512" using pi by (simp_all add: paths_snoc)
  have off: "walk st' root q = walk st root q" if q: "q \<in> paths I" and no: "\<And>r. q \<noteq> (p @ [i]) @ r" for q
  proof (rule walk_cong)
    fix q' j r t' assume a: "q = q' @ j # r" "walk st root q' = Some t'"
    have q': "q' \<in> paths I" "j < 512" using a(1) q paths_prefix [of q' "j # r"] by (auto simp: paths_def)
    have "used_table st t'" using spaceD(2) [OF sp q'(1) a(2)] .
    moreover have "t' \<noteq> f" using f(2) q'(1) a(2) by (auto simp: tables_def)
    moreover have "\<not> (t' = t \<and> j = i)" using spaceD(3) [OF sp q'(1) pp a(2)] wp no [of r] a(1) by auto
    ultimately show "entry st' t' j = entry st t' j" using en [of t' j] q'(2) by (auto simp: used_table_def)
  qed
  have wp': "walk st' root p = Some t" using off [OF pp] wp by simp
  have ut: "is_table t" using spaceD(2) [OF sp pp wp] by (simp add: used_table_def)
  have at: "walk st' root (p @ [i]) = Some f" using wp' v en [OF ut i] by (simp add: walk_snoc)
  show ?thesis
  proof (cases "\<exists>r. q = (p @ [i]) @ r")
    case False
    then show ?thesis using off [OF q] by (metis append_Nil2)
  next
    case True
    then obtain r where r: "q = (p @ [i]) @ r" by blast
    have old: "walk st root q = None" unfolding r walk_append [of _ _ "p @ [i]"] walk_snoc wp using np by (simp add: links_def)
    show ?thesis
    proof (cases r)
      case Nil
      then show ?thesis using at r by simp
    next
      case (Cons j r')
      have "j < 512" using q r Cons by (simp add: paths_def)
      moreover have "f \<noteq> t" using f(2) pp wp by (auto simp: tables_def)
      ultimately have "entry st' f j = 0" using en f(1) by simp
      then have "walk st' root q = None" unfolding r walk_append [of _ _ "p @ [i]"] at by (simp add: Cons links_def)
      then show ?thesis using old r Cons by simp
    qed
  qed
qed

lemma install_extends:
  assumes sp: "space st root I" and pi: "p @ [i] \<in> paths I" and wp: "walk st root p = Some t"
    and np: "entry st t i AND PTE_PRESENT = 0"
    and f: "is_table f" "page_no f \<in> free_set (pmm st)" and v: "links v" "v AND PTE_ADDR_MASK = f"
    and en: "\<And>x j. is_table x \<Longrightarrow> j < 512 \<Longrightarrow>
      entry st' x j = (if x = t \<and> j = i then v else if x = f then 0 else entry st x j)"
    and fs: "free_set (pmm st') = free_set (pmm st) - {page_no f}" and ok: "vm_ok st'"
  shows "extends root I st st'" and "walk st' root (p @ [i]) = Some f"
proof -
  have used: "used_table st x" if "x \<in> tables st root I" for x using that spaceD(2) [OF sp] by (auto simp: tables_def)
  have fnew: "f \<notin> tables st root I" using used [of f] f(2) by (auto simp: used_table_def)
  have w: "walk st' root q = (if q = p @ [i] then Some f else walk st root q)" if "q \<in> paths I" for q
    by (rule install_walk [OF sp pi wp np f(1) fnew v _ that]) (rule en)
  show at: "walk st' root (p @ [i]) = Some f" using w [OF pi] by simp
  have old: "walk st root (p @ [i]) = None" using np by (simp add: walk_snoc wp links_def)
  have ut: "is_table t" "t \<in> tables st root I" "p \<in> paths I" "i < 512"
    using pi used [of t] wp by (auto simp: tables_def paths_snoc used_table_def)
  have tab: "tables st' root I \<subseteq> insert f (tables st root I)" by (auto simp: tables_def w split: if_splits)
  have rt: "is_table root" using spaceD(2) [OF sp paths_nil] by (simp add: used_table_def)
  have "space st' root I"
    unfolding space_def
  proof (intro conjI allI impI ballI)
    show "vm_ok st'" "I \<subseteq> {..<512}" using ok spaceD(5) [OF sp] .
  next
    fix q x assume "q \<in> paths I \<and> walk st' root q = Some x"
    then have "x = f \<or> used_table st x" using w spaceD(2) [OF sp] by (auto split: if_splits)
    then show "used_table st' x" using f fs by (auto simp: used_table_def)
  next
    fix q q' x assume a: "q \<in> paths I \<and> q' \<in> paths I \<and> walk st' root q = Some x \<and> walk st' root q' = Some x"
    then show "q = q'" using w [of q] w [of q'] spaceD(3) [OF sp, of q q' x] fnew
      by (auto simp: tables_def split: if_splits)
  next
    fix j assume j: "j \<in> I" "entry st' root j AND PTE_PRESENT \<noteq> 0"
    have "j < 512" using j(1) spaceD(5) [OF sp] by auto
    then show "entry st' root j AND PTE_HUGE = 0"
      using en [OF rt] j v(1) spaceD(4) [OF sp j(1)] by (auto simp: links_def split: if_splits)
  qed
  moreover have "get_phys_in root st' va = get_phys_in root st va" if va: "VA_PML4_IDX va \<in> I" for va
  proof (cases "\<exists>r. va_path va = p @ i # r")
    case True
    then obtain r where r: "va_path va = p @ i # r" by blast
    then obtain j r' where j: "r = j # r'" using pi by (cases r) (auto simp: va_path_def paths_def)
    have jb: "j < 512" using r j va_idx_bound [of va] by (auto simp: va_path_def Cons_eq_append_conv)
    have "f \<noteq> t" using fnew ut by blast
    then have "entry st' f j = 0" using en [OF f(1) jb] by simp
    then have "get_phys_in root st' va = 0"
      by (intro get_phys_unmapped [OF _ at, of va j r']) (simp_all add: r j)
    then show ?thesis using get_phys_unmapped [OF r wp np] by simp
  next
    case False
    show ?thesis
    proof (rule get_phys_cong)
      fix q j r x assume a: "va_path va = q @ j # r" "walk st root q = Some x"
      have q: "q \<in> paths I" "j < 512"
        using va_path_split [OF a(1) va] by auto
      have "\<not> (x = t \<and> j = i)" using spaceD(3) [OF sp q(1) ut(3) a(2)] wp a(1) False by auto
      moreover have "x \<noteq> f" "is_table x" using q(1) a(2) fnew used [of x] by (auto simp: tables_def used_table_def)
      ultimately show "entry st' x j = entry st x j" using en [of x j] q(2) by auto
    qed (use spaceD(4) [OF sp va] in simp)
  qed
  moreover have "no_huge st' root va" if va: "VA_PML4_IDX va \<in> I" and nh: "no_huge st root va" for va
    unfolding no_huge_def
  proof (intro allI impI, elim conjE)
    fix q j r x assume a: "va_path va = q @ j # r" "r \<noteq> []" "walk st' root q = Some x" "entry st' x j AND PTE_PRESENT \<noteq> 0"
    have q: "q \<in> paths I" "j < 512" using va_path_split [OF a(1) va] by auto
    have "x = f \<or> walk st root q = Some x" using w [OF q(1)] a(3) by (auto split: if_splits)
    moreover have "is_table x" using calculation f(1) spaceD(2) [OF sp q(1)] by (auto simp: used_table_def)
    ultimately show "entry st' x j AND PTE_HUGE = 0"
      using en [of x j] q(2) v(1) no_hugeD [OF nh a(1,2)] a(4) by (auto simp: links_def split: if_splits)
  qed
  moreover have "walk st' root q = Some x" if "q \<in> paths I" "walk st root q = Some x" for q x
    using w [OF that(1)] that(2) old by auto
  moreover have "x \<notin> tables st' root I \<and> (\<forall>j < 512. entry st' x j = entry st x j)"
    if "used_table st x" "x \<notin> tables st root I" for x
    using that tab en [of x] f(2) ut(2) by (auto simp: used_table_def)
  moreover have "entry st' root j = entry st root j" if j: "j < 512" "j \<notin> I" for j
  proof -
    have "p = []" if "root = t" using spaceD(3) [OF sp paths_nil ut(3)] wp that by simp
    then have "\<not> (root = t \<and> j = i)" using pi j(2) paths_snoc [of p i I] by auto
    moreover have "root \<noteq> f" using fnew paths_nil [of I] walk.simps(1) [of st root] unfolding tables_def by blast
    ultimately show ?thesis using en [OF rt j(1)] by auto
  qed
  ultimately show "extends root I st st'" using fs by (auto simp: extends_def)
qed

lemma phys_to_virt_nonzero: "is_table t \<Longrightarrow> PHYS_TO_VIRT t \<noteq> 0"
proof
  assume "is_table t" "PHYS_TO_VIRT t = 0"
  then have "unat t < 2147483648" and "t = - KERNEL_VMA"
    by (auto simp: is_table_def PHYS_TO_VIRT_def page_no_def add_eq_0_iff)
  then show False by simp
qed

text \<open>One level of a mapping.\<close>

lemma get_or_alloc_table_extends:
  assumes sp: "space st root I" and pi: "p @ [i] \<in> paths I" and wp: "walk st root p = Some t"
    and nh: "entry st t i AND PTE_PRESENT \<noteq> 0 \<Longrightarrow> entry st t i AND PTE_HUGE = 0" and fl: "fl = 2 \<or> fl = 6"
    and g: "get_or_alloc_table (PHYS_TO_VIRT t + 8 * of_nat i) fl st = (st', x)"
  shows "extends root I st st'"
    and "if x = 0 then free_set (pmm st) = {} else \<exists>t'. x = PHYS_TO_VIRT t' \<and> walk st' root (p @ [i]) = Some t'"
    and "card (free_set (pmm st)) \<le> card (free_set (pmm st')) + (if x = 0 then 0 else 1)"
proof -
  have ut: "is_table t" "p \<in> paths I" "i < 512"
    using pi spaceD(2) [OF sp _ wp] by (auto simp: paths_snoc used_table_def)
  have "extends root I st st' \<and> (if x = 0 then free_set (pmm st) = {} else \<exists>t'. x = PHYS_TO_VIRT t' \<and> walk st' root (p @ [i]) = Some t') \<and>
    card (free_set (pmm st)) \<le> card (free_set (pmm st')) + (if x = 0 then 0 else 1)"
  proof (cases "entry st t i AND PTE_PRESENT = 0")
    case False
    then have w: "walk st root (p @ [i]) = Some (entry st t i AND PTE_ADDR_MASK)" using nh by (simp add: walk_snoc wp links_def)
    then have "is_table (entry st t i AND PTE_ADDR_MASK)" using spaceD(2) [OF sp pi] by (auto simp: used_table_def)
    then have "PHYS_TO_VIRT (entry st t i AND PTE_ADDR_MASK) \<noteq> 0" by (rule phys_to_virt_nonzero)
    then show ?thesis using g False w extends_refl [OF sp] by (auto simp: get_or_alloc_table_def entry_def)
  next
    case True
    obtain st1 f where a: "alloc_frame st = (st1, f)" by (cases "alloc_frame st")
    note e = alloc_frame_effect [OF spaceD(1) [OF sp] a]
    show ?thesis
    proof (cases "f = 0")
      case True
      then show ?thesis using g a \<open>entry st t i AND PTE_PRESENT = 0\<close> e(2) extends_refl [OF sp]
        by (auto simp: get_or_alloc_table_def entry_def)
    next
      case False
      define s where "s = wr (PHYS_TO_VIRT t + 8 * of_nat i) (f OR fl OR PTE_PRESENT) (zero_cells (PHYS_TO_VIRT f) 512 st1)"
      have f: "is_table f" "page_no f \<in> free_set (pmm st)" "free_set (pmm st1) = free_set (pmm st) - {page_no f}"
        using e(4) False by auto
      note v = new_entry_bits [OF f(1) fl]
      have "(st', x) = (s, PHYS_TO_VIRT (kmem s (PHYS_TO_VIRT t + 8 * of_nat i) AND PTE_ADDR_MASK))"
        using g a True False unfolding s_def by (auto simp: get_or_alloc_table_def entry_def Let_def)
      then have st': "st' = s" and x: "x = PHYS_TO_VIRT f" using v(2) by (simp_all add: s_def wr_def)
      have same: "entry st1 y j = entry st y j" for y j using e(3) by (simp add: entry_def)
      have en: "entry s y j = (if y = t \<and> j = i then f OR fl OR PTE_PRESENT else if y = f then 0 else entry st y j)"
        if "is_table y" "j < 512" for y j
        unfolding s_def entry_wr [OF ut(1) that(1) ut(3) that(2)] entry_zero_cells [OF f(1) that] same by (rule refl)
      have fs: "free_set (pmm s) = free_set (pmm st) - {page_no f}" "vm_ok s" using f(3) e(1) by (simp_all add: s_def)
      have "extends root I st s" by (rule install_extends(1) [OF sp pi wp True f(1,2) v _ fs]) (rule en)
      moreover have "walk s root (p @ [i]) = Some f" by (rule install_extends(2) [OF sp pi wp True f(1,2) v _ fs]) (rule en)
      moreover have "card (free_set (pmm st)) = Suc (card (free_set (pmm s)))"
        unfolding fs(1) using f(2) by (metis card_Suc_Diff1 finite_free_set)
      ultimately show ?thesis using phys_to_virt_nonzero [OF f(1)] by (auto simp: st' x)
    qed
  qed
  then show "extends root I st st'"
    and "if x = 0 then free_set (pmm st) = {} else \<exists>t'. x = PHYS_TO_VIRT t' \<and> walk st' root (p @ [i]) = Some t'"
    and "card (free_set (pmm st)) \<le> card (free_set (pmm st')) + (if x = 0 then 0 else 1)" by blast+
qed

section \<open>Mapping a page\<close>

lemma va_path_prefixes:
  "va_path va = [] @ VA_PML4_IDX va # [VA_PDPT_IDX va, VA_PDT_IDX va, VA_PT_IDX va]"
  "va_path va = [VA_PML4_IDX va] @ VA_PDPT_IDX va # [VA_PDT_IDX va, VA_PT_IDX va]"
  "va_path va = [VA_PML4_IDX va, VA_PDPT_IDX va] @ VA_PDT_IDX va # [VA_PT_IDX va]"
  "va_path va = [VA_PML4_IDX va, VA_PDPT_IDX va, VA_PDT_IDX va] @ VA_PT_IDX va # []"
  by (simp_all add: va_path_def)

lemma extendsD:
  assumes "extends root I st st'"
  shows "space st' root I" and "VA_PML4_IDX va \<in> I \<Longrightarrow> get_phys_in root st' va = get_phys_in root st va"
    and "VA_PML4_IDX va \<in> I \<Longrightarrow> no_huge st root va \<Longrightarrow> no_huge st' root va"
    and "p \<in> paths I \<Longrightarrow> walk st root p = Some t \<Longrightarrow> walk st' root p = Some t"
    and "free_set (pmm st') \<subseteq> free_set (pmm st)"
    and "used_table st t \<Longrightarrow> t \<notin> tables st root I \<Longrightarrow> t \<notin> tables st' root I \<and> (\<forall>i < 512. entry st' t i = entry st t i)"
    and "j < 512 \<Longrightarrow> j \<notin> I \<Longrightarrow> entry st' root j = entry st root j"
  using assms unfolding extends_def by blast+

text \<open>A level of the walk for \<open>va\<close>: the table exists afterwards, or no frame is free.\<close>

lemma level_extends:
  assumes sp: "space st root I" and va: "VA_PML4_IDX va \<in> I" and nh: "no_huge st root va" and fl: "fl = 2 \<or> fl = 6"
    and p: "va_path va = q @ i # r" "r \<noteq> []" and w: "walk st root q = Some t"
    and g: "get_or_alloc_table (PHYS_TO_VIRT t + 8 * of_nat i) fl st = (st', x)"
  shows "extends root I st st' \<and> no_huge st' root va \<and>
    (if x = 0 then free_set (pmm st') = {} else \<exists>t'. x = PHYS_TO_VIRT t' \<and> walk st' root (q @ [i]) = Some t') \<and>
    card (free_set (pmm st)) \<le> card (free_set (pmm st')) + (if x = 0 then 0 else 1)"
proof -
  have pi: "q @ [i] \<in> paths I" using va_path_split [OF p(1) va] p(2) by simp
  note e = get_or_alloc_table_extends [OF sp pi w no_hugeD [OF nh p w] fl g]
  show ?thesis using e(2,3) extendsD(3) [OF e(1) va nh] extendsD(5) [OF e(1)] e(1) by (auto split: if_splits)
qed

text \<open>The walk of a mapping: either all three tables exist afterwards, or the frames are used up.\<close>

lemma map_in_walk:
  assumes sp: "space st root I" and va: "VA_PML4_IDX virt \<in> I" and nh: "no_huge st root virt" and fl: "fl = 2 \<or> fl = 6"
  shows "\<exists>s. extends root I st s \<and> ((\<exists>t. walk s root [VA_PML4_IDX virt, VA_PDPT_IDX virt, VA_PDT_IDX virt] = Some t \<and>
      map_in root fl virt phys flags st =
        (wr (PHYS_TO_VIRT t + 8 * of_nat (VA_PT_IDX virt)) ((phys AND PTE_ADDR_MASK) OR flags OR PTE_PRESENT) s, 0)) \<or>
     free_set (pmm s) = {} \<and> card (free_set (pmm st)) \<le> 2 \<and> map_in root fl virt phys flags st = (s, -1))"
proof -
  let ?a = "VA_PML4_IDX virt" and ?b = "VA_PDPT_IDX virt" and ?c = "VA_PDT_IDX virt"
  obtain s1 x1 where g1: "get_or_alloc_table (PHYS_TO_VIRT root + 8 * of_nat ?a) fl st = (s1, x1)" by fastforce
  note l1 = level_extends [OF sp va nh fl va_path_prefixes(1) list.discI [OF refl] walk.simps(1) g1, unfolded append.simps]
  show ?thesis
  proof (cases "x1 = 0")
    case True
    then show ?thesis using l1 g1 by (intro exI [of _ s1]) (auto simp: map_in_def simp del: walk.simps)
  next
    case False
    then obtain t1 where t1: "x1 = PHYS_TO_VIRT t1" "walk s1 root [?a] = Some t1" using l1 by auto
    have e1: "extends root I st s1" "no_huge s1 root virt" "space s1 root I" using l1 extendsD(1) by auto
    obtain s2 x2 where g2: "get_or_alloc_table (PHYS_TO_VIRT t1 + 8 * of_nat ?b) fl s1 = (s2, x2)" by fastforce
    note l2 = level_extends [OF e1(3) va e1(2) fl va_path_prefixes(2) list.discI [OF refl] t1(2) g2, unfolded append.simps]
    have e2: "extends root I st s2" "no_huge s2 root virt" "space s2 root I"
      using l2 extendsD(1) extends_trans [OF e1(1)] by auto
    show ?thesis
    proof (cases "x2 = 0")
      case True
      then show ?thesis using l1 l2 g1 g2 e2 t1(1) False by (intro exI [of _ s2]) (auto simp: map_in_def simp del: walk.simps)
    next
      case f2: False
      then obtain t2 where t2: "x2 = PHYS_TO_VIRT t2" "walk s2 root [?a, ?b] = Some t2" using l2 by auto
      obtain s3 x3 where g3: "get_or_alloc_table (PHYS_TO_VIRT t2 + 8 * of_nat ?c) fl s2 = (s3, x3)" by fastforce
      note l3 = level_extends [OF e2(3) va e2(2) fl va_path_prefixes(3) list.discI [OF refl] t2(2) g3, unfolded append.simps]
      have e3: "extends root I st s3" using l3 extends_trans [OF e2(1)] by auto
      show ?thesis using l1 l2 l3 g1 g2 g3 e3 t1(1) t2(1) False f2
        by (intro exI [of _ s3]) (cases "x3 = 0"; auto simp: map_in_def simp del: walk.simps)
    qed
  qed
qed

text \<open>Writing a page-table entry.\<close>

lemma set_pte:
  assumes sp: "space st root I" and va: "VA_PML4_IDX virt \<in> I"
    and w: "walk st root [VA_PML4_IDX virt, VA_PDPT_IDX virt, VA_PDT_IDX virt] = Some t"
    and st'_def: "st' = wr (PHYS_TO_VIRT t + 8 * of_nat (VA_PT_IDX virt)) v st"
  shows "q \<in> paths I \<Longrightarrow> walk st' root q = walk st root q" and "space st' root I"
    and "VA_PML4_IDX a \<in> I \<Longrightarrow> get_phys_in root st' a =
       (if va_path a = va_path virt then if v AND PTE_PRESENT = 0 then 0 else (v AND PTE_ADDR_MASK) OR (a AND 0xFFF)
        else get_phys_in root st a)"
    and "used_table st x \<Longrightarrow> x \<notin> tables st root I \<Longrightarrow> i < 512 \<Longrightarrow> entry st' x i = entry st x i"
    and "i < 512 \<Longrightarrow> entry st' root i = entry st root i"
proof -
  let ?p = "[VA_PML4_IDX virt, VA_PDPT_IDX virt, VA_PDT_IDX virt]"
  have p: "?p \<in> paths I" using va_paths [OF va] by simp
  have t: "is_table t" "t \<in> tables st root I" using spaceD(2) [OF sp p w] w p unfolding used_table_def tables_def by blast+
  have en: "entry st' x j = (if x = t \<and> j = VA_PT_IDX virt then v else entry st x j)" if "is_table x" "j < 512" for x j
    unfolding st'_def by (rule entry_wr [OF t(1) that(1) va_idx_bound(4) that(2)])
  have upper: "x \<noteq> t" if "q \<in> paths I" "length q < 3" "walk st root q = Some x" for q x
    using spaceD(3) [OF sp that(1) p that(3)] w that(2) by auto
  have tab: "is_table x" if "q \<in> paths I" "walk st root q = Some x" for q x
    using spaceD(2) [OF sp that] by (simp add: used_table_def)
  show walks: "walk st' root q = walk st root q" if q: "q \<in> paths I" for q
  proof (rule walk_cong)
    fix q' j r x assume a: "q = q' @ j # r" "walk st root q' = Some x"
    then have "q' \<in> paths I" "j < 512" "length q' < 3" using q paths_prefix [of q' "j # r"] by (auto simp: paths_def)
    then show "entry st' x j = entry st x j" using en tab upper a(2) by auto
  qed
  have root: "is_table root" "root \<noteq> t" using tab [of "[]"] upper [of "[]"] by auto
  have same: "entry st' root j = entry st root j" if "j < 512" for j using en [OF root(1) that] root(2) by simp
  then show "i < 512 \<Longrightarrow> entry st' root i = entry st root i" .
  note same
  moreover have "vm_ok st' = vm_ok st" "used_table st' x = used_table st x" for x by (simp_all add: st'_def)
  ultimately show "space st' root I"
    using spaceD [OF sp] walks unfolding space_def by (intro conjI allI impI ballI; (simp; fail)?; (metis | auto))
  show "get_phys_in root st' a = (if va_path a = va_path virt then if v AND PTE_PRESENT = 0 then 0 else (v AND PTE_ADDR_MASK) OR (a AND 0xFFF)
        else get_phys_in root st a)" if a: "VA_PML4_IDX a \<in> I"
  proof (cases "va_path a = va_path virt")
    case True
    then have "walk st' root [VA_PML4_IDX a, VA_PDPT_IDX a, VA_PDT_IDX a] = Some t" "VA_PT_IDX a = VA_PT_IDX virt"
      using walks [OF p] w by (auto simp: va_path_def simp del: walk.simps)
    then show ?thesis using en [OF t(1) va_idx_bound(4) [of virt]] True by (simp add: get_phys_walk del: walk.simps)
  next
    case False
    have "get_phys_in root st' a = get_phys_in root st a"
    proof (rule get_phys_cong)
      fix q j r x assume s: "va_path a = q @ j # r" "walk st root q = Some x"
      have q: "q \<in> paths I" "j < 512" using va_path_split [OF s(1) a] by auto
      have "\<not> (x = t \<and> j = VA_PT_IDX virt)"
        using spaceD(3) [OF sp q(1) p s(2)] w s(1) False by (auto simp: va_path_def simp del: walk.simps)
      then show "entry st' x j = entry st x j" using en [OF tab [OF q(1) s(2)] q(2)] by auto
    qed (use spaceD(4) [OF sp a] in simp)
    then show ?thesis using False by simp
  qed
  show "entry st' x i = entry st x i" if "used_table st x" "x \<notin> tables st root I" "i < 512"
    using en [of x i] that t(2) by (auto simp: used_table_def)
qed

section \<open>Properties of mapping\<close>

text \<open>An address space with an empty root table in frame 64; the frames 1 to 63 are free.\<close>

definition vm_demo :: vm_state where
  "vm_demo = \<lparr>pmm = pmm_demo, kmem = (\<lambda>_. 0), vmm_pml4 = 0x40000, kernel_pml4 = 0x40000, vcr3 = 0x40000\<rparr>"

lemma vm_demo_walk: "walk vm_demo t p = (if p = [] then Some t else None)"
  by (cases p) (simp_all add: links_def entry_def vm_demo_def)

lemma vm_demo_space: "space vm_demo 0x40000 {..<256}" "no_huge vm_demo 0x40000 va"
proof -
  have "vm_ok vm_demo" using pmm_demo_ok by (auto simp: vm_ok_def vm_demo_def pmm_demo_free)
  moreover have "used_table vm_demo 0x40000"
    by (simp add: used_table_def is_table_def vm_demo_def pmm_demo_free page_no_def PTE_ADDR_MASK_def)
  moreover have "entry vm_demo t i = 0" for t i by (simp add: entry_def vm_demo_def)
  ultimately show "space vm_demo 0x40000 {..<256}" "no_huge vm_demo 0x40000 va"
    by (auto simp: space_def no_huge_def vm_demo_walk)
qed

text \<open>C4. Mapping a page into an address space whose tables form a tree: when it reports success, the addresses of that
  page translate to the frame and every other address of the space translates as before; when it fails, no frame is
  left and no translation has changed. It succeeds whenever three frames are free. In both cases the tables
  still form a tree of allocated frames and no frame in use outside this tree has been written.\<close>

theorem vmm_map_user_page_correct:
  assumes "space st root I" and "VA_PML4_IDX virt \<in> I" and "no_huge st root virt" and "flags AND PTE_ADDR_MASK = 0"
  shows "case vmm_map_user_page root virt phys flags st of (st', r) \<Rightarrow>
     space st' root I \<and> (3 \<le> card (free_set (pmm st)) \<longrightarrow> r = 0) \<and>
     (r = 0 \<or> r = -1 \<and> free_set (pmm st') = {}) \<and>
     (\<forall>a. VA_PML4_IDX a \<in> I \<longrightarrow> get_phys_in root st' a =
        (if r = 0 \<and> va_path a = va_path virt then (phys AND PTE_ADDR_MASK) OR (a AND 0xFFF) else get_phys_in root st a)) \<and>
     (\<forall>t i. used_table st t \<and> t \<notin> tables st root I \<and> i < 512 \<longrightarrow> entry st' t i = entry st t i)"
proof -
  have fl: "PTE_WRITE OR PTE_USER = 2 \<or> PTE_WRITE OR PTE_USER = 6" by simp
  let ?v = "(phys AND PTE_ADDR_MASK) OR flags OR PTE_PRESENT"
  have one: "(1 :: u64) AND PTE_ADDR_MASK = 0" by (simp add: PTE_ADDR_MASK_def)
  have "bit ?v 0" by (simp add: bit_simps)
  then have "?v AND 1 \<noteq> 0" by (metis and_one_eq bit_0 odd_iff_mod_2_eq_one zero_neq_one)
  then have v: "?v AND PTE_PRESENT \<noteq> 0" "?v AND PTE_ADDR_MASK = phys AND PTE_ADDR_MASK"
    using assms(4) one by (simp_all add: bit.conj_disj_distrib2 and.assoc)
  obtain s where e: "extends root I st s" and
    c: "(\<exists>t. walk s root [VA_PML4_IDX virt, VA_PDPT_IDX virt, VA_PDT_IDX virt] = Some t \<and>
          vmm_map_user_page root virt phys flags st = (wr (PHYS_TO_VIRT t + 8 * of_nat (VA_PT_IDX virt)) ?v s, 0)) \<or>
        free_set (pmm s) = {} \<and> card (free_set (pmm st)) \<le> 2 \<and> vmm_map_user_page root virt phys flags st = (s, -1)"
    using map_in_walk [OF assms(1-3) fl, of phys flags] unfolding vmm_map_user_page_def by blast
  note ext = extendsD [OF e]
  from c show ?thesis
  proof (elim disjE exE conjE)
    fix t assume w: "walk s root [VA_PML4_IDX virt, VA_PDPT_IDX virt, VA_PDT_IDX virt] = Some t"
      and m: "vmm_map_user_page root virt phys flags st = (wr (PHYS_TO_VIRT t + 8 * of_nat (VA_PT_IDX virt)) ?v s, 0)"
    note p = set_pte [OF ext(1) assms(2) w refl, where v = ?v]
    show ?thesis unfolding m prod.case
      using p(2,3,4) ext(2,6) v used_table_mono [OF ext(5)] by (auto simp del: walk.simps)
  next
    assume "free_set (pmm s) = {}" "card (free_set (pmm st)) \<le> 2" "vmm_map_user_page root virt phys flags st = (s, -1)"
    then show ?thesis using ext(1,2,6) by auto
  qed
qed

theorem vmm_map_user_page_correct_witness:
  "case vmm_map_user_page 0x40000 0x401000 0x7000 0x4 vm_demo of (st', r) \<Rightarrow>
     r = 0 \<and> get_phys_in 0x40000 st' 0x401234 = 0x7234 \<and> get_phys_in 0x40000 st' 0x402000 = 0"
proof -
  obtain st' r where m: "vmm_map_user_page 0x40000 0x401000 0x7000 0x4 vm_demo = (st', r)" by fastforce
  have i: "VA_PML4_IDX 0x401000 \<in> {..<256}" "(4 :: u64) AND PTE_ADDR_MASK = 0" "3 \<le> card (free_set (pmm vm_demo))"
    by (simp_all add: VA_PML4_IDX_def PTE_ADDR_MASK_def vm_demo_def pmm_demo_free)
  have "va_path 0x401234 = va_path 0x401000" "va_path 0x402000 \<noteq> va_path 0x401000" "VA_PML4_IDX 0x401234 = 0" "VA_PML4_IDX 0x402000 = 0"
    "(0x7000 AND PTE_ADDR_MASK) OR (0x401234 AND 0xFFF) = (0x7234 :: u64)"
    by (simp_all add: va_path_def VA_PML4_IDX_def VA_PDPT_IDX_def VA_PDT_IDX_def VA_PT_IDX_def PTE_ADDR_MASK_def)
  moreover have "get_phys_in 0x40000 vm_demo 0x402000 = 0" by (simp add: get_phys_entries entry_def vm_demo_def)
  ultimately show ?thesis
    using vmm_map_user_page_correct [OF vm_demo_space(1) i(1) vm_demo_space(2) i(2), where phys = "0x7000"] i(3) unfolding m prod.case
    by simp
qed

section \<open>Taking a data frame\<close>

lemma entries_extends:
  assumes sp: "space st root I" and f: "page_no f \<in> free_set (pmm st)"
    and en: "\<And>x j. is_table x \<Longrightarrow> j < 512 \<Longrightarrow> x \<noteq> f \<Longrightarrow> entry st' x j = entry st x j"
    and fs: "free_set (pmm st') = free_set (pmm st) - {page_no f}" and ok: "vm_ok st'"
  shows "extends root I st st'" and "q \<in> paths I \<Longrightarrow> walk st' root q = walk st root q"
proof -
  have tab: "is_table x" "x \<noteq> f" if "q \<in> paths I" "walk st root q = Some x" for q x
    using spaceD(2) [OF sp that] f by (auto simp: used_table_def)
  show w: "walk st' root q = walk st root q" if q: "q \<in> paths I" for q
  proof (rule walk_cong)
    fix q' j r x assume a: "q = q' @ j # r" "walk st root q' = Some x"
    then have "q' \<in> paths I" "j < 512" using q paths_prefix [of q' "j # r"] by (auto simp: paths_def)
    then show "entry st' x j = entry st x j" using en tab a(2) by auto
  qed
  have tables: "tables st' root I = tables st root I" using w by (auto simp: tables_def)
  have root: "is_table root" "root \<noteq> f" using tab [of "[]"] by auto
  have "space st' root I"
    unfolding space_def
  proof (intro conjI allI impI ballI)
    show "vm_ok st'" "I \<subseteq> {..<512}" using ok spaceD(5) [OF sp] .
    show "used_table st' t" if "p \<in> paths I \<and> walk st' root p = Some t" for p t
      using that w spaceD(2) [OF sp] fs by (auto simp: used_table_def)
    show "p = q" if "p \<in> paths I \<and> q \<in> paths I \<and> walk st' root p = Some t \<and> walk st' root q = Some t" for p q t
      using that w spaceD(3) [OF sp] by auto
    show "entry st' root i AND PTE_HUGE = 0" if "i \<in> I" "entry st' root i AND PTE_PRESENT \<noteq> 0" for i
      using that en [OF root(1) _ root(2)] spaceD(4,5) [OF sp] by auto
  qed
  moreover have "get_phys_in root st' va = get_phys_in root st va" if va: "VA_PML4_IDX va \<in> I" for va
    by (rule get_phys_cong) (use en tab va_path_split va spaceD(4) [OF sp va] in \<open>blast+\<close>)
  moreover have "no_huge st' root va" if va: "VA_PML4_IDX va \<in> I" and nh: "no_huge st root va" for va
    unfolding no_huge_def
  proof (intro allI impI, elim conjE)
    fix q i r t assume a: "va_path va = q @ i # r" "r \<noteq> []" "walk st' root q = Some t" "entry st' t i AND PTE_PRESENT \<noteq> 0"
    have q: "q \<in> paths I" "i < 512" using va_path_split [OF a(1) va] by auto
    then have "walk st root q = Some t" "entry st' t i = entry st t i" using a(3) w en tab by auto
    then show "entry st' t i AND PTE_HUGE = 0" using no_hugeD [OF nh a(1,2)] a(4) by simp
  qed
  moreover have "entry st' t i = entry st t i" if "used_table st t" "i < 512" for t i
    using that f by (intro en) (auto simp: used_table_def)
  moreover have "entry st' root i = entry st root i" if "i < 512" for i using en [OF root(1) that root(2)] .
  ultimately show "extends root I st st'"
    using w fs by (auto simp: extends_def tables)
qed

lemma copy_cells_keeps [simp]:
  "pmm (copy_cells d s n st) = pmm st" "vmm_pml4 (copy_cells d s n st) = vmm_pml4 st"
  "vcr3 (copy_cells d s n st) = vcr3 st" "vm_ok (copy_cells d s n st) = vm_ok st"
proof -
  have "pmm (copy_cells d s n st) = pmm st \<and> vmm_pml4 (copy_cells d s n st) = vmm_pml4 st \<and> vcr3 (copy_cells d s n st) = vcr3 st"
    unfolding copy_cells_def by (rule for_range_inv [where I = "\<lambda>_ s. pmm s = pmm st \<and> vmm_pml4 s = vmm_pml4 st \<and> vcr3 s = vcr3 st"]) simp_all
  then show "pmm (copy_cells d s n st) = pmm st" "vmm_pml4 (copy_cells d s n st) = vmm_pml4 st"
    "vcr3 (copy_cells d s n st) = vcr3 st" "vm_ok (copy_cells d s n st) = vm_ok st" by (simp_all add: vm_ok_def)
qed

text \<open>Copying \<open>n\<close> cells from index \<open>k\<close> of one frame to the same indices of another.\<close>

lemma entry_copy_cells:
  assumes "is_table d" "is_table s" "d \<noteq> s" "k + n \<le> 512" "is_table x" "j < 512"
  shows "entry (copy_cells (PHYS_TO_VIRT d + 8 * of_nat k) (PHYS_TO_VIRT s + 8 * of_nat k) n st) x j =
    (if x = d \<and> k \<le> j \<and> j < k + n then entry st s j else entry st x j)"
proof -
  have addr: "PHYS_TO_VIRT y + 8 * of_nat k + 8 * of_nat i = PHYS_TO_VIRT y + 8 * of_nat (k + i)" for y i
    by (simp add: algebra_simps)
  let ?I = "\<lambda>i u. \<forall>x j. is_table x \<and> j < 512 \<longrightarrow> entry u x j = (if x = d \<and> k \<le> j \<and> j < k + i then entry st s j else entry st x j)"
  have "?I n (copy_cells (PHYS_TO_VIRT d + 8 * of_nat k) (PHYS_TO_VIRT s + 8 * of_nat k) n st)"
    unfolding copy_cells_def addr
  proof (rule for_range_inv [where I = ?I])
    fix i u assume i: "i < n" and I: "?I i u"
    have ki: "k + i < 512" using i assms(4) by simp
    have "kmem u (PHYS_TO_VIRT s + 8 * of_nat (k + i)) = entry u s (k + i)" by (simp add: entry_def)
    also have "\<dots> = entry st s (k + i)" using I assms(2,3) ki by auto
    finally have v: "kmem u (PHYS_TO_VIRT s + 8 * of_nat (k + i)) = entry st s (k + i)" .
    show "?I (Suc i) (wr (PHYS_TO_VIRT d + 8 * of_nat (k + i)) (kmem u (PHYS_TO_VIRT s + 8 * of_nat (k + i))) u)"
    proof (intro allI impI, elim conjE)
      fix x j assume x: "is_table x" "j < (512 :: nat)"
      have "entry u x j = (if x = d \<and> k \<le> j \<and> j < k + i then entry st s j else entry st x j)" using I x by blast
      then show "entry (wr (PHYS_TO_VIRT d + 8 * of_nat (k + i)) (kmem u (PHYS_TO_VIRT s + 8 * of_nat (k + i))) u) x j =
          (if x = d \<and> k \<le> j \<and> j < k + Suc i then entry st s j else entry st x j)"
        unfolding v entry_wr [OF assms(1) x(1) ki x(2)] by auto
    qed
  qed auto
  then show ?thesis using assms(5,6) by blast
qed

section \<open>Copy-on-write faults\<close>

lemma cow_handle_walk:
  assumes "walk st (vcr3 st AND PTE_ADDR_MASK) [VA_PML4_IDX cr2, VA_PDPT_IDX cr2, VA_PDT_IDX cr2] = Some t"
  shows "cow_handle cr2 st =
    (let e = entry st t (VA_PT_IDX cr2) in
     if e AND PTE_PRESENT = 0 \<or> e AND PTE_COW = 0 then (st, False)
     else case alloc_frame st of (st, new_phys) \<Rightarrow>
       if new_phys = 0 then (st, False)
       else let st = copy_cells (PHYS_TO_VIRT new_phys) (PHYS_TO_VIRT (e AND PTE_ADDR_MASK)) 512 st;
                pte = PHYS_TO_VIRT t + 8 * of_nat (VA_PT_IDX cr2)
            in (wr pte ((kmem st pte AND NOT (PTE_ADDR_MASK OR PTE_COW)) OR new_phys OR PTE_WRITE) st, True))"
  using assms unfolding cow_handle_def Let_def entry_def [symmetric]
  by (auto simp: links_def split: if_splits prod.splits)

lemma cow_entry_bits:
  assumes "is_table f" and "e AND PTE_PRESENT \<noteq> 0"
  defines "v \<equiv> (e AND NOT (PTE_ADDR_MASK OR PTE_COW)) OR f OR PTE_WRITE"
  shows "v AND PTE_PRESENT \<noteq> 0" "v AND PTE_ADDR_MASK = f" "v AND PTE_WRITE \<noteq> 0" "v AND PTE_COW = 0"
proof -
  have f: "bit f n \<longrightarrow> 12 \<le> n \<and> n < 52" for n using masked_bits assms(1) by (auto simp: is_table_def)
  have lit: "PTE_PRESENT = push_bit 0 1" "PTE_WRITE = push_bit 1 1" "PTE_COW = push_bit 9 1" by simp_all
  have bits: "bit v n \<longleftrightarrow> (bit e n \<and> \<not> (12 \<le> n \<and> n < 52) \<and> n \<noteq> 9 \<and> n < 64) \<or> bit f n \<or> n = 1" for n
    unfolding v_def lit by (auto simp only: bit_and_iff bit_or_iff bit_not_iff bit_push_bit_iff bit_1_iff addr_mask_bit
        possible_bit_word dest: bit_imp_le_length) (auto dest: bit_imp_le_length)
  have test: "x AND push_bit k 1 = 0 \<longleftrightarrow> \<not> bit x k" for x :: u64 and k
    using and_exp_eq_0_iff_not_bit [of x k] by (simp add: push_bit_eq_mult)
  show "v AND PTE_PRESENT \<noteq> 0" "v AND PTE_WRITE \<noteq> 0" "v AND PTE_COW = 0"
    using assms(2) f [of 9] unfolding lit test bits by simp_all
  show "v AND PTE_ADDR_MASK = f"
    by (rule bit_eqI) (use f in \<open>auto simp: bit_and_iff bits addr_mask_bit\<close>)
qed

text \<open>C7. A write fault on a copy-on-write page is resolved: when a frame is free, the handler maps the page to a frame that
  was free, writable and no longer copy-on-write, with the contents of the old frame; the translation of every other
  page, the old frame (which the other process still uses) and everything outside the tables are unchanged.\<close>

theorem cow_fault_resolved:
  assumes "space st root I" and "root = vcr3 st AND PTE_ADDR_MASK" and "VA_PML4_IDX cr2 \<in> I"
    and "walk st root [VA_PML4_IDX cr2, VA_PDPT_IDX cr2, VA_PDT_IDX cr2] = Some t" and "e = entry st t (VA_PT_IDX cr2)"
    and "e AND PTE_PRESENT \<noteq> 0" and "e AND PTE_COW \<noteq> 0" and "old = e AND PTE_ADDR_MASK"
    and "used_table st old" and "old \<notin> tables st root I" and "free_set (pmm st) \<noteq> {}" and "err AND 3 = 3"
  shows "\<exists>st' new. page_fault_handler_c cr2 err st = Some st' \<and> space st' root I \<and>
     page_no new \<in> free_set (pmm st) \<and> free_set (pmm st') = free_set (pmm st) - {page_no new} \<and>
     get_phys_in root st' cr2 = new OR (cr2 AND 0xFFF) \<and>
     entry st' t (VA_PT_IDX cr2) AND PTE_WRITE \<noteq> 0 \<and> entry st' t (VA_PT_IDX cr2) AND PTE_COW = 0 \<and>
     (\<forall>i < 512. entry st' new i = entry st old i) \<and>
     (\<forall>a. VA_PML4_IDX a \<in> I \<and> va_path a \<noteq> va_path cr2 \<longrightarrow> get_phys_in root st' a = get_phys_in root st a) \<and>
     (\<forall>x i. used_table st x \<and> x \<notin> tables st root I \<and> i < 512 \<longrightarrow> entry st' x i = entry st x i)"
proof -
  let ?i = "VA_PT_IDX cr2" and ?p = "[VA_PML4_IDX cr2, VA_PDPT_IDX cr2, VA_PDT_IDX cr2]"
  obtain s1 f where a: "alloc_frame st = (s1, f)" by (cases "alloc_frame st")
  note al = alloc_frame_effect [OF spaceD(1) [OF assms(1)] a]
  have f: "f \<noteq> 0" "is_table f" "page_no f \<in> free_set (pmm st)" "free_set (pmm s1) = free_set (pmm st) - {page_no f}"
    using al(2,4) assms(11) by auto
  define s2 where "s2 = copy_cells (PHYS_TO_VIRT f) (PHYS_TO_VIRT old) 512 s1"
  have old: "is_table old" "f \<noteq> old" using assms(9) f(3) by (auto simp: used_table_def)
  have e1: "entry s1 x j = entry st x j" for x j using al(3) by (simp add: entry_def)
  have en: "entry s2 x j = (if x = f then entry st old j else entry st x j)" if "is_table x" "j < 512" for x j
    using entry_copy_cells [OF f(2) old(1,2), of 0 512 x j s1] that by (simp add: s2_def e1)
  have fs: "free_set (pmm s2) = free_set (pmm st) - {page_no f}" "vm_ok s2" using f(4) al(1) by (simp_all add: s2_def)
  have ext: "extends root I st s2" by (rule entries_extends(1) [OF assms(1) f(3) _ fs]) (simp add: en)
  note x = extendsD [OF ext]
  have p: "?p \<in> paths I" using va_paths [OF assms(3)] by simp
  have w: "walk s2 root ?p = Some t" by (rule x(4) [OF p assms(4)])
  have t: "is_table t" "t \<noteq> f" using spaceD(2) [OF assms(1) p assms(4)] f(3) by (auto simp: used_table_def)
  define v where "v = (e AND NOT (PTE_ADDR_MASK OR PTE_COW)) OR f OR PTE_WRITE"
  define s3 where "s3 = wr (PHYS_TO_VIRT t + 8 * of_nat ?i) v s2"
  have pte: "entry s2 t ?i = e" using en [OF t(1) va_idx_bound(4)] t(2) assms(5) by simp
  have k: "kmem s2 (PHYS_TO_VIRT t + 8 * of_nat ?i) = e" using pte by (simp add: entry_def)
  have "cow_handle cr2 st = (s3, True)"
    unfolding cow_handle_walk [OF assms(4) [unfolded assms(2)]] assms(5) [symmetric] assms(8) [symmetric] Let_def a prod.case
      s2_def [symmetric] k v_def [symmetric] s3_def [symmetric] using f(1) assms(6,7) by simp
  then have h: "page_fault_handler_c cr2 err st = Some s3" using assms(12) by (simp add: page_fault_handler_c_def)
  note v = cow_entry_bits [OF f(2) assms(6), folded v_def]
  note sp = set_pte [OF x(1) assms(3) w s3_def]
  have "entry s3 t ?i = v" unfolding s3_def entry_wr [OF t(1) t(1) va_idx_bound(4) va_idx_bound(4)] by simp
  moreover have "entry s3 f i = entry st old i" if "i < 512" for i
    unfolding s3_def entry_wr [OF t(1) f(2) va_idx_bound(4) that] using en [OF f(2) that] t(2) by auto
  moreover have "get_phys_in root s3 cr2 = f OR (cr2 AND 0xFFF)" using sp(3) [OF assms(3)] v by simp
  moreover have "get_phys_in root s3 y = get_phys_in root st y" if "VA_PML4_IDX y \<in> I" "va_path y \<noteq> va_path cr2" for y
    using sp(3) [OF that(1)] that(2) x(2) [OF that(1)] by simp
  moreover have "entry s3 y i = entry st y i" if "used_table st y" "y \<notin> tables st root I" "i < 512" for y i
    using sp(4) [OF used_table_mono [OF x(5) that(1)] _ that(3)] x(6) [OF that(1,2)] that(3) by simp
  moreover have "free_set (pmm s3) = free_set (pmm st) - {page_no f}" using fs(1) by (simp add: s3_def)
  ultimately show ?thesis using h sp(2) v f(3) by blast
qed

text \<open>A page at \<open>0x401000\<close> mapped to frame 80 and shared copy-on-write: root table in frame 64, one table per level in
  the frames 65 to 67.\<close>

definition cow_demo :: vm_state where
  "cow_demo = vm_demo\<lparr>kmem := (\<lambda>_. 0)(PHYS_TO_VIRT 0x40000 + 8 * of_nat 0 := 0x41007,
     PHYS_TO_VIRT 0x41000 + 8 * of_nat 0 := 0x42007,
     PHYS_TO_VIRT 0x42000 + 8 * of_nat 2 := 0x43007, PHYS_TO_VIRT 0x43000 + 8 * of_nat 1 := 0x50205)\<rparr>"

lemma cow_demo_tables: "is_table 0x40000" "is_table 0x41000" "is_table 0x42000" "is_table 0x43000" "is_table 0x50000"
  by (simp_all add: is_table_def page_no_def PTE_ADDR_MASK_def)

lemma cow_demo_entry:
  assumes "is_table t" "i < 512"
  shows "entry cow_demo t i =
    (if t = 0x40000 \<and> i = 0 then 0x41007 else if t = 0x41000 \<and> i = 0 then 0x42007
     else if t = 0x42000 \<and> i = 2 then 0x43007 else if t = 0x43000 \<and> i = 1 then 0x50205 else 0)"
proof -
  have *: "(PHYS_TO_VIRT t + 8 * of_nat i = PHYS_TO_VIRT x + 8 * of_nat k) = (t = x \<and> i = k)" if "is_table x" "k < 512" for x k
    using table_addr_inj [OF assms(1) that(1) assms(2) that(2)] by blast
  have k: "kmem cow_demo = (\<lambda>_. 0)(PHYS_TO_VIRT 0x40000 + 8 * of_nat 0 := 0x41007,
      PHYS_TO_VIRT 0x41000 + 8 * of_nat 0 := 0x42007, PHYS_TO_VIRT 0x42000 + 8 * of_nat 2 := 0x43007,
      PHYS_TO_VIRT 0x43000 + 8 * of_nat 1 := 0x50205)" by (simp add: cow_demo_def)
  have n: "(0 :: nat) < 512" "(1 :: nat) < 512" "(2 :: nat) < 512" by simp_all
  show ?thesis
    unfolding entry_def k by (simp only: fun_upd_apply * cow_demo_tables n) auto
qed

lemma cow_demo_walk:
  assumes "p \<in> paths {..<256}"
  shows "walk cow_demo 0x40000 p =
    (if p = [] then Some 0x40000 else if p = [0] then Some 0x41000 else if p = [0, 0] then Some 0x42000
     else if p = [0, 0, 2] then Some 0x43000 else None)"
proof -
  have l: "links 0x41007" "links 0x42007" "links 0x43007" "\<not> links 0" by (simp_all add: links_def)
  have m: "0x41007 AND PTE_ADDR_MASK = 0x41000" "0x42007 AND PTE_ADDR_MASK = 0x42000" "0x43007 AND PTE_ADDR_MASK = 0x43000"
    by (simp_all add: PTE_ADDR_MASK_def)
  consider "p = []" | i where "p = [i]" "i < 512" | i j where "p = [i, j]" "i < 512" "j < 512"
    | i j k where "p = [i, j, k]" "i < 512" "j < 512" "k < 512"
    using assms by (auto simp: paths_def le_Suc_eq numeral_3_eq_3 length_Suc_conv)
  then show ?thesis by cases (auto simp: cow_demo_entry cow_demo_tables l m)
qed

theorem cow_fault_resolved_witness:
  "\<exists>st' new. page_fault_handler_c 0x401234 7 cow_demo = Some st' \<and> page_no new \<in> {1..<64} \<and>
     get_phys_in 0x40000 st' 0x401234 = new OR 0x234 \<and> entry st' 0x43000 1 AND PTE_WRITE \<noteq> 0"
proof -
  have idx: "VA_PML4_IDX 0x401234 = 0" "VA_PDPT_IDX 0x401234 = 0" "VA_PDT_IDX 0x401234 = 2" "VA_PT_IDX 0x401234 = 1"
    by (simp_all add: VA_PML4_IDX_def VA_PDPT_IDX_def VA_PDT_IDX_def VA_PT_IDX_def)
  have fs: "free_set (pmm cow_demo) = {1..<64}" by (simp add: cow_demo_def vm_demo_def pmm_demo_free)
  have ok: "vm_ok cow_demo" using pmm_demo_ok by (auto simp: vm_ok_def cow_demo_def vm_demo_def pmm_demo_free)
  have used: "used_table cow_demo t" if "t \<in> {0x40000, 0x41000, 0x42000, 0x43000, 0x50000}" for t
    using that cow_demo_tables by (auto simp: used_table_def fs page_no_def)
  have sp: "space cow_demo 0x40000 {..<256}"
    unfolding space_def
  proof (intro conjI allI impI ballI)
    show "used_table cow_demo t" if "p \<in> paths {..<256} \<and> walk cow_demo 0x40000 p = Some t" for p t
      using that cow_demo_walk [of p] used by (auto split: if_splits)
    show "p = q" if "p \<in> paths {..<256} \<and> q \<in> paths {..<256} \<and> walk cow_demo 0x40000 p = Some t \<and>
        walk cow_demo 0x40000 q = Some t" for p q t
      using that cow_demo_walk [of p] cow_demo_walk [of q] by (auto split: if_splits)
    show "entry cow_demo 0x40000 i AND PTE_HUGE = 0" if "i \<in> {..<256}" for i
      using that by (simp add: cow_demo_entry cow_demo_tables)
  qed (use ok in auto)
  have "[0, 0, 2] \<in> paths {..<256}" by (simp add: paths_def)
  then have w: "walk cow_demo 0x40000 [VA_PML4_IDX 0x401234, VA_PDPT_IDX 0x401234, VA_PDT_IDX 0x401234] = Some 0x43000"
    unfolding idx by (simp add: cow_demo_walk del: walk.simps)
  have e: "0x50205 = entry cow_demo 0x43000 (VA_PT_IDX 0x401234)" by (simp add: idx cow_demo_entry cow_demo_tables)
  have t: "0x50000 \<notin> tables cow_demo 0x40000 {..<256}" 
  proof
    assume "0x50000 \<in> tables cow_demo 0x40000 {..<256}"
    then obtain p where "p \<in> paths {..<256}" "walk cow_demo 0x40000 p = Some 0x50000" by (auto simp: tables_def)
    then show False using cow_demo_walk [of p] by (auto split: if_splits)
  qed
  have root: "0x40000 = vcr3 cow_demo AND PTE_ADDR_MASK" "(0x50000 :: u64) = 0x50205 AND PTE_ADDR_MASK"
    "(0x50205 :: u64) AND PTE_PRESENT \<noteq> 0" "(0x50205 :: u64) AND PTE_COW \<noteq> 0" "(7 :: u64) AND 3 = 3"
    "VA_PML4_IDX 0x401234 \<in> {..<256}" "free_set (pmm cow_demo) \<noteq> {}" "(0x401234 :: u64) AND 0xFFF = 0x234"
    by (simp_all add: cow_demo_def vm_demo_def PTE_ADDR_MASK_def idx pmm_demo_free)
  show ?thesis
    using cow_fault_resolved [OF sp root(1,6) w e root(3,4,2) used [of "0x50000"] t root(7,5)] unfolding idx fs root(8) by blast
qed

end
