(* ===== verification/UserMem.thy ===== *)
theory UserMem
  imports Vmm
begin

text \<open>
  Memory as user processes see it: bytes of the 8-byte cells of a frame, bytes at user addresses through the page tables, and the
  step that the ELF loader, the stack set-up and the anonymous mappings share: take a frame, fill it, map it. The lemmas show that
  the step makes exactly one page visible, with the contents the kernel put into the frame, and leaves every other page's bytes alone.
\<close>

section \<open>Bytes of cells\<close>

definition byte_of :: "u64 \<Rightarrow> nat \<Rightarrow> u8" where
  "byte_of w j = ucast (drop_bit (8 * j) w)"

definition set_byte :: "u64 \<Rightarrow> nat \<Rightarrow> u8 \<Rightarrow> u64" where
  "set_byte w j b = (w AND NOT (push_bit (8 * j) 0xFF)) OR push_bit (8 * j) (ucast b)"

lemma byte_of_set_byte:
  assumes "i < 8" "j < 8"
  shows "byte_of (set_byte w j b) i = (if i = j then b else byte_of w i)"
proof (rule bit_eqI)
  fix n assume "possible_bit TYPE(u8) n"
  then have n: "n < 8" by simp
  have ff: "(0xFF :: u64) = mask 8" by (simp add: mask_eq_exp_minus_1)
  have sb: "bit (set_byte w j b) k \<longleftrightarrow> bit w k \<and> \<not> (8 * j \<le> k \<and> k < 8 * j + 8) \<or> 8 * j \<le> k \<and> k < 64 \<and> bit b (k - 8 * j)" if "k < 64" for k
    using that unfolding set_byte_def ff by (auto simp: bit_or_iff bit_and_iff bit_not_iff bit_push_bit_iff bit_mask_iff bit_unsigned_iff)
  have b8: "bit b k \<Longrightarrow> k < 8" for k using bit_imp_le_length [of b k] by simp
  have "bit (byte_of (set_byte w j b) i) n \<longleftrightarrow> bit (set_byte w j b) (8 * i + n)" using n by (simp add: byte_of_def bit_simps)
  also have "\<dots> \<longleftrightarrow> (if i = j then bit b n else bit w (8 * i + n))"
  proof (cases "i = j")
    case True
    then show ?thesis using n assms by (simp add: sb)
  next
    case False
    then have "\<not> (8 * j \<le> 8 * i + n \<and> 8 * i + n < 8 * j + 8)" using n by auto
    moreover have "\<not> (8 * j \<le> 8 * i + n \<and> bit b (8 * i + n - 8 * j))" using b8 [of "8 * i + n - 8 * j"] calculation by auto
    ultimately show ?thesis using False n assms by (auto simp: sb)
  qed
  finally show "bit (byte_of (set_byte w j b) i) n = bit (if i = j then b else byte_of w i) n"
    using n by (cases "i = j") (simp_all add: byte_of_def bit_simps)
qed

lemma byte_of_zero [simp]: "byte_of 0 j = 0"
  by (simp add: byte_of_def)

text \<open>Byte addresses: the cell and the byte in it.\<close>

definition cell_of :: "u64 \<Rightarrow> u64" where
  "cell_of a = of_nat (8 * (unat a div 8))"

definition wr_byte :: "u64 \<Rightarrow> u8 \<Rightarrow> 'a vm_state_scheme \<Rightarrow> 'a vm_state_scheme" where
  "wr_byte a b st = wr (cell_of a) (set_byte (kmem st (cell_of a)) (unat a mod 8) b) st"

fun put_bytes :: "u64 \<Rightarrow> u8 list \<Rightarrow> 'a vm_state_scheme \<Rightarrow> 'a vm_state_scheme" where
  "put_bytes a [] st = st"
| "put_bytes a (b # bs) st = put_bytes (a + 1) bs (wr_byte a b st)"

definition frame_byte :: "'a vm_state_scheme \<Rightarrow> u64 \<Rightarrow> nat \<Rightarrow> u8" where
  "frame_byte st f k = byte_of (entry st f (k div 8)) (k mod 8)"

definition user_byte :: "'a vm_state_scheme \<Rightarrow> u64 \<Rightarrow> u64 \<Rightarrow> u8 option" where
  "user_byte st root va =
     (let p = get_phys_in root st va in if p = 0 then None else Some (frame_byte st (p AND PTE_ADDR_MASK) (unat (p AND 0xFFF))))"

section \<open>Writing bytes of a frame\<close>

lemma window_addr:
  assumes "is_table f" "k < 4096"
  shows "unat (PHYS_TO_VIRT f + of_nat k) = unat KERNEL_VMA + unat f + k"
proof -
  have "unat f = 4096 * page_no f" using assms(1) by (simp add: is_table_def aligned_unat)
  then have f: "unat f + 4096 \<le> 2147483648" using assms(1) by (simp add: is_table_def)
  have k: "unat (of_nat k :: u64) = k" using assms(2) by (simp only: unat_of_nat) simp
  have v: "unat KERNEL_VMA = 18446744071562067968" by (simp add: KERNEL_VMA_def)
  have "unat (KERNEL_VMA + f) = unat KERNEL_VMA + unat f"
    by (rule unat_add_lem [THEN iffD1]) (use f v in simp)
  moreover have "unat (KERNEL_VMA + f + of_nat k) = unat (KERNEL_VMA + f) + k"
    by (subst unat_add_lem [THEN iffD1]) (use calculation f v k assms(2) in simp_all)
  ultimately show ?thesis by (simp add: PHYS_TO_VIRT_def)
qed

lemma cell_of_window:
  assumes "is_table f" "k < 4096"
  shows "cell_of (PHYS_TO_VIRT f + of_nat k) = PHYS_TO_VIRT f + 8 * of_nat (k div 8)" "unat (PHYS_TO_VIRT f + of_nat k) mod 8 = k mod 8"
proof -
  have "unat f = 4096 * page_no f" using assms(1) by (simp add: is_table_def aligned_unat)
  moreover have "unat KERNEL_VMA = 8 * 2305843008945258496" by (simp add: KERNEL_VMA_def)
  ultimately have "unat KERNEL_VMA + unat f = 8 * (2305843008945258496 + 512 * page_no f)" by simp
  then obtain m where m: "unat KERNEL_VMA + unat f = 8 * m" by blast
  have a: "unat (PHYS_TO_VIRT f + of_nat k) = 8 * m + k" using window_addr [OF assms] m by simp
  then show "unat (PHYS_TO_VIRT f + of_nat k) mod 8 = k mod 8" by simp
  have u: "unat (PHYS_TO_VIRT f) = 8 * m" using window_addr [OF assms(1), of 0] m by simp
  have "PHYS_TO_VIRT f = of_nat (8 * m)" unfolding u [symmetric] by simp
  moreover have "8 * ((8 * m + k) div 8) = 8 * m + 8 * (k div 8)" by simp
  ultimately show "cell_of (PHYS_TO_VIRT f + of_nat k) = PHYS_TO_VIRT f + 8 * of_nat (k div 8)"
    unfolding cell_of_def a by (simp only: of_nat_add of_nat_mult of_nat_numeral)
qed

lemma entry_wr_byte:
  assumes "is_table f" "k < 4096" "is_table x" "i < 512"
  shows "entry (wr_byte (PHYS_TO_VIRT f + of_nat k) b st) x i =
     (if x = f \<and> i = k div 8 then set_byte (entry st f (k div 8)) (k mod 8) b else entry st x i)"
proof -
  have k: "k div 8 < 512" using assms(2) by simp
  show ?thesis unfolding wr_byte_def cell_of_window [OF assms(1,2)] entry_wr [OF assms(1,3) k assms(4)] by (simp add: entry_def)
qed

lemma frame_wr_byte:
  assumes "is_table f" "k < 4096" "is_table x" "j < 4096"
  shows "frame_byte (wr_byte (PHYS_TO_VIRT f + of_nat k) b st) x j = (if x = f \<and> j = k then b else frame_byte st x j)"
proof -
  have "j div 8 < 512" "j mod 8 < 8" "k mod 8 < 8" using assms(4) by simp_all
  moreover have "j div 8 = k div 8 \<and> j mod 8 = k mod 8 \<longleftrightarrow> j = k" by (metis div_mult_mod_eq)
  ultimately show ?thesis unfolding frame_byte_def by (auto simp: entry_wr_byte [OF assms(1-3)] byte_of_set_byte)
qed

lemma wr_byte_keeps [simp]:
  "pmm (wr_byte a b st) = pmm st" "vmm_pml4 (wr_byte a b st) = vmm_pml4 st" "vcr3 (wr_byte a b st) = vcr3 st"
  by (simp_all add: wr_byte_def)

lemma put_bytes_keeps [simp]:
  "pmm (put_bytes a bs st) = pmm st" "vmm_pml4 (put_bytes a bs st) = vmm_pml4 st" "vcr3 (put_bytes a bs st) = vcr3 st"
  by (induction bs arbitrary: a st) simp_all

lemma entry_put_bytes:
  assumes "is_table f" "k + length bs \<le> 4096" "is_table x" "x \<noteq> f" "i < 512"
  shows "entry (put_bytes (PHYS_TO_VIRT f + of_nat k) bs st) x i = entry st x i"
  using assms(2)
proof (induction bs arbitrary: k st)
  case (Cons b bs)
  have a: "PHYS_TO_VIRT f + of_nat k + 1 = PHYS_TO_VIRT f + of_nat (Suc k)" by (simp add: algebra_simps)
  have "entry (put_bytes (PHYS_TO_VIRT f + of_nat (Suc k)) bs st') x i = entry st' x i" for st' :: "'a vm_state_scheme"
    by (rule Cons.IH) (use Cons.prems in simp)
  moreover have "entry (wr_byte (PHYS_TO_VIRT f + of_nat k) b st) x i = entry st x i"
    using entry_wr_byte [OF assms(1) _ assms(3,5), of k b st] Cons.prems assms(4) by simp
  ultimately show ?case unfolding put_bytes.simps a by simp
qed simp

lemma frame_put_bytes:
  assumes "is_table f" "k + length bs \<le> 4096" "is_table x" "j < 4096"
  shows "frame_byte (put_bytes (PHYS_TO_VIRT f + of_nat k) bs st) x j =
     (if x = f \<and> k \<le> j \<and> j < k + length bs then bs ! (j - k) else frame_byte st x j)"
  using assms(2)
proof (induction bs arbitrary: k st)
  case (Cons b bs)
  have a: "PHYS_TO_VIRT f + of_nat k + 1 = PHYS_TO_VIRT f + of_nat (Suc k)" by (simp add: algebra_simps)
  have ih: "frame_byte (put_bytes (PHYS_TO_VIRT f + of_nat (Suc k)) bs st') x j =
      (if x = f \<and> Suc k \<le> j \<and> j < Suc k + length bs then bs ! (j - Suc k) else frame_byte st' x j)" for st' :: "'a vm_state_scheme"
    by (rule Cons.IH) (use Cons.prems in simp)
  have w: "frame_byte (wr_byte (PHYS_TO_VIRT f + of_nat k) b st) x j = (if x = f \<and> j = k then b else frame_byte st x j)"
    using Cons.prems by (intro frame_wr_byte [OF assms(1) _ assms(3,4)]) simp
  show ?case unfolding put_bytes.simps a ih w by (auto simp: nth_Cons' not_less_eq_eq)
qed auto

lemma frame_zero_cells: "is_table f \<Longrightarrow> is_table x \<Longrightarrow> j < 4096 \<Longrightarrow>
    frame_byte (zero_cells (PHYS_TO_VIRT f) 512 st) x j = (if x = f then 0 else frame_byte st x j)"
  by (simp add: frame_byte_def entry_zero_cells less_mult_imp_div_less)

section \<open>User pages\<close>

text \<open>The indices of an address are the digits of its page number.\<close>

lemma page_digit: "unat (drop_bit (12 + n) va AND 0x1FF) = page_no va div 2 ^ n mod 512" for va :: u64
proof -
  have m: "(0x1FF :: u64) = mask 9" by (simp add: mask_eq_exp_minus_1)
  show ?thesis unfolding m unat_and_mask
    by (simp add: unat_drop_bit_eq take_bit_eq_mod page_no_def)
      (simp add: drop_bit_eq_div power_add div_mult2_eq del: drop_bit_of_nat)
qed

lemma va_idx_page:
  "VA_PT_IDX va = page_no va mod 512" "VA_PDT_IDX va = page_no va div 512 mod 512"
  "VA_PDPT_IDX va = page_no va div 512 div 512 mod 512" "VA_PML4_IDX va = page_no va div 512 div 512 div 512 mod 512"
  using page_digit [of 0 va] page_digit [of 9 va] page_digit [of 18 va] page_digit [of 27 va]
  by (simp_all add: VA_PT_IDX_def VA_PDT_IDX_def VA_PDPT_IDX_def VA_PML4_IDX_def div_mult2_eq [symmetric])

text \<open>The lower half of the address space.\<close>

definition user_va :: "u64 \<Rightarrow> bool" where
  "user_va a \<longleftrightarrow> unat a < 2 ^ 47"

lemma user_va_idx: "user_va a \<Longrightarrow> VA_PML4_IDX a < 256"
  by (simp add: user_va_def va_idx_page page_no_def div_mult2_eq [symmetric] less_mult_imp_div_less)

lemma user_va_path:
  assumes "user_va a" "user_va b"
  shows "va_path a = va_path b \<longleftrightarrow> page_no a = page_no b"
proof
  have top: "page_no c div 512 div 512 div 512 mod 512 = page_no c div 512 div 512 div 512" if "user_va c" for c
    using that by (simp add: user_va_def page_no_def div_mult2_eq [symmetric] less_mult_imp_div_less)
  assume "va_path a = va_path b"
  then have e: "page_no a mod 512 = page_no b mod 512" "page_no a div 512 mod 512 = page_no b div 512 mod 512"
    "page_no a div 512 div 512 mod 512 = page_no b div 512 div 512 mod 512" "page_no a div 512 div 512 div 512 = page_no b div 512 div 512 div 512"
    using top [OF assms(1)] top [OF assms(2)] by (simp_all add: va_path_def va_idx_page)
  have step: "x = y" if "x mod 512 = y mod 512" "x div 512 = y div 512" for x y :: nat using that by (metis div_mult_mod_eq)
  show "page_no a = page_no b" by (rule step [OF e(1) step [OF e(2) step [OF e(3,4)]]])
qed (simp add: va_path_def va_idx_page)

lemma set_pte_no_huge:
  assumes sp: "space st root I" and va: "VA_PML4_IDX virt \<in> I" and a: "VA_PML4_IDX a \<in> I" and nh: "no_huge st root a"
    and w: "walk st root [VA_PML4_IDX virt, VA_PDPT_IDX virt, VA_PDT_IDX virt] = Some t"
  shows "no_huge (wr (PHYS_TO_VIRT t + 8 * of_nat (VA_PT_IDX virt)) v st) root a" (is "no_huge ?st root a")
  unfolding no_huge_def
proof (intro allI impI, elim conjE)
  let ?p = "[VA_PML4_IDX virt, VA_PDPT_IDX virt, VA_PDT_IDX virt]"
  fix q i r x assume s: "va_path a = q @ i # r" "r \<noteq> []" "walk ?st root q = Some x" "entry ?st x i AND PTE_PRESENT \<noteq> 0"
  have p: "?p \<in> paths I" using va_paths [OF va] by simp
  have q: "q \<in> paths I" "i < 512" using va_path_split [OF s(1) a] by auto
  have wx: "walk st root q = Some x" using s(3) set_pte(1) [OF sp va w refl q(1)] by metis
  have "length q < 3" using s(1,2) by (auto simp: va_path_def Cons_eq_append_conv)
  then have "x \<noteq> t" using spaceD(3) [OF sp q(1) p wx] w by auto
  have tx: "is_table x" "is_table t" using spaceD(2) [OF sp q(1) wx] spaceD(2) [OF sp p w] by (simp_all add: used_table_def)
  have "entry ?st x i = entry st x i" unfolding entry_wr [OF tx(2,1) va_idx_bound(4) q(2)] using \<open>x \<noteq> t\<close> by simp
  then show "entry ?st x i AND PTE_HUGE = 0" using no_hugeD [OF nh s(1,2) wx] s(4) by simp
qed

text \<open>An address space all of whose mapped pages are 4 KB frames in use that are not tables.\<close>

definition user_space :: "'a vm_state_scheme \<Rightarrow> u64 \<Rightarrow> nat set \<Rightarrow> bool" where
  "user_space st root I \<longleftrightarrow> space st root I \<and> (\<forall>va. VA_PML4_IDX va \<in> I \<longrightarrow> no_huge st root va) \<and>
     (\<forall>va. VA_PML4_IDX va \<in> I \<and> get_phys_in root st va \<noteq> 0 \<longrightarrow>
        used_table st (get_phys_in root st va AND PTE_ADDR_MASK) \<and> get_phys_in root st va AND PTE_ADDR_MASK \<notin> tables st root I)"

lemma user_spaceD:
  assumes "user_space st root I"
  shows "space st root I" and "VA_PML4_IDX va \<in> I \<Longrightarrow> no_huge st root va"
    and "VA_PML4_IDX va \<in> I \<Longrightarrow> get_phys_in root st va \<noteq> 0 \<Longrightarrow> used_table st (get_phys_in root st va AND PTE_ADDR_MASK)"
    and "VA_PML4_IDX va \<in> I \<Longrightarrow> get_phys_in root st va \<noteq> 0 \<Longrightarrow> get_phys_in root st va AND PTE_ADDR_MASK \<notin> tables st root I"
  using assms unfolding user_space_def by blast+

lemma page_offset: "unat (a AND 0xFFF :: u64) = unat a mod 4096"
proof -
  have m: "(0xFFF :: u64) = mask 12" by (simp add: mask_eq_exp_minus_1)
  show ?thesis unfolding m unat_and_mask by (simp add: take_bit_eq_mod)
qed

lemma frame_offset:
  assumes "is_table f"
  shows "(f OR (a AND 0xFFF)) AND PTE_ADDR_MASK = f" "(f OR (a AND 0xFFF)) AND 0xFFF = a AND 0xFFF" "f OR (a AND 0xFFF) \<noteq> 0"
proof -
  have f: "f AND PTE_ADDR_MASK = f" "f \<noteq> 0" using assms by (simp_all add: is_table_def)
  have m: "(0xFFF :: u64) AND PTE_ADDR_MASK = 0" by (simp add: PTE_ADDR_MASK_def)
  have "f AND 0xFFF = (f AND PTE_ADDR_MASK) AND 0xFFF" by (simp only: f(1))
  also have "\<dots> = f AND (PTE_ADDR_MASK AND 0xFFF)" by (rule and.assoc)
  also have "PTE_ADDR_MASK AND 0xFFF = 0" by (simp add: PTE_ADDR_MASK_def)
  finally have z: "f AND 0xFFF = 0" by simp
  show eq: "(f OR (a AND 0xFFF)) AND PTE_ADDR_MASK = f" "(f OR (a AND 0xFFF)) AND 0xFFF = a AND 0xFFF"
    using f m z by (simp_all add: bit.conj_disj_distrib2 and.assoc)
  show "f OR (a AND 0xFFF) \<noteq> 0"
  proof
    assume "f OR (a AND 0xFFF) = 0"
    then show False using eq(1) f(2) by simp
  qed
qed

text \<open>Mapping a data frame: the pages, the bytes and the tree afterwards.\<close>

lemma map_user_page_effect:
  assumes us: "user_space st root I" and va: "VA_PML4_IDX virt \<in> I" and fl: "flags AND PTE_ADDR_MASK = 0"
    and f: "used_table st f" "f \<notin> tables st root I" and m: "vmm_map_user_page root virt f flags st = (st', r)"
  shows "user_space st' root I" and "r = 0 \<or> r = -1 \<and> free_set (pmm st') = {} \<and> card (free_set (pmm st)) \<le> 2"
    and "VA_PML4_IDX a \<in> I \<Longrightarrow> get_phys_in root st' a =
        (if r = 0 \<and> va_path a = va_path virt then f OR (a AND 0xFFF) else get_phys_in root st a)"
    and "used_table st x \<Longrightarrow> x \<notin> tables st root I \<Longrightarrow> i < 512 \<Longrightarrow> entry st' x i = entry st x i"
    and "used_table st x \<Longrightarrow> x \<notin> tables st root I \<Longrightarrow> x \<notin> tables st' root I"
    and "free_set (pmm st') \<subseteq> free_set (pmm st)"
    and "i < 512 \<Longrightarrow> i \<notin> I \<Longrightarrow> entry st' root i = entry st root i"
proof -
  note sp = user_spaceD [OF us]
  have wu: "PTE_WRITE OR PTE_USER = 2 \<or> PTE_WRITE OR PTE_USER = 6" by simp
  have fm: "f AND PTE_ADDR_MASK = f" "is_table f" using f(1) by (auto simp: used_table_def is_table_def)
  let ?v = "(f AND PTE_ADDR_MASK) OR flags OR PTE_PRESENT"
  have one: "(1 :: u64) AND PTE_ADDR_MASK = 0" by (simp add: PTE_ADDR_MASK_def)
  have "bit ?v 0" by (simp add: bit_simps)
  then have "?v AND 1 \<noteq> 0" by (metis and_one_eq bit_0 odd_iff_mod_2_eq_one zero_neq_one)
  then have v: "?v AND PTE_PRESENT \<noteq> 0" "?v AND PTE_ADDR_MASK = f"
    using fl one fm(1) by (simp_all add: bit.conj_disj_distrib2 and.assoc)
  obtain s where e: "extends root I st s" and
    c: "(\<exists>t. walk s root [VA_PML4_IDX virt, VA_PDPT_IDX virt, VA_PDT_IDX virt] = Some t \<and>
          (st', r) = (wr (PHYS_TO_VIRT t + 8 * of_nat (VA_PT_IDX virt)) ?v s, 0)) \<or>
        free_set (pmm s) = {} \<and> card (free_set (pmm st)) \<le> 2 \<and> (st', r) = (s, -1)"
    using map_in_walk [OF sp(1) va sp(2) [OF va] wu, of f flags] m unfolding vmm_map_user_page_def by metis
  note ext = extendsD [OF e]
  have us_s: "user_space s root I" unfolding user_space_def
    using ext(1,2,3) sp(2-4) ext(6) used_table_mono [OF ext(5)] by auto
  have "user_space st' root I \<and> (r = 0 \<or> r = -1 \<and> free_set (pmm st') = {} \<and> card (free_set (pmm st)) \<le> 2) \<and>
    (\<forall>a. VA_PML4_IDX a \<in> I \<longrightarrow> get_phys_in root st' a =
        (if r = 0 \<and> va_path a = va_path virt then f OR (a AND 0xFFF) else get_phys_in root st a)) \<and>
    (\<forall>x. used_table st x \<and> x \<notin> tables st root I \<longrightarrow> x \<notin> tables st' root I \<and> (\<forall>i < 512. entry st' x i = entry st x i)) \<and>
    free_set (pmm st') \<subseteq> free_set (pmm st) \<and> (\<forall>i < 512. i \<notin> I \<longrightarrow> entry st' root i = entry st root i)"
    using c
  proof (elim disjE exE conjE)
    fix t assume w: "walk s root [VA_PML4_IDX virt, VA_PDPT_IDX virt, VA_PDT_IDX virt] = Some t"
      and sr: "(st', r) = (wr (PHYS_TO_VIRT t + 8 * of_nat (VA_PT_IDX virt)) ?v s, 0)"
    have st': "st' = wr (PHYS_TO_VIRT t + 8 * of_nat (VA_PT_IDX virt)) ?v s" and r: "r = 0" using sr by simp_all
    note p = set_pte [OF ext(1) va w st']
    have tab: "tables st' root I = tables s root I" using p(1) by (auto simp: tables_def)
    have used: "used_table st' x = used_table s x" for x by (simp add: st')
    have tr: "get_phys_in root st' a = (if va_path a = va_path virt then f OR (a AND 0xFFF) else get_phys_in root s a)"
      if "VA_PML4_IDX a \<in> I" for a using p(3) [OF that] v by (simp del: PTE_PRESENT_def)
    have nh: "no_huge st' root a" if "VA_PML4_IDX a \<in> I" for a
      unfolding st' by (rule set_pte_no_huge [OF ext(1) va that user_spaceD(2) [OF us_s that] w])
    have "user_space st' root I" unfolding user_space_def
    proof (intro conjI allI impI)
      show "space st' root I" by (rule p(2))
      show "no_huge st' root a" if "VA_PML4_IDX a \<in> I" for a by (rule nh [OF that])
      fix a assume a: "VA_PML4_IDX a \<in> I \<and> get_phys_in root st' a \<noteq> 0"
      then show "used_table st' (get_phys_in root st' a AND PTE_ADDR_MASK)" "get_phys_in root st' a AND PTE_ADDR_MASK \<notin> tables st' root I"
        using tr [of a] user_spaceD(3,4) [OF us_s, of a] ext(6) [OF f] used_table_mono [OF ext(5) f(1)]
        by (auto simp: used tab frame_offset [OF fm(2)] split: if_splits)
    qed
    moreover have "entry st' x i = entry st x i" if "used_table st x" "x \<notin> tables st root I" "i < 512" for x i
      using p(4) [OF used_table_mono [OF ext(5) that(1)], of i] ext(6) [OF that(1,2)] that(3) by simp
    moreover have "pmm st' = pmm s" by (simp add: st')
    moreover have "entry st' root i = entry st root i" if "i < 512" "i \<notin> I" for i using p(5) [OF that(1)] ext(7) [OF that] by simp
    ultimately show ?thesis using tr ext(2,5,6) r tab by auto
  next
    assume "free_set (pmm s) = {}" "card (free_set (pmm st)) \<le> 2" "(st', r) = (s, -1)"
    then show ?thesis using us_s ext(2,5,6,7) by auto
  qed
  then show "user_space st' root I" and "r = 0 \<or> r = -1 \<and> free_set (pmm st') = {} \<and> card (free_set (pmm st)) \<le> 2"
    and "VA_PML4_IDX a \<in> I \<Longrightarrow> get_phys_in root st' a =
        (if r = 0 \<and> va_path a = va_path virt then f OR (a AND 0xFFF) else get_phys_in root st a)"
    and "used_table st x \<Longrightarrow> x \<notin> tables st root I \<Longrightarrow> i < 512 \<Longrightarrow> entry st' x i = entry st x i"
    and "used_table st x \<Longrightarrow> x \<notin> tables st root I \<Longrightarrow> x \<notin> tables st' root I"
    and "free_set (pmm st') \<subseteq> free_set (pmm st)"
    and "i < 512 \<Longrightarrow> i \<notin> I \<Longrightarrow> entry st' root i = entry st root i" by blast+
qed

section \<open>A fresh page\<close>

lemma frame_byte_cong: "(\<And>i. i < 512 \<Longrightarrow> entry st' x i = entry st x i) \<Longrightarrow> k < 4096 \<Longrightarrow> frame_byte st' x k = frame_byte st x k"
  by (simp add: frame_byte_def less_mult_imp_div_less)

lemma user_byte_kept:
  assumes "user_space st root I" "VA_PML4_IDX a \<in> I" and "get_phys_in root st' a = get_phys_in root st a"
    and "\<And>x i. used_table st x \<Longrightarrow> x \<notin> tables st root I \<Longrightarrow> i < 512 \<Longrightarrow> entry st' x i = entry st x i"
  shows "user_byte st' root a = user_byte st root a"
proof (cases "get_phys_in root st a = 0")
  case False
  have "unat (get_phys_in root st a AND 0xFFF) < 4096" by (simp add: page_offset)
  then show ?thesis using assms(3,4) user_spaceD(3,4) [OF assms(1,2) False]
    by (simp add: user_byte_def Let_def frame_byte_cong [of st' _ st])
qed (use assms(3) in \<open>simp add: user_byte_def\<close>)

text \<open>Taking a frame and writing to it changes nothing a process sees.\<close>

lemma take_frame_effect:
  fixes st st2 :: "'a vm_state_scheme"
  assumes us: "user_space st root I" and a: "alloc_frame st = (st1, f)" "f \<noteq> 0"
    and p: "pmm st2 = pmm st1" and en: "\<forall>x j. is_table x \<longrightarrow> j < 512 \<longrightarrow> x \<noteq> f \<longrightarrow> entry st2 x j = entry st1 x j"
  shows "user_space st2 root I" and "used_table st2 f" and "f \<notin> tables st2 root I"
    and "VA_PML4_IDX b \<in> I \<Longrightarrow> user_byte st2 root b = user_byte st root b"
    and "free_set (pmm st2) = free_set (pmm st) - {page_no f}" and "page_no f \<in> free_set (pmm st)"
    and "tables st2 root I = tables st root I" and "i < 512 \<Longrightarrow> entry st2 root i = entry st root i"
proof -
  note sp = user_spaceD [OF us]
  note e = alloc_frame_effect [OF spaceD(1) [OF sp(1)] a(1)]
  have f: "is_table f" "page_no f \<in> free_set (pmm st)" "free_set (pmm st2) = free_set (pmm st) - {page_no f}"
    using e(4) a(2) p by auto
  then show "page_no f \<in> free_set (pmm st)" "free_set (pmm st2) = free_set (pmm st) - {page_no f}" by blast+
  have same: "entry st2 x j = entry st x j" if "is_table x" "j < 512" "x \<noteq> f" for x j
    using en that e(3) by (simp add: entry_def)
  have ok: "vm_ok st2" using e(1) p by (simp add: vm_ok_def)
  have x: "extends root I st st2" by (rule entries_extends(1) [OF sp(1) f(2) _ f(3) ok]) (rule same)
  have w: "walk st2 root q = walk st root q" if "q \<in> paths I" for q
    by (rule entries_extends(2) [OF sp(1) f(2) _ f(3) ok that]) (rule same)
  show tab: "tables st2 root I = tables st root I" by (auto simp: tables_def w)
  note ext = extendsD [OF x]
  have rt: "used_table st root" using spaceD(2) [OF sp(1) paths_nil] by simp
  show "i < 512 \<Longrightarrow> entry st2 root i = entry st root i" using rt f(2) by (intro same) (auto simp: used_table_def)
  show "user_space st2 root I" unfolding user_space_def
    using ext(1,2,3) sp(2-4) used_table_mono [OF ext(5)] by (auto simp: tab)
  show "used_table st2 f" using f by (auto simp: used_table_def)
  show "f \<notin> tables st2 root I" unfolding tab using f(2) spaceD(2) [OF sp(1)] by (auto simp: tables_def used_table_def)
  show "user_byte st2 root b = user_byte st root b" if b: "VA_PML4_IDX b \<in> I"
    by (rule user_byte_kept [OF us b ext(2) [OF b]]) (use ext(6) in blast)
qed

text \<open>Giving back a frame that no page and no table uses.\<close>

lemma free_frame_effect:
  fixes st :: "'a vm_state_scheme"
  assumes "vm_ok st" "used_table st f"
  shows "vm_ok (free_frame f st)" and "free_set (pmm (free_frame f st)) = insert (page_no f) (free_set (pmm st))"
    and "entry (free_frame f st) = entry st" and "used_table st x \<Longrightarrow> x \<noteq> f \<Longrightarrow> used_table (free_frame f st) x"
proof -
  let ?s = "free_frame f st"
  have len: "pmm_len (pmm st)" and fs: "free_set (pmm st) \<subseteq> {..<524288}" "0 \<notin> free_set (pmm st)"
    using assms(1) by (auto simp: vm_ok_def pmm_ok_def)
  have t: "is_table f" "page_no f < 524288" using assms(2) by (auto simp: used_table_def is_table_def)
  have nz: "page_no f \<noteq> 0"
  proof
    assume "page_no f = 0"
    then have "unat f = 0" using t(1) aligned_unat [of f] by (simp add: is_table_def)
    then show False using t(1) by (simp add: is_table_def unat_eq_zero)
  qed
  show free: "free_set (pmm ?s) = insert (page_no f) (free_set (pmm st))"
    using pmm_free_effect(3) [OF len, of f] t(2) by (simp add: free_frame_def PMM_MAX_FRAMES_def)
  show "vm_ok ?s" using pmm_free_effect(1) [OF len, of f] fs nz t(2) free by (auto simp: vm_ok_def pmm_ok_def free_frame_def)
  show "entry ?s = entry st" by (intro ext) (simp add: entry_def free_frame_def)
  have inj: "page_no x = page_no f \<Longrightarrow> is_table x \<Longrightarrow> x = f" for x
    using t(1) aligned_unat [of x] aligned_unat [of f] by (simp add: is_table_def word_unat_eq_iff)
  show "used_table ?s x" if "used_table st x" "x \<noteq> f" using that inj [of x] free by (auto simp: used_table_def)
qed

lemma give_frame_effect:
  assumes us: "user_space st root I" and f: "used_table st f" "f \<notin> tables st root I"
    and no: "\<forall>a. VA_PML4_IDX a \<in> I \<longrightarrow> get_phys_in root st a \<noteq> 0 \<longrightarrow> get_phys_in root st a AND PTE_ADDR_MASK \<noteq> f"
  shows "user_space (free_frame f st) root I" and "user_byte (free_frame f st) root a = user_byte st root a"
    and "free_set (pmm (free_frame f st)) = insert (page_no f) (free_set (pmm st))" and "tables (free_frame f st) root I = tables st root I"
proof -
  let ?s = "free_frame f st"
  note sp = user_spaceD [OF us]
  note e = free_frame_effect [OF spaceD(1) [OF sp(1)] f(1)]
  note ok = e(1) and ent = e(3) and used = e(4)
  show "free_set (pmm ?s) = insert (page_no f) (free_set (pmm st))" by (rule e(2))
  have w: "walk ?s t p = walk st t p" for t p by (induction p arbitrary: t) (simp_all add: ent)
  have gp: "get_phys_in root ?s = get_phys_in root st" by (intro ext) (simp only: get_phys_entries ent)
  show tab: "tables ?s root I = tables st root I" by (simp add: tables_def w)
  have "x \<noteq> f" if "p \<in> paths I" "walk st root p = Some x" for p x using that f(2) by (auto simp: tables_def)
  then have "space ?s root I" using sp(1) ok used unfolding space_def by (simp add: w ent) blast
  moreover have "no_huge ?s root a = no_huge st root a" for a by (simp add: no_huge_def w ent)
  ultimately show "user_space ?s root I" using sp(2-4) used no unfolding user_space_def by (simp add: gp tab)
  show "user_byte ?s root a = user_byte st root a" by (simp add: user_byte_def gp frame_byte_def ent Let_def)
qed

text \<open>A mapping takes at most three frames.\<close>

lemma get_or_alloc_table_frames:
  assumes "vm_ok st" "get_or_alloc_table e fl st = (st', x)"
  shows "vm_ok st' \<and> card (free_set (pmm st)) \<le> card (free_set (pmm st')) + 1"
proof -
  obtain st1 f where a: "alloc_frame st = (st1, f)" by (cases "alloc_frame st")
  note e = alloc_frame_effect [OF assms(1) a]
  have "card (free_set (pmm st)) \<le> card (free_set (pmm st1)) + 1"
    using e(2,4) by (cases "f = 0") (auto simp: card_Diff_singleton_if)
  then show ?thesis using assms(2) e(1) assms(1) a by (auto simp: get_or_alloc_table_def Let_def split: if_splits)
qed

lemma map_user_page_frames:
  assumes "vm_ok st" "vmm_map_user_page root virt phys flags st = (st', r)"
  shows "card (free_set (pmm st)) \<le> card (free_set (pmm st')) + 3"
proof -
  obtain s1 x1 where 1: "get_or_alloc_table (PHYS_TO_VIRT root + 8 * of_nat (VA_PML4_IDX virt)) (PTE_WRITE OR PTE_USER) st = (s1, x1)" by fastforce
  obtain s2 x2 where 2: "get_or_alloc_table (x1 + 8 * of_nat (VA_PDPT_IDX virt)) (PTE_WRITE OR PTE_USER) s1 = (s2, x2)" by fastforce
  obtain s3 x3 where 3: "get_or_alloc_table (x2 + 8 * of_nat (VA_PDT_IDX virt)) (PTE_WRITE OR PTE_USER) s2 = (s3, x3)" by fastforce
  note f = get_or_alloc_table_frames
  have "st' = s1 \<or> st' = s2 \<or> pmm st' = pmm s3"
    using assms(2) unfolding vmm_map_user_page_def map_in_def 1 2 3 prod.case by (auto split: if_splits)
  then show ?thesis using f [OF assms(1) 1] f [OF _ 2] f [OF _ 3] by auto
qed

text \<open>Frames in use outside the tree keep their contents: what other address spaces and the kernel's own data are made of. So do
  the entries of the root table for the part of the address space that is not the process's own.\<close>

definition keeps :: "u64 \<Rightarrow> nat set \<Rightarrow> 'a vm_state_scheme \<Rightarrow> 'a vm_state_scheme \<Rightarrow> bool" where
  "keeps root I st st' \<longleftrightarrow> (\<forall>x. used_table st x \<and> x \<notin> tables st root I \<longrightarrow>
     used_table st' x \<and> x \<notin> tables st' root I \<and> (\<forall>i < 512. entry st' x i = entry st x i)) \<and>
     (\<forall>i < 512. i \<notin> I \<longrightarrow> entry st' root i = entry st root i)"

lemma keeps_refl [simp]: "keeps root I st st"
  by (simp add: keeps_def)

lemma keeps_trans: "keeps root I st st' \<Longrightarrow> keeps root I st' st'' \<Longrightarrow> keeps root I st st''"
  by (simp add: keeps_def)

text \<open>Take, fill, map.\<close>

lemma fresh_page:
  fixes st st2 :: "'a vm_state_scheme"
  assumes us: "user_space st root I" and va: "VA_PML4_IDX virt \<in> I" and fl: "flags AND PTE_ADDR_MASK = 0"
    and a: "alloc_frame st = (st1, f)" "f \<noteq> 0"
    and p: "pmm st2 = pmm st1" and en: "\<forall>x j. is_table x \<longrightarrow> j < 512 \<longrightarrow> x \<noteq> f \<longrightarrow> entry st2 x j = entry st1 x j"
    and m: "vmm_map_user_page root virt f flags st2 = (st3, r)"
  shows "user_space st3 root I" and "r = 0 \<or> r = -1 \<and> card (free_set (pmm st)) \<le> 3"
    and "card (free_set (pmm st)) \<le> card (free_set (pmm st3)) + 4"
    and "VA_PML4_IDX b \<in> I \<Longrightarrow> user_byte st3 root b =
       (if r = 0 \<and> va_path b = va_path virt then Some (frame_byte st2 f (unat b mod 4096)) else user_byte st root b)"
    and "r \<noteq> 0 \<Longrightarrow> user_space (free_frame f st3) root I"
    and "r \<noteq> 0 \<Longrightarrow> VA_PML4_IDX b \<in> I \<Longrightarrow> user_byte (free_frame f st3) root b = user_byte st root b"
    and "keeps root I st st3" and "r \<noteq> 0 \<Longrightarrow> keeps root I st (free_frame f st3)"
proof -
  note t = take_frame_effect [OF us a p en]
  note e = map_user_page_effect [OF t(1) va fl t(2,3) m]
  have card: "card (free_set (pmm st)) = Suc (card (free_set (pmm st2)))"
    unfolding t(5) by (rule card_Suc_Diff1 [OF finite_free_set t(6), symmetric])
  show "user_space st3 root I" by (rule e(1))
  show "r = 0 \<or> r = -1 \<and> card (free_set (pmm st)) \<le> 3" using e(2) card by auto
  show "card (free_set (pmm st)) \<le> card (free_set (pmm st3)) + 4"
    using map_user_page_frames [OF spaceD(1) [OF user_spaceD(1) [OF t(1)]] m] card by simp
  have tf: "is_table f" using t(2) by (simp add: used_table_def)
  have off: "frame_byte st3 f k = frame_byte st2 f k" if "k < 4096" for k
    by (rule frame_byte_cong [OF _ that]) (rule e(4) [OF t(2,3)])
  show ub: "user_byte st3 root b =
     (if r = 0 \<and> va_path b = va_path virt then Some (frame_byte st2 f (unat b mod 4096)) else user_byte st root b)"
    if b: "VA_PML4_IDX b \<in> I" for b
  proof (cases "r = 0 \<and> va_path b = va_path virt")
    case True
    then show ?thesis using e(3) [OF b] off [of "unat b mod 4096"]
      by (simp add: user_byte_def frame_offset [OF tf] page_offset)
  next
    case False
    have "user_byte st3 root b = user_byte st2 root b"
      by (rule user_byte_kept [OF t(1) b]) (use e(3) [OF b] False e(4) in auto)
    then show ?thesis using False t(4) [OF b] by auto
  qed
  have rootk: "entry st3 root i = entry st root i" if "i < 512" "i \<notin> I" for i using e(7) [OF that] t(8) [OF that(1)] by simp
  show kp: "keeps root I st st3" unfolding keeps_def
  proof (intro conjI allI impI)
    show "i < 512 \<Longrightarrow> i \<notin> I \<Longrightarrow> entry st3 root i = entry st root i" for i by (rule rootk)
  next
    fix x assume x: "used_table st x \<and> x \<notin> tables st root I"
    have nf: "x \<noteq> f" using x t(6) by (auto simp: used_table_def)
    have u2: "used_table st2 x" using x t(5) by (auto simp: used_table_def)
    have same: "entry st2 x i = entry st x i" if "i < 512" for i
      using en x nf that alloc_frame_effect(3) [OF spaceD(1) [OF user_spaceD(1) [OF us]] a(1)] by (simp add: entry_def used_table_def)
    have "x \<notin> tables st2 root I" using t(7) x by simp
    then show "used_table st3 x" "x \<notin> tables st3 root I" "i < 512 \<Longrightarrow> entry st3 x i = entry st x i" for i
      using e(4) [OF u2] e(5) [OF u2] used_table_mono [OF e(6) u2] same by simp_all
  qed
  assume r: "r \<noteq> 0"
  have no: "get_phys_in root st3 c AND PTE_ADDR_MASK \<noteq> f" if c: "VA_PML4_IDX c \<in> I" "get_phys_in root st3 c \<noteq> 0" for c
  proof -
    have "get_phys_in root st3 c = get_phys_in root st2 c" using e(3) [OF c(1)] r by simp
    moreover have "get_phys_in root st2 c = get_phys_in root st c"
    proof -
      have "extends root I st st2"
        using t(5,6) alloc_frame_effect(3) [OF spaceD(1) [OF user_spaceD(1) [OF us]] a(1)] spaceD(1) [OF user_spaceD(1) [OF t(1)]] en
        by (intro entries_extends(1) [OF user_spaceD(1) [OF us] t(6)]) (auto simp: entry_def)
      then show ?thesis using extendsD(2) c(1) by blast
    qed
    ultimately show ?thesis using user_spaceD(3) [OF us c(1)] c(2) t(6) by (auto simp: used_table_def)
  qed
  have fu: "used_table st3 f" "f \<notin> tables st3 root I" using used_table_mono [OF e(6) t(2)] e(5) [OF t(2,3)] by auto
  have no': "\<forall>c. VA_PML4_IDX c \<in> I \<longrightarrow> get_phys_in root st3 c \<noteq> 0 \<longrightarrow> get_phys_in root st3 c AND PTE_ADDR_MASK \<noteq> f" using no by blast
  note g = give_frame_effect [OF e(1) fu no']
  show "user_space (free_frame f st3) root I" by (rule g(1))
  show "keeps root I st (free_frame f st3)"
    using kp t(6) g(3,4) unfolding keeps_def by (auto simp: used_table_def entry_def free_frame_def)
  show "user_byte (free_frame f st3) root b = user_byte st root b" if "VA_PML4_IDX b \<in> I"
    using g(2) [of b] ub [OF that] r by simp
qed

end
