(* ===== verification/Heap.thy ===== *)
theory Heap
  imports Vmm
begin

text \<open>
  The kernel heap (\<^verbatim>\<open>src/heap/heap.c\<close>): one slab cache per power of two from 8 to 4096 bytes, a slab
  being one page with its descriptor at the front and its free objects linked through their first cell;
  larger requests take whole pages. Pointers are addresses in the kernel window, 0 is NULL. The loops
  that follow links are partial functions: \<open>None\<close> is a loop that never ends.
\<close>

section \<open>State\<close>

definition HEAP_MIN_ORDER :: nat where [simp]: "HEAP_MIN_ORDER = 3"
definition HEAP_MAX_ORDER :: nat where [simp]: "HEAP_MAX_ORDER = 12"
definition HEAP_NUM_CACHES :: nat where [simp]: "HEAP_NUM_CACHES = HEAP_MAX_ORDER - HEAP_MIN_ORDER + 1"
definition SLAB_SIZE :: u64 where [simp]: "SLAB_SIZE = 4096"

record slab_cache =
  c_obj_size :: u32
  partial :: u64
  full :: u64

record heap_state = vm_state +
  caches :: "slab_cache list"

text \<open>The fields of the slab descriptor at \<open>s\<close>: \<^verbatim>\<open>next\<close> and \<^verbatim>\<open>freelist\<close> fill the first two cells,
  \<^verbatim>\<open>obj_size\<close> and \<^verbatim>\<open>free_count\<close> share the third, \<^verbatim>\<open>total\<close> and the padding the fourth.\<close>

definition lo32 :: "u64 \<Rightarrow> u32" where "lo32 w = ucast w"
definition hi32 :: "u64 \<Rightarrow> u32" where "hi32 w = ucast (drop_bit 32 w)"
definition set_lo32 :: "u32 \<Rightarrow> u64 \<Rightarrow> u64" where
  "set_lo32 v w = (w AND NOT 0xFFFFFFFF) OR ucast v"
definition set_hi32 :: "u32 \<Rightarrow> u64 \<Rightarrow> u64" where
  "set_hi32 v w = (w AND 0xFFFFFFFF) OR push_bit 32 (ucast v)"

definition slab_next :: "'a heap_state_scheme \<Rightarrow> u64 \<Rightarrow> u64" where "slab_next st s = kmem st s"
definition freelist :: "'a heap_state_scheme \<Rightarrow> u64 \<Rightarrow> u64" where "freelist st s = kmem st (s + 8)"
definition obj_size :: "'a heap_state_scheme \<Rightarrow> u64 \<Rightarrow> u32" where "obj_size st s = lo32 (kmem st (s + 16))"
definition free_count :: "'a heap_state_scheme \<Rightarrow> u64 \<Rightarrow> u32" where "free_count st s = hi32 (kmem st (s + 16))"
definition slab_total :: "'a heap_state_scheme \<Rightarrow> u64 \<Rightarrow> u32" where "slab_total st s = lo32 (kmem st (s + 24))"

definition set_next :: "u64 \<Rightarrow> u64 \<Rightarrow> 'a heap_state_scheme \<Rightarrow> 'a heap_state_scheme" where
  "set_next s v = wr s v"
definition set_freelist :: "u64 \<Rightarrow> u64 \<Rightarrow> 'a heap_state_scheme \<Rightarrow> 'a heap_state_scheme" where
  "set_freelist s v = wr (s + 8) v"
definition set_obj_size :: "u64 \<Rightarrow> u32 \<Rightarrow> 'a heap_state_scheme \<Rightarrow> 'a heap_state_scheme" where
  "set_obj_size s v st = wr (s + 16) (set_lo32 v (kmem st (s + 16))) st"
definition set_free_count :: "u64 \<Rightarrow> u32 \<Rightarrow> 'a heap_state_scheme \<Rightarrow> 'a heap_state_scheme" where
  "set_free_count s v st = wr (s + 16) (set_hi32 v (kmem st (s + 16))) st"
definition set_total :: "u64 \<Rightarrow> u32 \<Rightarrow> 'a heap_state_scheme \<Rightarrow> 'a heap_state_scheme" where
  "set_total s v st = wr (s + 24) (set_lo32 v (kmem st (s + 24))) st"

definition set_cache :: "nat \<Rightarrow> (slab_cache \<Rightarrow> slab_cache) \<Rightarrow> 'a heap_state_scheme \<Rightarrow> 'a heap_state_scheme" where
  "set_cache k f st = st\<lparr>caches := (caches st)[k := f (caches st ! k)]\<rparr>"

section \<open>Size classes\<close>

text \<open>\<^verbatim>\<open>while (s < size && order < HEAP_MAX_ORDER) { s <<= 1; order++; }\<close>; \<open>n\<close> is the number of orders left.\<close>

fun cache_index_loop :: "u64 \<Rightarrow> u64 \<Rightarrow> nat \<Rightarrow> nat \<Rightarrow> nat" where
  "cache_index_loop sz s order 0 = order"
| "cache_index_loop sz s order (Suc n) =
     (if s < sz then cache_index_loop sz (push_bit 1 s) (Suc order) n else order)"

definition cache_index :: "u64 \<Rightarrow> nat" where
  "cache_index sz = cache_index_loop sz 8 HEAP_MIN_ORDER (HEAP_MAX_ORDER - HEAP_MIN_ORDER) - HEAP_MIN_ORDER"

partial_function (option) pow2_loop :: "u64 \<Rightarrow> u64 \<Rightarrow> u64 option" where
  "pow2_loop sz s = (if s < sz then pow2_loop sz (push_bit 1 s) else Some s)"

definition round_up_pow2 :: "u64 \<Rightarrow> u64 option" where
  "round_up_pow2 sz = pow2_loop sz 8"

section \<open>Slabs\<close>

definition slab_create :: "u32 \<Rightarrow> 'a heap_state_scheme \<Rightarrow> 'a heap_state_scheme \<times> u64" where
  "slab_create osize st =
     (case alloc_frame st of (st, frame) \<Rightarrow>
      if frame = 0 then (st, 0)
      else
       let slab = PHYS_TO_VIRT frame;
           st = zero_cells slab 512 st;
           hdr_size = (32 :: u64);
           hdr_size = (if hdr_size mod ucast osize \<noteq> 0
                       then hdr_size + (ucast osize - hdr_size mod ucast osize) else hdr_size);
           usable = SLAB_SIZE - hdr_size;
           total = (ucast (usable div ucast osize) :: u32);
           st = set_obj_size slab osize st;
           st = set_total slab total st;
           st = set_free_count slab total st;
           st = set_next slab 0 st;
           base = slab + hdr_size;
           st = set_freelist slab base st;
           st = for_range 0 (unat total) (\<lambda>i st.
             wr (base + of_nat i * ucast osize)
                (if i + 1 < unat total then base + of_nat (i + 1) * ucast osize else 0) st) st
       in (st, slab))"

definition slab_alloc_from :: "u64 \<Rightarrow> 'a heap_state_scheme \<Rightarrow> 'a heap_state_scheme \<times> u64" where
  "slab_alloc_from slab st =
     (let obj = freelist st slab;
          st = set_freelist slab (kmem st obj) st;
          st = set_free_count slab (free_count st slab - 1) st
      in (st, obj))"

definition cache_alloc :: "nat \<Rightarrow> 'a heap_state_scheme \<Rightarrow> 'a heap_state_scheme \<times> u64" where
  "cache_alloc k st =
     (case (if partial (caches st ! k) = 0
            then case slab_create (c_obj_size (caches st ! k)) st of (st, s) \<Rightarrow>
                   if s = 0 then (st, False) else (set_cache k (\<lambda>c. c\<lparr>partial := s\<rparr>) st, True)
            else (st, True)) of (st, ok) \<Rightarrow>
      if \<not> ok then (st, 0)
      else
       let slab = partial (caches st ! k) in
       case slab_alloc_from slab st of (st, ptr) \<Rightarrow>
       if free_count st slab = 0
       then let st = set_cache k (\<lambda>c. c\<lparr>partial := slab_next st slab\<rparr>) st;
                st = set_next slab (full (caches st ! k)) st;
                st = set_cache k (\<lambda>c. c\<lparr>full := slab\<rparr>) st
            in (st, ptr)
       else (st, ptr))"

definition slab_of :: "u64 \<Rightarrow> u64" where
  "slab_of ptr = ptr AND NOT (SLAB_SIZE - 1)"

text \<open>The pointer-to-pointer of the list walks: the head field of the cache or the \<^verbatim>\<open>next\<close> field of a slab.\<close>

datatype slab_link = Partial_head nat | Full_head nat | Next_of u64

fun deref :: "slab_link \<Rightarrow> 'a heap_state_scheme \<Rightarrow> u64" where
  "deref (Partial_head k) st = partial (caches st ! k)"
| "deref (Full_head k) st = full (caches st ! k)"
| "deref (Next_of s) st = slab_next st s"

fun store_link :: "slab_link \<Rightarrow> u64 \<Rightarrow> 'a heap_state_scheme \<Rightarrow> 'a heap_state_scheme" where
  "store_link (Partial_head k) v st = set_cache k (\<lambda>c. c\<lparr>partial := v\<rparr>) st"
| "store_link (Full_head k) v st = set_cache k (\<lambda>c. c\<lparr>full := v\<rparr>) st"
| "store_link (Next_of s) v st = set_next s v st"

text \<open>\<^verbatim>\<open>while (*p && *p != slab) p = &(*p)->next;\<close>\<close>

partial_function (option) find_link :: "u64 \<Rightarrow> slab_link \<Rightarrow> 'a heap_state_scheme \<Rightarrow> slab_link option" where
  "find_link slab p st =
     (if deref p st \<noteq> 0 \<and> deref p st \<noteq> slab then find_link slab (Next_of (deref p st)) st else Some p)"

definition unlink_slab :: "u64 \<Rightarrow> slab_link \<Rightarrow> 'a heap_state_scheme \<Rightarrow> 'a heap_state_scheme option" where
  "unlink_slab slab head st =
     (case find_link slab head st of None \<Rightarrow> None
      | Some p \<Rightarrow> Some (if deref p st \<noteq> 0 then store_link p (slab_next st slab) st else st))"

definition cache_free :: "nat \<Rightarrow> u64 \<Rightarrow> 'a heap_state_scheme \<Rightarrow> 'a heap_state_scheme option" where
  "cache_free k ptr st =
     (let slab = slab_of ptr;
          was_full = (free_count st slab = 0);
          st = wr ptr (freelist st slab) st;
          st = set_freelist slab ptr st;
          st = set_free_count slab (free_count st slab + 1) st
      in case (if was_full
               then map_option (\<lambda>st.
                      let st = set_next slab (partial (caches st ! k)) st
                      in set_cache k (\<lambda>c. c\<lparr>partial := slab\<rparr>) st) (unlink_slab slab (Full_head k) st)
               else Some st) of
           None \<Rightarrow> None
         | Some st \<Rightarrow>
             if free_count st slab = slab_total st slab
             then map_option (free_frame (VIRT_TO_PHYS slab)) (unlink_slab slab (Partial_head k) st)
             else Some st)"

section \<open>Large blocks\<close>

fun large_frames :: "nat \<Rightarrow> 'a heap_state_scheme \<Rightarrow> 'a heap_state_scheme \<times> bool" where
  "large_frames 0 st = (st, True)"
| "large_frames (Suc n) st =
     (case alloc_frame st of (st, frame) \<Rightarrow> if frame = 0 then (st, False) else large_frames n st)"

definition large_alloc :: "u64 \<Rightarrow> 'a heap_state_scheme \<Rightarrow> 'a heap_state_scheme \<times> u64" where
  "large_alloc sz st =
     (let total = sz + 8;
          num_pages = (total + SLAB_SIZE - 1) div SLAB_SIZE in
      if num_pages = 0 then (wr (PHYS_TO_VIRT 0) num_pages st, PHYS_TO_VIRT 0 + 8) else
      case alloc_frame st of (st, first) \<Rightarrow>
      if first = 0 then (st, 0) else
      case large_frames (unat num_pages - 1) st of (st, ok) \<Rightarrow>
      if \<not> ok then (st, 0)
      else (wr (PHYS_TO_VIRT first) num_pages st, PHYS_TO_VIRT first + 8))"

definition large_free :: "u64 \<Rightarrow> 'a heap_state_scheme \<Rightarrow> 'a heap_state_scheme" where
  "large_free ptr st = free_frame (VIRT_TO_PHYS (ptr - 8)) st"

section \<open>The interface\<close>

definition kmalloc :: "u64 \<Rightarrow> 'a heap_state_scheme \<Rightarrow> ('a heap_state_scheme \<times> u64) option" where
  "kmalloc sz st =
     (if sz = 0 then Some (st, 0)
      else if sz > 4096 then Some (large_alloc sz st)
      else case round_up_pow2 (if sz < 8 then 8 else sz) of None \<Rightarrow> None
           | Some osize \<Rightarrow> Some (cache_alloc (cache_index osize) st))"

text \<open>\<^verbatim>\<open>memset(p, 0, n)\<close> on cells: the last one may be cleared in part.\<close>

definition zero_bytes :: "u64 \<Rightarrow> u64 \<Rightarrow> 'a vm_state_scheme \<Rightarrow> 'a vm_state_scheme" where
  "zero_bytes p n st =
     (let cells = unat n div 8; rest = unat n mod 8;
          st = zero_cells p cells st;
          a = p + 8 * of_nat cells
      in if rest = 0 then st else wr a (kmem st a AND NOT (mask (8 * rest))) st)"

definition kzalloc :: "u64 \<Rightarrow> 'a heap_state_scheme \<Rightarrow> ('a heap_state_scheme \<times> u64) option" where
  "kzalloc sz st =
     (case kmalloc sz st of None \<Rightarrow> None
      | Some (st, p) \<Rightarrow> Some (if p \<noteq> 0 then zero_bytes p sz st else st, p))"

definition is_slab :: "'a heap_state_scheme \<Rightarrow> u64 \<Rightarrow> bool" where
  "is_slab st slab \<longleftrightarrow> obj_size st slab \<ge> 8 \<and> obj_size st slab \<le> 4096"

definition kfree :: "u64 \<Rightarrow> 'a heap_state_scheme \<Rightarrow> 'a heap_state_scheme option" where
  "kfree ptr st =
     (if ptr = 0 then Some st
      else let slab = slab_of ptr
           in if is_slab st slab then cache_free (cache_index (ucast (obj_size st slab))) ptr st
              else Some (large_free ptr st))"

definition krealloc :: "u64 \<Rightarrow> u64 \<Rightarrow> 'a heap_state_scheme \<Rightarrow> ('a heap_state_scheme \<times> u64) option" where
  "krealloc ptr sz st =
     (if ptr = 0 then kmalloc sz st
      else if sz = 0 then map_option (\<lambda>st. (st, 0)) (kfree ptr st)
      else
       let slab = slab_of ptr;
           old_size = (if is_slab st slab then ucast (obj_size st slab) else kmem st (ptr - 8) * SLAB_SIZE - 8)
       in if sz \<le> old_size then Some (st, ptr)
          else case kmalloc sz st of None \<Rightarrow> None
               | Some (st, newp) \<Rightarrow>
                   if newp = 0 then Some (st, 0)
                   else let st = copy_cells newp ptr (unat old_size div 8) st
                        in map_option (\<lambda>st. (st, newp)) (kfree ptr st))"

definition heap_init :: "'a heap_state_scheme \<Rightarrow> 'a heap_state_scheme \<times> int" where
  "heap_init st =
     (for_range 0 HEAP_NUM_CACHES
        (\<lambda>i. set_cache i (\<lambda>_. \<lparr>c_obj_size = push_bit (HEAP_MIN_ORDER + i) 1, partial = 0, full = 0\<rparr>)) st, 0)"

end
