(* ===== verification/HeapCorrect.thy ===== *)
theory HeapCorrect
  imports UserMem Heap
begin

text \<open>
  Correctness of the slab allocator for requests up to 2048 bytes. A heap stands for a set of live blocks, pairs of an address and a
  size. The lemmas show that allocating adds one aligned block that overlaps no other, that releasing removes one, that neither touches the contents
  of the other live blocks, and that the frames in use are exactly those with a live block in them.
\<close>

section \<open>Size classes\<close>

text \<open>Class \<open>k\<close> has objects of \<open>2 ^ k\<close> cells. The first ones of a slab are taken by the descriptor.\<close>

definition hdr_cells :: "nat \<Rightarrow> nat" where
  "hdr_cells k = (if k < 2 then 4 else 2 ^ k)"

definition slots :: "nat \<Rightarrow> nat" where
  "slots k = (512 - hdr_cells k) div 2 ^ k"

definition objs :: "nat \<Rightarrow> nat list" where
  "objs k = map (\<lambda>i. hdr_cells k + i * 2 ^ k) [0..<slots k]"

lemma class_cases: "k < 9 \<Longrightarrow> k = 0 \<or> k = 1 \<or> k = 2 \<or> k = 3 \<or> k = 4 \<or> k = 5 \<or> k = 6 \<or> k = 7 \<or> k = 8" for k :: nat
  by linarith

lemma class_facts:
  assumes "k < 9"
  shows "4 \<le> hdr_cells k" "0 < slots k" "hdr_cells k + slots k * 2 ^ k \<le> 512" "slots k \<le> 508" "2 ^ k dvd hdr_cells k"
  using class_cases [OF assms] by (auto simp: hdr_cells_def slots_def)

lemma objs_bound:
  assumes "k < 9" "j \<in> set (objs k)"
  shows "4 \<le> j" "j + 2 ^ k \<le> 512" "2 ^ k dvd j"
proof -
  obtain i where i: "i < slots k" "j = hdr_cells k + i * 2 ^ k" using assms(2) by (auto simp: objs_def)
  then have "(i + 1) * 2 ^ k \<le> slots k * 2 ^ k" by (intro mult_le_mono1) simp
  then show "j + 2 ^ k \<le> 512" using class_facts(3) [OF assms(1)] i(2) by simp
  show "4 \<le> j" "2 ^ k dvd j" using class_facts(1,5) [OF assms(1)] i(2) by auto
qed

lemma objs_cell: "k < 9 \<Longrightarrow> j \<in> set (objs k) \<Longrightarrow> 4 \<le> j \<and> j < 512"
  using objs_bound(1,2) [of k j] zero_less_power [of "2 :: nat" k] by linarith

lemma objs_apart:
  assumes "i \<in> set (objs k)" "j \<in> set (objs k)" "i \<noteq> j"
  shows "i + 2 ^ k \<le> j \<or> j + 2 ^ k \<le> i"
proof -
  obtain a b where ab: "i = hdr_cells k + a * 2 ^ k" "j = hdr_cells k + b * 2 ^ k" using assms(1,2) by (auto simp: objs_def)
  then have "a + 1 \<le> b \<or> b + 1 \<le> a" using assms(3) by (cases a b rule: linorder_cases) auto
  then have "(a + 1) * 2 ^ k \<le> b * 2 ^ k \<or> (b + 1) * 2 ^ k \<le> a * (2 ^ k :: nat)" by (meson mult_le_mono1)
  then show ?thesis using ab by auto
qed

lemma objs_list: "length (objs k) = slots k" "distinct (objs k)"
  by (simp_all add: objs_def distinct_map inj_on_def)

lemma free_slots:
  assumes "distinct fl" "set fl \<subseteq> set (objs k)"
  shows "length fl \<le> slots k" and "length fl < slots k \<longleftrightarrow> set (objs k) - set fl \<noteq> {}"
proof -
  have c: "card (set (objs k)) = slots k" "card (set fl) = length fl" using objs_list assms(1) by (metis distinct_card)+
  then show "length fl \<le> slots k" using card_mono [OF _ assms(2)] by simp
  show "length fl < slots k \<longleftrightarrow> set (objs k) - set fl \<noteq> {}"
  proof
    assume "length fl < slots k"
    then show "set (objs k) - set fl \<noteq> {}" using c by (metis Diff_eq_empty_iff assms(2) nat_neq_iff subset_antisym)
  next
    assume "set (objs k) - set fl \<noteq> {}"
    then have "set fl \<subset> set (objs k)" using assms(2) by blast
    then show "length fl < slots k" using c psubset_card_mono [of "set (objs k)" "set fl"] by simp
  qed
qed

section \<open>Cells of slabs\<close>

definition oaddr :: "u64 \<Rightarrow> nat \<Rightarrow> u64" where
  "oaddr f j = PHYS_TO_VIRT f + 8 * of_nat j"

definition put :: "u64 \<Rightarrow> nat \<Rightarrow> u64 \<Rightarrow> 'a vm_state_scheme \<Rightarrow> 'a vm_state_scheme" where
  "put f j v st = wr (oaddr f j) v st"

lemma oaddr_inj: "is_table f \<Longrightarrow> is_table g \<Longrightarrow> i < 512 \<Longrightarrow> j < 512 \<Longrightarrow> oaddr f i = oaddr g j \<longleftrightarrow> f = g \<and> i = j"
  unfolding oaddr_def using table_addr_inj [of f g i j] by blast

lemma entry_put: "is_table f \<Longrightarrow> is_table g \<Longrightarrow> i < 512 \<Longrightarrow> j < 512 \<Longrightarrow>
    entry (put f i v st) g j = (if g = f \<and> j = i then v else entry st g j)"
  unfolding put_def oaddr_def by (rule entry_wr)

lemma put_keeps [simp]: "pmm (put f j v st) = pmm st" "vm_ok (put f j v st) = vm_ok st"
  by (simp_all add: put_def)

lemma put_caches [simp]: "caches (put f j v st) = caches st"
  by (simp add: put_def wr_def)

lemma word_halves:
  "lo32 (set_lo32 v w) = v" "hi32 (set_lo32 v w) = hi32 w" "lo32 (set_hi32 v w) = lo32 w" "hi32 (set_hi32 v w) = v"
proof -
  have m: "(0xFFFFFFFF :: u64) = mask 32" by (simp add: mask_eq_exp_minus_1)
  show "lo32 (set_lo32 v w) = v" "hi32 (set_lo32 v w) = hi32 w" "lo32 (set_hi32 v w) = lo32 w" "hi32 (set_hi32 v w) = v"
    unfolding lo32_def hi32_def set_lo32_def set_hi32_def m
    by (rule bit_word_eqI; auto simp: bit_simps dest: bit_imp_le_length)+
qed

lemma slab_fields:
  "slab_next st (PHYS_TO_VIRT f) = entry st f 0" "freelist st (PHYS_TO_VIRT f) = entry st f 1" "obj_size st (PHYS_TO_VIRT f) = lo32 (entry st f 2)"
  "free_count st (PHYS_TO_VIRT f) = hi32 (entry st f 2)" "slab_total st (PHYS_TO_VIRT f) = lo32 (entry st f 3)"
  by (simp_all add: slab_next_def freelist_def obj_size_def free_count_def slab_total_def entry_def)

lemma slab_stores:
  "set_next (PHYS_TO_VIRT f) v st = put f 0 v st" "set_freelist (PHYS_TO_VIRT f) v st = put f 1 v st"
  "set_obj_size (PHYS_TO_VIRT f) a st = put f 2 (set_lo32 a (entry st f 2)) st"
  "set_free_count (PHYS_TO_VIRT f) a st = put f 2 (set_hi32 a (entry st f 2)) st"
  "set_total (PHYS_TO_VIRT f) a st = put f 3 (set_lo32 a (entry st f 3)) st"
  by (simp_all add: set_next_def set_freelist_def set_obj_size_def set_free_count_def set_total_def put_def oaddr_def entry_def)

section \<open>The invariant\<close>

text \<open>The free list of a slab, its objects given by their first cells, and a list of slabs.\<close>

fun fchain :: "'a vm_state_scheme \<Rightarrow> u64 \<Rightarrow> u64 \<Rightarrow> nat list \<Rightarrow> bool" where
  "fchain st f p [] \<longleftrightarrow> p = 0"
| "fchain st f p (j # js) \<longleftrightarrow> p = oaddr f j \<and> fchain st f (entry st f j) js"

fun schain :: "'a vm_state_scheme \<Rightarrow> u64 \<Rightarrow> u64 list \<Rightarrow> bool" where
  "schain st p [] \<longleftrightarrow> p = 0"
| "schain st p (f # fs) \<longleftrightarrow> p = PHYS_TO_VIRT f \<and> schain st (entry st f 0) fs"

lemma fchain_cong: "(\<forall>j \<in> set js. entry st' f j = entry st f j) \<Longrightarrow> fchain st' f p js = fchain st f p js"
  by (induction js arbitrary: p) auto

lemma schain_cong: "(\<forall>f \<in> set fs. entry st' f 0 = entry st f 0) \<Longrightarrow> schain st' p fs = schain st p fs"
  by (induction fs arbitrary: p) auto

text \<open>A slab of class \<open>k\<close> in frame \<open>f\<close> whose free objects are \<open>fl\<close>.\<close>

definition slab_ok :: "'a vm_state_scheme \<Rightarrow> nat \<Rightarrow> u64 \<Rightarrow> nat list \<Rightarrow> bool" where
  "slab_ok st k f fl \<longleftrightarrow> used_table st f \<and> lo32 (entry st f 2) = 2 ^ (3 + k) \<and> hi32 (entry st f 2) = of_nat (length fl) \<and>
     lo32 (entry st f 3) = of_nat (slots k) \<and> fchain st f (entry st f 1) fl \<and> distinct fl \<and> set fl \<subseteq> set (objs k)"

lemma slab_ok_cong:
  assumes "slab_ok st k f fl" "k < 9" "used_table st' f" "\<forall>j. 0 < j \<longrightarrow> j < 512 \<longrightarrow> entry st' f j = entry st f j"
  shows "slab_ok st' k f fl"
proof -
  have "entry st' f j = entry st f j" if j: "j \<in> set fl" for j
  proof -
    have "j \<in> set (objs k)" using j assms(1) by (auto simp: slab_ok_def)
    then have "0 < j" "j < 512" using objs_cell [OF assms(2)] by fastforce+
    then show ?thesis using assms(4) by blast
  qed
  then show ?thesis using assms fchain_cong [of fl st' f st] by (simp add: slab_ok_def del: One_nat_def)
qed

text \<open>The heap: \<open>own\<close> gives every slab its class and free objects, \<open>ps\<close> and \<open>fs\<close> the lists of slabs with and without free objects. A slab that
  is not in \<open>X\<close> has a live object.\<close>

type_synonym slab_map = "u64 \<Rightarrow> (nat \<times> nat list) option"

definition lists_ok :: "'a heap_state_scheme \<Rightarrow> slab_map \<Rightarrow> nat \<Rightarrow> u64 list \<Rightarrow> u64 list \<Rightarrow> bool" where
  "lists_ok st own k ps fs \<longleftrightarrow> c_obj_size (caches st ! k) = 2 ^ (3 + k) \<and>
     schain st (partial (caches st ! k)) ps \<and> schain st (full (caches st ! k)) fs \<and> distinct ps \<and> distinct fs \<and>
     set ps = {f. \<exists>fl. own f = Some (k, fl) \<and> fl \<noteq> []} \<and> set fs = {f. own f = Some (k, [])}"

definition heap_inv :: "u64 set \<Rightarrow> 'a heap_state_scheme \<Rightarrow> slab_map \<Rightarrow> (nat \<Rightarrow> u64 list) \<Rightarrow> (nat \<Rightarrow> u64 list) \<Rightarrow> bool" where
  "heap_inv X st own ps fs \<longleftrightarrow> vm_ok st \<and> length (caches st) = 10 \<and>
     (\<forall>f k fl. own f = Some (k, fl) \<longrightarrow> k < 9 \<and> slab_ok st k f fl \<and> (f \<in> X \<or> length fl < slots k)) \<and>
     (\<forall>k < 9. lists_ok st own k (ps k) (fs k))"

lemma heap_invD:
  assumes "heap_inv X st own ps fs"
  shows "vm_ok st" "length (caches st) = 10" "own f = Some (k, fl) \<Longrightarrow> k < 9 \<and> slab_ok st k f fl \<and> (f \<in> X \<or> length fl < slots k)"
    "k < 9 \<Longrightarrow> lists_ok st own k (ps k) (fs k)"
  using assms by (auto simp: heap_inv_def)

text \<open>A step that works on one slab of one class.\<close>

lemma heap_inv_step:
  fixes st st' :: "'a heap_state_scheme"
  assumes inv: "heap_inv X st own ps fs" and k: "k < 9" and ok: "vm_ok st'" "length (caches st') = 10"
    and ca: "\<forall>i. i \<noteq> k \<longrightarrow> caches st' ! i = caches st ! i"
    and own: "own f = None \<or> (\<exists>fl. own f = Some (k, fl))" "own' = own(f := x)"
      "x = None \<or> (\<exists>fl. x = Some (k, fl) \<and> slab_ok st' k f fl \<and> (f \<in> X' \<or> length fl < slots k))"
    and en: "\<forall>t j. is_table t \<longrightarrow> j < 512 \<longrightarrow> t \<noteq> f \<longrightarrow> j \<noteq> 0 \<or> (\<forall>fl. own t \<noteq> Some (k, fl)) \<longrightarrow> entry st' t j = entry st t j"
    and us: "\<forall>t. t \<noteq> f \<longrightarrow> own t \<noteq> None \<longrightarrow> used_table st' t" and X: "X \<subseteq> insert f X'"
    and l: "lists_ok st' own' k ps' fs'"
  shows "heap_inv X' st' own' (ps(k := ps')) (fs(k := fs'))"
proof -
  have 1: "i < 9 \<and> slab_ok st' i g fl \<and> (g \<in> X' \<or> length fl < slots i)" if g: "own' g = Some (i, fl)" for g i fl
  proof (cases "g = f")
    case True
    then show ?thesis using g own(2,3) k by auto
  next
    case False
    then have o: "own g = Some (i, fl)" using g own(2) by simp
    note s = heap_invD(3) [OF inv o]
    have t: "is_table g" using s by (simp add: slab_ok_def used_table_def)
    have "\<forall>j. 0 < j \<longrightarrow> j < 512 \<longrightarrow> entry st' g j = entry st g j" using en t False by blast
    moreover have "used_table st' g" using us False o by simp
    ultimately have "slab_ok st' i g fl" using slab_ok_cong s by blast
    then show ?thesis using s X False by blast
  qed
  have 2: "lists_ok st' own' i (ps i) (fs i)" if i: "i < 9" "i \<noteq> k" for i
  proof -
    note li = heap_invD(4) [OF inv i(1)]
    have own_i: "own' g = Some (i, fl) \<longleftrightarrow> own g = Some (i, fl)" for g fl using own i(2) by auto
    have "entry st' g 0 = entry st g 0" if gi: "g \<in> set (ps i) \<union> set (fs i)" for g
    proof -
      have "\<exists>fl. own g = Some (i, fl)" using gi li by (auto simp: lists_ok_def)
      then obtain fl where o: "own g = Some (i, fl)" by blast
      then have "is_table g" using heap_invD(3) [OF inv o] by (simp add: slab_ok_def used_table_def)
      moreover have "g \<noteq> f" using o own(1) i(2) by auto
      ultimately show ?thesis using en o i(2) by simp
    qed
    then have "schain st' p (ps i) = schain st p (ps i)" "schain st' p (fs i) = schain st p (fs i)" for p
      by (intro schain_cong ballI; simp)+
    then show ?thesis using li ca i(2) by (simp add: lists_ok_def own_i)
  qed
  show ?thesis unfolding heap_inv_def using ok 1 2 l by (intro conjI allI impI) (blast | simp)+
qed

section \<open>A new slab\<close>

lemma size_words:
  assumes "k < 9"
  shows "ucast (2 ^ (3 + k) :: u32) = (8 * 2 ^ k :: u64)"
    and "(if (32 :: u64) mod (8 * 2 ^ k) \<noteq> 0 then 32 + (8 * 2 ^ k - 32 mod (8 * 2 ^ k)) else 32) = (8 * of_nat (hdr_cells k) :: u64)"
    and "(ucast ((SLAB_SIZE - 8 * of_nat (hdr_cells k)) div (8 * 2 ^ k) :: u64) :: u32) = of_nat (slots k)"
    and "unat (of_nat (slots k) :: u32) = slots k"
proof -
  note k = class_cases [OF assms]
  show "ucast (2 ^ (3 + k) :: u32) = (8 * 2 ^ k :: u64)" using k by (elim disjE) simp_all
  show "(ucast ((SLAB_SIZE - 8 * of_nat (hdr_cells k)) div (8 * 2 ^ k) :: u64) :: u32) = of_nat (slots k)"
    using k by (elim disjE) (simp_all add: hdr_cells_def slots_def)
  show "unat (of_nat (slots k) :: u32) = slots k" using k by (elim disjE) (simp_all add: hdr_cells_def slots_def)
  have small: "(32 :: u64) mod (8 * 2 ^ k) = 0" if "k < 3"
  proof -
    have "k = 0 \<or> k = 1 \<or> k = 2" using that by linarith
    then show ?thesis by (elim disjE) simp_all
  qed
  have large: "(32 :: u64) mod (8 * 2 ^ k) = 32" if "\<not> k < 3"
    by (rule mod_word_less) (use k that in \<open>elim disjE; simp\<close>)
  show "(if (32 :: u64) mod (8 * 2 ^ k) \<noteq> 0 then 32 + (8 * 2 ^ k - 32 mod (8 * 2 ^ k)) else 32) = (8 * of_nat (hdr_cells k) :: u64)"
  proof (cases "k < 3")
    case True
    then have "hdr_cells k = 4" by (auto simp: hdr_cells_def less_Suc_eq numeral_3_eq_3)
    then show ?thesis unfolding small [OF True] by simp
  next
    case False
    then show ?thesis unfolding large [OF False] by (simp add: hdr_cells_def)
  qed
qed

lemma thread_loop:
  fixes st :: "'a heap_state_scheme"
  assumes "is_table f" "k < 9" "n \<le> slots k" "st' = for_range 0 n (\<lambda>i. put f (hdr_cells k + i * 2 ^ k) (g i)) st"
  shows "(\<forall>i < n. entry st' f (hdr_cells k + i * 2 ^ k) = g i) \<and>
    (\<forall>t j. is_table t \<longrightarrow> j < 512 \<longrightarrow> t \<noteq> f \<or> j < 4 \<longrightarrow> entry st' t j = entry st t j) \<and> pmm st' = pmm st \<and> caches st' = caches st"
  using assms(3,4)
proof (induction n arbitrary: st')
  case (Suc n)
  let ?u = "for_range 0 n (\<lambda>i. put f (hdr_cells k + i * 2 ^ k) (g i)) st"
  let ?c = "\<lambda>i. hdr_cells k + i * 2 ^ k"
  have st': "st' = put f (?c n) (g n) ?u" using Suc.prems(2) by (simp add: for_range_last)
  have c: "?c i < 512" "4 \<le> ?c i" if "i < slots k" for i
    using objs_cell [OF assms(2), of "?c i"] that by (auto simp: objs_def)
  have e: "entry st' t j = (if t = f \<and> j = ?c n then g n else entry ?u t j)" if "is_table t" "j < 512" for t j
    unfolding st' by (rule entry_put) (use assms(1) that c(1) [of n] Suc.prems(1) in simp_all)
  have IH: "(\<forall>i < n. entry ?u f (?c i) = g i) \<and> (\<forall>t j. is_table t \<longrightarrow> j < 512 \<longrightarrow> t \<noteq> f \<or> j < 4 \<longrightarrow> entry ?u t j = entry st t j) \<and>
      pmm ?u = pmm st \<and> caches ?u = caches st"
    using Suc.IH [OF _ refl] Suc.prems(1) by simp
  have "entry st' f (?c i) = g i" if "i < Suc n" for i
    using e [OF assms(1) c(1), of i] IH that Suc.prems(1) by (cases "i = n") auto
  moreover have "entry st' t j = entry st t j" if "is_table t" "j < 512" "t \<noteq> f \<or> j < 4" for t j
    using e [OF that(1,2)] IH that c(2) [of n] Suc.prems(1) by auto
  moreover have "pmm st' = pmm st" "caches st' = caches st" using IH st' by auto
  ultimately show ?case by blast
qed simp

lemma fchain_thread:
  assumes "\<forall>i. m \<le> i \<and> i < n \<longrightarrow> entry st f (c i) = (if i + 1 < n then oaddr f (c (i + 1)) else 0)"
  shows "fchain st f (if m < n then oaddr f (c m) else 0) (map c [m..<n])"
  using assms
proof (induction "n - m" arbitrary: m)
  case (Suc d)
  then have m: "m < n" by simp
  have "fchain st f (if Suc m < n then oaddr f (c (Suc m)) else 0) (map c [Suc m..<n])"
    by (rule Suc.hyps(1)) (use Suc.hyps(2) Suc.prems in auto)
  moreover have "entry st f (c m) = (if Suc m < n then oaddr f (c (Suc m)) else 0)" using m Suc.prems [rule_format, of m] by simp
  ultimately show ?case using m by (simp add: upt_conv_Cons)
qed simp

lemma slab_create_effect:
  fixes st :: "'a heap_state_scheme"
  assumes ok: "vm_ok st" and k: "k < 9" and c: "slab_create (2 ^ (3 + k)) st = (st', s)"
  shows "s = 0 \<Longrightarrow> st' = st \<and> free_set (pmm st) = {}"
    and "s \<noteq> 0 \<Longrightarrow> \<exists>f. s = PHYS_TO_VIRT f \<and> page_no f \<in> free_set (pmm st) \<and> free_set (pmm st') = free_set (pmm st) - {page_no f} \<and>
      slab_ok st' k f (objs k) \<and> entry st' f 0 = 0 \<and> vm_ok st' \<and> caches st' = caches st \<and>
      (\<forall>t j. is_table t \<longrightarrow> j < 512 \<longrightarrow> t \<noteq> f \<longrightarrow> entry st' t j = entry st t j)"
proof -
  obtain st1 f where a: "alloc_frame st = (st1, f)" by fastforce
  note ae = alloc_frame_effect [OF ok a]
  have ca: "caches st1 = caches st" using a by (auto simp: alloc_frame_def split: prod.splits)
  show "st' = st \<and> free_set (pmm st) = {}" if s0: "s = 0"
  proof (cases "f = 0")
    case True
    then show ?thesis using c ae(2) by (simp add: slab_create_def a)
  next
    case False
    then have "s = PHYS_TO_VIRT f" using c by (auto simp: slab_create_def a Let_def)
    then show ?thesis using phys_to_virt_nonzero ae(4) False s0 by blast
  qed
  assume "s \<noteq> 0"
  then have f0: "f \<noteq> 0" using c by (auto simp: slab_create_def a)
  have t: "is_table f" using ae(4) f0 by blast
  let ?c = "\<lambda>i. hdr_cells k + i * 2 ^ k"
  define z where "z = zero_cells (PHYS_TO_VIRT f) 512 st1"
  define u where "u = put f 1 (oaddr f (hdr_cells k)) (put f 0 0 (set_free_count (PHYS_TO_VIRT f) (of_nat (slots k))
    (set_total (PHYS_TO_VIRT f) (of_nat (slots k)) (set_obj_size (PHYS_TO_VIRT f) (2 ^ (3 + k)) z))))"
  define g where "g = (\<lambda>i. if i + 1 < slots k then oaddr f (?c (i + 1)) else 0)"
  have w: "PHYS_TO_VIRT f + 8 * of_nat (hdr_cells k) + of_nat i * (8 * 2 ^ k) = oaddr f (?c i)" for i
    by (simp add: oaddr_def algebra_simps)
  have body: "(\<lambda>i st. wr (PHYS_TO_VIRT f + 8 * of_nat (hdr_cells k) + of_nat i * (8 * 2 ^ k))
      (if i + 1 < slots k then PHYS_TO_VIRT f + 8 * of_nat (hdr_cells k) + of_nat (i + 1) * (8 * 2 ^ k) else 0) st) = (\<lambda>i. put f (?c i) (g i))"
    unfolding w g_def put_def by (rule refl)
  have "slab_create (2 ^ (3 + k)) st = (for_range 0 (slots k) (\<lambda>i. put f (?c i) (g i)) u, PHYS_TO_VIRT f)"
    unfolding slab_create_def a Let_def prod.case if_not_P [OF f0] size_words [OF k] body [symmetric]
    by (simp add: u_def z_def slab_stores oaddr_def)
  then have st': "st' = for_range 0 (slots k) (\<lambda>i. put f (?c i) (g i)) u" and s: "s = PHYS_TO_VIRT f" using c by simp_all
  note l = thread_loop [OF t k le_refl st']
  have es: "entry st1 x j = entry st x j" for x j by (simp add: entry_def ae(3))
  have e: "entry u x j = entry st x j" if "is_table x" "j < 512" "x \<noteq> f" for x j
    using that t by (simp add: u_def z_def slab_stores entry_put entry_zero_cells es)
  have e01: "entry u f 0 = 0" "entry u f 1 = oaddr f (hdr_cells k)" using t by (simp_all add: u_def entry_put)
  have h: "lo32 (entry u f 2) = 2 ^ (3 + k)" "hi32 (entry u f 2) = of_nat (slots k)" "lo32 (entry u f 3) = of_nat (slots k)"
    using t by (simp_all add: u_def slab_stores entry_put word_halves)
  have p: "pmm u = pmm st1" by (simp add: u_def z_def slab_stores)
  have cu: "caches u = caches st" by (simp add: u_def z_def slab_stores zero_cells_eq ca)
  have v: "vm_ok st'" using ae(1) l p by (simp add: vm_ok_def)
  have "fchain st' f (if 0 < slots k then oaddr f (?c 0) else 0) (map ?c [0..<slots k])"
    by (rule fchain_thread) (use l g_def in simp)
  then have "fchain st' f (entry st' f 1) (objs k)" using class_facts(2) [OF k] l e01 t by (simp add: objs_def)
  moreover have "used_table st' f" using t ae(4) f0 l p by (simp add: used_table_def)
  ultimately have so: "slab_ok st' k f (objs k)" unfolding slab_ok_def using l h t by (simp add: objs_list)
  have "entry st' f 0 = 0" using l e01 t by simp
  moreover have "\<forall>x j. is_table x \<longrightarrow> j < 512 \<longrightarrow> x \<noteq> f \<longrightarrow> entry st' x j = entry st x j" using l e by simp
  moreover have "free_set (pmm st') = free_set (pmm st) - {page_no f}" "page_no f \<in> free_set (pmm st)" using ae(4) f0 l p by auto
  ultimately show "\<exists>f. s = PHYS_TO_VIRT f \<and> page_no f \<in> free_set (pmm st) \<and> free_set (pmm st') = free_set (pmm st) - {page_no f} \<and>
      slab_ok st' k f (objs k) \<and> entry st' f 0 = 0 \<and> vm_ok st' \<and> caches st' = caches st \<and>
      (\<forall>t j. is_table t \<longrightarrow> j < 512 \<longrightarrow> t \<noteq> f \<longrightarrow> entry st' t j = entry st t j)"
    using s so v l cu by (intro exI [of _ f]) simp
qed

section \<open>Allocation\<close>

lemma set_cache_simps [simp]:
  "pmm (set_cache k g st) = pmm st" "vm_ok (set_cache k g st) = vm_ok st" "entry (set_cache k g st) f j = entry st f j"
  "length (caches (set_cache k g st)) = length (caches st)"
  by (simp_all add: set_cache_def vm_ok_def entry_def)

lemma nth_set_cache: "k < length (caches st) \<Longrightarrow> caches (set_cache k g st) ! i = (if i = k then g (caches st ! k) else caches st ! i)"
  by (simp add: set_cache_def nth_list_update)

lemma schain_set_cache [simp]: "schain (set_cache k g st) p fs = schain st p fs"
  by (rule schain_cong) simp

text \<open>The second half of \<open>cache_alloc\<close>: take an object of the first slab of the list.\<close>

definition take_object :: "nat \<Rightarrow> 'a heap_state_scheme \<Rightarrow> 'a heap_state_scheme \<times> u64" where
  "take_object k st =
     (let slab = partial (caches st ! k) in
      case slab_alloc_from slab st of (st, ptr) \<Rightarrow>
      if free_count st slab = 0
      then let st = set_cache k (\<lambda>c. c\<lparr>partial := slab_next st slab\<rparr>) st;
               st = set_next slab (full (caches st ! k)) st;
               st = set_cache k (\<lambda>c. c\<lparr>full := slab\<rparr>) st
           in (st, ptr)
      else (st, ptr))"

lemma cache_alloc_eq:
  "cache_alloc k st =
     (if partial (caches st ! k) = 0
      then case slab_create (c_obj_size (caches st ! k)) st of (st, s) \<Rightarrow>
             if s = 0 then (st, 0) else take_object k (set_cache k (\<lambda>c. c\<lparr>partial := s\<rparr>) st)
      else take_object k st)"
proof (cases "partial (caches st ! k) = 0")
  case True
  obtain u s where "slab_create (c_obj_size (caches st ! k)) st = (u, s)" by fastforce
  then show ?thesis unfolding cache_alloc_def take_object_def if_P [OF True] by (cases "s = 0") simp_all
next
  case False
  then show ?thesis unfolding cache_alloc_def take_object_def by simp
qed

lemma of_nat_slots:
  assumes "m \<le> 512"
  shows "n \<le> 512 \<Longrightarrow> (of_nat m :: u32) = of_nat n \<longleftrightarrow> m = n" and "(of_nat m :: u32) = 0 \<longleftrightarrow> m = 0"
proof -
  have u: "unat (of_nat a :: u32) = a" if "a \<le> 512" for a using that by (simp only: unat_of_nat) simp
  show eq: "(of_nat m :: u32) = of_nat n \<longleftrightarrow> m = n" if "n \<le> 512" for n
  proof
    assume "(of_nat m :: u32) = of_nat n"
    then have "unat (of_nat m :: u32) = unat (of_nat n :: u32)" by (rule arg_cong)
    then show "m = n" unfolding u [OF assms] u [OF that] .
  qed simp
  show "(of_nat m :: u32) = 0 \<longleftrightarrow> m = 0" using eq [of 0] by simp
qed

lemma take_object_effect:
  fixes st :: "'a heap_state_scheme"
  assumes inv: "heap_inv X st own ps fs" and X: "X \<subseteq> {f}" and k: "k < 9" and p: "ps k = f # rest" and o: "own f = Some (k, j # fl)"
    and t: "take_object k st = (st', q)"
  shows "q = oaddr f j"
    and "heap_inv {} st' (own(f \<mapsto> (k, fl))) (ps(k := if fl = [] then rest else f # rest)) (fs(k := if fl = [] then f # fs k else fs k))"
    and "\<forall>x i. is_table x \<longrightarrow> i < 512 \<longrightarrow> x \<noteq> f \<or> 4 \<le> i \<longrightarrow> entry st' x i = entry st x i" and "pmm st' = pmm st"
proof -
  note so = heap_invD(3) [OF inv o] and ok = heap_invD(1,2) [OF inv] and li = heap_invD(4) [OF inv k]
  have f: "is_table f" "used_table st f" using so by (auto simp: slab_ok_def used_table_def)
  have ch: "entry st f 1 = oaddr f j" "fchain st f (entry st f j) fl" "distinct (j # fl)" "set (j # fl) \<subseteq> set (objs k)"
    "lo32 (entry st f 2) = 2 ^ (3 + k)" "hi32 (entry st f 2) = of_nat (Suc (length fl))" "lo32 (entry st f 3) = of_nat (slots k)"
    using so by (auto simp: slab_ok_def)
  have len: "length fl < slots k" using free_slots(1) [OF ch(3,4)] by simp
  have pa: "partial (caches st ! k) = PHYS_TO_VIRT f" "schain st (entry st f 0) rest" "distinct (f # rest)"
    "schain st (full (caches st ! k)) (fs k)" "distinct (fs k)" "c_obj_size (caches st ! k) = 2 ^ (3 + k)"
    "set (fs k) = {g. own g = Some (k, [])}" "set (f # rest) = {g. \<exists>gl. own g = Some (k, gl) \<and> gl \<noteq> []}"
    using li p by (auto simp: lists_ok_def)
  have kj: "kmem st (oaddr f j) = entry st f j" by (simp add: entry_def oaddr_def)
  define c where "c = entry (put f 1 (entry st f j) st) f 2"
  define u where "u = put f 2 (set_hi32 (hi32 c - 1) c) (put f 1 (entry st f j) st)"
  have c: "c = entry st f 2" using f(1) by (simp add: c_def entry_put)
  have al: "slab_alloc_from (PHYS_TO_VIRT f) st = (u, oaddr f j)"
    by (simp add: slab_alloc_from_def slab_fields slab_stores ch(1) kj u_def c_def Let_def del: One_nat_def)
  have eu: "entry u x i = (if x = f then if i = 1 then entry st f j else if i = 2 then set_hi32 (of_nat (length fl)) (entry st f 2) else entry st f i
      else entry st x i)" if "is_table x" "i < 512" for x i
    using that f(1) by (simp add: u_def entry_put c ch(6))
  have fc: "free_count u (PHYS_TO_VIRT f) = 0 \<longleftrightarrow> fl = []"
    using f(1) of_nat_slots(2) [of "length fl"] len class_facts(4) [OF k] by (simp add: slab_fields eu word_halves)
  have cu: "caches u = caches st" "pmm u = pmm st" by (simp_all add: u_def)
  have e0: "entry u f 0 = entry st f 0" using eu [OF f(1), of 0] by simp
  have "take_object k st = (if fl = [] then set_cache k (\<lambda>c. c\<lparr>full := PHYS_TO_VIRT f\<rparr>) (put f 0 (full (caches st ! k))
      (set_cache k (\<lambda>c. c\<lparr>partial := entry st f 0\<rparr>) u)) else u, oaddr f j)"
    unfolding take_object_def Let_def pa(1) al prod.case fc using k ok(2) by (simp add: slab_fields slab_stores e0 nth_set_cache cu)
  then have st': "q = oaddr f j \<and> st' = (if fl = [] then set_cache k (\<lambda>c. c\<lparr>full := PHYS_TO_VIRT f\<rparr>) (put f 0 (full (caches st ! k))
      (set_cache k (\<lambda>c. c\<lparr>partial := entry st f 0\<rparr>) u)) else u)" using t by simp
  then show "q = oaddr f j" by blast
  have e: "entry st' x i = (if x = f \<and> i = 0 \<and> fl = [] then full (caches st ! k) else entry u x i)" if "is_table x" "i < 512" for x i
    using that f(1) st' by (simp add: entry_put)
  have ca: "caches st' ! i = (if i = k \<and> fl = [] then (caches st ! k)\<lparr>partial := entry st f 0, full := PHYS_TO_VIRT f\<rparr> else caches st ! i)" for i
    using st' cu ok(2) k by (simp add: nth_set_cache)
  show fr: "\<forall>x i. is_table x \<longrightarrow> i < 512 \<longrightarrow> x \<noteq> f \<or> 4 \<le> i \<longrightarrow> entry st' x i = entry st x i" using e eu by auto
  show pm: "pmm st' = pmm st" using st' cu by simp
  have "j \<in> set (objs k)" "set fl \<subseteq> set (objs k)" "j \<notin> set fl" using ch(3,4) by auto
  have "fchain st' f (entry st f j) fl = fchain st f (entry st f j) fl"
    by (rule fchain_cong) (use fr f(1) objs_cell [OF k] \<open>set fl \<subseteq> set (objs k)\<close> in blast)
  then have so': "slab_ok st' k f fl"
    using f ch pm e [OF f(1)] eu [OF f(1)] by (simp add: slab_ok_def used_table_def word_halves)
  have sch: "schain st' a gs = schain st a gs" if "\<forall>g \<in> set gs. is_table g \<and> (g \<noteq> f \<or> fl \<noteq> [])" for a gs
    by (rule schain_cong) (use that e eu in auto)
  have tb: "is_table g" if "own g = Some (k, gl)" for g gl using heap_invD(3) [OF inv that] by (simp add: slab_ok_def used_table_def)
  have tr: "is_table g" if "g \<in> set rest" for g
  proof -
    have "g \<in> set (f # rest)" using that by simp
    then obtain gl where "own g = Some (k, gl)" unfolding pa(8) by blast
    then show ?thesis by (rule tb)
  qed
  have tf: "is_table g" if "g \<in> set (fs k)" for g using that tb unfolding pa(7) by blast
  have l: "lists_ok st' (own(f \<mapsto> (k, fl))) k (if fl = [] then rest else f # rest) (if fl = [] then f # fs k else fs k)"
  proof (cases "fl = []")
    case True
    have "schain st' (entry st f 0) rest" using pa(2,3) tr by (subst sch) auto
    moreover have "f \<notin> set (fs k)" using pa(7) o by auto
    moreover have "schain st' (full (caches st ! k)) (fs k)" using pa(4) tf calculation(2) by (subst sch) auto
    moreover have "entry st' f 0 = full (caches st ! k)" using e [OF f(1), of 0] True by simp
    moreover have "set rest = {g. \<exists>gl. (own(f \<mapsto> (k, []))) g = Some (k, gl) \<and> gl \<noteq> []}" using pa(3,8) by auto
    moreover have "insert f (set (fs k)) = {g. (own(f \<mapsto> (k, []))) g = Some (k, [])}" using pa(7) by auto
    ultimately show ?thesis using True pa(3,5,6) by (simp add: lists_ok_def ca)
  next
    case False
    have "schain st' (PHYS_TO_VIRT f) (f # rest)" using pa(2) f(1) tr False by (subst sch) auto
    moreover have "schain st' (full (caches st ! k)) (fs k)" using pa(4) tf False by (subst sch) auto
    moreover have "set (f # rest) = {g. \<exists>gl. (own(f \<mapsto> (k, fl))) g = Some (k, gl) \<and> gl \<noteq> []}" using pa(8) o False by auto
    moreover have "set (fs k) = {g. (own(f \<mapsto> (k, fl))) g = Some (k, [])}" using pa(7) o False by auto
    ultimately show ?thesis using False pa(1,3,5,6) by (simp add: lists_ok_def ca)
  qed
  show "heap_inv {} st' (own(f \<mapsto> (k, fl))) (ps(k := if fl = [] then rest else f # rest)) (fs(k := if fl = [] then f # fs k else fs k))"
  proof (rule heap_inv_step [where X' = "{}" and x = "Some (k, fl)" and f = f, OF inv k _ _ _ _ refl _ _ _ _ l])
    show "vm_ok st'" using ok(1) pm by (simp add: vm_ok_def)
    show "length (caches st') = 10" using st' ok(2) cu by simp
    show "\<forall>i. i \<noteq> k \<longrightarrow> caches st' ! i = caches st ! i" using ca by simp
    show "own f = None \<or> (\<exists>fl. own f = Some (k, fl))" using o by blast
    show "Some (k, fl) = None \<or> (\<exists>fl'. Some (k, fl) = Some (k, fl') \<and> slab_ok st' k f fl' \<and> (f \<in> {} \<or> length fl' < slots k))" using so' len by blast
    show "\<forall>t j. is_table t \<longrightarrow> j < 512 \<longrightarrow> t \<noteq> f \<longrightarrow> j \<noteq> 0 \<or> (\<forall>fl. own t \<noteq> Some (k, fl)) \<longrightarrow> entry st' t j = entry st t j" using fr by blast
    show "\<forall>t. t \<noteq> f \<longrightarrow> own t \<noteq> None \<longrightarrow> used_table st' t"
      using heap_invD(3) [OF inv] pm by (auto simp: slab_ok_def used_table_def)
    show "X \<subseteq> insert f {}" using X by simp
  qed
qed

lemma own_used:
  assumes "heap_inv X st own ps fs" "own f \<noteq> None"
  shows "used_table st f" "is_table f"
proof -
  obtain k fl where "own f = Some (k, fl)" using assms(2) by auto
  then show "used_table st f" "is_table f" using heap_invD(3) [OF assms(1)] by (auto simp: slab_ok_def used_table_def)
qed

lemma new_slab_inv:
  fixes st st1 :: "'a heap_state_scheme"
  assumes inv: "heap_inv {} st own ps fs" and k: "k < 9" and ps: "ps k = []"
    and f: "page_no f \<in> free_set (pmm st)" "free_set (pmm st1) = free_set (pmm st) - {page_no f}" "slab_ok st1 k f (objs k)" "entry st1 f 0 = 0"
    and st1: "vm_ok st1" "caches st1 = caches st" "\<forall>t j. is_table t \<longrightarrow> j < 512 \<longrightarrow> t \<noteq> f \<longrightarrow> entry st1 t j = entry st t j"
    and st2: "st2 = set_cache k (\<lambda>c. c\<lparr>partial := PHYS_TO_VIRT f\<rparr>) st1"
  shows "own f = None" and "heap_inv {f} st2 (own(f \<mapsto> (k, objs k))) (ps(k := [f])) fs"
proof -
  note ok = heap_invD(1,2) [OF inv] and li = heap_invD(4) [OF inv k]
  show no: "own f = None" using own_used(1) [OF inv, of f] f(1) by (cases "own f") (simp_all add: used_table_def)
  have ca: "caches st2 ! i = (if i = k then (caches st ! k)\<lparr>partial := PHYS_TO_VIRT f\<rparr> else caches st ! i)" for i
    using st1(2) ok(2) k by (simp add: st2 nth_set_cache)
  have e2: "entry st2 t j = entry st1 t j" for t j by (simp add: st2)
  have pm: "pmm st2 = pmm st1" by (simp add: st2)
  have ne: "objs k \<noteq> []" using class_facts(2) [OF k] objs_list(1) [of k] by auto
  have so: "slab_ok st2 k f (objs k)" by (rule slab_ok_cong [OF f(3) k]) (use f(3) e2 pm in \<open>simp_all add: slab_ok_def used_table_def\<close>)
  have em: "own g \<noteq> Some (k, gl)" if "gl \<noteq> []" for g gl using li ps that by (auto simp: lists_ok_def)
  have "schain st2 a (fs k) = schain st a (fs k)" for a
  proof (rule schain_cong, rule ballI)
    fix g assume "g \<in> set (fs k)"
    then have g: "own g = Some (k, [])" using li by (auto simp: lists_ok_def)
    then have "is_table g" "g \<noteq> f" using own_used(2) [OF inv, of g] no by auto
    then show "entry st2 g 0 = entry st g 0" using st1(3) e2 by simp
  qed
  moreover have "{f} = {g. \<exists>gl. (own(f \<mapsto> (k, objs k))) g = Some (k, gl) \<and> gl \<noteq> []}" using em ne by auto
  moreover have "{g. own g = Some (k, [])} = {g. (own(f \<mapsto> (k, objs k))) g = Some (k, [])}" using no ne by auto
  ultimately have l: "lists_ok st2 (own(f \<mapsto> (k, objs k))) k [f] (fs k)" using li f(4) e2 by (simp add: lists_ok_def ca)
  have "heap_inv {f} st2 (own(f \<mapsto> (k, objs k))) (ps(k := [f])) (fs(k := fs k))"
  proof (rule heap_inv_step [where x = "Some (k, objs k)" and f = f, OF inv k _ _ _ _ refl _ _ _ _ l])
    show "vm_ok st2" using st1(1) by (simp add: st2)
    show "length (caches st2) = 10" using ok(2) st1(2) by (simp add: st2)
    show "\<forall>i. i \<noteq> k \<longrightarrow> caches st2 ! i = caches st ! i" by (simp add: ca)
    show "\<forall>t j. is_table t \<longrightarrow> j < 512 \<longrightarrow> t \<noteq> f \<longrightarrow> j \<noteq> 0 \<or> (\<forall>fl. own t \<noteq> Some (k, fl)) \<longrightarrow> entry st2 t j = entry st t j" using st1(3) e2 by simp
    show "\<forall>t. t \<noteq> f \<longrightarrow> own t \<noteq> None \<longrightarrow> used_table st2 t" using own_used(1) [OF inv] f(2) pm by (simp add: used_table_def)
  qed (use no so in auto)
  then show "heap_inv {f} st2 (own(f \<mapsto> (k, objs k))) (ps(k := [f])) fs" by simp
qed

text \<open>The number of the frame an address of the window lies in.\<close>

definition frame_of :: "u64 \<Rightarrow> nat" where
  "frame_of a = page_no (VIRT_TO_PHYS a)"

lemma oaddr_nat:
  assumes "is_table f" "j < 512"
  shows "unat (oaddr f j) = unat KERNEL_VMA + 4096 * page_no f + 8 * j" "oaddr f j \<noteq> 0" "frame_of (oaddr f j) = page_no f"
proof -
  have f: "unat f = 4096 * page_no f" "page_no f < 524288" using assms(1) by (auto simp: is_table_def aligned_unat)
  show u: "unat (oaddr f j) = unat KERNEL_VMA + 4096 * page_no f + 8 * j"
    using window_addr [OF assms(1), of "8 * j"] assms(2) f by (simp add: oaddr_def)
  then show "oaddr f j \<noteq> 0" by (auto simp: KERNEL_VMA_def)
  have "KERNEL_VMA \<le> oaddr f j" unfolding word_le_nat_alt u by simp
  then have "unat (VIRT_TO_PHYS (oaddr f j)) = 4096 * page_no f + 8 * j" unfolding VIRT_TO_PHYS_def by (simp add: unat_sub u)
  then show "frame_of (oaddr f j) = page_no f" using assms(2) by (simp add: frame_of_def page_no_def)
qed

text \<open>The outcomes of an allocation: none without a free frame, an object of a slab with room, or the first object of a new slab.\<close>

definition allocated :: "nat \<Rightarrow> 'a heap_state_scheme \<Rightarrow> slab_map \<Rightarrow> 'a heap_state_scheme \<Rightarrow> u64 \<Rightarrow> bool" where
  "allocated k st own st' q \<longleftrightarrow>
     q = 0 \<and> st' = st \<and> free_set (pmm st) = {} \<or>
     (\<exists>f j fl ps' fs'. q \<noteq> 0 \<and> q = oaddr f j \<and> heap_inv {} st' (own(f \<mapsto> (k, fl))) ps' fs' \<and>
       (own f = Some (k, j # fl) \<and> free_set (pmm st') = free_set (pmm st) \<and> (\<forall>i. 4 \<le> i \<longrightarrow> i < 512 \<longrightarrow> entry st' f i = entry st f i) \<or>
        own f = None \<and> objs k = j # fl \<and> page_no f \<in> free_set (pmm st) \<and> free_set (pmm st') = free_set (pmm st) - {page_no f}) \<and>
       (\<forall>x i. is_table x \<longrightarrow> i < 512 \<longrightarrow> x \<noteq> f \<longrightarrow> entry st' x i = entry st x i))"

lemma cache_alloc_effect:
  fixes st :: "'a heap_state_scheme"
  assumes inv: "heap_inv {} st own ps fs" and k: "k < 9" and c: "cache_alloc k st = (st', q)"
  shows "allocated k st own st' q"
proof -
  note ok = heap_invD(1,2) [OF inv] and li = heap_invD(4) [OF inv k]
  have cs: "c_obj_size (caches st ! k) = 2 ^ (3 + k)" "schain st (partial (caches st ! k)) (ps k)" using li by (simp_all add: lists_ok_def)
  have tb: "is_table f" if "f \<in> set (ps k)" for f using that li own_used(2) [OF inv, of f] by (auto simp: lists_ok_def)
  show ?thesis
  proof (cases "partial (caches st ! k) = 0")
    case True
    obtain st1 s where s: "slab_create (2 ^ (3 + k)) st = (st1, s)" by fastforce
    note sc = slab_create_effect [OF ok(1) k s]
    show ?thesis
    proof (cases "s = 0")
      case s0: True
      then show ?thesis using c sc(1) True by (simp add: cache_alloc_eq cs(1) s allocated_def)
    next
      case s0: False
      have p: "ps k = []" using cs(2) True tb phys_to_virt_nonzero by (cases "ps k") auto
      obtain f where f: "s = PHYS_TO_VIRT f" "page_no f \<in> free_set (pmm st)" "free_set (pmm st1) = free_set (pmm st) - {page_no f}"
        "slab_ok st1 k f (objs k)" "entry st1 f 0 = 0" "vm_ok st1" "caches st1 = caches st"
        "\<forall>t j. is_table t \<longrightarrow> j < 512 \<longrightarrow> t \<noteq> f \<longrightarrow> entry st1 t j = entry st t j" using sc(2) [OF s0] by blast
      define st2 where "st2 = set_cache k (\<lambda>c. c\<lparr>partial := PHYS_TO_VIRT f\<rparr>) st1"
      note n = new_slab_inv [OF inv k p f(2-8) st2_def]
      have "length (objs k) > 0" using class_facts(2) [OF k] by (simp add: objs_list)
      then obtain j fl where jf: "objs k = j # fl" by (cases "objs k") auto
      have t: "take_object k st2 = (st', q)" using c s0 True by (simp add: cache_alloc_eq cs(1) s f(1) st2_def)
      have o: "(own(f \<mapsto> (k, objs k))) f = Some (k, j # fl)" by (simp add: jf)
      have p1: "(ps(k := [f])) k = [f]" by simp
      note e = take_object_effect [OF n(2) subset_refl k p1 o t]
      note i = e(2) [unfolded fun_upd_upd]
      have "\<forall>x i. is_table x \<longrightarrow> i < 512 \<longrightarrow> x \<noteq> f \<longrightarrow> entry st' x i = entry st x i" using e(3) f(8) by (simp add: st2_def)
      moreover have "pmm st' = pmm st1" using e(4) by (simp add: st2_def)
      moreover have "q \<noteq> 0" unfolding e(1) by (rule oaddr_nat(2)) (use f(4) objs_cell [OF k, of j] jf in \<open>simp_all add: slab_ok_def used_table_def\<close>)
      ultimately show ?thesis unfolding allocated_def using i e(1) n(1) jf f(2,3) by (intro disjI2 exI conjI) auto
    qed
  next
    case False
    then obtain f rest where p: "ps k = f # rest" using cs(2) by (cases "ps k") auto
    then have "f \<in> {f. \<exists>fl. own f = Some (k, fl) \<and> fl \<noteq> []}" using li by (auto simp: lists_ok_def)
    then obtain j fl where o: "own f = Some (k, j # fl)" by (auto simp: neq_Nil_conv)
    have t: "take_object k st = (st', q)" using c False by (simp add: cache_alloc_eq)
    note e = take_object_effect [OF inv _ k p o t]
    have "(\<forall>i. 4 \<le> i \<longrightarrow> i < 512 \<longrightarrow> entry st' f i = entry st f i)" "free_set (pmm st') = free_set (pmm st)"
      "\<forall>x i. is_table x \<longrightarrow> i < 512 \<longrightarrow> x \<noteq> f \<longrightarrow> entry st' x i = entry st x i" using e(3,4) [OF empty_subsetI] o own_used(2) [OF inv, of f] by simp_all
    moreover have "q \<noteq> 0" unfolding e(1) [OF empty_subsetI]
      by (rule oaddr_nat(2)) (use heap_invD(3) [OF inv o] objs_cell [OF k, of j] in \<open>simp_all add: slab_ok_def used_table_def\<close>)
    ultimately show ?thesis unfolding allocated_def using e(1,2) [OF empty_subsetI] o by blast
  qed
qed

section \<open>Release\<close>

lemma ptv_inj: "PHYS_TO_VIRT f = PHYS_TO_VIRT g \<longleftrightarrow> f = g"
  by (simp add: PHYS_TO_VIRT_def)

lemma find_link_schain:
  assumes "schain st (deref p st) (xs @ f # ys)" "f \<notin> set xs" "\<forall>g \<in> set (xs @ [f]). is_table g"
  shows "find_link (PHYS_TO_VIRT f) p st = Some (if xs = [] then p else Next_of (PHYS_TO_VIRT (last xs)))"
  using assms
proof (induction xs arbitrary: p)
  case Nil
  then show ?case by (subst find_link.simps) simp
next
  case (Cons g xs)
  then have d: "deref p st = PHYS_TO_VIRT g" "PHYS_TO_VIRT g \<noteq> 0" "PHYS_TO_VIRT g \<noteq> PHYS_TO_VIRT f" "schain st (entry st g 0) (xs @ f # ys)"
    using phys_to_virt_nonzero [of g] by (auto simp: ptv_inj)
  then have "find_link (PHYS_TO_VIRT f) (Next_of (PHYS_TO_VIRT g)) st =
      Some (if xs = [] then Next_of (PHYS_TO_VIRT g) else Next_of (PHYS_TO_VIRT (last xs)))"
    using Cons.IH [of "Next_of (PHYS_TO_VIRT g)"] Cons.prems by (simp add: slab_fields)
  then show ?case using d by (subst find_link.simps) simp
qed

lemma schain_relink:
  fixes st :: "'a heap_state_scheme"
  assumes "schain st p (us @ l # f # ys)" "distinct (us @ l # f # ys)" "\<forall>g \<in> set (us @ l # f # ys). is_table g"
  shows "schain (put l 0 (entry st f 0) st) p (us @ l # ys)"
  using assms
proof (induction us arbitrary: p)
  case Nil
  have "schain (put l 0 (entry st f 0) st) a ys = schain st a ys" for a
    by (rule schain_cong) (use Nil in \<open>auto simp: entry_put\<close>)
  then show ?case using Nil by (simp add: entry_put)
next
  case (Cons u us)
  then show ?case by (simp add: entry_put)
qed

lemma unlink_slab_effect:
  fixes st :: "'a heap_state_scheme"
  assumes c: "schain st (deref h st) (xs @ f # ys)" "distinct (xs @ f # ys)" "\<forall>g \<in> set (xs @ f # ys). is_table g"
    and h: "h = Partial_head k \<or> h = Full_head k" "k < length (caches st)"
  shows "\<exists>st'. unlink_slab (PHYS_TO_VIRT f) h st = Some st' \<and> schain st' (deref h st') (xs @ ys) \<and>
    (\<forall>t i. is_table t \<longrightarrow> i < 512 \<longrightarrow> i \<noteq> 0 \<or> t \<notin> set xs \<longrightarrow> entry st' t i = entry st t i) \<and> pmm st' = pmm st \<and>
    length (caches st') = length (caches st) \<and> (\<forall>i. i \<noteq> k \<longrightarrow> caches st' ! i = caches st ! i) \<and>
    c_obj_size (caches st' ! k) = c_obj_size (caches st ! k) \<and>
    (h = Partial_head k \<longrightarrow> full (caches st' ! k) = full (caches st ! k)) \<and> (h = Full_head k \<longrightarrow> partial (caches st' ! k) = partial (caches st ! k))"
proof (cases xs rule: rev_cases)
  case Nil
  have p: "deref h st = PHYS_TO_VIRT f" "schain st (entry st f 0) ys" "PHYS_TO_VIRT f \<noteq> 0" using c Nil phys_to_virt_nonzero [of f] by auto
  have fl: "find_link (PHYS_TO_VIRT f) h st = Some h" using find_link_schain [of st h "[]" f ys] c Nil by simp
  have un: "unlink_slab (PHYS_TO_VIRT f) h st = Some (store_link h (entry st f 0) st)"
    using p fl by (simp add: unlink_slab_def slab_fields)
  from h(1) show ?thesis
  proof
    assume "h = Partial_head k"
    then show ?thesis using un p h(2) Nil by (simp add: nth_set_cache)
  next
    assume "h = Full_head k"
    then show ?thesis using un p h(2) Nil by (simp add: nth_set_cache)
  qed
next
  case (snoc us l)
  have t: "is_table l" "is_table f" "l \<noteq> f" using c(2,3) snoc by auto
  have "schain st a (us @ l # f # ys) \<Longrightarrow> entry st l 0 = PHYS_TO_VIRT f" for a by (induction us arbitrary: a) auto
  then have e: "entry st l 0 = PHYS_TO_VIRT f" using c(1) snoc by simp
  have "find_link (PHYS_TO_VIRT f) h st = Some (Next_of (PHYS_TO_VIRT l))"
    using find_link_schain [OF c(1)] c(2,3) snoc by auto
  then have un: "unlink_slab (PHYS_TO_VIRT f) h st = Some (put l 0 (entry st f 0) st)"
    using e phys_to_virt_nonzero [OF t(2)] by (simp add: unlink_slab_def slab_fields slab_stores)
  have "schain (put l 0 (entry st f 0) st) (deref h st) (xs @ ys)" using schain_relink [of st "deref h st" us l f ys] c snoc by simp
  moreover have "deref h (put l 0 (entry st f 0) st) = deref h st" using h(1) by auto
  ultimately show ?thesis using un t(1) snoc by (auto simp: entry_put)
qed

text \<open>The first half of \<open>cache_free\<close>: put the object on the free list and a full slab on the list of slabs with room.\<close>

definition give_object :: "nat \<Rightarrow> u64 \<Rightarrow> u64 \<Rightarrow> 'a heap_state_scheme \<Rightarrow> 'a heap_state_scheme option" where
  "give_object k slab ptr st =
     (let was_full = (free_count st slab = 0);
          st = wr ptr (freelist st slab) st;
          st = set_freelist slab ptr st;
          st = set_free_count slab (free_count st slab + 1) st
      in if was_full
         then map_option (\<lambda>st.
                let st = set_next slab (partial (caches st ! k)) st
                in set_cache k (\<lambda>c. c\<lparr>partial := slab\<rparr>) st) (unlink_slab slab (Full_head k) st)
         else Some st)"

lemma cache_free_eq:
  "cache_free k ptr st =
     (case give_object k (slab_of ptr) ptr st of None \<Rightarrow> None
      | Some st \<Rightarrow>
          if free_count st (slab_of ptr) = slab_total st (slab_of ptr)
          then map_option (free_frame (VIRT_TO_PHYS (slab_of ptr))) (unlink_slab (slab_of ptr) (Partial_head k) st)
          else Some st)"
  unfolding cache_free_def give_object_def Let_def by (rule refl)

lemma give_object_effect:
  fixes st :: "'a heap_state_scheme"
  assumes inv: "heap_inv {} st own ps fs" and o: "own f = Some (k, fl)" and j: "j \<in> set (objs k)" "j \<notin> set fl"
  shows "\<exists>v fs'. give_object k (PHYS_TO_VIRT f) (oaddr f j) st = Some v \<and>
    heap_inv {f} v (own(f \<mapsto> (k, j # fl))) (ps(k := if fl = [] then f # ps k else ps k)) (fs(k := fs')) \<and> pmm v = pmm st \<and>
    (\<forall>t i. is_table t \<longrightarrow> i < 512 \<longrightarrow> own t = None \<or> 4 \<le> i \<and> (t \<noteq> f \<or> i \<noteq> j) \<longrightarrow> entry v t i = entry st t i)"
proof -
  note so = heap_invD(3) [OF inv o] and ok = heap_invD(1,2) [OF inv]
  have k: "k < 9" using so by simp
  note li = heap_invD(4) [OF inv k]
  have f: "is_table f" "used_table st f" using so by (auto simp: slab_ok_def used_table_def)
  have ch: "fchain st f (entry st f 1) fl" "distinct fl" "set fl \<subseteq> set (objs k)" "lo32 (entry st f 2) = 2 ^ (3 + k)"
    "hi32 (entry st f 2) = of_nat (length fl)" "lo32 (entry st f 3) = of_nat (slots k)" using so by (auto simp: slab_ok_def)
  have pa: "schain st (partial (caches st ! k)) (ps k)" "schain st (full (caches st ! k)) (fs k)" "distinct (ps k)" "distinct (fs k)"
    "c_obj_size (caches st ! k) = 2 ^ (3 + k)" "set (ps k) = {g. \<exists>gl. own g = Some (k, gl) \<and> gl \<noteq> []}" "set (fs k) = {g. own g = Some (k, [])}"
    using li by (simp_all add: lists_ok_def)
  have jc: "4 \<le> j" "j < 512" using objs_cell [OF k j(1)] by simp_all
  define w where "w = put f 1 (oaddr f j) (put f j (entry st f 1) st)"
  define u where "u = put f 2 (set_hi32 (of_nat (Suc (length fl))) (entry st f 2)) w"
  have eu: "entry u x i = (if x = f then if i = 2 then set_hi32 (of_nat (Suc (length fl))) (entry st f 2) else if i = 1 then oaddr f j
      else if i = j then entry st f 1 else entry st f i else entry st x i)" if "is_table x" "i < 512" for x i
    using that f(1) jc by (simp add: u_def w_def entry_put)
  have cu: "caches u = caches st" "pmm u = pmm st" by (simp_all add: u_def w_def)
  have len: "length fl \<le> 512" using free_slots(1) [OF ch(2,3)] class_facts(4) [OF k] by simp
  have z: "free_count st (PHYS_TO_VIRT f) = 0 \<longleftrightarrow> fl = []" using of_nat_slots(2) [OF len] by (simp add: slab_fields ch(5))
  have "wr (oaddr f j) (freelist st (PHYS_TO_VIRT f)) st = put f j (entry st f 1) st" by (simp add: put_def slab_fields)
  moreover have ew: "entry w f 2 = entry st f 2" using f(1) jc by (simp add: w_def entry_put)
  then have "set_free_count (PHYS_TO_VIRT f) (free_count w (PHYS_TO_VIRT f) + 1) w = u"
    using ch(5) by (simp add: slab_fields slab_stores u_def add.commute)
  ultimately have go: "give_object k (PHYS_TO_VIRT f) (oaddr f j) st =
    (if fl = [] then map_option (\<lambda>st. set_cache k (\<lambda>c. c\<lparr>partial := PHYS_TO_VIRT f\<rparr>) (put f 0 (partial (caches st ! k)) st))
       (unlink_slab (PHYS_TO_VIRT f) (Full_head k) u) else Some u)"
    unfolding give_object_def Let_def z by (simp add: slab_stores w_def [symmetric] del: One_nat_def)
  have tb: "is_table g" if "own g = Some (k, gl)" for g gl using own_used(2) [OF inv, of g] that by simp
  have "\<exists>v fs'. give_object k (PHYS_TO_VIRT f) (oaddr f j) st = Some v \<and> lists_ok v (own(f \<mapsto> (k, j # fl))) k (if fl = [] then f # ps k else ps k) fs' \<and>
      pmm v = pmm st \<and> length (caches v) = 10 \<and> (\<forall>i. i \<noteq> k \<longrightarrow> caches v ! i = caches st ! i) \<and>
      (\<forall>t i. is_table t \<longrightarrow> i < 512 \<longrightarrow> i \<noteq> 0 \<or> own t \<noteq> Some (k, []) \<longrightarrow> entry v t i = entry u t i)"
  proof (cases "fl = []")
    case True
    have "f \<in> set (fs k)" using pa(7) o True by simp
    then obtain xs ys where xy: "fs k = xs @ f # ys" by (auto simp: in_set_conv_decomp)
    have xo: "own g = Some (k, [])" if "g \<in> set xs" for g
    proof -
      have "g \<in> set (fs k)" using that xy by simp
      then show ?thesis unfolding pa(7) by simp
    qed
    have tf: "\<forall>g \<in> set (xs @ f # ys). is_table g" using pa(7) tb xy by auto
    have "schain u a (fs k) = schain st a (fs k)" for a by (rule schain_cong) (use eu tf jc xy in auto)
    then have su: "schain u (deref (Full_head k) u) (xs @ f # ys)" using pa(2) by (simp add: cu xy)
    have du: "distinct (xs @ f # ys)" using pa(4) xy by simp
    have kl: "k < length (caches u)" using ok(2) cu k by simp
    obtain x where x: "unlink_slab (PHYS_TO_VIRT f) (Full_head k) u = Some x" "schain x (deref (Full_head k) x) (xs @ ys)"
      "\<forall>t i. is_table t \<longrightarrow> i < 512 \<longrightarrow> i \<noteq> 0 \<or> t \<notin> set xs \<longrightarrow> entry x t i = entry u t i" "pmm x = pmm u"
      "length (caches x) = length (caches u)" "\<forall>i. i \<noteq> k \<longrightarrow> caches x ! i = caches u ! i"
      "c_obj_size (caches x ! k) = c_obj_size (caches u ! k)" "partial (caches x ! k) = partial (caches u ! k)"
      using unlink_slab_effect [OF su du tf disjI2 [OF refl] kl] by blast
    define v where "v = set_cache k (\<lambda>c. c\<lparr>partial := PHYS_TO_VIRT f\<rparr>) (put f 0 (partial (caches x ! k)) x)"
    have ev: "entry v t i = (if t = f \<and> i = 0 then partial (caches st ! k) else entry x t i)" if "is_table t" "i < 512" for t i
      using that f(1) x(8) cu by (simp add: v_def entry_put)
    have cv: "caches v ! i = (if i = k then (caches x ! k)\<lparr>partial := PHYS_TO_VIRT f\<rparr> else caches st ! i)" for i
      using kl x(5,6) cu by (simp add: v_def nth_set_cache)
    have 1: "schain v (partial (caches st ! k)) (ps k)"
    proof -
      have "entry v g 0 = entry st g 0" if gp: "g \<in> set (ps k)" for g
      proof -
        obtain gl where g: "own g = Some (k, gl)" "gl \<noteq> []" using gp unfolding pa(6) by blast
        then have "g \<noteq> f" "g \<notin> set xs" "is_table g" using o True xo [of g] tb by auto
        then show ?thesis using ev [of g 0] x(3) eu [of g 0] by simp
      qed
      then show ?thesis using pa(1) schain_cong [of "ps k" v st] by simp
    qed
    have 2: "schain v (full (caches v ! k)) (xs @ ys)"
    proof -
      have "schain v a (xs @ ys) = schain x a (xs @ ys)" for a by (rule schain_cong) (use ev tf du in auto)
      then show ?thesis using x(2) by (simp add: cv)
    qed
    have 3: "set (f # ps k) = {g. \<exists>gl. (own(f \<mapsto> (k, j # fl))) g = Some (k, gl) \<and> gl \<noteq> []}" using pa(6) by auto
    have 4: "set (xs @ ys) = {g. (own(f \<mapsto> (k, j # fl))) g = Some (k, [])}"
    proof -
      have "set (xs @ ys) = set (fs k) - {f}" using du xy by auto
      then show ?thesis using pa(7) by auto
    qed
    have "f \<notin> set (ps k)" using pa(6) o True by auto
    then have "lists_ok v (own(f \<mapsto> (k, j # fl))) k (f # ps k) (xs @ ys)"
      unfolding lists_ok_def using 1 2 3 4 pa(3,5) du ev [OF f(1), of 0] x(7) cu by (simp add: cv)
    moreover have "\<forall>t i. is_table t \<longrightarrow> i < 512 \<longrightarrow> i \<noteq> 0 \<or> own t \<noteq> Some (k, []) \<longrightarrow> entry v t i = entry u t i"
    proof (intro allI impI)
      fix t and i :: nat assume t: "is_table t" "i < 512" "i \<noteq> 0 \<or> own t \<noteq> Some (k, [])"
      then have "i \<noteq> 0 \<or> t \<notin> set xs" "i \<noteq> 0 \<or> t \<noteq> f" using xo [of t] o True by auto
      then show "entry v t i = entry u t i" using ev [OF t(1,2)] x(3) t(1,2) by auto
    qed
    moreover have "give_object k (PHYS_TO_VIRT f) (oaddr f j) st = Some v" by (simp add: go True x(1) v_def)
    moreover have "pmm v = pmm st" "length (caches v) = 10" using x(4,5) cu ok(2) by (simp_all add: v_def)
    ultimately show ?thesis using cv True by auto
  next
    case False
    have sc: "schain u a gs = schain st a gs" if "\<forall>g \<in> set gs. is_table g" for a gs by (rule schain_cong) (use eu that jc in auto)
    have "\<forall>g \<in> set (ps k). is_table g" "\<forall>g \<in> set (fs k). is_table g" unfolding pa(6,7) using tb by blast+
    then have "schain u (partial (caches st ! k)) (ps k)" "schain u (full (caches st ! k)) (fs k)" using pa(1,2) by (simp_all add: sc)
    moreover have "set (ps k) = {g. \<exists>gl. (own(f \<mapsto> (k, j # fl))) g = Some (k, gl) \<and> gl \<noteq> []}" using pa(6) o False by auto
    moreover have "set (fs k) = {g. (own(f \<mapsto> (k, j # fl))) g = Some (k, [])}" using pa(7) o False by auto
    ultimately have "lists_ok u (own(f \<mapsto> (k, j # fl))) k (ps k) (fs k)" unfolding lists_ok_def using pa(3-5) cu by simp
    then show ?thesis using go False cu ok(2) by auto
  qed
  then obtain v fs' where v: "give_object k (PHYS_TO_VIRT f) (oaddr f j) st = Some v"
      "lists_ok v (own(f \<mapsto> (k, j # fl))) k (if fl = [] then f # ps k else ps k) fs'" "pmm v = pmm st" "length (caches v) = 10"
      "\<forall>i. i \<noteq> k \<longrightarrow> caches v ! i = caches st ! i"
      and ev: "\<forall>t i. is_table t \<longrightarrow> i < 512 \<longrightarrow> i \<noteq> 0 \<or> own t \<noteq> Some (k, []) \<longrightarrow> entry v t i = entry u t i" by blast
  have e: "entry v f i = entry u f i" if "i < 512" "i \<noteq> 0" for i using ev f(1) that by blast
  have "fchain v f (entry st f 1) fl = fchain st f (entry st f 1) fl"
  proof (rule fchain_cong, rule ballI)
    fix i assume "i \<in> set fl"
    then have "4 \<le> i" "i < 512" "i \<noteq> j" using objs_cell [OF k, of i] ch(3) j(2) by auto
    then show "entry v f i = entry st f i" using e [of i] eu [OF f(1), of i] by simp
  qed
  then have "slab_ok v k f (j # fl)"
    unfolding slab_ok_def using f ch j jc e eu [OF f(1)] v(3) by (simp add: used_table_def word_halves)
  then have so': "Some (k, j # fl) = None \<or> (\<exists>fl'. Some (k, j # fl) = Some (k, fl') \<and> slab_ok v k f fl' \<and> (f \<in> {f} \<or> length fl' < slots k))" by blast
  have en: "\<forall>t i. is_table t \<longrightarrow> i < 512 \<longrightarrow> t \<noteq> f \<longrightarrow> i \<noteq> 0 \<or> (\<forall>fl. own t \<noteq> Some (k, fl)) \<longrightarrow> entry v t i = entry st t i"
    using ev eu by simp
  have vm: "vm_ok v" using ok(1) v(3) by (simp add: vm_ok_def)
  have us: "\<forall>t. t \<noteq> f \<longrightarrow> own t \<noteq> None \<longrightarrow> used_table v t" using own_used(1) [OF inv] v(3) by (simp add: used_table_def)
  have "heap_inv {f} v (own(f \<mapsto> (k, j # fl))) (ps(k := if fl = [] then f # ps k else ps k)) (fs(k := fs'))"
    by (rule heap_inv_step [OF inv k vm v(4,5) _ refl so' en us _ v(2)]) (use o in auto)
  moreover have "\<forall>t i. is_table t \<longrightarrow> i < 512 \<longrightarrow> own t = None \<or> 4 \<le> i \<and> (t \<noteq> f \<or> i \<noteq> j) \<longrightarrow> entry v t i = entry st t i"
  proof (intro allI impI)
    fix t and i :: nat assume t: "is_table t" "i < 512" "own t = None \<or> 4 \<le> i \<and> (t \<noteq> f \<or> i \<noteq> j)"
    show "entry v t i = entry st t i"
    proof (cases "own t = None")
      case True
      then show ?thesis using ev t(1,2) eu [OF t(1,2)] o by auto
    next
      case False
      then show ?thesis using ev t eu [OF t(1,2)] by auto
    qed
  qed
  ultimately show ?thesis using v(1,3) by blast
qed

text \<open>The second half: a slab without live objects goes back to the frame allocator.\<close>

lemma release_slab:
  fixes v :: "'a heap_state_scheme"
  assumes inv: "heap_inv {f} v own ps fs" and o: "own f = Some (k, gl)" "gl \<noteq> []"
  shows "\<exists>w ps'. unlink_slab (PHYS_TO_VIRT f) (Partial_head k) v = Some w \<and> heap_inv {} (free_frame f w) (own(f := None)) (ps(k := ps')) fs \<and>
    free_set (pmm (free_frame f w)) = insert (page_no f) (free_set (pmm v)) \<and>
    (\<forall>t i. is_table t \<longrightarrow> i < 512 \<longrightarrow> own t = None \<or> i \<noteq> 0 \<longrightarrow> entry (free_frame f w) t i = entry v t i)"
proof -
  note ok = heap_invD(1,2) [OF inv]
  have k: "k < 9" using heap_invD(3) [OF inv o(1)] by simp
  note li = heap_invD(4) [OF inv k]
  have pa: "schain v (partial (caches v ! k)) (ps k)" "schain v (full (caches v ! k)) (fs k)" "distinct (ps k)" "distinct (fs k)"
    "c_obj_size (caches v ! k) = 2 ^ (3 + k)" "set (ps k) = {g. \<exists>gl. own g = Some (k, gl) \<and> gl \<noteq> []}" "set (fs k) = {g. own g = Some (k, [])}"
    using li by (simp_all add: lists_ok_def)
  have "f \<in> set (ps k)" unfolding pa(6) using o by blast
  then obtain xs ys where xy: "ps k = xs @ f # ys" by (auto simp: in_set_conv_decomp)
  have po: "\<exists>gl. own g = Some (k, gl) \<and> gl \<noteq> []" if "g \<in> set (xs @ f # ys)" for g
    using that unfolding xy [symmetric] pa(6) by blast
  have tf: "\<forall>g \<in> set (xs @ f # ys). is_table g" using po own_used(2) [OF inv] by blast
  have du: "distinct (xs @ f # ys)" using pa(3) xy by simp
  have sv: "schain v (deref (Partial_head k) v) (xs @ f # ys)" using pa(1) xy by simp
  have kl: "k < length (caches v)" using ok(2) k by simp
  obtain w where w: "unlink_slab (PHYS_TO_VIRT f) (Partial_head k) v = Some w" "schain w (deref (Partial_head k) w) (xs @ ys)"
    "\<forall>t i. is_table t \<longrightarrow> i < 512 \<longrightarrow> i \<noteq> 0 \<or> t \<notin> set xs \<longrightarrow> entry w t i = entry v t i" "pmm w = pmm v"
    "length (caches w) = length (caches v)" "\<forall>i. i \<noteq> k \<longrightarrow> caches w ! i = caches v ! i"
    "c_obj_size (caches w ! k) = c_obj_size (caches v ! k)" "full (caches w ! k) = full (caches v ! k)"
    using unlink_slab_effect [OF sv du tf disjI1 [OF refl] kl] by blast
  have uf: "used_table w f" "vm_ok w" using own_used(1) [OF inv, of f] o(1) ok(1) w(4) by (simp_all add: used_table_def vm_ok_def)
  note fe = free_frame_effect [OF uf(2,1)]
  let ?x = "free_frame f w"
  have cx: "caches ?x = caches w" by (simp add: free_frame_def)
  have ex: "entry ?x t i = entry v t i" if "is_table t" "i < 512" "own t = None \<or> i \<noteq> 0" for t i
  proof -
    have "i \<noteq> 0 \<or> t \<notin> set xs" using po [of t] that(3) by auto
    then show ?thesis unfolding fe(3) by (rule w(3) [rule_format, OF that(1,2)])
  qed
  have sx: "schain ?x a gs = schain w a gs" for a gs by (rule schain_cong) (simp add: fe(3))
  have "schain w a (fs k) = schain v a (fs k)" for a
  proof (rule schain_cong, rule ballI)
    fix g assume "g \<in> set (fs k)"
    then have "own g = Some (k, [])" unfolding pa(7) by simp
    then have "is_table g" "g \<notin> set xs" using own_used(2) [OF inv, of g] po [of g] by auto
    then show "entry w g 0 = entry v g 0" using w(3) by simp
  qed
  then have "schain ?x (full (caches ?x ! k)) (fs k)" using pa(2) w(8) by (simp add: sx cx)
  moreover have "schain ?x (partial (caches ?x ! k)) (xs @ ys)" using w(2) by (simp add: sx cx)
  moreover have "set (xs @ ys) = {g. \<exists>gl. (own(f := None)) g = Some (k, gl) \<and> gl \<noteq> []}"
  proof -
    have "set (xs @ ys) = set (ps k) - {f}" using du xy by auto
    then show ?thesis unfolding pa(6) by auto
  qed
  moreover have "set (fs k) = {g. (own(f := None)) g = Some (k, [])}" unfolding pa(7) using o by auto
  ultimately have l: "lists_ok ?x (own(f := None)) k (xs @ ys) (fs k)" unfolding lists_ok_def using pa(4,5) du w(7) by (simp add: cx)
  have us: "\<forall>t. t \<noteq> f \<longrightarrow> own t \<noteq> None \<longrightarrow> used_table ?x t"
    using own_used(1) [OF inv] w(4) fe(4) by (simp add: used_table_def)
  have "heap_inv {} ?x (own(f := None)) (ps(k := xs @ ys)) (fs(k := fs k))"
  proof (rule heap_inv_step [where f = f and x = None, OF inv k fe(1) _ _ _ refl _ _ us _ l])
    show "\<forall>t i. is_table t \<longrightarrow> i < 512 \<longrightarrow> t \<noteq> f \<longrightarrow> i \<noteq> 0 \<or> (\<forall>fl. own t \<noteq> Some (k, fl)) \<longrightarrow> entry ?x t i = entry v t i"
    proof (intro allI impI)
      fix t and i :: nat assume t: "is_table t" "i < 512" "i \<noteq> 0 \<or> (\<forall>fl. own t \<noteq> Some (k, fl))"
      then have "i \<noteq> 0 \<or> t \<notin> set xs" using po [of t] by auto
      then show "entry ?x t i = entry v t i" unfolding fe(3) by (rule w(3) [rule_format, OF t(1,2)])
    qed
  qed (use ok(2) w(5,6) o cx in auto)
  then have "heap_inv {} ?x (own(f := None)) (ps(k := xs @ ys)) fs" by simp
  then show ?thesis using w(1) ex fe(2) w(4) by auto
qed

lemma slab_of_oaddr: "is_table f \<Longrightarrow> j < 512 \<Longrightarrow> slab_of (oaddr f j) = PHYS_TO_VIRT f"
proof -
  assume f: "is_table f" and j: "j < 512"
  have m: "SLAB_SIZE - 1 = (mask 12 :: u64)" by (simp add: mask_eq_exp_minus_1)
  have "unat KERNEL_VMA = 4096 * 4503599626846208" by (simp add: KERNEL_VMA_def)
  then have "(unat KERNEL_VMA + 4096 * page_no f + 8 * j) mod 4096 = 8 * j" using j by (simp add: mod_add_eq [symmetric])
  then have "unat (slab_of (oaddr f j)) = unat KERNEL_VMA + 4096 * page_no f"
    unfolding slab_of_def unat_and_not m unat_and_mask oaddr_nat(1) [OF f j] by simp
  also have "\<dots> = unat (PHYS_TO_VIRT f)" using oaddr_nat(1) [OF f, of 0] by (simp add: oaddr_def)
  finally show ?thesis by (simp add: word_unat_eq_iff)
qed

lemma cache_free_effect:
  fixes st :: "'a heap_state_scheme"
  assumes inv: "heap_inv {} st own ps fs" and o: "own f = Some (k, fl)" and j: "j \<in> set (objs k)" "j \<notin> set fl"
  shows "\<exists>st' ps' fs'. cache_free k (oaddr f j) st = Some st' \<and>
    heap_inv {} st' (own(f := if Suc (length fl) = slots k then None else Some (k, j # fl))) ps' fs' \<and>
    free_set (pmm st') = (if Suc (length fl) = slots k then insert (page_no f) (free_set (pmm st)) else free_set (pmm st)) \<and>
    (\<forall>t i. is_table t \<longrightarrow> i < 512 \<longrightarrow> own t = None \<or> 4 \<le> i \<and> (t \<noteq> f \<or> i \<noteq> j) \<longrightarrow> entry st' t i = entry st t i)"
proof -
  have k: "k < 9" and f: "is_table f" using heap_invD(3) [OF inv o] own_used(2) [OF inv, of f] o by auto
  have so: "slab_of (oaddr f j) = PHYS_TO_VIRT f" using slab_of_oaddr f objs_cell [OF k j(1)] by simp
  have vp: "VIRT_TO_PHYS (PHYS_TO_VIRT f) = f" by (simp add: VIRT_TO_PHYS_def PHYS_TO_VIRT_def)
  obtain v fs' where v: "give_object k (PHYS_TO_VIRT f) (oaddr f j) st = Some v"
    "heap_inv {f} v (own(f \<mapsto> (k, j # fl))) (ps(k := if fl = [] then f # ps k else ps k)) (fs(k := fs'))" "pmm v = pmm st"
    "\<forall>t i. is_table t \<longrightarrow> i < 512 \<longrightarrow> own t = None \<or> 4 \<le> i \<and> (t \<noteq> f \<or> i \<noteq> j) \<longrightarrow> entry v t i = entry st t i"
    using give_object_effect [OF inv o j] by blast
  have o': "(own(f \<mapsto> (k, j # fl))) f = Some (k, j # fl)" by simp
  have sl: "slab_ok v k f (j # fl)" using heap_invD(3) [OF v(2) o'] by simp
  have le: "Suc (length fl) \<le> slots k" "slots k \<le> 512" using sl free_slots(1) [of "j # fl" k] class_facts(4) [OF k] by (auto simp: slab_ok_def)
  have fc: "free_count v (PHYS_TO_VIRT f) = slab_total v (PHYS_TO_VIRT f) \<longleftrightarrow> Suc (length fl) = slots k"
    using sl of_nat_slots(1) [of "Suc (length fl)" "slots k"] le by (simp add: slab_fields slab_ok_def del: of_nat_Suc)
  show ?thesis
  proof (cases "Suc (length fl) = slots k")
    case True
    obtain w ps' where w: "unlink_slab (PHYS_TO_VIRT f) (Partial_head k) v = Some w"
      "heap_inv {} (free_frame f w) ((own(f \<mapsto> (k, j # fl)))(f := None)) ((ps(k := if fl = [] then f # ps k else ps k))(k := ps')) (fs(k := fs'))"
      "free_set (pmm (free_frame f w)) = insert (page_no f) (free_set (pmm v))"
      "\<forall>t i. is_table t \<longrightarrow> i < 512 \<longrightarrow> (own(f \<mapsto> (k, j # fl))) t = None \<or> i \<noteq> 0 \<longrightarrow> entry (free_frame f w) t i = entry v t i"
      using release_slab [OF v(2) o'] by blast
    have "cache_free k (oaddr f j) st = Some (free_frame f w)" by (simp add: cache_free_eq so v(1) fc True w(1) vp)
    moreover have "\<forall>t i. is_table t \<longrightarrow> i < 512 \<longrightarrow> own t = None \<or> 4 \<le> i \<and> (t \<noteq> f \<or> i \<noteq> j) \<longrightarrow> entry (free_frame f w) t i = entry st t i"
    proof (intro allI impI)
      fix t and i :: nat assume t: "is_table t" "i < 512" "own t = None \<or> 4 \<le> i \<and> (t \<noteq> f \<or> i \<noteq> j)"
      have "entry (free_frame f w) t i = entry v t i" by (rule w(4) [rule_format, OF t(1,2)]) (use t(3) o in auto)
      also have "\<dots> = entry st t i" by (rule v(4) [rule_format, OF t])
      finally show "entry (free_frame f w) t i = entry st t i" .
    qed
    ultimately show ?thesis using w(2,3) v(3) True unfolding fun_upd_upd by auto
  next
    case False
    then have "cache_free k (oaddr f j) st = Some v" by (simp add: cache_free_eq so v(1) fc)
    moreover have "length (j # fl) < slots k" using False le(1) by simp
    then have "heap_inv {} v (own(f \<mapsto> (k, j # fl))) (ps(k := if fl = [] then f # ps k else ps k)) (fs(k := fs'))"
      using v(2) unfolding heap_inv_def by (auto split: if_splits)
    ultimately show ?thesis using v(3,4) False by auto
  qed
qed

section \<open>Live blocks\<close>

text \<open>A block is an address and a size in bytes; \<open>frames\<close> are the page frames in which blocks lie.\<close>

definition blocks :: "slab_map \<Rightarrow> (u64 \<times> nat) set" where
  "blocks own = {(oaddr f j, 8 * 2 ^ k) | f j k fl. own f = Some (k, fl) \<and> j \<in> set (objs k) - set fl}"

definition cells :: "u64 \<times> nat \<Rightarrow> u64 set" where
  "cells b = (\<lambda>i. fst b + 8 * of_nat i) ` {..<snd b div 8}"

definition frames :: "(u64 \<times> nat) set \<Rightarrow> nat set" where
  "frames L = (\<lambda>b. frame_of (fst b)) ` L"

definition heap_holds :: "'a heap_state_scheme \<Rightarrow> (u64 \<times> nat) set \<Rightarrow> bool" where
  "heap_holds st L \<longleftrightarrow> (\<exists>own ps fs. heap_inv {} st own ps fs \<and> L = blocks own)"

lemma cells_block: "cells (oaddr f j, 8 * 2 ^ k) = (\<lambda>i. oaddr f (j + i)) ` {..<2 ^ k}"
  by (simp add: cells_def oaddr_def algebra_simps)

lemma blocksE:
  assumes "b \<in> blocks own"
  obtains f j k fl where "b = (oaddr f j, 8 * 2 ^ k)" "own f = Some (k, fl)" "j \<in> set (objs k)" "j \<notin> set fl"
  using assms by (auto simp: blocks_def)

lemma blocksI: "own f = Some (k, fl) \<Longrightarrow> j \<in> set (objs k) \<Longrightarrow> j \<notin> set fl \<Longrightarrow> (oaddr f j, 8 * 2 ^ k) \<in> blocks own"
  by (auto simp: blocks_def)

lemma blocks_apart:
  assumes inv: "heap_inv X st own ps fs" and b: "b \<in> blocks own" "b' \<in> blocks own" "b \<noteq> b'"
  shows "cells b \<inter> cells b' = {}"
proof -
  obtain f j k fl where f: "b = (oaddr f j, 8 * 2 ^ k)" "own f = Some (k, fl)" "j \<in> set (objs k)" using b(1) by (rule blocksE)
  obtain g i m gl where g: "b' = (oaddr g i, 8 * 2 ^ m)" "own g = Some (m, gl)" "i \<in> set (objs m)" using b(2) by (rule blocksE)
  have k: "k < 9" "m < 9" "is_table f" "is_table g" using heap_invD(3) [OF inv] f(2) g(2) own_used(2) [OF inv] by auto
  note bd = objs_bound(2) [OF k(1) f(3)] objs_bound(2) [OF k(2) g(3)]
  show ?thesis
  proof (rule ccontr)
    assume "cells b \<inter> cells b' \<noteq> {}"
    then obtain x y where xy: "x < 2 ^ k" "y < 2 ^ m" "oaddr f (j + x) = oaddr g (i + y)" unfolding f(1) g(1) cells_block by auto
    then have e: "f = g" "j + x = i + y" using oaddr_inj [OF k(3,4), of "j + x" "i + y"] bd by auto
    then have "k = m" using f(2) g(2) by simp
    moreover have "j \<noteq> i" using b(3) f(1) g(1) e(1) calculation by auto
    ultimately have "j + 2 ^ k \<le> i \<or> i + 2 ^ k \<le> j" using objs_apart f(3) g(3) by simp
    moreover have "y < 2 ^ k" using xy(2) \<open>k = m\<close> by simp
    ultimately show False using e(2) xy(1) by linarith
  qed
qed

lemma frames_dom:
  assumes "heap_inv {} st own ps fs"
  shows "frames (blocks own) = page_no ` dom own"
proof
  show "frames (blocks own) \<subseteq> page_no ` dom own"
  proof
    fix x assume "x \<in> frames (blocks own)"
    then obtain b where b: "b \<in> blocks own" "x = frame_of (fst b)" by (auto simp: frames_def)
    obtain f j k fl where f: "b = (oaddr f j, 8 * 2 ^ k)" "own f = Some (k, fl)" "j \<in> set (objs k)" using b(1) by (rule blocksE)
    have "x = page_no f" using b(2) f oaddr_nat(3) own_used(2) [OF assms, of f] heap_invD(3) [OF assms f(2)] objs_cell [of k j] by simp
    then show "x \<in> page_no ` dom own" using f(2) by blast
  qed
  show "page_no ` dom own \<subseteq> frames (blocks own)"
  proof
    fix x assume "x \<in> page_no ` dom own"
    then obtain f k fl where f: "own f = Some (k, fl)" "x = page_no f" by auto
    note h = heap_invD(3) [OF assms f(1)]
    have "set (objs k) - set fl \<noteq> {}" using h free_slots(2) [of fl k] by (simp add: slab_ok_def)
    then obtain j where j: "j \<in> set (objs k)" "j \<notin> set fl" by blast
    then have "(oaddr f j, 8 * 2 ^ k) \<in> blocks own" using f(1) by (auto simp: blocks_def)
    moreover have "x = frame_of (oaddr f j)" using f own_used(2) [OF assms, of f] objs_cell [of k j] h j by (simp add: oaddr_nat(3))
    ultimately show "x \<in> frames (blocks own)" by (force simp: frames_def)
  qed
qed

lemma blocks_take:
  assumes "own f = Some (k, j # fl) \<or> own f = None \<and> objs k = j # fl" "j \<in> set (objs k)" "j \<notin> set fl"
  shows "blocks (own(f \<mapsto> (k, fl))) = insert (oaddr f j, 8 * 2 ^ k) (blocks own)"
proof (rule set_eqI)
  fix b
  show "b \<in> blocks (own(f \<mapsto> (k, fl))) \<longleftrightarrow> b \<in> insert (oaddr f j, 8 * 2 ^ k) (blocks own)"
  proof
    assume "b \<in> blocks (own(f \<mapsto> (k, fl)))"
    then obtain g i m gl where g: "b = (oaddr g i, 8 * 2 ^ m)" "(own(f \<mapsto> (k, fl))) g = Some (m, gl)" "i \<in> set (objs m)" "i \<notin> set gl"
      by (rule blocksE)
    show "b \<in> insert (oaddr f j, 8 * 2 ^ k) (blocks own)"
    proof (cases "g = f")
      case True
      then have "m = k" "gl = fl" using g(2) by auto
      then show ?thesis using assms(1) g True blocksI [of own f k "j # fl" i] by (cases "i = j") auto
    next
      case False
      then show ?thesis using g blocksI [of own g m gl i] by simp
    qed
  next
    assume "b \<in> insert (oaddr f j, 8 * 2 ^ k) (blocks own)"
    then show "b \<in> blocks (own(f \<mapsto> (k, fl)))"
    proof (elim insertE)
      assume "b = (oaddr f j, 8 * 2 ^ k)"
      then show ?thesis using assms(2,3) blocksI [of "own(f \<mapsto> (k, fl))" f k fl j] by simp
    next
      assume "b \<in> blocks own"
      then obtain g i m gl where g: "b = (oaddr g i, 8 * 2 ^ m)" "own g = Some (m, gl)" "i \<in> set (objs m)" "i \<notin> set gl" by (rule blocksE)
      then show ?thesis using assms(1) blocksI [of "own(f \<mapsto> (k, fl))" g m _ i] by (cases "g = f") auto
    qed
  qed
qed

text \<open>What an operation keeps: blocks stay apart, the contents of blocks that stay live and all memory outside the heap are unchanged, and the frames
  of the heap are those with a live block; the others are free.\<close>

definition heap_step :: "'a heap_state_scheme \<Rightarrow> (u64 \<times> nat) set \<Rightarrow> 'a heap_state_scheme \<Rightarrow> (u64 \<times> nat) set \<Rightarrow> bool" where
  "heap_step st L st' L' \<longleftrightarrow> heap_holds st' L' \<and>
     (\<forall>b \<in> L'. \<forall>b' \<in> L'. b \<noteq> b' \<longrightarrow> cells b \<inter> cells b' = {}) \<and>
     (\<forall>b \<in> L \<inter> L'. \<forall>a \<in> cells b. kmem st' a = kmem st a) \<and>
     frames L' \<inter> free_set (pmm st') = {} \<and> frames L' \<union> free_set (pmm st') = frames L \<union> free_set (pmm st) \<and>
     (\<forall>t i. used_table st t \<and> i < 512 \<and> page_no t \<notin> frames L \<longrightarrow> entry st' t i = entry st t i)"

lemma heap_stepI:
  fixes st st' :: "'a heap_state_scheme"
  assumes inv: "heap_inv {} st own ps fs" and inv': "heap_inv {} st' own' ps' fs'"
    and bl: "\<forall>g k fl j. own g = Some (k, fl) \<longrightarrow> j \<in> set (objs k) - set fl \<longrightarrow> (oaddr g j, 8 * 2 ^ k) \<in> blocks own' \<longrightarrow>
      (\<forall>i < 2 ^ k. entry st' g (j + i) = entry st g (j + i))"
    and fr: "page_no ` dom own' \<union> free_set (pmm st') = page_no ` dom own \<union> free_set (pmm st)"
    and en: "\<forall>t i. used_table st t \<longrightarrow> i < 512 \<longrightarrow> own t = None \<longrightarrow> entry st' t i = entry st t i"
  shows "heap_step st (blocks own) st' (blocks own')"
proof -
  have 1: "heap_holds st' (blocks own')" using inv' by (auto simp: heap_holds_def)
  have 2: "\<forall>b \<in> blocks own'. \<forall>b' \<in> blocks own'. b \<noteq> b' \<longrightarrow> cells b \<inter> cells b' = {}" using blocks_apart [OF inv'] by blast
  have 3: "kmem st' a = kmem st a" if b: "b \<in> blocks own" "b \<in> blocks own'" "a \<in> cells b" for b a
  proof -
    obtain g j k fl where g: "b = (oaddr g j, 8 * 2 ^ k)" "own g = Some (k, fl)" "j \<in> set (objs k)" "j \<notin> set fl" using b(1) by (rule blocksE)
    then obtain i where "i < 2 ^ k" "a = oaddr g (j + i)" using b(3) unfolding g(1) cells_block by auto
    then show ?thesis using bl [rule_format, OF g(2), of j i] g b(2) by (simp add: entry_def oaddr_def)
  qed
  have 4: "page_no ` dom own' \<inter> free_set (pmm st') = {}" using own_used(1) [OF inv'] by (auto simp: used_table_def)
  have 5: "entry st' t i = entry st t i" if "used_table st t" "i < 512" "page_no t \<notin> page_no ` dom own" for t i
    using en that by blast
  show ?thesis unfolding heap_step_def frames_dom [OF inv] frames_dom [OF inv']
    using 3 5 by (intro conjI 1 2 4 fr ballI allI impI) (elim IntE conjE; assumption | simp)+
qed

section \<open>Sizes\<close>

lemma pow2_reach:
  assumes "i \<le> k" "k < 9" "unat sz \<le> 8 * 2 ^ k" "k = i \<or> 4 * 2 ^ k < unat sz"
  shows "pow2_loop sz (8 * 2 ^ i) = Some (8 * 2 ^ k)"
  using assms(1,4)
proof (induction "k - i" arbitrary: i)
  case 0
  have "unat (8 * 2 ^ k :: u64) = 8 * 2 ^ k" using class_cases [OF assms(2)] by (elim disjE) simp_all
  then have "\<not> 8 * 2 ^ k < sz" using assms(3) by (simp add: word_less_nat_alt)
  then show ?case using 0 by (simp add: pow2_loop.simps)
next
  case (Suc d)
  then have ik: "i < k" "4 * 2 ^ k < unat sz" by auto
  have "unat (8 * 2 ^ i :: u64) = 8 * 2 ^ i" using class_cases [OF less_trans [OF ik(1) assms(2)]] by (elim disjE) simp_all
  moreover have "(2 :: nat) ^ Suc i \<le> 2 ^ k" using ik(1) by (intro power_increasing) simp_all
  ultimately have "8 * 2 ^ i < sz" using ik(2) by (simp add: word_less_nat_alt)
  moreover have "push_bit 1 (8 * 2 ^ i) = (8 * 2 ^ Suc i :: u64)" by (simp add: push_bit_eq_mult)
  moreover have "pow2_loop sz (8 * 2 ^ Suc i) = Some (8 * 2 ^ k)" using Suc.hyps(1) [of "Suc i"] Suc.hyps(2) ik by simp
  ultimately show ?case by (subst pow2_loop.simps) simp
qed

lemma size_class:
  assumes "0 < unat sz" "unat sz \<le> 2048"
  obtains k where "k < 9" "round_up_pow2 (if sz < 8 then 8 else sz) = Some (8 * 2 ^ k)" "unat sz \<le> 8 * 2 ^ k" "k = 0 \<or> 8 * 2 ^ k < 2 * unat sz"
proof -
  let ?P = "\<lambda>k :: nat. unat sz \<le> 8 * 2 ^ k"
  define k where "k = (LEAST k. ?P k)"
  have P: "?P k" unfolding k_def by (rule LeastI [of ?P 8]) (use assms(2) in simp)
  have k: "k \<le> 8" unfolding k_def by (rule Least_le) (use assms(2) in simp)
  have m: "k = 0 \<or> 4 * 2 ^ k < unat sz"
  proof (cases k)
    case (Suc i)
    then have "\<not> ?P i" using not_less_Least [of i ?P] by (simp add: k_def)
    then show ?thesis using Suc by simp
  qed simp
  have "round_up_pow2 (if sz < 8 then 8 else sz) = Some (8 * 2 ^ k)"
  proof (cases "sz < 8")
    case True
    then have "unat sz < 8" by (simp add: word_less_nat_alt)
    have "k = 0"
    proof (rule ccontr)
      assume "k \<noteq> 0"
      then have "(2 :: nat) ^ 1 \<le> 2 ^ k" by (intro power_increasing) simp_all
      then show False using m \<open>k \<noteq> 0\<close> \<open>unat sz < 8\<close> by simp
    qed
    then show ?thesis using True by (simp add: round_up_pow2_def pow2_loop.simps)
  next
    case False
    then show ?thesis using pow2_reach [of 0 k sz] P k m by (simp add: round_up_pow2_def)
  qed
  then show ?thesis using that [of k] P k m by auto
qed

lemma cache_index_class: "k < 9 \<Longrightarrow> cache_index (8 * 2 ^ k) = k"
proof -
  have step: "cache_index_loop sz s order n = (if s < sz then cache_index_loop sz (push_bit 1 s) (Suc order) (n - 1) else order)" if "0 < n"
    for sz s order n using that by (cases n) simp_all
  show "k < 9 \<Longrightarrow> cache_index (8 * 2 ^ k) = k"
    by (drule class_cases, elim disjE) (simp_all add: cache_index_def step)
qed

section \<open>kmalloc\<close>

lemma allocated_step:
  fixes st st' :: "'a heap_state_scheme"
  assumes inv: "heap_inv {} st own ps fs" and k: "k < 9" and a: "allocated k st own st' q" "q \<noteq> 0"
  shows "(q, 8 * 2 ^ k) \<notin> blocks own" and "heap_step st (blocks own) st' (insert (q, 8 * 2 ^ k) (blocks own))" and "8 * 2 ^ k dvd unat q"
proof -
  obtain f j fl ps' fs' where q: "q = oaddr f j" and inv': "heap_inv {} st' (own(f \<mapsto> (k, fl))) ps' fs'"
    and how: "own f = Some (k, j # fl) \<and> free_set (pmm st') = free_set (pmm st) \<and> (\<forall>i. 4 \<le> i \<longrightarrow> i < 512 \<longrightarrow> entry st' f i = entry st f i) \<or>
        own f = None \<and> objs k = j # fl \<and> page_no f \<in> free_set (pmm st) \<and> free_set (pmm st') = free_set (pmm st) - {page_no f}"
    and en: "\<forall>x i. is_table x \<longrightarrow> i < 512 \<longrightarrow> x \<noteq> f \<longrightarrow> entry st' x i = entry st x i"
    using a unfolding allocated_def by blast
  have f: "is_table f" using own_used(2) [OF inv', of f] by simp
  have "j \<in> set (objs k) \<and> j \<notin> set fl"
    using how
  proof (elim disjE conjE)
    assume "own f = Some (k, j # fl)"
    then show ?thesis using heap_invD(3) [OF inv, of f k "j # fl"] by (simp add: slab_ok_def)
  next
    assume "objs k = j # fl"
    then show ?thesis using objs_list(2) [of k] by simp
  qed
  then have j: "j \<in> set (objs k)" "j \<notin> set fl" by blast+
  have bl: "blocks (own(f \<mapsto> (k, fl))) = insert (q, 8 * 2 ^ k) (blocks own)" unfolding q by (rule blocks_take) (use how j in auto)
  show "(q, 8 * 2 ^ k) \<notin> blocks own"
  proof
    assume "(q, 8 * 2 ^ k) \<in> blocks own"
    then obtain g i m gl where g: "(q, 8 * 2 ^ k :: nat) = (oaddr g i, 8 * 2 ^ m)" "own g = Some (m, gl)" "i \<in> set (objs m)" "i \<notin> set gl" by (rule blocksE)
    have "is_table g" "m < 9" using own_used(2) [OF inv, of g] heap_invD(3) [OF inv g(2)] g(2) by auto
    then have "g = f \<and> i = j" using g(1) q oaddr_inj [OF f, of g j i] objs_cell [OF k j(1)] objs_cell [of m i] g(3) by simp
    then show False using g(2,4) how by auto
  qed
  have "heap_step st (blocks own) st' (blocks (own(f \<mapsto> (k, fl))))"
  proof (rule heap_stepI [OF inv inv'])
    show "\<forall>g m gl i. own g = Some (m, gl) \<longrightarrow> i \<in> set (objs m) - set gl \<longrightarrow> (oaddr g i, 8 * 2 ^ m) \<in> blocks (own(f \<mapsto> (k, fl))) \<longrightarrow>
      (\<forall>x < 2 ^ m. entry st' g (i + x) = entry st g (i + x))"
    proof (intro allI impI)
      fix g m gl i x assume g: "own g = Some (m, gl)" "i \<in> set (objs m) - set gl" "(x :: nat) < 2 ^ m"
      have "m < 9" using heap_invD(3) [OF inv g(1)] by simp
      then have "4 \<le> i" "i + x < 512" using g(2,3) objs_bound(1,2) [of m i] by auto
      then show "entry st' g (i + x) = entry st g (i + x)" using how en own_used(2) [OF inv, of g] g(1) by (cases "g = f") auto
    qed
    show "page_no ` dom (own(f \<mapsto> (k, fl))) \<union> free_set (pmm st') = page_no ` dom own \<union> free_set (pmm st)" using how by (elim disjE) auto
    show "\<forall>t i. used_table st t \<longrightarrow> i < 512 \<longrightarrow> own t = None \<longrightarrow> entry st' t i = entry st t i"
    proof (intro allI impI)
      fix t and i :: nat assume t: "used_table st t" "i < 512" "own t = None"
      then have "t \<noteq> f" using how by (auto simp: used_table_def)
      then show "entry st' t i = entry st t i" using en t by (simp add: used_table_def)
    qed
  qed
  then show "heap_step st (blocks own) st' (insert (q, 8 * 2 ^ k) (blocks own))" unfolding bl .
  have "8 * 2 ^ k dvd unat KERNEL_VMA" "8 * 2 ^ k dvd (4096 :: nat)" using class_cases [OF k] by (auto simp: KERNEL_VMA_def)
  moreover have "8 * 2 ^ k dvd 8 * j" using objs_bound(3) [OF k j(1)] by (rule mult_dvd_mono [OF dvd_refl])
  ultimately show "8 * 2 ^ k dvd unat q" unfolding q using oaddr_nat(1) [OF f] objs_cell [OF k j(1)] by (simp add: dvd_add dvd_mult2)
qed

lemma kmalloc_outcome:
  fixes st :: "'a heap_state_scheme"
  assumes inv: "heap_inv {} st own ps fs" and sz: "0 < unat sz" "unat sz \<le> 2048"
  obtains k st' q where "k < 9" "kmalloc sz st = Some (st', q)" "allocated k st own st' q" "unat sz \<le> 8 * 2 ^ k" "k = 0 \<or> 8 * 2 ^ k < 2 * unat sz"
proof -
  obtain k where k: "k < 9" "round_up_pow2 (if sz < 8 then 8 else sz) = Some (8 * 2 ^ k)" "unat sz \<le> 8 * 2 ^ k" "k = 0 \<or> 8 * 2 ^ k < 2 * unat sz"
    using sz by (rule size_class)
  obtain st' q where c: "cache_alloc k st = (st', q)" by fastforce
  have "sz \<noteq> 0" "\<not> sz > 4096" using sz by (auto simp: word_less_nat_alt)
  then have "kmalloc sz st = Some (st', q)" unfolding kmalloc_def k(2) by (simp add: cache_index_class [OF k(1)] c)
  then show ?thesis using that k cache_alloc_effect [OF inv k(1) c] by blast
qed

text \<open>C10. A request of 1 to 2048 bytes returns: NULL only when no frame is free, with nothing changed, and otherwise the address of a new block of the
  least power of two that holds the request (at least 8), aligned to its size, apart from every live block; the contents of live blocks and
  all memory outside the heap are unchanged and frames go from free to heap only for a block in them.\<close>

theorem kmalloc_correct:
  assumes "heap_holds st L" and "0 < unat sz" "unat sz \<le> 2048"
  shows "\<exists>st' p. kmalloc sz st = Some (st', p) \<and>
    (if p = 0 then st' = st \<and> free_set (pmm st) = {}
     else \<exists>n. unat sz \<le> n \<and> (n = 8 \<or> n < 2 * unat sz) \<and> n dvd unat p \<and> (p, n) \<notin> L \<and> heap_step st L st' (insert (p, n) L))"
proof -
  obtain own ps fs where inv: "heap_inv {} st own ps fs" and L: "L = blocks own" using assms(1) by (auto simp: heap_holds_def)
  obtain k st' q where q: "k < 9" "kmalloc sz st = Some (st', q)" "allocated k st own st' q" "unat sz \<le> 8 * 2 ^ k" "k = 0 \<or> 8 * 2 ^ k < 2 * unat sz"
    using kmalloc_outcome [OF inv assms(2,3)] .
  show ?thesis
  proof (cases "q = 0")
    case True
    then show ?thesis using q(2,3) by (simp add: allocated_def)
  next
    case False
    then show ?thesis using q allocated_step [OF inv q(1,3) False] unfolding L by (intro exI [of _ st'] exI [of _ q]) (auto intro!: exI [of _ "8 * 2 ^ k"])
  qed
qed

section \<open>kfree\<close>

lemma blocks_give:
  assumes inv: "heap_inv X st own ps fs" and o: "own f = Some (k, fl)" and j: "j \<in> set (objs k)" "j \<notin> set fl"
    and x: "x = (if Suc (length fl) = slots k then None else Some (k, j # fl))"
  shows "blocks (own(f := x)) = blocks own - {(oaddr f j, 8 * 2 ^ k)}"
proof (rule set_eqI)
  fix b
  have k: "k < 9" "is_table f" and sl: "slab_ok st k f fl" using heap_invD(3) [OF inv o] own_used(2) [OF inv, of f] o by auto
  have ne: "(oaddr g i, 8 * 2 ^ m :: nat) = (oaddr f j, 8 * 2 ^ k) \<longleftrightarrow> g = f \<and> i = j" if "own g = Some (m, gl)" "i \<in> set (objs m)" for g i m gl
  proof -
    have "m < 9" "is_table g" using heap_invD(3) [OF inv that(1)] own_used(2) [OF inv, of g] that(1) by auto
    then show ?thesis using oaddr_inj [of g f i j] k objs_cell [OF k(1) j(1)] objs_cell [of m i] that o by auto
  qed
  have last: "i = j" if "Suc (length fl) = slots k" "i \<in> set (objs k)" "i \<notin> set fl" for i
  proof -
    have d: "distinct (j # fl)" "set (j # fl) \<subseteq> set (objs k)" using sl j by (auto simp: slab_ok_def)
    have "\<not> length (j # fl) < slots k" using that(1) by simp
    then have "set (objs k) - set (j # fl) = {}" using free_slots(2) [OF d] by blast
    then show ?thesis using that(2,3) by auto
  qed
  show "b \<in> blocks (own(f := x)) \<longleftrightarrow> b \<in> blocks own - {(oaddr f j, 8 * 2 ^ k)}"
  proof
    assume "b \<in> blocks (own(f := x))"
    then obtain g i m gl where g: "b = (oaddr g i, 8 * 2 ^ m)" "(own(f := x)) g = Some (m, gl)" "i \<in> set (objs m)" "i \<notin> set gl" by (rule blocksE)
    show "b \<in> blocks own - {(oaddr f j, 8 * 2 ^ k)}"
    proof (cases "g = f")
      case True
      then have "m = k" "gl = j # fl" using g(2) x by (auto split: if_splits)
      then show ?thesis using g True o ne [of f k fl i] blocksI [of own f k fl i] by simp
    next
      case False
      then show ?thesis using g ne [of g m gl i] blocksI [of own g m gl i] by simp
    qed
  next
    assume b: "b \<in> blocks own - {(oaddr f j, 8 * 2 ^ k)}"
    then have "b \<in> blocks own" by blast
    then obtain g i m gl where g: "b = (oaddr g i, 8 * 2 ^ m)" "own g = Some (m, gl)" "i \<in> set (objs m)" "i \<notin> set gl" by (rule blocksE)
    have gi: "\<not> (g = f \<and> i = j)" using b g(1) ne [OF g(2,3)] by blast
    show "b \<in> blocks (own(f := x))"
    proof (cases "g = f")
      case True
      then have "m = k" "gl = fl" "i \<noteq> j" using g(2) o gi by auto
      then have "x = Some (k, j # fl)" using x last [of i] g(3,4) by auto
      then show ?thesis using g True \<open>m = k\<close> \<open>gl = fl\<close> \<open>i \<noteq> j\<close> blocksI [of "own(f := x)" f k "j # fl" i] by simp
    next
      case False
      then show ?thesis using g blocksI [of "own(f := x)" g m gl i] by simp
    qed
  qed
qed

lemma kfree_lemma:
  fixes st :: "'a heap_state_scheme"
  assumes h: "heap_holds st L" and b: "(p, n) \<in> L"
  shows "\<exists>st'. kfree p st = Some st' \<and> heap_step st L st' (L - {(p, n)})"
proof -
  obtain own ps fs where inv: "heap_inv {} st own ps fs" and L: "L = blocks own" using h by (auto simp: heap_holds_def)
  obtain f j k fl where q: "(p, n) = (oaddr f j, 8 * 2 ^ k)" "own f = Some (k, fl)" "j \<in> set (objs k)" "j \<notin> set fl"
    using b unfolding L by (rule blocksE)
  have k: "k < 9" and f: "is_table f" and sl: "slab_ok st k f fl" using heap_invD(3) [OF inv q(2)] own_used(2) [OF inv, of f] q(2) by auto
  note jc = objs_cell [OF k q(3)]
  define x where "x = (if Suc (length fl) = slots k then None else Some (k, j # fl))"
  obtain st' ps' fs' where c: "cache_free k (oaddr f j) st = Some st'" "heap_inv {} st' (own(f := x)) ps' fs'"
    "free_set (pmm st') = (if Suc (length fl) = slots k then insert (page_no f) (free_set (pmm st)) else free_set (pmm st))"
    "\<forall>t i. is_table t \<longrightarrow> i < 512 \<longrightarrow> own t = None \<or> 4 \<le> i \<and> (t \<noteq> f \<or> i \<noteq> j) \<longrightarrow> entry st' t i = entry st t i"
    using cache_free_effect [OF inv q(2-4)] unfolding x_def by blast
  have ob: "obj_size st (PHYS_TO_VIRT f) = 2 ^ (3 + k)" using sl by (simp add: slab_fields slab_ok_def)
  have "is_slab st (PHYS_TO_VIRT f)" unfolding is_slab_def ob using class_cases [OF k] by (elim disjE) simp_all
  then have kf: "kfree p st = Some st'"
    using q(1) c(1) oaddr_nat(2) [OF f, of j] jc cache_index_class [OF k] size_words(1) [OF k]
    by (simp add: kfree_def slab_of_oaddr [OF f] ob)
  have bl: "blocks (own(f := x)) = L - {(p, n)}" unfolding L q(1) by (rule blocks_give [OF inv q(2-4) x_def])
  have "heap_step st (blocks own) st' (blocks (own(f := x)))"
  proof (rule heap_stepI [OF inv c(2)])
    show "\<forall>g m gl i. own g = Some (m, gl) \<longrightarrow> i \<in> set (objs m) - set gl \<longrightarrow> (oaddr g i, 8 * 2 ^ m) \<in> blocks (own(f := x)) \<longrightarrow>
      (\<forall>y < 2 ^ m. entry st' g (i + y) = entry st g (i + y))"
    proof (intro allI impI)
      fix g m gl i y assume g: "own g = Some (m, gl)" "i \<in> set (objs m) - set gl" "(oaddr g i, 8 * 2 ^ m) \<in> blocks (own(f := x))" "(y :: nat) < 2 ^ m"
      have m: "m < 9" "is_table g" using heap_invD(3) [OF inv g(1)] own_used(2) [OF inv, of g] g(1) by auto
      then have bd: "4 \<le> i" "i + y < 512" using g(2,4) objs_bound(1,2) [of m i] by auto
      have "g \<noteq> f \<or> i + y \<noteq> j"
      proof (rule ccontr)
        assume "\<not> (g \<noteq> f \<or> i + y \<noteq> j)"
        then have e: "g = f" "i + y = j" "m = k" using g(1) q(2) by auto
        moreover have "i \<noteq> j" using g(3) e unfolding bl q(1) by auto
        ultimately show False using objs_apart [of i k j] g(2,4) q(3) by auto
      qed
      then show "entry st' g (i + y) = entry st g (i + y)" using c(4) m(2) bd by simp
    qed
    show "page_no ` dom (own(f := x)) \<union> free_set (pmm st') = page_no ` dom own \<union> free_set (pmm st)"
      using c(3) q(2) by (auto simp: x_def)
    show "\<forall>t i. used_table st t \<longrightarrow> i < 512 \<longrightarrow> own t = None \<longrightarrow> entry st' t i = entry st t i" using c(4) by (simp add: used_table_def)
  qed
  then show ?thesis using kf unfolding bl L by blast
qed

text \<open>C14. Releasing a live block returns and removes exactly that block: the other blocks stay live, apart and unchanged, memory outside the heap is
  unchanged, and a frame goes back to the frame allocator exactly when its last block is released, so that a heap without
  live blocks holds no frame.\<close>

theorem kfree_correct:
  assumes "heap_holds st L" and "(p, n) \<in> L"
  shows "\<exists>st'. kfree p st = Some st' \<and> heap_step st L st' (L - {(p, n)})"
  using assms by (rule kfree_lemma)

section \<open>The first heap\<close>

lemma heap_init_caches:
  fixes st :: "'a heap_state_scheme"
  assumes "n \<le> length (caches st)" "c = (\<lambda>i. \<lparr>c_obj_size = push_bit (HEAP_MIN_ORDER + i) 1, partial = 0, full = 0\<rparr>)"
    "st' = for_range 0 n (\<lambda>i. set_cache i (\<lambda>_. c i)) st"
  shows "(\<forall>i < n. caches st' ! i = c i) \<and> length (caches st') = length (caches st) \<and> pmm st' = pmm st \<and> (\<forall>f j. entry st' f j = entry st f j)"
  using assms(1,3)
proof (induction n arbitrary: st')
  case (Suc n)
  have IH: "(\<forall>i < n. caches u ! i = c i) \<and> length (caches u) = length (caches st) \<and> pmm u = pmm st \<and> (\<forall>f j. entry u f j = entry st f j)"
    if "u = for_range 0 n (\<lambda>i. set_cache i (\<lambda>_. c i)) st" for u
    using Suc.IH [OF _ that] Suc.prems(1) by simp
  have st': "st' = set_cache n (\<lambda>_. c n) (for_range 0 n (\<lambda>i. set_cache i (\<lambda>_. c i)) st)" using Suc.prems(2) by (simp add: for_range_last)
  show ?case using IH [OF refl] Suc.prems(1) unfolding st' by (simp add: nth_set_cache less_Suc_eq)
qed simp

lemma heap_init_holds:
  fixes st :: "'a heap_state_scheme"
  assumes "vm_ok st" "length (caches st) = 10"
  shows "heap_holds (fst (heap_init st)) {}" and "pmm (fst (heap_init st)) = pmm st"
proof -
  let ?st = "fst (heap_init st)"
  have st': "?st = for_range 0 10 (\<lambda>i. set_cache i (\<lambda>_. \<lparr>c_obj_size = push_bit (HEAP_MIN_ORDER + i) 1, partial = 0, full = 0\<rparr>)) st"
    by (simp add: heap_init_def)
  note h = heap_init_caches [OF _ refl st']
  have h: "\<forall>i < 10. caches ?st ! i = \<lparr>c_obj_size = push_bit (HEAP_MIN_ORDER + i) 1, partial = 0, full = 0\<rparr>" "length (caches ?st) = 10" "pmm ?st = pmm st"
    using heap_init_caches [OF _ refl st'] assms(2) by simp_all
  show "pmm ?st = pmm st" by (rule h(3))
  have "heap_inv {} ?st (\<lambda>_. None) (\<lambda>_. []) (\<lambda>_. [])"
    unfolding heap_inv_def lists_ok_def using h assms(1) by (simp add: vm_ok_def push_bit_of_1)
  moreover have "blocks (\<lambda>_. None) = {}" by (simp add: blocks_def)
  ultimately show "heap_holds ?st {}" unfolding heap_holds_def by metis
qed

definition heap_demo :: heap_state where
  "heap_demo = fst (heap_init \<lparr>pmm = pmm_demo, kmem = (\<lambda>_. 0), vmm_pml4 = 0, kernel_pml4 = 0, vcr3 = 0,
     caches = replicate 10 \<lparr>c_obj_size = 0, partial = 0, full = 0\<rparr>\<rparr>)"

lemma heap_demo_holds: "heap_holds heap_demo {}" "free_set (pmm heap_demo) = {1..<64}"
proof -
  let ?st = "\<lparr>pmm = pmm_demo, kmem = (\<lambda>_. 0), vmm_pml4 = 0, kernel_pml4 = 0, vcr3 = 0,
     caches = replicate 10 \<lparr>c_obj_size = 0, partial = 0, full = 0\<rparr>\<rparr> :: heap_state"
  have "vm_ok ?st" "length (caches ?st) = 10" using pmm_demo_ok by (auto simp: vm_ok_def pmm_demo_free)
  then show "heap_holds heap_demo {}" "free_set (pmm heap_demo) = {1..<64}"
    unfolding heap_demo_def using heap_init_holds [of ?st] by (simp_all add: pmm_demo_free)
qed

theorem kmalloc_correct_witness:
  "\<exists>st' p n. kmalloc 24 heap_demo = Some (st', p) \<and> p \<noteq> 0 \<and> 24 \<le> n \<and> n < 48 \<and> heap_holds st' {(p, n)}"
  using kmalloc_correct [OF heap_demo_holds(1), of 24] heap_demo_holds(2) by (auto simp: heap_step_def split: if_splits)

theorem kfree_correct_witness:
  "\<exists>st p n st'. kmalloc 24 heap_demo = Some (st, p) \<and> heap_holds st {(p, n)} \<and> kfree p st = Some st' \<and> heap_holds st' {} \<and>
     free_set (pmm st') = {1..<64}"
proof -
  obtain own ps fs where inv: "heap_inv {} heap_demo own ps fs" and bl: "{} = blocks own" using heap_demo_holds(1) by (auto simp: heap_holds_def)
  obtain k st p where m: "k < 9" "kmalloc 24 heap_demo = Some (st, p)" "allocated k heap_demo own st p"
    by (rule kmalloc_outcome [OF inv, of 24]) simp_all
  have "p \<noteq> 0" using m(3) heap_demo_holds(2) by (auto simp: allocated_def)
  then have h: "heap_step heap_demo {} st {(p, 8 * 2 ^ k)}" using allocated_step(2) [OF inv m(1,3)] bl by simp
  then have hs: "heap_holds st {(p, 8 * 2 ^ k)}" by (simp add: heap_step_def)
  obtain st' where "kfree p st = Some st'" "heap_step st {(p, 8 * 2 ^ k)} st' {}" using kfree_correct [OF hs, of p "8 * 2 ^ k"] by auto
  moreover have "frames {} = {}" by (simp add: frames_def)
  ultimately show ?thesis using m(2) h heap_demo_holds(2) unfolding heap_step_def by auto
qed

end
