(* ===== verification/Process.thy ===== *)
theory Process
  imports Scheduler Heap Pic
begin

text \<open>
  The process table (\<^verbatim>\<open>src/process/process.c\<close>) and the start of the scheduler: creating kernel threads, fork, exit and
  wait, over the memory state (frames, page tables, heap) and the scheduler state. CR3 is one register: the two parts see the same
  value. A result \<open>None\<close> is a call that does not return: a loop that never ends or a NULL dereference.
\<close>

section \<open>State\<close>

record os_state =
  os_mem :: heap_state
  os_sched :: sched_state

text \<open>Running an operation of one part; CR3 is carried over to the other.\<close>

definition set_mem :: "heap_state \<Rightarrow> 'a os_state_scheme \<Rightarrow> 'a os_state_scheme" where
  "set_mem m os = os\<lparr>os_mem := m, os_sched := (os_sched os)\<lparr>cr3 := vcr3 m\<rparr>\<rparr>"

definition set_sched :: "sched_state \<Rightarrow> 'a os_state_scheme \<Rightarrow> 'a os_state_scheme" where
  "set_sched s os = os\<lparr>os_sched := s, os_mem := (os_mem os)\<lparr>vcr3 := cr3 s\<rparr>\<rparr>"

definition upd_proc :: "nat \<Rightarrow> (process \<Rightarrow> process) \<Rightarrow> 'a os_state_scheme \<Rightarrow> 'a os_state_scheme" where
  "upd_proc p f os = os\<lparr>os_sched := set_proc p f (os_sched os)\<rparr>"

definition os_proc :: "'a os_state_scheme \<Rightarrow> nat \<Rightarrow> process" where
  "os_proc os p = proc (os_sched os) p"

text \<open>\<^verbatim>\<open>strncpy(p->name, name, 31); p->name[31] = 0;\<close> on the 32-byte array. For a name shorter than 31 bytes the kernel's
  \<^verbatim>\<open>strncpy\<close> itself writes 32 bytes, so the result is the same where the second statement is missing.\<close>

definition name_field :: "u8 list \<Rightarrow> u8 list" where
  "name_field s = (let t = take 31 (takeWhile (\<lambda>c. c \<noteq> 0) s) in t @ replicate (32 - length t) 0)"

section \<open>Operations\<close>

definition alloc_pid :: "sched_state \<Rightarrow> nat option" where
  "alloc_pid st = scan (\<lambda>i. pstate (proc st i) = PROC_UNUSED) PROC_MAX"

definition process_get :: "u32 \<Rightarrow> sched_state \<Rightarrow> nat option" where
  "process_get n st =
     (if unat n \<ge> PROC_MAX then None else if pstate (proc st (unat n)) = PROC_UNUSED then None else Some (unat n))"

definition kthread_create :: "u8 list \<Rightarrow> u64 \<Rightarrow> 'a os_state_scheme \<Rightarrow> ('a os_state_scheme \<times> int) option" where
  "kthread_create name fn os =
     (case alloc_pid (os_sched os) of None \<Rightarrow> Some (os, -1)
      | Some n \<Rightarrow>
          let os = upd_proc n (\<lambda>p. p\<lparr>pid := of_nat n, pstate := PROC_READY, nxt := None, pname := name_field name\<rparr>) os in
          case kmalloc KSTACK_SIZE (os_mem os) of None \<Rightarrow> None
          | Some (m, k) \<Rightarrow>
              let os = upd_proc n (\<lambda>p. p\<lparr>kstack := k\<rparr>) (set_mem m os) in
              if k = 0 then Some (upd_proc n (\<lambda>p. p\<lparr>pstate := PROC_UNUSED\<rparr>) os, -1)
              else Some (upd_proc n (\<lambda>p. p\<lparr>pml4_phys := 0,
                     ctx := \<lparr>rbx = 0, rbp = 0, r12 = 0, r13 = 0, r14 = 0, r15 = 0, rsp = k + KSTACK_SIZE - 8, rip = fn\<rparr>\<rparr>) os, int n))"

definition process_save_user_ctx :: "u64 \<Rightarrow> u64 \<Rightarrow> u64 \<Rightarrow> 'a os_state_scheme \<Rightarrow> 'a os_state_scheme" where
  "process_save_user_ctx urip ursp urflags os =
     (case current_proc (os_sched os) of
        Some c \<Rightarrow> upd_proc c (\<lambda>p. p\<lparr>user_rip := urip, user_rsp := ursp, user_rflags := urflags\<rparr>) os
      | None \<Rightarrow> os)"

text \<open>The failure exit of fork: release the kernel stack and the slot.\<close>

definition fork_fail :: "nat \<Rightarrow> 'a os_state_scheme \<Rightarrow> ('a os_state_scheme \<times> int) option" where
  "fork_fail n os =
     map_option (\<lambda>m. (upd_proc n (\<lambda>p. p\<lparr>pstate := PROC_UNUSED\<rparr>) (set_mem m os), -1)) (kfree (kstack (os_proc os n)) (os_mem os))"

text \<open>\<open>tramp\<close> is the address of \<^verbatim>\<open>fork_sysret_trampoline\<close>.\<close>

definition process_fork :: "u64 \<Rightarrow> 'a os_state_scheme \<Rightarrow> ('a os_state_scheme \<times> int) option" where
  "process_fork tramp os =
     (case current_proc (os_sched os) of None \<Rightarrow> Some (os, -1)
      | Some c \<Rightarrow>
        case alloc_pid (os_sched os) of None \<Rightarrow> Some (os, -1)
        | Some n \<Rightarrow>
          let os = upd_proc n (\<lambda>p. p\<lparr>pid := of_nat n, ppid := pid (os_proc os c), exit_status := 0, pstate := PROC_READY, nxt := None,
                     pname := name_field (pname (os_proc os c))\<rparr>) os in
          case kmalloc KSTACK_SIZE (os_mem os) of None \<Rightarrow> None
          | Some (m, k) \<Rightarrow>
            let os = upd_proc n (\<lambda>p. p\<lparr>kstack := k\<rparr>) (set_mem m os) in
            if k = 0 then Some (upd_proc n (\<lambda>p. p\<lparr>pstate := PROC_UNUSED\<rparr>) os, -1)
            else
             case (if pml4_phys (os_proc os c) \<noteq> 0 then (os_mem os, pml4_phys (os_proc os c)) else vmm_create_user_pml4 (os_mem os)) of
             (m, src_pml4) \<Rightarrow>
              let os = set_mem m os in
              if src_pml4 = 0 then fork_fail n os
              else
               let os = upd_proc c (\<lambda>p. p\<lparr>pml4_phys := src_pml4\<rparr>) os in
               case vmm_fork_pml4 src_pml4 (os_mem os) of (m, child_pml4) \<Rightarrow>
                let os = upd_proc n (\<lambda>p. p\<lparr>pml4_phys := child_pml4\<rparr>) (set_mem m os) in
                if child_pml4 = 0 then fork_fail n os
                else
                 let cur = os_proc os c;
                     os = upd_proc n (\<lambda>p. p\<lparr>user_rip := user_rip cur, user_rsp := user_rsp cur, user_rflags := user_rflags cur,
                            ctx := \<lparr>rbx = 0, rbp = 0, r12 = user_rip cur, r13 = user_rflags cur, r14 = user_rsp cur, r15 = 0,
                                    rsp = k + KSTACK_SIZE - 8, rip = tramp\<rparr>\<rparr>) os
                 in Some (os\<lparr>os_sched := scheduler_add n (os_sched os)\<rparr>, int n))"

text \<open>The registers with which a process continues in user mode. A forked child starts at \<^verbatim>\<open>fork_sysret_trampoline\<close>, which moves
  three saved registers into place and clears the return value.\<close>

record user_regs =
  u_rip :: u64
  u_rsp :: u64
  u_rflags :: u64
  u_rax :: u64

definition fork_sysret_trampoline :: "cpu_context \<Rightarrow> user_regs" where
  "fork_sysret_trampoline x = \<lparr>u_rip = r12 x, u_rsp = r14 x, u_rflags = r13 x, u_rax = 0\<rparr>"

text \<open>The caller does not come back from \<^verbatim>\<open>process_exit\<close>: the result is the state in which the next process runs.\<close>

definition process_exit :: "'a os_state_scheme \<Rightarrow> 'a os_state_scheme option" where
  "process_exit os =
     (let os = (case current_proc (os_sched os) of
                  Some c \<Rightarrow> upd_proc c (\<lambda>p. p\<lparr>pstate := PROC_ZOMBIE\<rparr>) os | None \<Rightarrow> os)
      in map_option (\<lambda>s. set_sched s os) (scheduler_yield (os_sched os)))"

text \<open>Waiting: \<open>others\<close> is what the other processes do from the yield on until the caller runs again.\<close>

partial_function (option) wait_loop ::
    "('a os_state_scheme \<Rightarrow> 'a os_state_scheme) \<Rightarrow> nat \<Rightarrow> 'a os_state_scheme \<Rightarrow> 'a os_state_scheme option" where
  "wait_loop others child os =
     (if pstate (os_proc os child) = PROC_ZOMBIE then Some os
      else case scheduler_yield (os_sched os) of None \<Rightarrow> None
           | Some s \<Rightarrow> wait_loop others child (others (set_sched s os)))"

definition process_waitpid :: "('a os_state_scheme \<Rightarrow> 'a os_state_scheme) \<Rightarrow> u32 \<Rightarrow> 'a os_state_scheme \<Rightarrow>
    ('a os_state_scheme \<times> int \<times> 32 word option) option" where
  "process_waitpid others n os =
     (if unat n \<ge> PROC_MAX then Some (os, -1, None)
      else
       let child = unat n in
       if pstate (os_proc os child) = PROC_UNUSED then Some (os, -1, None)
       else case current_proc (os_sched os) of None \<Rightarrow> None
       | Some c \<Rightarrow>
           if ppid (os_proc os child) \<noteq> pid (os_proc os c) then Some (os, -1, None)
           else
            case wait_loop others child os of None \<Rightarrow> None
            | Some os \<Rightarrow>
                case scheduler_remove child (os_sched os) of None \<Rightarrow> None
                | Some s \<Rightarrow>
                    let os = os\<lparr>os_sched := s\<rparr>
                    in Some (upd_proc child (\<lambda>p. p\<lparr>pstate := PROC_UNUSED\<rparr>) os, int child, Some (exit_status (os_proc os child))))"

definition process_init :: "sched_state \<Rightarrow> sched_state \<times> int" where
  "process_init st =
     (let st = for_range 0 PROC_MAX (\<lambda>i. set_proc i (\<lambda>p. p\<lparr>pstate := PROC_UNUSED\<rparr>)) st;
          st = set_proc 0 (\<lambda>p. p\<lparr>pid := 0, pstate := PROC_RUNNING, nxt := None, kstack := 0, pml4_phys := 0,
                 pname := name_field [0x69, 0x64, 0x6C, 0x65]\<rparr>) st
      in (st\<lparr>current_proc := Some 0\<rparr>, 0))"

text \<open>\<open>tick\<close> is the name of \<^verbatim>\<open>scheduler_tick\<close> in the timer's callback table.\<close>

definition scheduler_init :: "'cb \<Rightarrow> 'cb timer_state \<Rightarrow> sched_state \<Rightarrow> 'cb timer_state \<times> sched_state \<times> int" where
  "scheduler_init tick t st =
     (case process_get 0 st of None \<Rightarrow> (t, st, -1)
      | Some idle \<Rightarrow>
          let st = scheduler_add idle st in
          case timer_register_callback tick t of (t, r) \<Rightarrow> (t, st, if r \<noteq> 0 then -1 else 0))"

section \<open>Descriptors under updates\<close>

lemma os_proc_upd: "p < length (proc_table (os_sched os)) \<Longrightarrow> os_proc (upd_proc p f os) q = (if q = p then f (os_proc os p) else os_proc os q)"
  by (simp add: os_proc_def upd_proc_def proc_set_proc)

lemma os_proc_set [simp]: "os_proc (set_mem m os) q = os_proc os q" "os_proc (set_sched t os) q = proc t q"
  by (simp_all add: os_proc_def set_mem_def set_sched_def)

lemma os_parts [simp]:
  "length (proc_table (os_sched (upd_proc p f os))) = length (proc_table (os_sched os))"
  "length (proc_table (os_sched (set_mem m os))) = length (proc_table (os_sched os))"
  "current_proc (os_sched (upd_proc p f os)) = current_proc (os_sched os)" "current_proc (os_sched (set_mem m os)) = current_proc (os_sched os)"
  "run_queue (os_sched (upd_proc p f os)) = run_queue (os_sched os)" "run_queue (os_sched (set_mem m os)) = run_queue (os_sched os)"
  "os_mem (upd_proc p f os) = os_mem os" "os_mem (set_mem m os) = m" "os_sched (set_sched t os) = t"
  by (simp_all add: upd_proc_def set_mem_def set_sched_def)

lemma ring_cong:
  assumes "ring st xs" "run_queue st' = run_queue st" "length (proc_table st') = length (proc_table st)"
    and "\<And>q. q \<in> set xs \<Longrightarrow> nxt (proc st' q) = nxt (proc st q)"
  shows "ring st' xs"
proof -
  have "chain st' a xs b = chain st a xs b" for a b by (rule chain_cong) (rule assms(4))
  then show ?thesis using assms(1-3) by (auto simp: ring_def split: list.splits)
qed

lemma alloc_pidD: "alloc_pid st = Some n \<Longrightarrow> n < 64 \<and> pstate (proc st n) = PROC_UNUSED"
  by (simp add: alloc_pid_def scan_Some_iff)

text \<open>The invariant of the process table: the run queue is a ring of slots in use, and the current process is the one that runs.\<close>

definition proc_inv :: "'a os_state_scheme \<Rightarrow> nat list \<Rightarrow> nat \<Rightarrow> bool" where
  "proc_inv os xs c \<longleftrightarrow> sched_inv (os_sched os) xs c \<and> pstate (os_proc os c) = PROC_RUNNING \<and> (\<forall>p \<in> set xs. pstate (os_proc os p) \<noteq> PROC_UNUSED)"

lemma proc_invD:
  assumes "proc_inv os xs c"
  shows "length (proc_table (os_sched os)) = 64" "c < 64" "c \<in> set xs" "set xs \<subseteq> {..<64}" "distinct xs" "current_proc (os_sched os) = Some c"
    "ring (os_sched os) xs" "pstate (os_proc os c) = PROC_RUNNING"
  using assms sched_inv_bounds [of "os_sched os" xs c] unfolding proc_inv_def sched_inv_def by blast+

lemma proc_invI:
  assumes "ring (os_sched os) xs" "current_proc (os_sched os) = Some c" "c \<in> set xs" "pstate (os_proc os c) = PROC_RUNNING"
    and "\<And>p. p \<in> set xs \<Longrightarrow> pstate (os_proc os p) \<noteq> PROC_UNUSED" "\<And>p. p \<in> set xs \<Longrightarrow> p \<noteq> c \<Longrightarrow> pstate (os_proc os p) \<noteq> PROC_RUNNING"
  shows "proc_inv os xs c"
  using assms unfolding proc_inv_def sched_inv_def os_proc_def by blast

lemma proc_inv_states:
  assumes "proc_inv os xs c" "p \<in> set xs"
  shows "pstate (os_proc os p) \<noteq> PROC_UNUSED" "p \<noteq> c \<Longrightarrow> pstate (os_proc os p) \<noteq> PROC_RUNNING"
  using assms unfolding proc_inv_def sched_inv_def os_proc_def by blast+

text \<open>Changes to the slots in use that leave the links and states alone keep it.\<close>

lemma proc_inv_cong:
  assumes "proc_inv os xs c" "run_queue (os_sched os') = run_queue (os_sched os)" "length (proc_table (os_sched os')) = 64"
    and "current_proc (os_sched os') = Some c"
    and "\<And>q. q \<in> set xs \<Longrightarrow> nxt (os_proc os' q) = nxt (os_proc os q) \<and> pstate (os_proc os' q) = pstate (os_proc os q)"
  shows "proc_inv os' xs c"
proof -
  have "ring (os_sched os') xs"
    using ring_cong [OF proc_invD(7) [OF assms(1)] assms(2)] assms(3,5) proc_invD(1) [OF assms(1)] by (simp add: os_proc_def)
  moreover have "pstate (os_proc os' q) = pstate (os_proc os q)" if "q \<in> set xs" for q using assms(5) [OF that] by (rule conjunct2)
  ultimately show ?thesis using assms(1,4) unfolding proc_inv_def sched_inv_def os_proc_def by (intro conjI ballI impI) simp_all
qed

lemma free_slot_unqueued:
  assumes "proc_inv os xs c" "alloc_pid (os_sched os) = Some n"
  shows "n \<notin> set xs" "n < 64" "n \<noteq> c"
proof -
  have n: "n < 64" "pstate (os_proc os n) = PROC_UNUSED" using alloc_pidD [OF assms(2)] by (simp_all add: os_proc_def)
  show "n \<notin> set xs" using assms(1) n(2) by (auto simp only: proc_inv_def)
  then show "n \<noteq> c" using proc_invD(3) [OF assms(1)] by auto
  show "n < 64" by (rule n(1))
qed

lemma kmalloc_kstack: "kmalloc KSTACK_SIZE m = Some (large_alloc KSTACK_SIZE m)"
  by (simp add: kmalloc_def)

text \<open>A new descriptor joins the ring behind the head.\<close>

lemma proc_scheduler_add:
  assumes "ring st xs" "xs \<noteq> []" "p < 64" "p \<notin> set xs"
  shows "proc (scheduler_add p st) q = (if q = hd xs then (proc st q)\<lparr>nxt := Some p\<rparr> else if q = p then (proc st q)\<lparr>nxt := nxt (proc st (hd xs))\<rparr> else proc st q)"
    "current_proc (scheduler_add p st) = current_proc st" "length (proc_table (scheduler_add p st)) = length (proc_table st)"
proof -
  have h: "run_queue st = Some (hd xs)" "hd xs < 64" "length (proc_table st) = 64" "hd xs \<noteq> p" using assms by (cases xs; auto simp: ring_def)+
  then show "proc (scheduler_add p st) q = (if q = hd xs then (proc st q)\<lparr>nxt := Some p\<rparr> else if q = p then (proc st q)\<lparr>nxt := nxt (proc st (hd xs))\<rparr> else proc st q)"
    using assms(3) by (auto simp: scheduler_add_def Let_def proc_set_proc)
  show "current_proc (scheduler_add p st) = current_proc st" "length (proc_table (scheduler_add p st)) = length (proc_table st)"
    using h(1) by (simp_all add: scheduler_add_def Let_def)
qed

section \<open>Fork\<close>

text \<open>While a fork of \<open>c\<close> fills slot \<open>n\<close>, nothing else changes but the memory and the address space of \<open>c\<close>.\<close>

definition forking :: "nat \<Rightarrow> nat \<Rightarrow> 'a os_state_scheme \<Rightarrow> 'a os_state_scheme \<Rightarrow> bool" where
  "forking n c os os' \<longleftrightarrow> run_queue (os_sched os') = run_queue (os_sched os) \<and> length (proc_table (os_sched os')) = 64 \<and>
     current_proc (os_sched os') = current_proc (os_sched os) \<and>
     (\<forall>q. q \<noteq> n \<longrightarrow> (os_proc os' q)\<lparr>pml4_phys := 0\<rparr> = (os_proc os q)\<lparr>pml4_phys := 0\<rparr> \<and> (q \<noteq> c \<longrightarrow> os_proc os' q = os_proc os q))"

lemma forking_slot: "forking n c os os' \<Longrightarrow> n < 64 \<Longrightarrow> forking n c os (upd_proc n f os')"
  by (simp add: forking_def os_proc_upd)

lemma forking_mem: "forking n c os os' \<Longrightarrow> forking n c os (set_mem m os')"
  by (simp add: forking_def)

lemma forking_parent: "forking n c os os' \<Longrightarrow> c < 64 \<Longrightarrow> forking n c os (upd_proc c (\<lambda>p. p\<lparr>pml4_phys := a\<rparr>) os')"
  by (auto simp: forking_def os_proc_upd)

lemma forking_refl: "length (proc_table (os_sched os)) = 64 \<Longrightarrow> forking n c os os"
  by (simp add: forking_def)

lemma forking_fields:
  assumes "forking n c os os'" "q \<noteq> n"
  shows "pid (os_proc os' q) = pid (os_proc os q)" "pstate (os_proc os' q) = pstate (os_proc os q)" "nxt (os_proc os' q) = nxt (os_proc os q)"
    "user_rip (os_proc os' q) = user_rip (os_proc os q)" "user_rsp (os_proc os' q) = user_rsp (os_proc os q)" "user_rflags (os_proc os' q) = user_rflags (os_proc os q)"
proof -
  have e: "(os_proc os' q)\<lparr>pml4_phys := 0\<rparr> = (os_proc os q)\<lparr>pml4_phys := 0\<rparr>" using assms by (simp add: forking_def)
  show "pid (os_proc os' q) = pid (os_proc os q)" "pstate (os_proc os' q) = pstate (os_proc os q)" "nxt (os_proc os' q) = nxt (os_proc os q)"
    "user_rip (os_proc os' q) = user_rip (os_proc os q)" "user_rsp (os_proc os' q) = user_rsp (os_proc os q)" "user_rflags (os_proc os' q) = user_rflags (os_proc os q)"
    using arg_cong [OF e, of pid] arg_cong [OF e, of pstate] arg_cong [OF e, of nxt] arg_cong [OF e, of user_rip]
      arg_cong [OF e, of user_rsp] arg_cong [OF e, of user_rflags] by simp_all
qed

lemma forking_inv: "proc_inv os xs c \<Longrightarrow> n \<notin> set xs \<Longrightarrow> forking n c os os' \<Longrightarrow> proc_inv os' xs c"
proof -
  assume a: "proc_inv os xs c" "n \<notin> set xs" "forking n c os os'"
  have f: "run_queue (os_sched os') = run_queue (os_sched os)" "length (proc_table (os_sched os')) = 64" "current_proc (os_sched os') = Some c"
    using a(3) proc_invD(6) [OF a(1)] by (simp_all add: forking_def)
  have "nxt (os_proc os' q) = nxt (os_proc os q) \<and> pstate (os_proc os' q) = pstate (os_proc os q)" if "q \<in> set xs" for q
  proof -
    have "q \<noteq> n" using that a(2) by auto
    then show ?thesis using forking_fields(2,3) [OF a(3)] by simp
  qed
  then show ?thesis by (rule proc_inv_cong [OF a(1) f])
qed

text \<open>The descriptor of a forked child, in the state it joins the ring in.\<close>

definition forked :: "u64 \<Rightarrow> nat \<Rightarrow> process \<Rightarrow> process \<Rightarrow> bool" where
  "forked tramp n parent child \<longleftrightarrow> pid child = of_nat n \<and> ppid child = pid parent \<and> exit_status child = 0 \<and> pstate child = PROC_READY \<and>
     kstack child \<noteq> 0 \<and> pml4_phys child \<noteq> 0 \<and> user_rip child = user_rip parent \<and> user_rsp child = user_rsp parent \<and> user_rflags child = user_rflags parent \<and>
     ctx child = \<lparr>rbx = 0, rbp = 0, r12 = user_rip parent, r13 = user_rflags parent, r14 = user_rsp parent, r15 = 0,
       rsp = kstack child + KSTACK_SIZE - 8, rip = tramp\<rparr>"

lemma process_fork_cases:
  assumes inv: "proc_inv os xs c" and f: "process_fork tramp os = Some (os', r)"
  shows "r = -1 \<and> proc_inv os' xs c \<and> (\<forall>q \<in> set xs. q \<noteq> c \<longrightarrow> os_proc os' q = os_proc os q) \<or>
    (\<exists>n os1. alloc_pid (os_sched os) = Some n \<and> r = int n \<and> forking n c os os1 \<and> pml4_phys (os_proc os1 c) \<noteq> 0 \<and>
       forked tramp n (os_proc os c) (os_proc os1 n) \<and> os' = os1\<lparr>os_sched := scheduler_add n (os_sched os1)\<rparr>)"
proof (cases "alloc_pid (os_sched os)")
  case None
  then have "r = -1 \<and> os' = os" using f proc_invD(6) [OF inv] by (simp add: process_fork_def)
  then show ?thesis using inv by simp
next
  case (Some n)
  note n = free_slot_unqueued [OF inv Some] and d = proc_invD [OF inv]
  have failed: ?thesis if "forking n c os os2" "os' = os2" "r = -1" for os2
    using that forking_inv [OF inv n(1) that(1)] n(1) by (auto simp: forking_def)
  have failk: ?thesis if k: "forking n c os os2" "fork_fail n os2 = Some (os', r)" for os2
  proof -
    obtain m where "os' = upd_proc n (\<lambda>p. p\<lparr>pstate := PROC_UNUSED\<rparr>) (set_mem m os2)" "r = -1"
      using k(2) by (auto simp: fork_fail_def)
    then show ?thesis using failed [OF forking_slot [OF forking_mem [OF k(1)] n(2)]] by blast
  qed
  define os1 where "os1 = upd_proc n (\<lambda>p. p\<lparr>pid := of_nat n, ppid := pid (os_proc os c), exit_status := 0, pstate := PROC_READY, nxt := None,
    pname := name_field (pname (os_proc os c))\<rparr>) os"
  obtain m k where la: "large_alloc KSTACK_SIZE (os_mem os1) = (m, k)" by fastforce
  define os2 where "os2 = upd_proc n (\<lambda>p. p\<lparr>kstack := k\<rparr>) (set_mem m os1)"
  have f2: "forking n c os os2" unfolding os2_def os1_def by (intro forking_slot forking_mem forking_refl d(1) n(2))
  obtain m3 src where src: "(if pml4_phys (os_proc os2 c) \<noteq> 0 then (os_mem os2, pml4_phys (os_proc os2 c)) else vmm_create_user_pml4 (os_mem os2)) = (m3, src)"
    by fastforce
  define os4 where "os4 = upd_proc c (\<lambda>p. p\<lparr>pml4_phys := src\<rparr>) (set_mem m3 os2)"
  obtain m5 ch where ch: "vmm_fork_pml4 src (os_mem os4) = (m5, ch)" by fastforce
  define os5 where "os5 = upd_proc n (\<lambda>p. p\<lparr>pml4_phys := ch\<rparr>) (set_mem m5 os4)"
  have f3: "forking n c os (set_mem m3 os2)" using f2 by (rule forking_mem)
  have f5: "forking n c os os5" unfolding os5_def os4_def by (intro forking_slot forking_mem forking_parent f2 n(2) d(2))
  define cur where "cur = os_proc os5 c"
  define os6 where "os6 = upd_proc n (\<lambda>p. p\<lparr>user_rip := user_rip cur, user_rsp := user_rsp cur, user_rflags := user_rflags cur,
    ctx := \<lparr>rbx = 0, rbp = 0, r12 = user_rip cur, r13 = user_rflags cur, r14 = user_rsp cur, r15 = 0, rsp = k + KSTACK_SIZE - 8, rip = tramp\<rparr>\<rparr>) os5"
  have e: "Some (os', r) = (if k = 0 then Some (upd_proc n (\<lambda>p. p\<lparr>pstate := PROC_UNUSED\<rparr>) os2, -1)
     else if src = 0 then fork_fail n (set_mem m3 os2) else if ch = 0 then fork_fail n os5
     else Some (os6\<lparr>os_sched := scheduler_add n (os_sched os6)\<rparr>, int n))"
    unfolding f [symmetric] process_fork_def d(6) Some option.case kmalloc_kstack Let_def os1_def [symmetric] la prod.case
      os2_def [symmetric] src os4_def [symmetric] ch os5_def [symmetric] cur_def [symmetric] os6_def [symmetric] by (rule refl)
  have l: "length (proc_table (os_sched os)) = 64" by (rule d(1))
  consider "k = 0" | "k \<noteq> 0" "src = 0" | "k \<noteq> 0" "src \<noteq> 0" "ch = 0" | "k \<noteq> 0" "src \<noteq> 0" "ch \<noteq> 0" by blast
  then show ?thesis
  proof cases
    case 1
    then show ?thesis using e failed [OF forking_slot [OF f2 n(2)]] by simp
  next
    case 2
    then show ?thesis using e failk [OF f3] by simp
  next
    case 3
    then show ?thesis using e failk [OF f5] by simp
  next
    case 4
    have f6: "forking n c os os6" unfolding os6_def using f5 n(2) by (rule forking_slot)
    have cu: "user_rip cur = user_rip (os_proc os c)" "user_rsp cur = user_rsp (os_proc os c)" "user_rflags cur = user_rflags (os_proc os c)"
      unfolding cur_def using forking_fields(4-6) [OF f5] n(3) by simp_all
    have "forked tramp n (os_proc os c) (os_proc os6 n)"
      using 4 n d(2) l by (simp add: forked_def os6_def os5_def os4_def os2_def os1_def os_proc_upd cu)
    moreover have "pml4_phys (os_proc os6 c) \<noteq> 0" using 4 n d(2) l by (simp add: os6_def os5_def os4_def os2_def os1_def os_proc_upd)
    ultimately show ?thesis using 4 e f6 Some by auto
  qed
qed

text \<open>The one way in which fork does not return: memory runs out after the stack was allocated, and releasing the stack does not end.\<close>

definition fork_stuck :: "nat \<Rightarrow> 'a os_state_scheme \<Rightarrow> bool" where
  "fork_stuck c os \<longleftrightarrow> (case large_alloc KSTACK_SIZE (os_mem os) of (m, k) \<Rightarrow> k \<noteq> 0 \<and>
     (case if pml4_phys (os_proc os c) \<noteq> 0 then (m, pml4_phys (os_proc os c)) else vmm_create_user_pml4 m of (m, src) \<Rightarrow>
      if src = 0 then kfree k m = None
      else case vmm_fork_pml4 src m of (m, child) \<Rightarrow> child = 0 \<and> kfree k m = None))"

lemma process_fork_stuck:
  assumes inv: "proc_inv os xs c" and none: "process_fork tramp os = None"
  shows "fork_stuck c os"
proof (cases "alloc_pid (os_sched os)")
  case None
  then show ?thesis using none proc_invD(6) [OF inv] by (simp add: process_fork_def)
next
  case (Some n)
  have l: "n < length (proc_table (os_sched os))" using alloc_pidD [OF Some] proc_invD(1) [OF inv] by simp
  have l': "c < length (proc_table (os_sched os))" "n \<noteq> c" using proc_invD(1,2) [OF inv] free_slot_unqueued(3) [OF inv Some] by simp_all
  obtain m k where la: "large_alloc KSTACK_SIZE (os_mem os) = (m, k)" by fastforce
  obtain m3 src where src: "(if pml4_phys (os_proc os c) \<noteq> 0 then (m, pml4_phys (os_proc os c)) else vmm_create_user_pml4 m) = (m3, src)"
    by fastforce
  obtain m5 ch where ch: "vmm_fork_pml4 src m3 = (m5, ch)" by fastforce
  have nc: "pml4_phys (os_proc (upd_proc n (\<lambda>p. p\<lparr>kstack := k\<rparr>) (set_mem m (upd_proc n f os))) c) = pml4_phys (os_proc os c)" for f
    using l l' by (simp add: os_proc_upd)
  show ?thesis using none l l' unfolding process_fork_def proc_invD(6) [OF inv] Some option.case kmalloc_kstack Let_def fork_stuck_def os_parts la prod.case nc src ch
    by (cases "k = 0"; cases "src = 0"; cases "ch = 0") (simp_all add: os_proc_upd src ch la fork_fail_def del: KSTACK_SIZE_def)
qed

lemma forked_added:
  assumes "proc_inv os xs c" "forking n c os os1" "n \<notin> set xs" "n < 64" "n \<noteq> c" "forked tramp n (os_proc os c) (os_proc os1 n)"
    and "os' = os1\<lparr>os_sched := scheduler_add n (os_sched os1)\<rparr>"
  shows "proc_inv os' (hd xs # n # tl xs) c \<and> forked tramp n (os_proc os c) (os_proc os' n) \<and> pml4_phys (os_proc os' c) = pml4_phys (os_proc os1 c) \<and>
    (\<forall>q. q \<noteq> n \<and> q \<noteq> c \<longrightarrow> (os_proc os' q)\<lparr>nxt := None\<rparr> = (os_proc os q)\<lparr>nxt := None\<rparr>)"
proof -
  have inv: "proc_inv os1 xs c" by (rule forking_inv [OF assms(1,3,2)])
  note d = proc_invD [OF inv]
  have ne: "xs \<noteq> []" using d(3) by auto
  note pr = proc_scheduler_add [OF d(7) ne assms(4,3)]
  have h: "hd xs \<noteq> n" using ne assms(3) by (cases xs) auto
  have os': "os_proc os' q = (if q = hd xs then (os_proc os1 q)\<lparr>nxt := Some n\<rparr> else if q = n then (os_proc os1 q)\<lparr>nxt := nxt (os_proc os1 (hd xs))\<rparr> else os_proc os1 q)" for q
    unfolding assms(7) os_proc_def by (simp add: pr)
  have "ring (os_sched os') (case xs of [] \<Rightarrow> [n] | h # ys \<Rightarrow> h # n # ys)"
    unfolding assms(7) using scheduler_add_ring [OF d(7) assms(4,3)] by simp
  then have r: "ring (os_sched os') (hd xs # n # tl xs)" using ne by (cases xs) simp_all
  have st: "pstate (os_proc os' q) = pstate (os_proc os1 q)" for q by (simp add: os')
  have fn: "pstate (os_proc os1 n) = PROC_READY" using assms(6) by (simp add: forked_def)
  have set: "set (hd xs # n # tl xs) = insert n (set xs)" using ne by (cases xs) auto
  have cur: "current_proc (os_sched os') = Some c" unfolding assms(7) using d(6) by (simp add: pr)
  have "proc_inv os' (hd xs # n # tl xs) c"
  proof (rule proc_invI [OF r cur], unfold set st)
    show "c \<in> insert n (set xs)" "pstate (os_proc os1 c) = PROC_RUNNING" using d(3,8) by simp_all
    fix p assume "p \<in> insert n (set xs)"
    then show "pstate (os_proc os1 p) \<noteq> PROC_UNUSED" "p \<noteq> c \<Longrightarrow> pstate (os_proc os1 p) \<noteq> PROC_RUNNING"
      using proc_inv_states [OF inv] fn by (metis insert_iff proc_state.distinct(1,9))+
  qed
  moreover have "forked tramp n (os_proc os c) (os_proc os' n)" using assms(6) h unfolding forked_def by (simp add: os')
  moreover have "pml4_phys (os_proc os' c) = pml4_phys (os_proc os1 c)" using assms(5) by (simp add: os')
  moreover have "(os_proc os' q)\<lparr>nxt := None\<rparr> = (os_proc os q)\<lparr>nxt := None\<rparr>" if "q \<noteq> n" "q \<noteq> c" for q
  proof -
    have "os_proc os1 q = os_proc os q" using assms(2) that by (simp add: forking_def)
    then show ?thesis using that by (cases "q = hd xs") (simp_all add: os')
  qed
  ultimately show ?thesis by blast
qed


section \<open>Waiting\<close>

text \<open>The waiting loop as a relation: the caller yields and the others run until the child has exited.\<close>

inductive waits :: "('a os_state_scheme \<Rightarrow> 'a os_state_scheme) \<Rightarrow> nat \<Rightarrow> 'a os_state_scheme \<Rightarrow> 'a os_state_scheme \<Rightarrow> bool" for others child where
  exited: "pstate (os_proc os child) = PROC_ZOMBIE \<Longrightarrow> waits others child os os"
| yielded: "pstate (os_proc os child) \<noteq> PROC_ZOMBIE \<Longrightarrow> scheduler_yield (os_sched os) = Some s \<Longrightarrow>
    waits others child (others (set_sched s os)) os1 \<Longrightarrow> waits others child os os1"

lemma waits_loop: "waits others child os os1 \<Longrightarrow> wait_loop others child os = Some os1"
  by (induction rule: waits.induct) (subst wait_loop.simps, simp)+

lemma wait_loop_waits:
  fixes os os1 :: "'a os_state_scheme"
  assumes "wait_loop others child os = Some os1"
  shows "waits others child os os1"
proof (rule wait_loop.raw_induct [OF _ assms, where P = "\<lambda>f n s t. waits f n s t"])
  fix wl and f :: "'a os_state_scheme \<Rightarrow> 'a os_state_scheme" and n s t
  assume ih: "\<And>f n s t. wl f n s = Some t \<Longrightarrow> waits f n s t"
    and b: "(if pstate (os_proc s n) = PROC_ZOMBIE then Some s
      else case scheduler_yield (os_sched s) of None \<Rightarrow> None | Some u \<Rightarrow> wl f n (f (set_sched u s))) = Some t"
  show "waits f n s t"
  proof (cases "pstate (os_proc s n) = PROC_ZOMBIE")
    case True
    then show ?thesis using b by (simp add: waits.exited)
  next
    case False
    then obtain u where u: "scheduler_yield (os_sched s) = Some u" "wl f n (f (set_sched u s)) = Some t"
      using b by (simp split: option.splits)
    from ih [OF u(2)] show ?thesis by (rule waits.yielded [OF False u(1)])
  qed
qed

lemma waits_zombie: "waits others child os os1 \<Longrightarrow> pstate (os_proc os1 child) = PROC_ZOMBIE"
  by (induction rule: waits.induct)

lemma unlink_links_only:
  "length (proc_table st) = 64 \<Longrightarrow> p < 64 \<Longrightarrow> v < 64 \<Longrightarrow> (proc (unlink v p st) q)\<lparr>nxt := None\<rparr> = (proc st q)\<lparr>nxt := None\<rparr>"
  "current_proc (unlink v p st) = current_proc st" "length (proc_table (unlink v p st)) = length (proc_table st)"
  by (auto simp: unlink_def Let_def proc_set_proc)

text \<open>C19. A process that waits for a child gets the child's number and exit status once the child has exited, whatever the others do in
  between; the child leaves the run queue, its slot is free for the next fork, and the other descriptors keep everything but their links.
  Its kernel stack and address space are not released: memory is untouched.\<close>

theorem process_waitpid_reaps:
  assumes "proc_inv os xs c" "child \<in> set xs" "ppid (os_proc os child) = pid (os_proc os c)"
    and "waits others child os os1" "proc_inv os1 ys c" "child \<in> set ys"
  shows "\<exists>os'. process_waitpid others (of_nat child) os = Some (os', int child, Some (exit_status (os_proc os1 child))) \<and>
    proc_inv os' (remove1 child ys) c \<and> pstate (os_proc os' child) = PROC_UNUSED \<and> os_mem os' = os_mem os1 \<and>
    (\<forall>q. q \<noteq> child \<longrightarrow> (os_proc os' q)\<lparr>nxt := None\<rparr> = (os_proc os1 q)\<lparr>nxt := None\<rparr>)"
proof -
  note d = proc_invD [OF assms(5)]
  have b: "child < 64" using assms(2) proc_invD(4) [OF assms(1)] by auto
  then have u: "unat (of_nat child :: u32) = child" by (simp only: unat_of_nat) simp
  have z: "pstate (os_proc os1 child) = PROC_ZOMBIE" by (rule waits_zombie [OF assms(4)])
  have ne: "child \<noteq> c" using z d(8) by auto
  obtain v where v: "v \<in> set ys" "scheduler_remove child (os_sched os1) = Some (unlink v child (os_sched os1))"
      "ring (unlink v child (os_sched os1)) (remove1 child ys)"
    using scheduler_remove_ring [OF d(7) assms(6)] by blast
  then have vb: "v < 64" using d(4) by auto
  define os2 where "os2 = os1\<lparr>os_sched := unlink v child (os_sched os1)\<rparr>"
  define os' where "os' = upd_proc child (\<lambda>p. p\<lparr>pstate := PROC_UNUSED\<rparr>) os2"
  have p2: "(os_proc os2 q)\<lparr>nxt := None\<rparr> = (os_proc os1 q)\<lparr>nxt := None\<rparr>" for q
    unfolding os_proc_def os2_def using unlink_links_only(1) [OF d(1) b vb] by simp
  have st2: "pstate (os_proc os2 q) = pstate (os_proc os1 q)" "exit_status (os_proc os2 q) = exit_status (os_proc os1 q)" for q
    using arg_cong [OF p2, of pstate] arg_cong [OF p2, of exit_status] by simp_all
  have l2: "length (proc_table (os_sched os2)) = 64" "current_proc (os_sched os2) = Some c" using d(1,6) by (simp_all add: os2_def unlink_links_only)
  have pr: "os_proc os' q = (if q = child then (os_proc os2 child)\<lparr>pstate := PROC_UNUSED\<rparr> else os_proc os2 q)" for q
    unfolding os'_def using b l2 by (simp add: os_proc_upd)
  have "pstate (os_proc os child) \<noteq> PROC_UNUSED" using assms(1,2) by (simp add: proc_inv_def)
  then have call: "process_waitpid others (of_nat child) os = Some (os', int child, Some (exit_status (os_proc os1 child)))"
    using assms(3) b proc_invD(6) [OF assms(1)] waits_loop [OF assms(4)] v(2)
    by (simp add: process_waitpid_def u os'_def os2_def [symmetric] st2)
  have "set (remove1 child ys) = set ys - {child}" using d(5) by simp
  moreover have "ring (os_sched os') (remove1 child ys)"
    by (rule ring_cong [of "os_sched os2"]) (use v(3) d(5) pr in \<open>auto simp: os'_def os2_def os_proc_def\<close>)
  moreover have "current_proc (os_sched os') = Some c" using l2 by (simp add: os'_def)
  ultimately have "proc_inv os' (remove1 child ys) c"
    using ne d(3,8) proc_inv_states [OF assms(5)] by (intro proc_invI) (auto simp: pr st2)
  moreover have "os_mem os' = os_mem os1" by (simp add: os'_def os2_def)
  ultimately show ?thesis using call pr p2 by auto
qed

section \<open>A machine that forks\<close>

text \<open>Process 0 of the sample ring runs in an address space without user pages; the frames 1 to 63 are free.\<close>

definition demo_mem :: heap_state where
  "demo_mem = \<lparr>pmm = pmm_demo, kmem = (\<lambda>_. 0), vmm_pml4 = 0x40000, kernel_pml4 = 0x40000, vcr3 = 0x40000, caches = []\<rparr>"

definition demo_os :: os_state where
  "demo_os = \<lparr>os_mem = demo_mem, os_sched = set_proc 0 (\<lambda>p. p\<lparr>pml4_phys := 0x40000, user_rip := 0x401000, user_rsp := 0x7FFFE000, user_rflags := 0x202\<rparr>) sample_sched\<rparr>"

lemma demo_os_inv: "proc_inv demo_os [0, 3, 1, 2] 0"
  by (rule proc_invI) (simp_all add: demo_os_def ring_def sample_sched_def set_proc_def proc_def os_proc_def sample_proc_def, auto)

lemma fork_returns:
  assumes "current_proc (os_sched os) = Some c" "alloc_pid (os_sched os) = Some n" "length (proc_table (os_sched os)) = 64" "n \<noteq> c" "n < 64" "c < 64"
    and "large_alloc KSTACK_SIZE (os_mem os) = (m, k)" "k \<noteq> 0" "pml4_phys (os_proc os c) \<noteq> 0" "vmm_fork_pml4 (pml4_phys (os_proc os c)) m = (m', ch)" "ch \<noteq> 0"
  shows "\<exists>os'. process_fork tramp os = Some (os', int n)"
  using assms unfolding process_fork_def kmalloc_kstack Let_def by (simp add: os_proc_upd)

lemma large_alloc_kstack:
  assumes "vm_ok m" "3 \<le> card (free_set (pmm m))"
  shows "\<exists>m' f. large_alloc KSTACK_SIZE m = (m', PHYS_TO_VIRT f + 8) \<and> is_table f \<and> page_no f \<in> free_set (pmm m) \<and> vm_ok m' \<and> free_set (pmm m') \<subseteq> free_set (pmm m) \<and>
    card (free_set (pmm m)) \<le> card (free_set (pmm m')) + 3 \<and> kmem m' = (kmem m)(PHYS_TO_VIRT f := 3)"
proof -
  have fin: "finite (free_set (pmm x))" for x :: heap_state by (rule finite_subset [of _ "{..<PMM_MAX_FRAMES}"]) (auto simp: free_set_def)
  obtain m1 f where a1: "alloc_frame m = (m1, f)" by fastforce
  obtain m2 g where a2: "alloc_frame m1 = (m2, g)" by fastforce
  obtain m3 h where a3: "alloc_frame m2 = (m3, h)" by fastforce
  note e1 = alloc_frame_effect [OF assms(1) a1] note e2 = alloc_frame_effect [OF e1(1) a2] note e3 = alloc_frame_effect [OF e2(1) a3]
  have f: "f \<noteq> 0" using e1(2) assms(2) by auto
  then have c1: "card (free_set (pmm m1)) = card (free_set (pmm m)) - 1" using e1(4) fin by (simp add: card_Diff_singleton)
  have g: "g \<noteq> 0" using e2(2) c1 assms(2) by auto
  then have c2: "card (free_set (pmm m2)) = card (free_set (pmm m1)) - 1" using e2(4) fin by (simp add: card_Diff_singleton)
  have h: "h \<noteq> 0" using e3(2) c1 c2 assms(2) by auto
  then have c3: "card (free_set (pmm m3)) = card (free_set (pmm m2)) - 1" using e3(4) fin by (simp add: card_Diff_singleton)
  have n: "(KSTACK_SIZE + 8 + SLAB_SIZE - 1) div SLAB_SIZE = 3" "unat (3 :: u64) - 1 = Suc (Suc 0)" "(3 :: u64) \<noteq> 0" by simp_all
  have "large_frames (Suc (Suc 0)) m1 = (m3, True)" using g h by (simp add: a2 a3)
  then have "large_alloc KSTACK_SIZE m = (wr (PHYS_TO_VIRT f) 3 m3, PHYS_TO_VIRT f + 8)"
    unfolding large_alloc_def Let_def n(1) if_not_P [OF n(3)] a1 prod.case if_not_P [OF f] n(2) by simp
  moreover have "vm_ok (wr (PHYS_TO_VIRT f) 3 m3)" using e3(1) by simp
  moreover have "free_set (pmm m3) \<subseteq> free_set (pmm m)" using e1(4) e2(4) e3(4) f g h by auto
  moreover have "kmem m3 = kmem m" using e1(3) e2(3) e3(3) by simp
  ultimately show ?thesis using e1(4) f c1 c2 c3 assms(2) by (intro exI [of _ "wr (PHYS_TO_VIRT f) 3 m3"] exI [of _ f]) (simp add: wr_def)
qed

text \<open>Cloning an empty range of entries writes only zeros.\<close>

lemma clone_loop_absent:
  assumes "\<And>a. a \<noteq> x \<Longrightarrow> kmem st a = 0" "\<And>j. i \<le> j \<Longrightarrow> j < i + n \<Longrightarrow> src + 8 * of_nat j \<noteq> x"
  shows "\<exists>st'. clone_loop sub b src dst i n st = (st', True) \<and> pmm st' = pmm st \<and> (\<forall>a. a \<noteq> x \<longrightarrow> kmem st' a = 0)"
  using assms
proof (induction n arbitrary: i st)
  case 0
  then show ?case by simp
next
  case (Suc n)
  have "kmem st (src + 8 * of_nat i) = 0" using Suc.prems(2) [of i] by (intro Suc.prems(1)) simp
  moreover have "\<exists>st'. clone_loop sub b src dst (Suc i) n (wr (dst + 8 * of_nat i) 0 st) = (st', True) \<and> pmm st' = pmm (wr (dst + 8 * of_nat i) 0 st) \<and> (\<forall>a. a \<noteq> x \<longrightarrow> kmem st' a = 0)"
    by (rule Suc.IH) (use Suc.prems in \<open>simp_all add: wr_def\<close>)
  ultimately show ?case by (simp add: Let_def)
qed

lemma demo_fork: "\<exists>os'. process_fork tramp demo_os = Some (os', 4)"
proof -
  have ok: "vm_ok demo_mem" using pmm_demo_ok by (auto simp: vm_ok_def demo_mem_def pmm_demo_free)
  have card: "card (free_set (pmm demo_mem)) = 63" by (simp add: demo_mem_def pmm_demo_free)
  then have "3 \<le> card (free_set (pmm demo_mem))" by simp
  from large_alloc_kstack [OF ok this] obtain m f where m: "large_alloc KSTACK_SIZE demo_mem = (m, PHYS_TO_VIRT f + 8)" "is_table f" "page_no f \<in> free_set (pmm demo_mem)"
    "vm_ok m" "63 \<le> card (free_set (pmm m)) + 3" "kmem m = (kmem demo_mem)(PHYS_TO_VIRT f := 3)" unfolding card by blast
  obtain m1 g where g: "alloc_frame m = (m1, g)" by fastforce
  note e = alloc_frame_effect [OF m(4) g]
  have gz: "g \<noteq> 0" using e(2) m(5) by auto
  have km: "kmem m1 a = 0" if "a \<noteq> PHYS_TO_VIRT f" for a using e(3) m(6) that by (simp add: demo_mem_def)
  have t: "is_table 0x40000" by (simp add: is_table_def page_no_def PTE_ADDR_MASK_def)
  have ne: "(0x40000 :: u64) \<noteq> f" using m(3) by (auto simp: demo_mem_def pmm_demo_free page_no_def)
  have far: "PHYS_TO_VIRT 0x40000 + 8 * of_nat j \<noteq> PHYS_TO_VIRT f" if "j < 512" for j
    using table_addr_inj [OF t m(2) that, of 0] ne by auto
  define m2 where "m2 = copy_cells (PHYS_TO_VIRT g + 8 * 256) (PHYS_TO_VIRT 0x40000 + 8 * 256) 256 (zero_cells (PHYS_TO_VIRT g) 256 m1)"
  have "\<forall>a. a \<noteq> PHYS_TO_VIRT f \<longrightarrow> kmem m2 a = 0"
    unfolding m2_def copy_cells_def
  proof (rule for_range_inv [where I = "\<lambda>_ s. \<forall>a. a \<noteq> PHYS_TO_VIRT f \<longrightarrow> kmem s a = 0"])
    fix i s assume i: "i < (256 :: nat)" and s: "\<forall>a. a \<noteq> PHYS_TO_VIRT f \<longrightarrow> kmem s a = 0"
    have ad: "PHYS_TO_VIRT 0x40000 + 8 * 256 + 8 * of_nat i = PHYS_TO_VIRT 0x40000 + 8 * of_nat (256 + i)" by (simp add: algebra_simps)
    have "kmem s (PHYS_TO_VIRT 0x40000 + 8 * 256 + 8 * of_nat i) = 0" unfolding ad using s far [of "256 + i"] i by (simp del: of_nat_add)
    then show "\<forall>a. a \<noteq> PHYS_TO_VIRT f \<longrightarrow> kmem (wr (PHYS_TO_VIRT g + 8 * 256 + 8 * of_nat i) (kmem s (PHYS_TO_VIRT 0x40000 + 8 * 256 + 8 * of_nat i)) s) a = 0"
      using s by (simp add: wr_def)
  qed (simp_all add: zero_cells_eq km)
  then obtain m3 where m3: "clone_loop cow_clone_pdpt False (PHYS_TO_VIRT 0x40000) (PHYS_TO_VIRT g) 0 256 m2 = (m3, True)"
    using clone_loop_absent [of "PHYS_TO_VIRT f" m2 0 256 "PHYS_TO_VIRT 0x40000" cow_clone_pdpt False "PHYS_TO_VIRT g"] far by auto
  have fk: "vmm_fork_pml4 0x40000 m = (m3\<lparr>vcr3 := 0x40000\<rparr>, g)"
    unfolding vmm_fork_pml4_def g prod.case if_not_P [OF gz] Let_def m2_def [symmetric] m3 by simp
  have pid: "alloc_pid (os_sched demo_os) = Some 4"
    by (simp add: alloc_pid_def scan_Some_iff demo_os_def sample_sched_def set_proc_def proc_def sample_proc_def less_Suc_eq eval_nat_numeral)
  have p: "pml4_phys (os_proc demo_os 0) = 0x40000" by (simp add: demo_os_def os_proc_def proc_def set_proc_def sample_sched_def)
  have "PHYS_TO_VIRT f + 8 \<noteq> 0"
  proof
    assume "PHYS_TO_VIRT f + 8 = 0"
    then have "f = - (KERNEL_VMA + 8)" by (simp add: PHYS_TO_VIRT_def eq_neg_iff_add_eq_0 algebra_simps)
    then have "f = 0x7FFFFFF8" by (simp add: KERNEL_VMA_def)
    then show False using m(3) by (simp add: demo_mem_def pmm_demo_free page_no_def)
  qed
  moreover have "os_mem demo_os = demo_mem" by (simp add: demo_os_def)
  moreover have "current_proc (os_sched demo_os) = Some 0" "length (proc_table (os_sched demo_os)) = 64"
    by (simp_all add: demo_os_def sample_sched_def)
  ultimately show ?thesis
    using fork_returns [of demo_os 0 4 m "PHYS_TO_VIRT f + 8"] pid m(1) p fk gz by simp
qed


theorem process_waitpid_reaps_witness:
  "\<exists>os'. process_waitpid id 3 demo_os = Some (os', 3, Some 0) \<and> proc_inv os' [0, 1, 2] 0 \<and> pstate (os_proc os' 3) = PROC_UNUSED"
proof -
  have z: "pstate (os_proc demo_os 3) = PROC_ZOMBIE" "ppid (os_proc demo_os 3) = pid (os_proc demo_os 0)" "exit_status (os_proc demo_os 3) = 0"
    by (simp_all add: demo_os_def os_proc_def proc_def set_proc_def sample_sched_def sample_proc_def)
  show ?thesis using process_waitpid_reaps [OF demo_os_inv _ z(2) waits.exited [OF z(1)] demo_os_inv, of id] z(3) by auto
qed

end
