(* ===== verification/Wire.thy ===== *)
theory Wire
  imports Prelude
begin

text \<open>
  Packet bytes: fields of the packed header structures as the little-endian processor reads and writes
  them, the byte-order helpers of \<^verbatim>\<open>src/net/ethernet/ethernet_internal.h\<close>, and the Internet checksum in the
  three forms the stack has (\<^verbatim>\<open>ip_checksum\<close>, \<^verbatim>\<open>csum_native\<close>, \<^verbatim>\<open>csum_add\<close>). The lemmas show that byte order
  conversion of fields is the big-endian wire format, and that a packet with its checksum filled in sums
  to zero.
\<close>

section \<open>Fields\<close>

text \<open>\<open>get16 b i\<close> is the value of a \<^verbatim>\<open>u16\<close> field at offset \<open>i\<close>; \<open>put16\<close> stores one.\<close>

definition get16 :: "u8 list \<Rightarrow> nat \<Rightarrow> u16" where
  "get16 b i = ucast (b ! i) OR push_bit 8 (ucast (b ! Suc i))"

definition put16 :: "nat \<Rightarrow> u16 \<Rightarrow> u8 list \<Rightarrow> u8 list" where
  "put16 i v b = b[i := ucast v, Suc i := ucast (drop_bit 8 v)]"

definition get32 :: "u8 list \<Rightarrow> nat \<Rightarrow> u32" where
  "get32 b i = ucast (b ! i) OR push_bit 8 (ucast (b ! (i + 1))) OR push_bit 16 (ucast (b ! (i + 2))) OR
     push_bit 24 (ucast (b ! (i + 3)))"

definition le16 :: "u16 \<Rightarrow> u8 list" where
  "le16 v = [ucast v, ucast (drop_bit 8 v)]"

definition le32 :: "u32 \<Rightarrow> u8 list" where
  "le32 v = [ucast v, ucast (drop_bit 8 v), ucast (drop_bit 16 v), ucast (drop_bit 24 v)]"

section \<open>Byte order\<close>

definition htons :: "u16 \<Rightarrow> u16" where
  "htons v = drop_bit 8 v OR push_bit 8 v"

definition ntohs :: "u16 \<Rightarrow> u16" where
  "ntohs v = drop_bit 8 v OR push_bit 8 v"

definition htonl :: "u32 \<Rightarrow> u32" where
  "htonl v = push_bit 24 (v AND 0x000000FF) OR push_bit 8 (v AND 0x0000FF00) OR
     drop_bit 8 (v AND 0x00FF0000) OR drop_bit 24 (v AND 0xFF000000)"

definition ntohl :: "u32 \<Rightarrow> u32" where
  "ntohl v = htonl v"

section \<open>Checksums\<close>

text \<open>The sum loops: native (little-endian) words with an odd last byte added as it is, and big-endian words
  with an odd last byte as the high half.\<close>

fun csum_native :: "u32 \<Rightarrow> u8 list \<Rightarrow> u32" where
  "csum_native acc (a # b # rest) = csum_native (acc + (ucast a + push_bit 8 (ucast b))) rest"
| "csum_native acc [a] = acc + ucast a"
| "csum_native acc [] = acc"

fun csum_add :: "u32 \<Rightarrow> u8 list \<Rightarrow> u32" where
  "csum_add acc (a # b # rest) = csum_add (acc + (push_bit 8 (ucast a) OR ucast b)) rest"
| "csum_add acc [a] = acc + push_bit 8 (ucast a)"
| "csum_add acc [] = acc"

text \<open>\<^verbatim>\<open>while (sum >> 16) sum = (sum & 0xFFFF) + (sum >> 16);\<close>\<close>

function csum_fold :: "u32 \<Rightarrow> u32" where
  "csum_fold s = (if drop_bit 16 s \<noteq> 0 then csum_fold ((s AND 0xFFFF) + drop_bit 16 s) else s)"
  by pat_completeness auto

lemma fold_step: "unat ((s AND 0xFFFF) + drop_bit 16 s) = unat s mod 65536 + unat s div 65536" for s :: u32
proof -
  have m: "unat (s AND 0xFFFF) = unat s mod 65536"
    using unat_and_mask [of s 16] by (simp add: mask_eq_exp_minus_1)
  have d: "unat (drop_bit 16 s) = unat s div 65536" by (simp add: unat_drop_bit)
  have "unat s div 65536 < 65536" using unat_lt_32 [of s] by simp
  moreover have "unat s mod 65536 < 65536" by simp
  ultimately show ?thesis
    using m d by (subst unat_add_lem [THEN iffD1]) simp_all
qed

lemma drop16_nonzero: "drop_bit 16 s \<noteq> 0 \<longleftrightarrow> 65536 \<le> unat s" for s :: u32
proof -
  have "drop_bit 16 s = 0 \<longleftrightarrow> unat (drop_bit 16 s) = 0" by (simp add: unat_eq_zero)
  also have "\<dots> \<longleftrightarrow> unat s div 65536 = 0" by (simp add: unat_drop_bit)
  also have "\<dots> \<longleftrightarrow> unat s < 65536" by (simp add: div_eq_0_iff)
  finally show ?thesis by (simp add: not_less)
qed

termination csum_fold
proof (relation "measure unat")
  fix s :: u32 assume "drop_bit 16 s \<noteq> 0"
  then have "65536 \<le> unat s" by (simp add: drop16_nonzero)
  then have "0 < unat s div 65536" by (simp add: div_greater_zero_iff)
  then have "unat s mod 65536 + unat s div 65536 < unat s" using div_mult_mod_eq [of "unat s" 65536] by linarith
  then show "((s AND 0xFFFF) + drop_bit 16 s, s) \<in> measure unat" by (simp add: fold_step)
qed simp

declare csum_fold.simps [simp del]

definition ip_checksum :: "u8 list \<Rightarrow> u16" where
  "ip_checksum data = ucast (NOT (csum_fold (csum_native 0 data)))"

section \<open>Byte order and fields\<close>

lemma ntohs_htons [simp]: "ntohs (htons v) = v"
proof (rule bit_eqI)
  fix n assume "possible_bit TYPE(u16) n"
  then show "bit (ntohs (htons v)) n = bit v n" by (cases "n < 8") (auto simp: ntohs_def htons_def bit_simps)
qed

lemma htons_ntohs: "ntohs v = htons v"
  by (simp add: ntohs_def htons_def)

lemma le16_htons: "le16 (htons v) = [ucast (drop_bit 8 v), ucast v]"
proof -
  have "(ucast (htons v) :: u8) = ucast (drop_bit 8 v)" by (rule bit_eqI) (auto simp: htons_def bit_simps)
  moreover have "(ucast (drop_bit 8 (htons v)) :: u8) = ucast v" by (rule bit_eqI) (auto simp: htons_def bit_simps)
  ultimately show ?thesis by (simp add: le16_def)
qed

lemma byte_masks: "(0x000000FF :: u32) = mask 8" "(0x0000FF00 :: u32) = push_bit 8 (mask 8)"
  "(0x00FF0000 :: u32) = push_bit 16 (mask 8)" "(0xFF000000 :: u32) = push_bit 24 (mask 8)"
  by (simp_all add: mask_eq_exp_minus_1 push_bit_eq_mult)

lemma htonl_bit: "bit (htonl v) n \<longleftrightarrow> (n < 8 \<and> bit v (n + 24)) \<or> (8 \<le> n \<and> n < 16 \<and> bit v (n + 8)) \<or>
    (16 \<le> n \<and> n < 24 \<and> bit v (n - 8)) \<or> (24 \<le> n \<and> n < 32 \<and> bit v (n - 24))"
proof -
  have 1: "bit (push_bit 24 (v AND mask 8)) n \<longleftrightarrow> 24 \<le> n \<and> n < 32 \<and> bit v (n - 24)" by (auto simp: bit_simps)
  have 2: "bit (push_bit 8 (v AND push_bit 8 (mask 8))) n \<longleftrightarrow> 16 \<le> n \<and> n < 24 \<and> bit v (n - 8)" by (auto simp: bit_simps)
  have 3: "bit (drop_bit 8 (v AND push_bit 16 (mask 8))) n \<longleftrightarrow> 8 \<le> n \<and> n < 16 \<and> bit v (n + 8)"
    by (auto simp: bit_simps add.commute)
  have 4: "bit (drop_bit 24 (v AND push_bit 24 (mask 8))) n \<longleftrightarrow> n < 8 \<and> bit v (n + 24)" by (auto simp: bit_simps add.commute)
  show ?thesis unfolding htonl_def byte_masks bit_or_iff 1 2 3 4 by blast
qed

lemma ntohl_htonl [simp]: "ntohl (htonl v) = v"
proof (rule bit_eqI)
  fix n assume "possible_bit TYPE(u32) n"
  then have "n < 32" by simp
  then consider "n < 8" | "8 \<le> n" "n < 16" | "16 \<le> n" "n < 24" | "24 \<le> n" "n < 32" by linarith
  then show "bit (ntohl (htonl v)) n = bit v n" by cases (auto simp: ntohl_def htonl_bit)
qed

lemma le32_htonl: "le32 (htonl v) = [ucast (drop_bit 24 v), ucast (drop_bit 16 v), ucast (drop_bit 8 v), ucast v]"
proof -
  have "(ucast (htonl v) :: u8) = ucast (drop_bit 24 v)" "(ucast (drop_bit 8 (htonl v)) :: u8) = ucast (drop_bit 16 v)"
    "(ucast (drop_bit 16 (htonl v)) :: u8) = ucast (drop_bit 8 v)" "(ucast (drop_bit 24 (htonl v)) :: u8) = ucast v"
    by (rule bit_eqI; simp add: bit_simps htonl_bit add.commute)+
  then show ?thesis by (simp add: le32_def)
qed

lemma get16_le16: "i + 1 < length b \<Longrightarrow> take 2 (drop i b) = le16 v \<Longrightarrow> get16 b i = v"
proof -
  assume a: "i + 1 < length b" "take 2 (drop i b) = le16 v"
  have "b ! i = ucast v" "b ! Suc i = ucast (drop_bit 8 v)"
    using arg_cong [OF a(2), of "\<lambda>l. l ! 0"] arg_cong [OF a(2), of "\<lambda>l. l ! 1"] a(1) by (simp_all add: le16_def)
  then show ?thesis unfolding get16_def by (simp only:) (rule bit_eqI, auto simp: bit_simps)
qed

lemma get32_le32: "i + 3 < length b \<Longrightarrow> take 4 (drop i b) = le32 v \<Longrightarrow> get32 b i = v"
proof -
  assume a: "i + 3 < length b" "take 4 (drop i b) = le32 v"
  have e: "b ! i = ucast v" "b ! (i + 1) = ucast (drop_bit 8 v)" "b ! (i + 2) = ucast (drop_bit 16 v)"
    "b ! (i + 3) = ucast (drop_bit 24 v)"
    using arg_cong [OF a(2), of "\<lambda>l. l ! 0"] arg_cong [OF a(2), of "\<lambda>l. l ! 1"] arg_cong [OF a(2), of "\<lambda>l. l ! 2"]
      arg_cong [OF a(2), of "\<lambda>l. l ! 3"] a(1) by (simp_all add: le32_def numeral_2_eq_2 numeral_3_eq_3)
  show ?thesis
  proof (rule bit_eqI)
    fix n assume "possible_bit TYPE(u32) n"
    then have "n < 32" by simp
    then consider "n < 8" | "8 \<le> n" "n < 16" | "16 \<le> n" "n < 24" | "24 \<le> n" "n < 32" by linarith
    then show "bit (get32 b i) n = bit v n" unfolding get32_def e by cases (auto simp: bit_simps)
  qed
qed

lemma length_put16 [simp]: "length (put16 i v b) = length b"
  by (simp add: put16_def)

section \<open>One's complement sums\<close>

fun nsum :: "u8 list \<Rightarrow> nat" where
  "nsum (a # b # rest) = unat a + 256 * unat b + nsum rest"
| "nsum [a] = unat a"
| "nsum [] = 0"

fun bsum :: "u8 list \<Rightarrow> nat" where
  "bsum (a # b # rest) = 256 * unat a + unat b + bsum rest"
| "bsum [a] = 256 * unat a"
| "bsum [] = 0"

lemma nsum_bound: "nsum xs \<le> 65535 * ((length xs + 1) div 2)"
proof (induction xs rule: nsum.induct)
  case (1 a b rest)
  have "unat a + 256 * unat b \<le> 65535" using unat_lt_8 [of a] unat_lt_8 [of b] by linarith
  then show ?case using 1 by simp
next
  case (2 a)
  show ?case using unat_lt_8 [of a] by simp
qed simp

lemma bsum_bound: "bsum xs \<le> 65535 * ((length xs + 1) div 2)"
proof (induction xs rule: bsum.induct)
  case (1 a b rest)
  have "256 * unat a + unat b \<le> 65535" using unat_lt_8 [of a] unat_lt_8 [of b] by linarith
  then show ?case using 1 by simp
next
  case (2 a)
  show ?case using unat_lt_8 [of a] by simp
qed simp

lemma native_word: "unat (ucast a + push_bit 8 (ucast b) :: u32) = unat a + 256 * unat b" for a b :: u8
proof -
  have "unat (push_bit 8 (ucast b) :: u32) = 256 * unat b"
    using unat_lt_8 [of b] by (simp add: push_bit_eq_mult unat_word_ariths unat_ucast_up)
  then show ?thesis using unat_lt_8 [of a] unat_lt_8 [of b]
    by (subst unat_add_lem [THEN iffD1]) (simp_all add: unat_ucast_up)
qed

lemma csum_native_nat: "unat s + nsum xs < 2 ^ 32 \<Longrightarrow> unat (csum_native s xs) = unat s + nsum xs"
proof (induction s xs rule: csum_native.induct)
  case (1 s a b rest)
  have "unat (s + (ucast a + push_bit 8 (ucast b))) = unat s + (unat a + 256 * unat b)"
    using 1(2) by (subst unat_add_lem [THEN iffD1]) (simp_all add: native_word)
  then show ?case using 1 by simp
next
  case (2 s a)
  then show ?case by (subst csum_native.simps, subst unat_add_lem [THEN iffD1]) (simp_all add: unat_ucast_up)
qed simp

lemma big_word: "unat (push_bit 8 (ucast a) OR ucast b :: u32) = 256 * unat a + unat b" for a b :: u8
proof -
  have "push_bit 8 (ucast a) OR ucast b = (push_bit 8 (ucast a) + ucast b :: u32)"
    by (rule disjunctive_add [symmetric]) (auto simp: bit_simps dest: bit_imp_le_length)
  then show ?thesis using native_word [of b a] by (simp add: add.commute)
qed

lemma csum_add_nat: "unat s + bsum xs < 2 ^ 32 \<Longrightarrow> unat (csum_add s xs) = unat s + bsum xs"
proof (induction s xs rule: csum_add.induct)
  case (1 s a b rest)
  have "unat (s + (push_bit 8 (ucast a) OR ucast b)) = unat s + (256 * unat a + unat b)"
    using 1(2) by (subst unat_add_lem [THEN iffD1]) (simp_all add: big_word)
  then show ?case using 1 by simp
next
  case (2 s a)
  have "unat (push_bit 8 (ucast a) :: u32) = 256 * unat a" using big_word [of a 0] by simp
  then show ?case using 2 by (subst csum_add.simps, subst unat_add_lem [THEN iffD1]) simp_all
qed simp

text \<open>Big-endian and little-endian sums agree up to a factor of 256, which is a swap of the two bytes
  modulo 65535.\<close>

lemma bsum_nsum: "bsum xs mod 65535 = 256 * nsum xs mod 65535"
proof (induction xs rule: nsum.induct)
  case (1 a b rest)
  have "256 * nsum (a # b # rest) = 65535 * unat b + (256 * unat a + unat b + 256 * nsum rest)" by (simp add: algebra_simps)
  also have "\<dots> mod 65535 = (256 * unat a + unat b + 256 * nsum rest) mod 65535" by (rule mod_mult_self4)
  also have "\<dots> = (256 * unat a + unat b + bsum rest) mod 65535" using 1 by (metis mod_add_right_eq)
  finally show ?case by simp
qed simp_all

lemma csum_fold_spec:
  "unat (csum_fold s) < 65536 \<and> unat (csum_fold s) mod 65535 = unat s mod 65535 \<and> (unat (csum_fold s) = 0 \<longleftrightarrow> unat s = 0)"
proof (induction s rule: csum_fold.induct)
  case (1 s)
  show ?case
  proof (cases "drop_bit 16 s = 0")
    case True
    then have "unat s < 65536" using drop16_nonzero [of s] by simp
    then show ?thesis using True by (simp add: csum_fold.simps [of s])
  next
    case False
    let ?t = "(s AND 0xFFFF) + drop_bit 16 s"
    have "unat s = 65535 * (unat s div 65536) + unat ?t"
      using div_mult_mod_eq [of "unat s" 65536] by (simp add: fold_step)
    then have m: "unat ?t mod 65535 = unat s mod 65535" by (metis mod_mult_self4)
    have "0 < unat s div 65536" using False by (simp add: drop16_nonzero div_greater_zero_iff)
    then have "unat ?t \<noteq> 0" "unat s \<noteq> 0" using fold_step [of s] by auto
    then show ?thesis using 1 [OF False] m False by (simp add: csum_fold.simps [of s])
  qed
qed

lemma folded_unique: "a < 65536 \<Longrightarrow> b < 65536 \<Longrightarrow> a mod 65535 = b mod 65535 \<Longrightarrow> (a = 0 \<longleftrightarrow> b = 0) \<Longrightarrow> a = b" for a b :: nat
proof -
  assume a: "a < 65536" "b < 65536" "a mod 65535 = b mod 65535" "a = 0 \<longleftrightarrow> b = 0"
  have m: "x mod 65535 = (if x = 65535 then 0 else x)" if "x < 65536" for x :: nat using that by simp
  show "a = b" using a m [OF a(1)] m [OF a(2)] by (simp split: if_splits)
qed

text \<open>The complement of a folded sum.\<close>

lemma unat_not16: "unat s < 65536 \<Longrightarrow> unat (ucast (NOT s) :: u16) = 65535 - unat s" for s :: u32
proof -
  assume s: "unat s < 65536"
  define t :: u16 where "t = ucast s"
  have t: "unat t = unat s" using s by (simp add: t_def unsigned_ucast_eq take_bit_nat_eq_self)
  have "(ucast (NOT s) :: u16) = NOT t" unfolding t_def by (rule bit_eqI) (auto simp: bit_simps)
  also have "NOT t = - 1 - t" by (simp add: not_eq_complement)
  finally have n: "(ucast (NOT s) :: u16) = - 1 - t" .
  have m: "unat (- 1 :: u16) = 65535" by (simp add: unsigned_minus_1_eq_mask mask_eq_exp_minus_1)
  have "unat (- 1 - t) = 65535 - unat t" using unat_lt_16 [of t] by (subst unat_sub) (simp_all add: word_le_nat_alt m)
  then show ?thesis unfolding n t .
qed

lemma nsum_append: "even (length xs) \<Longrightarrow> nsum (xs @ ys) = nsum xs + nsum ys"
  by (induction xs rule: nsum.induct) auto

lemma split_field:
  assumes "Suc i < length b"
  shows "b = take i b @ b ! i # b ! Suc i # drop (i + 2) b"
  using assms by (metis Cons_nth_drop_Suc Suc_lessD add_2_eq_Suc' append_take_drop_id)

lemma put16_split:
  assumes "Suc i < length b"
  shows "put16 i v b = take i b @ ucast v # ucast (drop_bit 8 v) # drop (i + 2) b"
proof -
  have "take i (put16 i v b) = take i b" "drop (i + 2) (put16 i v b) = drop (i + 2) b"
    by (simp_all add: put16_def)
  moreover have "put16 i v b ! i = ucast v" "put16 i v b ! Suc i = ucast (drop_bit 8 v)"
    using assms by (simp_all add: put16_def)
  ultimately show ?thesis using split_field [of i "put16 i v b"] assms by simp
qed

lemma word_bytes: "unat (ucast v :: u8) + 256 * unat (ucast (drop_bit 8 v) :: u8) = unat v" for v :: u16
proof -
  have "unat (ucast v :: u8) = unat v mod 256" by (simp add: unsigned_ucast_eq take_bit_eq_mod)
  moreover have "unat v div 256 < 256" using unat_lt_16 [of v] by simp
  moreover have "unat (ucast (drop_bit 8 v) :: u8) = unat v div 256"
    using calculation(2) by (simp add: unsigned_ucast_eq take_bit_nat_eq_self unat_drop_bit)
  ultimately show ?thesis by simp
qed

lemma nsum_put16:
  assumes "even i" "Suc i < length b" "b ! i = 0" "b ! Suc i = 0"
  shows "nsum (put16 i v b) = nsum b + unat v"
proof -
  have e: "even (length (take i b))" using assms(1,2) by simp
  have "nsum b = nsum (take i b @ b ! i # b ! Suc i # drop (i + 2) b)" using split_field [OF assms(2)] by simp
  also have "\<dots> = nsum (take i b) + nsum (drop (i + 2) b)" using assms(3,4) by (simp add: nsum_append [OF e])
  finally have b: "nsum b = nsum (take i b) + nsum (drop (i + 2) b)" .
  have "nsum (put16 i v b) = nsum (take i b) + (unat v + nsum (drop (i + 2) b))"
    unfolding put16_split [OF assms(2)] using word_bytes [of v] by (simp add: nsum_append [OF e])
  then show ?thesis using b by simp
qed

lemma sum_small: "length xs \<le> 65535 \<Longrightarrow> nsum xs + 65535 < 2 ^ 32"
proof -
  assume "length xs \<le> 65535"
  then have "(length xs + 1) div 2 \<le> 32768" by linarith
  then have "nsum xs \<le> 65535 * 32768" using nsum_bound [of xs] by (meson le_trans mult_le_mono2)
  then show ?thesis by simp
qed

lemma ip_checksum_unat:
  assumes "length xs \<le> 65535"
  shows "\<exists>f < 65536. unat (ip_checksum xs) = 65535 - f \<and> f mod 65535 = nsum xs mod 65535 \<and> (f = 0 \<longleftrightarrow> nsum xs = 0)"
proof -
  have "unat (csum_native 0 xs) = nsum xs" using csum_native_nat [of 0 xs] sum_small [OF assms] by simp
  then show ?thesis
    using csum_fold_spec [of "csum_native 0 xs"] unat_not16 [of "csum_fold (csum_native 0 xs)"]
    unfolding ip_checksum_def by metis
qed

text \<open>Filling in the checksum makes the whole sum to zero, which is what the receiver tests.\<close>

lemma checksum_filled:
  assumes "even i" "Suc i < length b" "b ! i = 0" "b ! Suc i = 0" "length b \<le> 65535"
  shows "ip_checksum (put16 i (ip_checksum b) b) = 0"
proof -
  let ?b = "put16 i (ip_checksum b) b"
  obtain f where f: "f < 65536" "unat (ip_checksum b) = 65535 - f" "f mod 65535 = nsum b mod 65535" "f = 0 \<longleftrightarrow> nsum b = 0"
    using ip_checksum_unat [OF assms(5)] by (elim exE conjE) (rule that)
  have n: "nsum ?b = nsum b + (65535 - f)" using nsum_put16 [OF assms(1-4)] f(2) by simp
  have "(nsum b + (65535 - f)) mod 65535 = (f + (65535 - f)) mod 65535" using f(3) by (metis mod_add_left_eq)
  then have z: "nsum ?b mod 65535 = 0" using n f(1) by simp
  have nz: "nsum ?b \<noteq> 0" using n f(4) by auto
  obtain g where g: "g < 65536" "unat (ip_checksum ?b) = 65535 - g" "g mod 65535 = nsum ?b mod 65535" "g = 0 \<longleftrightarrow> nsum ?b = 0"
    using ip_checksum_unat [of ?b, unfolded length_put16, OF assms(5)] by (elim exE conjE) (rule that)
  have "g = 65535" using folded_unique [of g 65535] g z nz by simp
  then show ?thesis using g(2) by (simp add: unat_eq_zero)
qed

text \<open>The checksum UDP and TCP store (all ones instead of zero) completes the folded sum to all ones.\<close>

definition csum_result :: "u32 \<Rightarrow> u16" where
  "csum_result s = (let r = ucast (NOT (csum_fold s)) in if r \<noteq> 0 then r else 0xFFFF)"

lemma unat_csum_result:
  "unat (csum_result s) = (if unat (csum_fold s) = 65535 then 65535 else 65535 - unat (csum_fold s))"
proof -
  have u: "unat (ucast (NOT (csum_fold s)) :: u16) = 65535 - unat (csum_fold s)" and l: "unat (csum_fold s) < 65536"
    using unat_not16 csum_fold_spec [of s] by blast+
  show ?thesis
  proof (cases "unat (csum_fold s) = 65535")
    case True
    then have "(ucast (NOT (csum_fold s)) :: u16) = 0" using u by (simp add: word_unat_eq_iff)
    then show ?thesis using True by (simp add: csum_result_def)
  next
    case False
    then have "(ucast (NOT (csum_fold s)) :: u16) \<noteq> 0" using u l by (auto simp: word_unat_eq_iff)
    then show ?thesis using False u by (simp add: csum_result_def)
  qed
qed

lemma csum_result_completes: "unat t = unat s + unat (csum_result s) \<Longrightarrow> csum_fold t = 0xFFFF"
proof -
  assume t: "unat t = unat s + unat (csum_result s)"
  define f where "f = unat (csum_fold s)"
  have f: "f < 65536" "f mod 65535 = unat s mod 65535" using csum_fold_spec [of s] by (simp_all add: f_def)
  have c: "unat (csum_result s) = (if f = 65535 then 65535 else 65535 - f)" unfolding f_def by (rule unat_csum_result)
  have "unat t mod 65535 = (f + unat (csum_result s)) mod 65535" using f(2) unfolding t by (metis mod_add_left_eq)
  then have z: "unat t mod 65535 = 0" using f(1) by (simp add: c)
  have pos: "unat t \<noteq> 0" using f(1) unfolding t c by simp
  have "unat (csum_fold t) = 65535"
    by (rule folded_unique) (use csum_fold_spec [of t] z pos in simp_all)
  then show ?thesis by (simp add: word_unat_eq_iff)
qed

end
