(* ===== verification/Elf.thy ===== *)
theory Elf
  imports UserMem Wire
begin

text \<open>
  The ELF64 loader (\<^verbatim>\<open>src/elf/elf.c\<close>). A file is a list of bytes; header fields are read at their offsets in the packed
  structures, sums of file and memory addresses wrap at 64 bits as in the code, and a read outside the buffer is \<open>OutOfBounds\<close>.
  The lemmas show that a load that succeeds gives the process exactly the memory image the program headers describe.
\<close>

section \<open>File format\<close>

definition PTE_NX :: u64 where "PTE_NX = 0x8000000000000000"
definition PAGE_MASK :: u64 where "PAGE_MASK = NOT (PAGE_SIZE - 1)"
definition PT_LOAD :: u32 where [simp]: "PT_LOAD = 1"
definition PF_X :: u32 where [simp]: "PF_X = 1"
definition PF_W :: u32 where [simp]: "PF_W = 2"
definition ELF_MAX_PHDRS :: u16 where [simp]: "ELF_MAX_PHDRS = 16"

record elf64_hdr =
  e_ident :: "u8 list"
  e_type :: u16
  e_machine :: u16
  e_version :: u32
  e_entry :: u64
  e_phoff :: u64
  e_shoff :: u64
  e_flags :: u32
  e_ehsize :: u16
  e_phentsize :: u16
  e_phnum :: u16
  e_shentsize :: u16
  e_shnum :: u16
  e_shstrndx :: u16

record elf64_phdr =
  p_type :: u32
  p_flags :: u32
  p_offset :: u64
  p_vaddr :: u64
  p_paddr :: u64
  p_filesz :: u64
  p_memsz :: u64
  p_align :: u64

definition get64 :: "u8 list \<Rightarrow> nat \<Rightarrow> u64" where
  "get64 b i = ucast (get32 b i) OR push_bit 32 (ucast (get32 b (i + 4)))"

definition hdr_of :: "u8 list \<Rightarrow> elf64_hdr" where
  "hdr_of b = \<lparr>e_ident = take 16 b, e_type = get16 b 16, e_machine = get16 b 18, e_version = get32 b 20, e_entry = get64 b 24,
     e_phoff = get64 b 32, e_shoff = get64 b 40, e_flags = get32 b 48, e_ehsize = get16 b 52, e_phentsize = get16 b 54,
     e_phnum = get16 b 56, e_shentsize = get16 b 58, e_shnum = get16 b 60, e_shstrndx = get16 b 62\<rparr>"

definition phdr_of :: "u8 list \<Rightarrow> nat \<Rightarrow> elf64_phdr" where
  "phdr_of b i = \<lparr>p_type = get32 b i, p_flags = get32 b (i + 4), p_offset = get64 b (i + 8), p_vaddr = get64 b (i + 16),
     p_paddr = get64 b (i + 24), p_filesz = get64 b (i + 32), p_memsz = get64 b (i + 40), p_align = get64 b (i + 48)\<rparr>"

definition buf_size :: "u8 list \<Rightarrow> u64" where
  "buf_size buf = of_nat (length buf)"

section \<open>The loader\<close>

definition elf_check :: "u8 list \<Rightarrow> int" where
  "elf_check buf =
     (let hdr = hdr_of buf in
      if buf_size buf < 64 then -1
      else if e_ident hdr ! 0 \<noteq> 0x7F then -1
      else if e_ident hdr ! 1 \<noteq> 0x45 then -1
      else if e_ident hdr ! 2 \<noteq> 0x4C then -1
      else if e_ident hdr ! 3 \<noteq> 0x46 then -1
      else if e_ident hdr ! 4 \<noteq> 2 then -1
      else if e_ident hdr ! 5 \<noteq> 1 then -1
      else if e_type hdr \<noteq> 2 then -1
      else if e_machine hdr \<noteq> 62 then -1
      else if e_phentsize hdr < 56 then -1
      else if e_phnum hdr = 0 then -1
      else if e_phnum hdr > ELF_MAX_PHDRS then -1
      else if e_phoff hdr + ucast (e_phnum hdr) * ucast (e_phentsize hdr) > buf_size buf then -1
      else 0)"

text \<open>The slice of file data that falls into the page at \<open>vaddr\<close>, copied into its frame at \<open>kva\<close>.\<close>

definition copy_slice :: "u8 list \<Rightarrow> elf64_phdr \<Rightarrow> u64 \<Rightarrow> u64 \<Rightarrow> 'a vm_state_scheme \<Rightarrow> mem_err + 'a vm_state_scheme" where
  "copy_slice buf ph vaddr kva st =
     (let page_end = vaddr + PAGE_SIZE;
          copy_va_start = (if vaddr > p_vaddr ph then vaddr else p_vaddr ph);
          copy_va_end = (if page_end < p_vaddr ph + p_filesz ph then page_end else p_vaddr ph + p_filesz ph) in
      if copy_va_start < copy_va_end
      then let dst_off = copy_va_start - vaddr;
               src_off = p_offset ph + (copy_va_start - p_vaddr ph);
               copy_len = copy_va_end - copy_va_start in
           if src_off + copy_len \<le> buf_size buf
           then if unat src_off + unat copy_len \<le> length buf \<and> unat dst_off + unat copy_len \<le> 4096
                then Inr (put_bytes (kva + dst_off) (take (unat copy_len) (drop (unat src_off) buf)) st)
                else Inl OutOfBounds
           else Inr st
      else Inr st)"

partial_function (option) load_pages ::
    "u8 list \<Rightarrow> elf64_phdr \<Rightarrow> u64 \<Rightarrow> u64 \<Rightarrow> u64 \<Rightarrow> u64 \<Rightarrow> 'a vm_state_scheme \<Rightarrow> (mem_err + 'a vm_state_scheme \<times> int) option" where
  "load_pages buf ph pml4 pte_flags vaddr_end vaddr st =
     (if vaddr < vaddr_end
      then case alloc_frame st of (st, frame) \<Rightarrow>
           if frame = 0 then Some (Inr (st, -1))
           else case copy_slice buf ph vaddr (PHYS_TO_VIRT frame) (zero_cells (PHYS_TO_VIRT frame) 512 st) of
                  Inl e \<Rightarrow> Some (Inl e)
                | Inr st \<Rightarrow>
                    (case vmm_map_user_page pml4 vaddr frame pte_flags st of (st, r) \<Rightarrow>
                     if r \<noteq> 0 then Some (Inr (free_frame frame st, -1))
                     else load_pages buf ph pml4 pte_flags vaddr_end (vaddr + PAGE_SIZE) st)
      else Some (Inr (st, 0)))"

definition segment_flags :: "elf64_phdr \<Rightarrow> u64" where
  "segment_flags ph =
     (let f = PTE_USER;
          f = (if p_flags ph AND PF_W \<noteq> 0 then f OR PTE_WRITE else f)
      in if p_flags ph AND PF_X = 0 then f OR PTE_NX else f)"

definition elf_load_segment :: "u8 list \<Rightarrow> elf64_phdr \<Rightarrow> u64 \<Rightarrow> 'a vm_state_scheme \<Rightarrow> (mem_err + 'a vm_state_scheme \<times> int) option" where
  "elf_load_segment buf ph pml4 st =
     (if p_memsz ph = 0 then Some (Inr (st, 0))
      else if p_filesz ph > 0 \<and> p_offset ph + p_filesz ph > buf_size buf then Some (Inr (st, -1))
      else load_pages buf ph pml4 (segment_flags ph) ((p_vaddr ph + p_memsz ph + PAGE_SIZE - 1) AND PAGE_MASK) (p_vaddr ph AND PAGE_MASK) st)"

text \<open>The loop over \<open>n\<close> program headers from number \<open>i\<close> on, with the count of segments loaded so far.\<close>

fun load_loop :: "u8 list \<Rightarrow> u64 \<Rightarrow> nat \<Rightarrow> nat \<Rightarrow> nat \<Rightarrow> 'a vm_state_scheme \<Rightarrow> (mem_err + 'a vm_state_scheme \<times> int \<times> nat) option" where
  "load_loop buf pml4 i 0 loaded st = Some (Inr (st, 0, loaded))"
| "load_loop buf pml4 i (Suc n) loaded st =
     (let off = unat (e_phoff (hdr_of buf) + of_nat i * ucast (e_phentsize (hdr_of buf))) in
      if off + 56 > length buf then Some (Inl OutOfBounds)
      else
       let ph = phdr_of buf off in
       if p_type ph \<noteq> PT_LOAD then load_loop buf pml4 (Suc i) n loaded st
       else case elf_load_segment buf ph pml4 st of None \<Rightarrow> None
            | Some (Inl e) \<Rightarrow> Some (Inl e)
            | Some (Inr (st, r)) \<Rightarrow>
                if r \<noteq> 0 then Some (Inr (st, -1, loaded)) else load_loop buf pml4 (Suc i) n (Suc loaded) st)"

text \<open>The result code, and \<^verbatim>\<open>*entry_out\<close> when it is written.\<close>

definition elf_load :: "u8 list \<Rightarrow> u64 \<Rightarrow> 'a vm_state_scheme \<Rightarrow> (mem_err + 'a vm_state_scheme \<times> int \<times> u64 option) option" where
  "elf_load buf pml4 st =
     (if elf_check buf \<noteq> 0 then Some (Inr (st, -1, None))
      else case load_loop buf pml4 0 (unat (e_phnum (hdr_of buf))) 0 st of None \<Rightarrow> None
           | Some (Inl e) \<Rightarrow> Some (Inl e)
           | Some (Inr (st, r, loaded)) \<Rightarrow>
               if r \<noteq> 0 then Some (Inr (st, -1, None))
               else if loaded = 0 then Some (Inr (st, -1, None))
               else Some (Inr (st, 0, Some (e_entry (hdr_of buf)))))"

section \<open>The image of a segment\<close>

text \<open>What a program header describes: the pages of \<open>[p_vaddr, p_vaddr + p_memsz)\<close>, the file bytes at their place, zero elsewhere.\<close>

definition first_page :: "elf64_phdr \<Rightarrow> nat" where
  "first_page ph = unat (p_vaddr ph) div 4096"

definition segment_pages :: "elf64_phdr \<Rightarrow> nat" where
  "segment_pages ph = (if p_memsz ph = 0 then 0 else (unat (p_vaddr ph) + unat (p_memsz ph) + 4095) div 4096 - first_page ph)"

definition seg_covers :: "elf64_phdr \<Rightarrow> u64 \<Rightarrow> bool" where
  "seg_covers ph a \<longleftrightarrow> first_page ph \<le> page_no a \<and> page_no a < first_page ph + segment_pages ph"

definition seg_byte :: "u8 list \<Rightarrow> elf64_phdr \<Rightarrow> nat \<Rightarrow> u8" where
  "seg_byte buf ph a =
     (if unat (p_vaddr ph) \<le> a \<and> a < unat (p_vaddr ph) + unat (p_filesz ph)
      then buf ! (unat (p_offset ph) + (a - unat (p_vaddr ph))) else 0)"

text \<open>No sum of the segment's fields wraps and it ends in the lower half of the address space.\<close>

definition seg_fits :: "elf64_phdr \<Rightarrow> bool" where
  "seg_fits ph \<longleftrightarrow> unat (p_vaddr ph) + unat (p_memsz ph) + 4095 < 2 ^ 47 \<and>
     unat (p_vaddr ph) + unat (p_filesz ph) < 2 ^ 64 \<and> unat (p_offset ph) + unat (p_filesz ph) < 2 ^ 64"

definition in_file :: "u8 list \<Rightarrow> elf64_phdr \<Rightarrow> bool" where
  "in_file buf ph \<longleftrightarrow> p_filesz ph = 0 \<or> unat (p_offset ph) + unat (p_filesz ph) \<le> length buf"

section \<open>One page\<close>

lemma unat_sum: "unat a + unat b < 2 ^ 64 \<Longrightarrow> unat (a + b) = unat a + unat b" for a b :: u64
  by (rule unat_add_lem [THEN iffD1]) simp

lemma unat_diff: "unat b \<le> unat a \<Longrightarrow> unat (a - b) = unat a - unat b" for a b :: u64
  by (rule unat_sub) (simp add: word_le_nat_alt)

lemma copy_slice_fills:
  assumes f: "is_table f" and fit: "seg_fits ph" "in_file buf ph" "length buf < 2 ^ 64"
    and v: "unat vaddr = 4096 * k" "4096 * k + 4096 \<le> 2 ^ 47" "first_page ph \<le> k"
    and z: "\<forall>j < 4096. frame_byte st f j = 0"
  shows "\<exists>st'. copy_slice buf ph vaddr (PHYS_TO_VIRT f) st = Inr st' \<and> pmm st' = pmm st \<and>
     (\<forall>j < 4096. frame_byte st' f j = seg_byte buf ph (4096 * k + j)) \<and>
     (\<forall>x j. is_table x \<longrightarrow> j < 512 \<longrightarrow> x \<noteq> f \<longrightarrow> entry st' x j = entry st x j)"
proof -
  define p fz off where "p = unat (p_vaddr ph)" and "fz = unat (p_filesz ph)" and "off = unat (p_offset ph)"
  have nums: "p + fz < 2 ^ 64" "off + fz < 2 ^ 64" using fit(1) by (simp_all add: seg_fits_def p_def fz_def off_def)
  have pv: "p < 4096 * k + 4096" using v(3) by (simp add: first_page_def p_def)
  define cs ce where "cs = (if vaddr > p_vaddr ph then vaddr else p_vaddr ph)"
    and "ce = (if vaddr + PAGE_SIZE < p_vaddr ph + p_filesz ph then vaddr + PAGE_SIZE else p_vaddr ph + p_filesz ph)"
  have pe: "unat (vaddr + PAGE_SIZE) = 4096 * k + 4096" using v(1,2) unat_sum [of vaddr PAGE_SIZE] by simp
  have ve: "unat (p_vaddr ph + p_filesz ph) = p + fz" using nums(1) unat_sum [of "p_vaddr ph" "p_filesz ph"] by (simp add: p_def fz_def)
  have cs: "unat cs = max (4096 * k) p" unfolding cs_def using v(1) by (auto simp: word_less_nat_alt p_def)
  have ce: "unat ce = min (4096 * k + 4096) (p + fz)" unfolding ce_def using pe ve by (auto simp: word_less_nat_alt min_def)
  have lt: "cs < ce \<longleftrightarrow> max (4096 * k) p < min (4096 * k + 4096) (p + fz)" by (simp only: word_less_nat_alt cs ce)
  show ?thesis
  proof (cases "cs < ce")
    case False
    then have "seg_byte buf ph (4096 * k + j) = 0" if "j < 4096" for j
      using lt that pv by (auto simp: seg_byte_def p_def [symmetric] fz_def [symmetric])
    moreover have "copy_slice buf ph vaddr (PHYS_TO_VIRT f) st = Inr st"
      unfolding copy_slice_def Let_def cs_def [symmetric] ce_def [symmetric] if_not_P [OF False] by (rule refl)
    ultimately show ?thesis using z by (intro exI [of _ st]) simp
  next
    case True
    note m = True [unfolded lt]
    define d n where "d = max (4096 * k) p - 4096 * k" and "n = min (4096 * k + 4096) (p + fz) - max (4096 * k) p"
    have d: "unat (cs - vaddr) = d" using unat_diff [of vaddr cs] cs v(1) by (simp add: d_def)
    have n: "unat (ce - cs) = n" using unat_diff [of cs ce] cs ce m by (simp add: n_def)
    have cp: "unat (cs - p_vaddr ph) = max (4096 * k) p - p" using unat_diff [of "p_vaddr ph" cs] cs by (simp add: p_def)
    have inb: "off + fz \<le> length buf" using fit(2) m by (auto simp: in_file_def off_def fz_def p_def unat_eq_zero)
    have sn: "(max (4096 * k) p - p) + n \<le> fz" using m by (simp add: n_def)
    define s where "s = off + (max (4096 * k) p - p)"
    have sb: "s + n \<le> length buf" using sn inb by (simp add: s_def)
    have so: "unat (p_offset ph + (cs - p_vaddr ph)) = s"
      using unat_sum [of "p_offset ph" "cs - p_vaddr ph"] cp sb fit(3) by (simp add: s_def off_def)
    have "unat (p_offset ph + (cs - p_vaddr ph) + (ce - cs)) = s + n"
      using unat_sum [of "p_offset ph + (cs - p_vaddr ph)" "ce - cs"] so n sb fit(3) by simp
    moreover have "unat (buf_size buf) = length buf" unfolding buf_size_def using fit(3) by (simp only: unat_of_nat) simp
    ultimately have chk: "p_offset ph + (cs - p_vaddr ph) + (ce - cs) \<le> buf_size buf" using sb by (simp add: word_le_nat_alt)
    have dn: "d + n \<le> 4096" using m by (simp add: d_def n_def)
    define bs where "bs = take n (drop s buf)"
    have lb: "length bs = n" using sb by (simp add: bs_def)
    have dw: "cs - vaddr = of_nat d" unfolding d [symmetric] by simp
    define st' where "st' = put_bytes (PHYS_TO_VIRT f + of_nat d) bs st"
    have e: "copy_slice buf ph vaddr (PHYS_TO_VIRT f) st = Inr st'"
      unfolding copy_slice_def Let_def cs_def [symmetric] ce_def [symmetric] so n d if_P [OF True] if_P [OF chk] dw
      using sb dn d dw by (simp add: st'_def bs_def)
    have fb: "frame_byte st' f j = seg_byte buf ph (4096 * k + j)" if j: "j < 4096" for j
    proof -
      have "frame_byte st' f j = (if d \<le> j \<and> j < d + n then bs ! (j - d) else 0)"
        unfolding st'_def using frame_put_bytes [OF f _ f j, of d bs st] dn lb z j by simp
      also have "\<dots> = seg_byte buf ph (4096 * k + j)"
      proof (cases "d \<le> j \<and> j < d + n")
        case True
        have "s + (j - d) = off + (4096 * k + j - p)" using True m by (auto simp: s_def d_def n_def max_def split: if_splits)
        moreover have "p \<le> 4096 * k + j" "4096 * k + j < p + fz" using True m by (auto simp: d_def n_def)
        moreover have "bs ! (j - d) = buf ! (s + (j - d))" unfolding bs_def using True sb by (simp add: less_diff_conv2)
        ultimately show ?thesis using True by (simp add: seg_byte_def p_def [symmetric] fz_def [symmetric] off_def [symmetric])
      next
        case False
        then have "\<not> (p \<le> 4096 * k + j \<and> 4096 * k + j < p + fz)" using m j by (auto simp: d_def n_def)
        then show ?thesis using False by (auto simp: seg_byte_def p_def [symmetric] fz_def [symmetric])
      qed
      finally show ?thesis .
    qed
    have "entry st' x j = entry st x j" if "is_table x" "j < 512" "x \<noteq> f" for x j
      unfolding st'_def using entry_put_bytes [OF f _ that(1,3,2), of d bs st] dn lb by simp
    then show ?thesis using e fb by (intro exI [of _ st']) (simp add: st'_def)
  qed
qed

section \<open>The pages of a segment\<close>

lemma flags_masked: "segment_flags ph AND PTE_ADDR_MASK = 0"
  by (simp add: segment_flags_def Let_def PTE_NX_def PTE_ADDR_MASK_def bit.conj_disj_distrib2)

lemma unat_page: "unat vaddr = 4096 * k \<Longrightarrow> page_no vaddr = k"
  by (simp add: page_no_def)

text \<open>One round of the loop: the page gets the bytes of the segment, or there were fewer than four free frames.\<close>

lemma load_page:
  assumes us: "user_space st root {..<256}" and fit: "seg_fits ph" "in_file buf ph" "length buf < 2 ^ 64"
    and v: "unat vaddr = 4096 * k" "4096 * k + 4096 \<le> 2 ^ 47" "first_page ph \<le> k" "vaddr < vend"
  shows "(\<exists>st'. load_pages buf ph root (segment_flags ph) vend vaddr st = Some (Inr (st', -1)) \<and> user_space st' root {..<256} \<and> keeps root {..<256} st st' \<and>
       (\<forall>a. user_va a \<longrightarrow> user_byte st' root a = user_byte st root a) \<and> card (free_set (pmm st)) < 4) \<or>
     (\<exists>st'. load_pages buf ph root (segment_flags ph) vend vaddr st = load_pages buf ph root (segment_flags ph) vend (vaddr + PAGE_SIZE) st' \<and>
       user_space st' root {..<256} \<and> keeps root {..<256} st st' \<and> card (free_set (pmm st)) \<le> card (free_set (pmm st')) + 4 \<and>
       (\<forall>a. user_va a \<longrightarrow> user_byte st' root a = (if page_no a = k then Some (seg_byte buf ph (unat a)) else user_byte st root a)))"
proof -
  have uv: "user_va vaddr" using v(1,2) by (simp add: user_va_def)
  note iv = user_va_idx [OF uv] and ok = spaceD(1) [OF user_spaceD(1) [OF us]]
  obtain st1 f where a: "alloc_frame st = (st1, f)" by (cases "alloc_frame st")
  note e = alloc_frame_effect [OF ok a]
  show ?thesis
  proof (cases "f = 0")
    case True
    have "load_pages buf ph root (segment_flags ph) vend vaddr st = Some (Inr (st, -1))"
      using True e(2) a v(4) by (subst load_pages.simps) simp
    then show ?thesis using True e(2) us by auto
  next
    case False
    then have f: "is_table f" using e(4) by blast
    let ?z = "zero_cells (PHYS_TO_VIRT f) 512 st1"
    obtain st2 where c: "copy_slice buf ph vaddr (PHYS_TO_VIRT f) ?z = Inr st2" "pmm st2 = pmm ?z"
        "\<forall>j < 4096. frame_byte st2 f j = seg_byte buf ph (4096 * k + j)"
        "\<forall>x j. is_table x \<longrightarrow> j < 512 \<longrightarrow> x \<noteq> f \<longrightarrow> entry st2 x j = entry ?z x j"
      using copy_slice_fills [OF f fit v(1-3), of ?z] frame_zero_cells [OF f f, of _ st1] by auto
    have p: "pmm st2 = pmm st1" using c(2) by simp
    have en: "\<forall>x j. is_table x \<longrightarrow> j < 512 \<longrightarrow> x \<noteq> f \<longrightarrow> entry st2 x j = entry st1 x j"
      using c(4) by (simp add: entry_zero_cells [OF f])
    obtain st3 r where m: "vmm_map_user_page root vaddr f (segment_flags ph) st2 = (st3, r)" by fastforce
    have iv': "VA_PML4_IDX vaddr \<in> {..<256}" using iv by simp
    note fp = fresh_page [OF us iv' flags_masked a False p en m]
    have step: "load_pages buf ph root (segment_flags ph) vend vaddr st = (if r \<noteq> 0 then Some (Inr (free_frame f st3, -1))
        else load_pages buf ph root (segment_flags ph) vend (vaddr + PAGE_SIZE) st3)"
      using a False c(1) m v(4) by (subst load_pages.simps) simp
    show ?thesis
    proof (cases "r = 0")
      case True
      have "user_byte st3 root b = (if page_no b = k then Some (seg_byte buf ph (unat b)) else user_byte st root b)" if b: "user_va b" for b
      proof -
        have i: "VA_PML4_IDX b \<in> {..<256}" using user_va_idx [OF b] by simp
        have "4096 * page_no b + unat b mod 4096 = unat b" by (simp add: page_no_def)
        moreover have "unat b mod 4096 < 4096" by simp
        ultimately show ?thesis using fp(4) [OF i] True user_va_path [OF b uv] unat_page [OF v(1)] c(3) by auto
      qed
      then show ?thesis using step True fp(1,3,7) by auto
    next
      case False
      have "user_byte (free_frame f st3) root b = user_byte st root b" if b: "user_va b" for b
        using fp(6) [OF False] user_va_idx [OF b] by simp
      then show ?thesis using step False fp(2,5,8) by auto
    qed
  qed
qed

lemma load_pages_correct:
  assumes "user_space st root {..<256}" and fit: "seg_fits ph" "in_file buf ph" "length buf < 2 ^ 64"
    and "unat vaddr = 4096 * k" and vend: "unat vend = 4096 * e" "4096 * e \<le> 2 ^ 47" and "first_page ph \<le> k" "k \<le> e"
  shows "\<exists>st' r. load_pages buf ph root (segment_flags ph) vend vaddr st = Some (Inr (st', r)) \<and> user_space st' root {..<256} \<and> keeps root {..<256} st st' \<and>
     (\<forall>a. user_va a \<longrightarrow> \<not> (k \<le> page_no a \<and> page_no a < e) \<longrightarrow> user_byte st' root a = user_byte st root a) \<and>
     (r = 0 \<and> card (free_set (pmm st)) \<le> card (free_set (pmm st')) + 4 * (e - k) \<and>
        (\<forall>a. user_va a \<longrightarrow> k \<le> page_no a \<longrightarrow> page_no a < e \<longrightarrow> user_byte st' root a = Some (seg_byte buf ph (unat a))) \<or>
      r = -1 \<and> card (free_set (pmm st)) < 4 * (e - k)) \<and>
     (\<forall>a. user_va a \<longrightarrow> user_byte st' root a = user_byte st root a \<or> k \<le> page_no a \<and> page_no a < e \<and> user_byte st' root a = Some (seg_byte buf ph (unat a)))"
  using assms(1,5,8,9)
proof (induction "e - k" arbitrary: st vaddr k)
  case 0
  then have "load_pages buf ph root (segment_flags ph) vend vaddr st = Some (Inr (st, 0))"
    using vend by (subst load_pages.simps) (simp add: word_less_nat_alt)
  then show ?case using 0 by auto
next
  case (Suc n)
  have ke: "k < e" using Suc.hyps(2) by simp
  have lt: "vaddr < vend" using Suc.prems(2) vend(1) ke by (simp add: word_less_nat_alt)
  have b: "4096 * k + 4096 \<le> 2 ^ 47" using ke vend(2) by simp
  have nx: "unat (vaddr + PAGE_SIZE) = 4096 * Suc k" using unat_sum [of vaddr PAGE_SIZE] Suc.prems(2) b by simp
  have len: "n = e - Suc k" using Suc.hyps(2) by simp
  show ?case using load_page [OF Suc.prems(1) fit Suc.prems(2) b Suc.prems(3) lt]
  proof (elim disjE exE conjE)
    fix st' assume "load_pages buf ph root (segment_flags ph) vend vaddr st = Some (Inr (st', -1))" "user_space st' root {..<256}"
      "\<forall>a. user_va a \<longrightarrow> user_byte st' root a = user_byte st root a" "card (free_set (pmm st)) < 4" "keeps root {..<256} st st'"
    then show ?thesis using ke by (intro exI [of _ st'] exI [of _ "-1"]) auto
  next
    fix st1 assume s: "load_pages buf ph root (segment_flags ph) vend vaddr st = load_pages buf ph root (segment_flags ph) vend (vaddr + PAGE_SIZE) st1"
      "user_space st1 root {..<256}" "card (free_set (pmm st)) \<le> card (free_set (pmm st1)) + 4"
      "\<forall>a. user_va a \<longrightarrow> user_byte st1 root a = (if page_no a = k then Some (seg_byte buf ph (unat a)) else user_byte st root a)"
      "keeps root {..<256} st st1"
    have "first_page ph \<le> Suc k" "Suc k \<le> e" using Suc.prems(3) ke by simp_all
    then obtain st' r where ih: "load_pages buf ph root (segment_flags ph) vend (vaddr + PAGE_SIZE) st1 = Some (Inr (st', r))" "user_space st' root {..<256}"
      "\<forall>a. user_va a \<longrightarrow> \<not> (Suc k \<le> page_no a \<and> page_no a < e) \<longrightarrow> user_byte st' root a = user_byte st1 root a"
      "r = 0 \<and> card (free_set (pmm st1)) \<le> card (free_set (pmm st')) + 4 * (e - Suc k) \<and>
        (\<forall>a. user_va a \<longrightarrow> Suc k \<le> page_no a \<longrightarrow> page_no a < e \<longrightarrow> user_byte st' root a = Some (seg_byte buf ph (unat a))) \<or>
      r = -1 \<and> card (free_set (pmm st1)) < 4 * (e - Suc k)" "keeps root {..<256} st1 st'"
      "\<forall>a. user_va a \<longrightarrow> user_byte st' root a = user_byte st1 root a \<or> Suc k \<le> page_no a \<and> page_no a < e \<and> user_byte st' root a = Some (seg_byte buf ph (unat a))"
      using Suc.hyps(1) [OF len s(2) nx] by blast
    have fr: "card (free_set (pmm st1)) \<le> x + 4 * (e - Suc k) \<Longrightarrow> card (free_set (pmm st)) \<le> x + 4 * (e - k)"
      "card (free_set (pmm st1)) < 4 * (e - Suc k) \<Longrightarrow> card (free_set (pmm st)) < 4 * (e - k)" for x using s(3) ke by linarith+
    have out: "user_byte st' root a = user_byte st root a" if "user_va a" "\<not> (k \<le> page_no a \<and> page_no a < e)" for a
      using that ih(3) s(4) ke by auto
    have "user_byte st' root a = Some (seg_byte buf ph (unat a))" if "user_va a" "k \<le> page_no a" "page_no a < e" "r = 0" for a
      using that ih(3,4) s(4) by (cases "page_no a = k") auto
    moreover have "user_byte st' root a = user_byte st root a \<or> k \<le> page_no a \<and> page_no a < e \<and> user_byte st' root a = Some (seg_byte buf ph (unat a))"
      if "user_va a" for a using ih(6) [rule_format, OF that] s(4) [rule_format, OF that] ke by (auto split: if_splits)
    ultimately show ?thesis unfolding s(1) using ih(1,2,4) keeps_trans [OF s(5) ih(5)] out fr by (intro exI [of _ st'] exI [of _ r]) auto
  qed
qed

section \<open>Segments\<close>

lemma unat_page_mask: "unat (a AND PAGE_MASK) = 4096 * page_no a"
proof -
  have m: "PAGE_SIZE - 1 = (mask 12 :: u64)" by (simp add: mask_eq_exp_minus_1)
  have "a AND PAGE_MASK = push_bit 12 (drop_bit 12 a)"
    unfolding PAGE_MASK_def m by (rule bit_eqI) (auto simp: bit_simps)
  moreover have "unat (push_bit 12 (drop_bit 12 a)) = 4096 * (unat a div 4096)"
  proof -
    have d: "unat (drop_bit 12 a) = unat a div 4096" by (simp add: drop_bit_eq_div unat_div)
    have "unat (push_bit 12 (drop_bit 12 a)) = unat (4096 * drop_bit 12 a)" by (simp add: push_bit_eq_mult mult.commute)
    also have "\<dots> = 4096 * unat (drop_bit 12 a)"
    proof (rule trans [OF unat_mult_lem [THEN iffD1]])
      have "4096 * (unat a div 4096) \<le> unat a" by simp
      also have "\<dots> < 2 ^ 64" using unsigned_less [of a] by simp
      finally show "unat (4096 :: u64) * unat (drop_bit 12 a) < 2 ^ LENGTH(64)" by (simp add: d)
    qed simp
    finally show ?thesis by (simp only: d)
  qed
  ultimately show ?thesis by (simp add: page_no_def)
qed

lemma elf_load_segment_correct:
  assumes us: "user_space st root {..<256}" and fit: "seg_fits ph" and len: "length buf < 2 ^ 64"
  shows "\<exists>st' r. elf_load_segment buf ph root st = Some (Inr (st', r)) \<and> user_space st' root {..<256} \<and> keeps root {..<256} st st' \<and>
     (\<forall>a. user_va a \<longrightarrow> \<not> seg_covers ph a \<longrightarrow> user_byte st' root a = user_byte st root a) \<and>
     (r = 0 \<and> card (free_set (pmm st)) \<le> card (free_set (pmm st')) + 4 * segment_pages ph \<and>
        (\<forall>a. user_va a \<longrightarrow> seg_covers ph a \<longrightarrow> user_byte st' root a = Some (seg_byte buf ph (unat a))) \<or>
      r = -1 \<and> (\<not> in_file buf ph \<or> card (free_set (pmm st)) < 4 * segment_pages ph)) \<and>
     (\<forall>a. user_va a \<longrightarrow> user_byte st' root a = user_byte st root a \<or> seg_covers ph a \<and> user_byte st' root a = Some (seg_byte buf ph (unat a)))"
proof (cases "p_memsz ph = 0")
  case True
  then show ?thesis using us by (intro exI [of _ st] exI [of _ 0]) (auto simp: elf_load_segment_def seg_covers_def segment_pages_def)
next
  case nz: False
  have bs: "unat (buf_size buf) = length buf" unfolding buf_size_def using len by (simp only: unat_of_nat) simp
  have "unat (p_offset ph + p_filesz ph) = unat (p_offset ph) + unat (p_filesz ph)" using fit by (intro unat_sum) (simp add: seg_fits_def)
  then have chk: "p_filesz ph > 0 \<and> p_offset ph + p_filesz ph > buf_size buf \<longleftrightarrow> \<not> in_file buf ph"
    using bs unfolding word_gt_0 by (auto simp: in_file_def word_less_nat_alt)
  show ?thesis
  proof (cases "in_file buf ph")
    case False
    then show ?thesis using us chk nz by (intro exI [of _ st] exI [of _ "-1"]) (simp add: elf_load_segment_def)
  next
    case True
    let ?last = "(unat (p_vaddr ph) + unat (p_memsz ph) + 4095) div 4096"
    have "unat (p_vaddr ph + p_memsz ph) = unat (p_vaddr ph) + unat (p_memsz ph)" using fit by (intro unat_sum) (simp add: seg_fits_def)
    then have "unat (p_vaddr ph + p_memsz ph + PAGE_SIZE) = unat (p_vaddr ph) + unat (p_memsz ph) + 4096"
      using fit unat_sum [of "p_vaddr ph + p_memsz ph" PAGE_SIZE] by (simp add: seg_fits_def)
    then have "unat (p_vaddr ph + p_memsz ph + PAGE_SIZE - 1) = unat (p_vaddr ph) + unat (p_memsz ph) + 4095"
      using unat_diff [of 1 "p_vaddr ph + p_memsz ph + PAGE_SIZE"] by simp
    then have ve: "unat ((p_vaddr ph + p_memsz ph + PAGE_SIZE - 1) AND PAGE_MASK) = 4096 * ?last"
      unfolding unat_page_mask page_no_def by simp
    have vs: "unat (p_vaddr ph AND PAGE_MASK) = 4096 * first_page ph" unfolding unat_page_mask by (simp add: page_no_def first_page_def)
    have le: "first_page ph \<le> ?last" unfolding first_page_def by (rule div_le_mono) simp
    have b: "4096 * ?last \<le> 2 ^ 47" using fit unfolding seg_fits_def by linarith
    have pages: "segment_pages ph = ?last - first_page ph" "first_page ph + segment_pages ph = ?last"
      using nz le by (simp_all add: segment_pages_def)
    have e: "elf_load_segment buf ph root st = load_pages buf ph root (segment_flags ph) ((p_vaddr ph + p_memsz ph + PAGE_SIZE - 1) AND PAGE_MASK) (p_vaddr ph AND PAGE_MASK) st"
      unfolding elf_load_segment_def if_not_P [OF nz] chk using True by simp
    show ?thesis unfolding e seg_covers_def pages(2) unfolding pages(1)
      using load_pages_correct [OF us fit True len vs ve b order.refl le] by blast
  qed
qed

section \<open>The image of a file\<close>

definition phdr_off :: "u8 list \<Rightarrow> nat \<Rightarrow> nat" where
  "phdr_off buf i = unat (e_phoff (hdr_of buf)) + i * unat (e_phentsize (hdr_of buf))"

text \<open>The loadable segments, in the order of their headers.\<close>

definition load_phdrs :: "u8 list \<Rightarrow> nat \<Rightarrow> nat \<Rightarrow> elf64_phdr list" where
  "load_phdrs buf i n = filter (\<lambda>ph. p_type ph = PT_LOAD) (map (\<lambda>j. phdr_of buf (phdr_off buf j)) [i..<i + n])"

text \<open>The byte at an address: a later segment hides an earlier one in the pages they share.\<close>

fun elf_image :: "u8 list \<Rightarrow> elf64_phdr list \<Rightarrow> u64 \<Rightarrow> u8 option" where
  "elf_image buf [] a = None"
| "elf_image buf (ph # phs) a =
     (case elf_image buf phs a of Some b \<Rightarrow> Some b | None \<Rightarrow> if seg_covers ph a then Some (seg_byte buf ph (unat a)) else None)"

definition image_pages :: "elf64_phdr list \<Rightarrow> nat" where
  "image_pages phs = sum_list (map segment_pages phs)"

text \<open>What a byte can be after a load that failed half-way: the old one or one that a segment gives.\<close>

definition part_loaded :: "u8 list \<Rightarrow> elf64_phdr list \<Rightarrow> u64 \<Rightarrow> 'a vm_state_scheme \<Rightarrow> 'a vm_state_scheme \<Rightarrow> u64 \<Rightarrow> bool" where
  "part_loaded buf phs root st st' a \<longleftrightarrow> user_byte st' root a = user_byte st root a \<or>
     (\<exists>ph \<in> set phs. seg_covers ph a \<and> user_byte st' root a = Some (seg_byte buf ph (unat a)))"

lemma load_phdrs_Suc: "load_phdrs buf i (Suc n) =
    (let ph = phdr_of buf (phdr_off buf i) in if p_type ph = PT_LOAD then ph # load_phdrs buf (Suc i) n else load_phdrs buf (Suc i) n)"
proof -
  have "[i..<i + Suc n] = i # [Suc i..<Suc i + n]" using upt_rec [of i "i + Suc n"] by simp
  then show ?thesis unfolding load_phdrs_def by (simp add: Let_def del: upt_Suc)
qed

lemma load_loop_correct:
  assumes len: "length buf < 2 ^ 64" and ent: "56 \<le> unat (e_phentsize (hdr_of buf))"
  shows "user_space st root {..<256} \<Longrightarrow> phdr_off buf (i + n) \<le> length buf \<Longrightarrow> \<forall>ph \<in> set (load_phdrs buf i n). seg_fits ph \<Longrightarrow>
     \<exists>st' r l. load_loop buf root i n loaded st = Some (Inr (st', r, l)) \<and> user_space st' root {..<256} \<and> keeps root {..<256} st st' \<and>
     (\<forall>a. user_va a \<longrightarrow> elf_image buf (load_phdrs buf i n) a = None \<longrightarrow> user_byte st' root a = user_byte st root a) \<and>
     (r = 0 \<and> l = loaded + length (load_phdrs buf i n) \<and> card (free_set (pmm st)) \<le> card (free_set (pmm st')) + 4 * image_pages (load_phdrs buf i n) \<and>
        (\<forall>a b. user_va a \<longrightarrow> elf_image buf (load_phdrs buf i n) a = Some b \<longrightarrow> user_byte st' root a = Some b) \<or>
      r = -1 \<and> ((\<exists>ph \<in> set (load_phdrs buf i n). \<not> in_file buf ph) \<or> card (free_set (pmm st)) < 4 * image_pages (load_phdrs buf i n))) \<and>
     (\<forall>a. user_va a \<longrightarrow> part_loaded buf (load_phdrs buf i n) root st st' a)"
proof (induction n arbitrary: i loaded st)
  case 0
  then show ?case by (simp add: load_phdrs_def part_loaded_def)
next
  case (Suc n)
  have step: "phdr_off buf (Suc i) = phdr_off buf i + unat (e_phentsize (hdr_of buf))" by (simp add: phdr_off_def)
  have "phdr_off buf (Suc i) \<le> phdr_off buf (i + Suc n)" by (simp add: phdr_off_def)
  then have b: "phdr_off buf i + 56 \<le> length buf" using Suc.prems(2) step ent by simp
  have off: "unat (e_phoff (hdr_of buf) + of_nat i * ucast (e_phentsize (hdr_of buf))) = phdr_off buf i"
  proof -
    have "e_phoff (hdr_of buf) + of_nat i * ucast (e_phentsize (hdr_of buf)) = of_nat (phdr_off buf i)"
      by (simp add: phdr_off_def unsigned_ucast_eq)
    moreover have "unat (of_nat (phdr_off buf i) :: u64) = phdr_off buf i" using b len by (simp only: unat_of_nat) simp
    ultimately show ?thesis by simp
  qed
  have nb: "\<not> phdr_off buf i + 56 > length buf" using b by simp
  have tail': "phdr_off buf (Suc i + n) \<le> length buf" using Suc.prems(2) by simp
  let ?ph = "phdr_of buf (phdr_off buf i)"
  show ?case
  proof (cases "p_type ?ph = PT_LOAD")
    case False
    then have l: "load_phdrs buf i (Suc n) = load_phdrs buf (Suc i) n" by (simp add: load_phdrs_Suc Let_def)
    have "load_loop buf root i (Suc n) loaded st = load_loop buf root (Suc i) n loaded st"
      unfolding load_loop.simps Let_def off if_not_P [OF nb] using False by simp
    then show ?thesis using Suc.IH [OF Suc.prems(1) tail', of loaded] Suc.prems(3) unfolding l by simp
  next
    case True
    let ?rest = "load_phdrs buf (Suc i) n"
    have l: "load_phdrs buf i (Suc n) = ?ph # ?rest" using True by (simp add: load_phdrs_Suc Let_def)
    have fit: "seg_fits ?ph" "\<forall>ph \<in> set ?rest. seg_fits ph" using Suc.prems(3) unfolding l by simp_all
    obtain st1 r1 where s: "elf_load_segment buf ?ph root st = Some (Inr (st1, r1))" "user_space st1 root {..<256}"
      "\<forall>a. user_va a \<longrightarrow> \<not> seg_covers ?ph a \<longrightarrow> user_byte st1 root a = user_byte st root a"
      "r1 = 0 \<and> card (free_set (pmm st)) \<le> card (free_set (pmm st1)) + 4 * segment_pages ?ph \<and>
        (\<forall>a. user_va a \<longrightarrow> seg_covers ?ph a \<longrightarrow> user_byte st1 root a = Some (seg_byte buf ?ph (unat a))) \<or>
       r1 = -1 \<and> (\<not> in_file buf ?ph \<or> card (free_set (pmm st)) < 4 * segment_pages ?ph)" "keeps root {..<256} st st1"
      "\<forall>a. user_va a \<longrightarrow> user_byte st1 root a = user_byte st root a \<or> seg_covers ?ph a \<and> user_byte st1 root a = Some (seg_byte buf ?ph (unat a))"
      using elf_load_segment_correct [OF Suc.prems(1) fit(1) len] by blast
    have e: "load_loop buf root i (Suc n) loaded st =
        (if r1 \<noteq> 0 then Some (Inr (st1, -1, loaded)) else load_loop buf root (Suc i) n (Suc loaded) st1)"
      unfolding load_loop.simps Let_def off if_not_P [OF nb] s(1) using True by simp
    have ip: "image_pages (?ph # ?rest) = segment_pages ?ph + image_pages ?rest" by (simp add: image_pages_def)
    show ?thesis
    proof (cases "r1 = 0")
      case False
      then have "\<not> in_file buf ?ph \<or> card (free_set (pmm st)) < 4 * image_pages (?ph # ?rest)" using s(4) by (auto simp: ip)
      moreover have "part_loaded buf (?ph # ?rest) root st st1 a" if "user_va a" for a using s(6) that by (auto simp: part_loaded_def)
      ultimately show ?thesis unfolding e l using False s(2,3,5) by (intro exI [of _ st1] exI [of _ "-1"] exI [of _ loaded]) (auto split: option.splits if_splits)
    next
      case r1: True
      obtain st' r k where ih: "load_loop buf root (Suc i) n (Suc loaded) st1 = Some (Inr (st', r, k))" "user_space st' root {..<256}"
        "\<forall>a. user_va a \<longrightarrow> elf_image buf ?rest a = None \<longrightarrow> user_byte st' root a = user_byte st1 root a"
        "r = 0 \<and> k = Suc loaded + length ?rest \<and> card (free_set (pmm st1)) \<le> card (free_set (pmm st')) + 4 * image_pages ?rest \<and> (\<forall>a b. user_va a \<longrightarrow> elf_image buf ?rest a = Some b \<longrightarrow> user_byte st' root a = Some b) \<or>
         r = -1 \<and> ((\<exists>ph \<in> set ?rest. \<not> in_file buf ph) \<or> card (free_set (pmm st1)) < 4 * image_pages ?rest)" "keeps root {..<256} st1 st'"
        "\<forall>a. user_va a \<longrightarrow> part_loaded buf ?rest root st1 st' a"
        using Suc.IH [OF s(2) tail' fit(2), of "Suc loaded"] by blast
      have out: "user_byte st' root a = user_byte st root a" if "user_va a" "elf_image buf (?ph # ?rest) a = None" for a
        using that ih(3) s(3) by (auto split: option.splits if_splits)
      have inn: "user_byte st' root a = Some b" if "user_va a" "elf_image buf (?ph # ?rest) a = Some b" "r = 0" for a b
        using that ih(3,4) s(4) r1 by (auto split: option.splits if_splits)
      have fr: "card (free_set (pmm st1)) < 4 * image_pages ?rest \<Longrightarrow> card (free_set (pmm st)) < 4 * image_pages (?ph # ?rest)"
        "card (free_set (pmm st1)) \<le> x + 4 * image_pages ?rest \<Longrightarrow> card (free_set (pmm st)) \<le> x + 4 * image_pages (?ph # ?rest)" for x
        using s(4) r1 by (auto simp: ip)
      have part: "part_loaded buf (?ph # ?rest) root st st' a" if "user_va a" for a
        using ih(6) [rule_format, OF that] s(6) [rule_format, OF that] by (auto simp: part_loaded_def)
      show ?thesis unfolding e l using part r1 ih(1,2,4) keeps_trans [OF s(5) ih(5)] out inn fr by (intro exI [of _ st'] exI [of _ r] exI [of _ k]) auto
    qed
  qed
qed

text \<open>No sum of the file's headers wraps.\<close>

definition elf_fits :: "u8 list \<Rightarrow> bool" where
  "elf_fits buf \<longleftrightarrow> length buf < 2 ^ 64 \<and> phdr_off buf (unat (e_phnum (hdr_of buf))) < 2 ^ 64 \<and>
     (\<forall>ph \<in> set (load_phdrs buf 0 (unat (e_phnum (hdr_of buf)))). seg_fits ph)"

lemma elf_checkD:
  assumes "elf_check buf = 0" "elf_fits buf"
  shows "56 \<le> unat (e_phentsize (hdr_of buf))" "phdr_off buf (unat (e_phnum (hdr_of buf))) \<le> length buf"
proof -
  let ?n = "e_phnum (hdr_of buf)" and ?s = "e_phentsize (hdr_of buf)"
  have c: "\<not> ?s < 56" "\<not> buf_size buf < e_phoff (hdr_of buf) + ucast ?n * ucast ?s"
    using assms(1) by (auto simp: elf_check_def Let_def split: if_splits)
  show "56 \<le> unat ?s" using c(1) by (simp add: word_less_nat_alt)
  have "e_phoff (hdr_of buf) + ucast ?n * ucast ?s = of_nat (phdr_off buf (unat ?n))"
    by (simp add: phdr_off_def unsigned_ucast_eq)
  moreover have "unat (of_nat (phdr_off buf (unat ?n)) :: u64) = phdr_off buf (unat ?n)"
    using assms(2) by (simp only: unat_of_nat) (simp add: elf_fits_def)
  moreover have "unat (buf_size buf) = length buf" using assms(2) unfolding buf_size_def by (simp only: unat_of_nat) (simp add: elf_fits_def)
  ultimately show "phdr_off buf (unat ?n) \<le> length buf" using c(2) by (simp add: word_less_nat_alt)
qed

lemma elf_load_lemma:
  assumes "user_space st root {..<256}" and "elf_fits buf"
  shows "\<exists>st' r e. elf_load buf root st = Some (Inr (st', r, e)) \<and> user_space st' root {..<256} \<and> keeps root {..<256} st st' \<and>
     (let phs = load_phdrs buf 0 (unat (e_phnum (hdr_of buf))) in
      (\<forall>a. user_va a \<longrightarrow> elf_image buf phs a = None \<longrightarrow> user_byte st' root a = user_byte st root a) \<and>
      (r = 0 \<and> e = Some (e_entry (hdr_of buf)) \<and>
         (\<forall>a b. user_va a \<longrightarrow> elf_image buf phs a = Some b \<longrightarrow> user_byte st' root a = Some b) \<and>
         card (free_set (pmm st)) \<le> card (free_set (pmm st')) + 4 * image_pages phs \<or>
       r = -1 \<and> e = None \<and> (elf_check buf \<noteq> 0 \<or> phs = [] \<or> (\<exists>ph \<in> set phs. \<not> in_file buf ph) \<or>
          card (free_set (pmm st)) < 4 * image_pages phs) \<and> (\<forall>a. user_va a \<longrightarrow> part_loaded buf phs root st st' a)))"
proof (cases "elf_check buf = 0")
  case False
  then show ?thesis using assms(1) by (intro exI [of _ st] exI [of _ "-1"] exI [of _ None]) (simp add: elf_load_def part_loaded_def)
next
  case True
  let ?n = "unat (e_phnum (hdr_of buf))"
  let ?phs = "load_phdrs buf 0 ?n"
  note c = elf_checkD [OF True assms(2)]
  have len: "length buf < 2 ^ 64" and fit: "\<forall>ph \<in> set ?phs. seg_fits ph" and b: "phdr_off buf (0 + ?n) \<le> length buf"
    using assms(2) c(2) by (simp_all add: elf_fits_def)
  obtain st' r l where h: "load_loop buf root 0 ?n 0 st = Some (Inr (st', r, l))" "user_space st' root {..<256}"
    "\<forall>a. user_va a \<longrightarrow> elf_image buf ?phs a = None \<longrightarrow> user_byte st' root a = user_byte st root a"
    "r = 0 \<and> l = length ?phs \<and> card (free_set (pmm st)) \<le> card (free_set (pmm st')) + 4 * image_pages ?phs \<and> (\<forall>a b. user_va a \<longrightarrow> elf_image buf ?phs a = Some b \<longrightarrow> user_byte st' root a = Some b) \<or>
     r = -1 \<and> ((\<exists>ph \<in> set ?phs. \<not> in_file buf ph) \<or> card (free_set (pmm st)) < 4 * image_pages ?phs)" "keeps root {..<256} st st'"
    "\<forall>a. user_va a \<longrightarrow> part_loaded buf ?phs root st st' a"
    using load_loop_correct [OF len c(1) assms(1) b fit, of 0] by auto
  have e: "elf_load buf root st = Some (Inr (if r \<noteq> 0 \<or> l = 0 then (st', -1, None) else (st', 0, Some (e_entry (hdr_of buf)))))"
    using h(1) True by (simp add: elf_load_def)
  show ?thesis unfolding e Let_def using h(2-6) by (cases "r \<noteq> 0 \<or> l = 0") auto
qed

text \<open>C13. Loading a file whose header sums do not wrap and whose segments end in the lower half: the loader returns, never reads outside the file, and
  keeps the address space well formed. When it reports success, the process sees at every address the byte the program headers describe (file data in
  place, zero in the rest of the pages of a segment; where segments share a page, the later one) and its old memory elsewhere, and the entry
  point is the one in the header. It fails only when the header does not pass the checks, there is no loadable segment, a segment lies outside the
  file, or fewer frames are free than four for each page; pages loaded before the failure stay, so that every address then reads its old byte or the byte
  one of the segments gives it, and no address becomes unmapped. In every case the frames that were in use outside this address space, those of the other processes and of the
  kernel, and the upper half of the root table are unchanged.\<close>

theorem elf_load_correct:
  assumes "user_space st root {..<256}" and "elf_fits buf"
  shows "\<exists>st' r e. elf_load buf root st = Some (Inr (st', r, e)) \<and> user_space st' root {..<256} \<and> keeps root {..<256} st st' \<and>
     (let phs = load_phdrs buf 0 (unat (e_phnum (hdr_of buf))) in
      (\<forall>a. user_va a \<longrightarrow> elf_image buf phs a = None \<longrightarrow> user_byte st' root a = user_byte st root a) \<and>
      (r = 0 \<and> e = Some (e_entry (hdr_of buf)) \<and>
         (\<forall>a b. user_va a \<longrightarrow> elf_image buf phs a = Some b \<longrightarrow> user_byte st' root a = Some b) \<or>
       r = -1 \<and> e = None \<and> (elf_check buf \<noteq> 0 \<or> phs = [] \<or> (\<exists>ph \<in> set phs. \<not> in_file buf ph) \<or>
          card (free_set (pmm st)) < 4 * image_pages phs) \<and>
         (\<forall>a. user_va a \<longrightarrow> part_loaded buf phs root st st' a \<and> (user_byte st root a \<noteq> None \<longrightarrow> user_byte st' root a \<noteq> None))))"
proof -
  let ?phs = "load_phdrs buf 0 (unat (e_phnum (hdr_of buf)))"
  obtain st' r e where h: "elf_load buf root st = Some (Inr (st', r, e))" "user_space st' root {..<256}" "keeps root {..<256} st st'"
    "\<forall>a. user_va a \<longrightarrow> elf_image buf ?phs a = None \<longrightarrow> user_byte st' root a = user_byte st root a"
    "r = 0 \<and> e = Some (e_entry (hdr_of buf)) \<and> (\<forall>a b. user_va a \<longrightarrow> elf_image buf ?phs a = Some b \<longrightarrow> user_byte st' root a = Some b) \<or>
     r = -1 \<and> e = None \<and> (elf_check buf \<noteq> 0 \<or> ?phs = [] \<or> (\<exists>ph \<in> set ?phs. \<not> in_file buf ph) \<or> card (free_set (pmm st)) < 4 * image_pages ?phs) \<and>
       (\<forall>a. user_va a \<longrightarrow> part_loaded buf ?phs root st st' a)"
    using elf_load_lemma [OF assms] unfolding Let_def by blast
  have "user_byte st root a \<noteq> None \<longrightarrow> user_byte st' root a \<noteq> None" if "part_loaded buf ?phs root st st' a" for a
    using that by (auto simp: part_loaded_def)
  then show ?thesis unfolding Let_def using h by (intro exI [of _ st'] exI [of _ r] exI [of _ e]) blast
qed

text \<open>A file with one segment: 8 bytes of data at \<open>0x401000\<close> in a page.\<close>

definition demo_elf :: "u8 list" where
  "demo_elf = [0x7F, 0x45, 0x4C, 0x46, 2, 1, 1, 0, 0, 0, 0, 0, 0, 0, 0, 0, 2, 0, 62, 0, 1, 0, 0, 0,
     0x00, 0x10, 0x40, 0, 0, 0, 0, 0, 64, 0, 0, 0, 0, 0, 0, 0, 0, 0, 0, 0, 0, 0, 0, 0,
     0, 0, 0, 0, 64, 0, 56, 0, 1, 0, 0, 0, 0, 0, 0, 0,
     1, 0, 0, 0, 5, 0, 0, 0, 120, 0, 0, 0, 0, 0, 0, 0, 0x00, 0x10, 0x40, 0, 0, 0, 0, 0, 0x00, 0x10, 0x40, 0, 0, 0, 0, 0,
     4, 0, 0, 0, 0, 0, 0, 0, 16, 0, 0, 0, 0, 0, 0, 0, 0, 16, 0, 0, 0, 0, 0, 0,
     0xF4, 0xEB, 0xFD, 0x90]"

lemma demo_elf_hdr:
  "length demo_elf = 124" "e_phnum (hdr_of demo_elf) = 1" "e_phentsize (hdr_of demo_elf) = 56" "e_phoff (hdr_of demo_elf) = 64"
  "e_entry (hdr_of demo_elf) = 0x401000" "elf_check demo_elf = 0"
  by (simp_all add: demo_elf_def hdr_of_def get16_def get32_def get64_def elf_check_def buf_size_def)

lemma demo_elf_phdr: "phdr_of demo_elf 64 = \<lparr>p_type = 1, p_flags = 5, p_offset = 120, p_vaddr = 0x401000, p_paddr = 0x401000,
    p_filesz = 4, p_memsz = 16, p_align = 4096\<rparr>"
  by (simp add: demo_elf_def phdr_of_def get32_def get64_def)

lemma demo_elf_phdrs: "load_phdrs demo_elf 0 1 = [phdr_of demo_elf 64]"
  by (simp add: load_phdrs_def phdr_off_def demo_elf_hdr demo_elf_phdr)

lemma demo_elf_fits: "elf_fits demo_elf"
  by (simp add: elf_fits_def demo_elf_hdr phdr_off_def demo_elf_phdrs [unfolded One_nat_def] demo_elf_phdr seg_fits_def)

lemma vm_demo_user: "user_space vm_demo 0x40000 {..<256}" "user_byte vm_demo 0x40000 a = None"
proof -
  have z: "get_phys_in 0x40000 vm_demo a = 0" for a by (simp add: get_phys_entries entry_def vm_demo_def)
  then show "user_space vm_demo 0x40000 {..<256}" using vm_demo_space by (simp add: user_space_def)
  show "user_byte vm_demo 0x40000 a = None" by (simp add: user_byte_def z)
qed

theorem elf_load_correct_witness:
  "\<exists>st'. elf_load demo_elf 0x40000 vm_demo = Some (Inr (st', 0, Some 0x401000)) \<and> user_byte st' 0x40000 0x401001 = Some 0xEB \<and>
     user_byte st' 0x40000 0x401005 = Some 0 \<and> user_byte st' 0x40000 0x402000 = None"
proof -
  let ?ph = "phdr_of demo_elf 64"
  have n: "unat (e_phnum (hdr_of demo_elf)) = 1" by (simp add: demo_elf_hdr)
  have im: "elf_image demo_elf [?ph] 0x401001 = Some 0xEB" "elf_image demo_elf [?ph] 0x401005 = Some 0" "elf_image demo_elf [?ph] 0x402000 = None"
    by (simp_all add: seg_covers_def first_page_def segment_pages_def page_no_def seg_byte_def demo_elf_phdr) (simp add: demo_elf_def)
  have uv: "user_va 0x401001" "user_va 0x401005" "user_va 0x402000" by (simp_all add: user_va_def)
  have ok: "elf_check demo_elf = 0" "in_file demo_elf ?ph" "\<not> card (free_set (pmm vm_demo)) < 4 * image_pages [?ph]" "e_entry (hdr_of demo_elf) = 0x401000"
    by (simp_all add: demo_elf_hdr in_file_def demo_elf_phdr vm_demo_def pmm_demo_free image_pages_def segment_pages_def first_page_def)
  obtain st' r e where h: "elf_load demo_elf 0x40000 vm_demo = Some (Inr (st', r, e))"
    "\<forall>a. user_va a \<longrightarrow> elf_image demo_elf [?ph] a = None \<longrightarrow> user_byte st' 0x40000 a = user_byte vm_demo 0x40000 a"
    "r = 0 \<and> e = Some 0x401000 \<and> (\<forall>a b. user_va a \<longrightarrow> elf_image demo_elf [?ph] a = Some b \<longrightarrow> user_byte st' 0x40000 a = Some b)"
    using elf_load_correct [OF vm_demo_user(1) demo_elf_fits] ok unfolding n demo_elf_phdrs Let_def by auto
  then have "user_byte st' 0x40000 0x401001 = Some 0xEB" "user_byte st' 0x40000 0x401005 = Some 0" "user_byte st' 0x40000 0x402000 = None"
    using im uv vm_demo_user(2) by metis+
  then show ?thesis using h(1,3) by blast
qed

end
