(* ===== verification/Launch.thy ===== *)
theory Launch
  imports Process Elf Vfs
begin

text \<open>
  Building the memory of user programs: zero-filled pages, the user stack and anonymous mappings (\<^verbatim>\<open>src/dynlink/dynlink.c\<close>), and
  the start of the first programs (\<^verbatim>\<open>src/init_launch/init_launch.c\<close>). The boot page tables map physical memory both at its own address and
  in the kernel window; a write through a physical address is a write to the same cell of the window. The program files
  embedded in the kernel are parameters. As in \<open>Process\<close>, a result \<open>None\<close> is a call that does not return; here it also stands for an access outside
  a file image.
\<close>

section \<open>Zero-filled pages\<close>

text \<open>The loop that \<^verbatim>\<open>sys_mmap\<close> and \<^verbatim>\<open>alloc_user_stack\<close> share: \<open>n\<close> pages from number \<open>i\<close> on, page \<open>j\<close> at \<open>va j\<close>. The flag is
  false when memory ran out.\<close>

fun map_pages :: "(nat \<Rightarrow> u64) \<Rightarrow> u64 \<Rightarrow> nat \<Rightarrow> nat \<Rightarrow> 'a vm_state_scheme \<Rightarrow> 'a vm_state_scheme \<times> bool" where
  "map_pages va pml4 i 0 st = (st, True)"
| "map_pages va pml4 i (Suc n) st =
     (case alloc_frame st of (st, frame) \<Rightarrow>
      if frame = 0 then (st, False)
      else case vmm_map_user_page pml4 (va i) frame (PTE_USER OR PTE_WRITE) (zero_cells (PHYS_TO_VIRT frame) 512 st) of (st, r) \<Rightarrow>
           if r \<noteq> 0 then (free_frame frame st, False) else map_pages va pml4 (Suc i) n st)"

definition USTACK_TOP :: u64 where [simp]: "USTACK_TOP = 0x7FFFF000"
definition USTACK_PAGES :: nat where [simp]: "USTACK_PAGES = 4"
definition USER_RFLAGS :: u64 where [simp]: "USER_RFLAGS = 0x202"
definition MMAP_BASE :: u64 where [simp]: "MMAP_BASE = 0x10000000"
definition MMAP_LIMIT :: u64 where [simp]: "MMAP_LIMIT = 0x50000000"
definition MAP_ANONYMOUS :: u64 where [simp]: "MAP_ANONYMOUS = 0x20"
definition MAP_FAILED :: u64 where [simp]: "MAP_FAILED = 0xFFFFFFFFFFFFFFFF"

definition alloc_user_stack :: "u64 \<Rightarrow> 'a vm_state_scheme \<Rightarrow> 'a vm_state_scheme \<times> u64" where
  "alloc_user_stack pml4 st =
     (case map_pages (\<lambda>i. USTACK_TOP - of_nat (USTACK_PAGES - i) * PAGE_SIZE) pml4 0 USTACK_PAGES st of (st, ok) \<Rightarrow>
      (st, if ok then USTACK_TOP else 0))"

section \<open>Anonymous mappings\<close>

definition sys_mmap :: "u64 \<Rightarrow> u64 \<Rightarrow> 'a os_state_scheme \<Rightarrow> 'a os_state_scheme \<times> u64" where
  "sys_mmap len flags os =
     (if flags AND MAP_ANONYMOUS = 0 then (os, MAP_FAILED)
      else if len = 0 then (os, MAP_FAILED)
      else
       let pages = (len + PAGE_SIZE - 1) div PAGE_SIZE in
       case current_proc (os_sched os) of None \<Rightarrow> (os, MAP_FAILED)
       | Some c \<Rightarrow>
           if pml4_phys (os_proc os c) = 0 then (os, MAP_FAILED)
           else
            let os = (if mmap_next (os_proc os c) = 0 then upd_proc c (\<lambda>p. p\<lparr>mmap_next := MMAP_BASE\<rparr>) os else os) in
            if mmap_next (os_proc os c) + pages * PAGE_SIZE > MMAP_LIMIT then (os, MAP_FAILED)
            else
             let va = mmap_next (os_proc os c) in
             case map_pages (\<lambda>i. va + of_nat i * PAGE_SIZE) (pml4_phys (os_proc os c)) 0 (unat pages) (os_mem os) of (m, ok) \<Rightarrow>
              let os = set_mem m os in
              if \<not> ok then (os, MAP_FAILED)
              else (upd_proc c (\<lambda>p. p\<lparr>mmap_next := mmap_next p + pages * PAGE_SIZE\<rparr>) os, va))"

definition sys_munmap :: "u64 \<Rightarrow> u64 \<Rightarrow> 'a os_state_scheme \<Rightarrow> 'a os_state_scheme \<times> u64" where
  "sys_munmap addr len os = (os, 0)"

section \<open>Program images\<close>

text \<open>Steps 2 to 4 of \<^verbatim>\<open>init_launch_impl\<close> and the first steps of \<^verbatim>\<open>launch_user_process\<close>: the address space, its entry point and its stack
  pointer, or \<open>None\<close> inside the result for the failure exits.\<close>

definition load_program :: "u8 list \<Rightarrow> 'a vm_state_scheme \<Rightarrow> ('a vm_state_scheme \<times> (u64 \<times> u64 \<times> u64) option) option" where
  "load_program elf st =
     (case vmm_create_user_pml4 st of (st, pml4) \<Rightarrow>
      if pml4 = 0 then Some (st, None)
      else case elf_load elf pml4 st of None \<Rightarrow> None
           | Some (Inl e) \<Rightarrow> None
           | Some (Inr (st, r, e)) \<Rightarrow>
               if r \<noteq> 0 then Some (st, None)
               else case alloc_user_stack pml4 st of (st, ustack_top) \<Rightarrow>
                    if ustack_top = 0 then Some (st, None)
                    else Some (st, Some (pml4, (case e of None \<Rightarrow> 0 | Some start \<Rightarrow> start), ustack_top)))"

text \<open>The frame for \<^verbatim>\<open>iretq\<close> below \<open>tos\<close>, the five words it pops, and the entry trampoline. The trampoline
  also clears the general registers.\<close>

definition push_iret_frame :: "u64 \<Rightarrow> u64 \<Rightarrow> u64 \<Rightarrow> 'a vm_state_scheme \<Rightarrow> 'a vm_state_scheme" where
  "push_iret_frame tos usp start st =
     wr (tos - 40) start (wr (tos - 32) (ucast SEG_USER_CODE) (wr (tos - 24) USER_RFLAGS (wr (tos - 16) usp
       (wr (tos - 8) (ucast SEG_USER_DATA) st))))"

record iret_frame =
  if_rip :: u64
  if_cs :: u64
  if_rflags :: u64
  if_rsp :: u64
  if_ss :: u64

text \<open>A stack address as the window sees it: a physical address is moved into the window.\<close>

definition window :: "u64 \<Rightarrow> u64" where
  "window a = (if a < KERNEL_VMA then PHYS_TO_VIRT a else a)"

definition init_iretq_trampoline :: "u64 \<Rightarrow> 'a vm_state_scheme \<Rightarrow> iret_frame" where
  "init_iretq_trampoline sp st =
     \<lparr>if_rip = kmem st (window sp), if_cs = kmem st (window sp + 8), if_rflags = kmem st (window sp + 16),
      if_rsp = kmem st (window sp + 24), if_ss = kmem st (window sp + 32)\<rparr>"

text \<open>\<open>tramp\<close> is the address of \<^verbatim>\<open>init_iretq_trampoline\<close>.\<close>

definition launch_user_process :: "u64 \<Rightarrow> u8 list \<Rightarrow> u8 list \<Rightarrow> 'a os_state_scheme \<Rightarrow> ('a os_state_scheme \<times> int) option" where
  "launch_user_process tramp name elf os =
     (case load_program elf (os_mem os) of None \<Rightarrow> None
      | Some (m, None) \<Rightarrow> Some (set_mem m os, -1)
      | Some (m, Some (pml4, start, ustack_top)) \<Rightarrow>
        case kmalloc KSTACK_SIZE m of None \<Rightarrow> None
        | Some (m, k) \<Rightarrow>
          if k = 0 then Some (set_mem m os, -1)
          else
           let m = push_iret_frame (k + KSTACK_SIZE) ustack_top start (zero_bytes k KSTACK_SIZE m);
               kstack_rsp = k + KSTACK_SIZE - 40 in
           case kthread_create name tramp (set_mem m os) of None \<Rightarrow> None
           | Some (os, n) \<Rightarrow>
             if n < 0 then map_option (\<lambda>m. (set_mem m os, -1)) (kfree k (os_mem os))
             else
              let p = nat n in
              case kfree (kstack (os_proc os p)) (os_mem os) of None \<Rightarrow> None
              | Some m \<Rightarrow>
                 let os = upd_proc p (\<lambda>d. d\<lparr>kstack := k, pml4_phys := pml4, ctx := (ctx d)\<lparr>rsp := kstack_rsp, rip := tramp\<rparr>\<rparr>) (set_mem m os)
                 in Some (os\<lparr>os_sched := scheduler_add p (os_sched os)\<rparr>, 0))"

section \<open>The first program\<close>

record 'd launch_state = os_state +
  l_fs :: "'d fs_state"

definition s_tty0 :: "u8 list" where "s_tty0 = [0x74, 0x74, 0x79, 0x30]"
definition s_init :: "u8 list" where "s_init = [0x69, 0x6E, 0x69, 0x74]"
definition s_httpd :: "u8 list" where "s_httpd = [0x68, 0x74, 0x74, 0x70, 0x64]"

text \<open>Opening the terminal as descriptors \<open>i\<close>, \dots, \<open>i + n - 1\<close>.\<close>

fun open_std :: "vfs_node \<Rightarrow> nat \<Rightarrow> nat \<Rightarrow> 'd fs_state \<Rightarrow> 'd fs_state \<times> bool" where
  "open_std node i 0 st = (st, True)"
| "open_std node i (Suc n) st =
     (case vfs_fd_open node st of (st, fd) \<Rightarrow> if fd \<noteq> int i then (st, False) else open_std node (Suc i) n st)"

text \<open>Step 5: two frames as the kernel stack, cleared, with the \<^verbatim>\<open>iretq\<close> frame at the top of the second, both mapped at their physical
  addresses. The result is the pair of frames, or \<open>None\<close> for the failure exits.\<close>

definition init_kstack :: "u64 \<Rightarrow> u64 \<Rightarrow> u64 \<Rightarrow> 'a vm_state_scheme \<Rightarrow> 'a vm_state_scheme \<times> (u64 \<times> u64) option" where
  "init_kstack pml4 start ustack_top st =
     (case alloc_frame st of (st, f0) \<Rightarrow>
      case alloc_frame st of (st, f1) \<Rightarrow>
      if f0 = 0 \<or> f1 = 0 then (if f0 \<noteq> 0 then free_frame f0 st else st, None)
      else
       let st = zero_cells (PHYS_TO_VIRT f1) 512 (zero_cells (PHYS_TO_VIRT f0) 512 st);
           st = push_iret_frame (PHYS_TO_VIRT f1 + PAGE_SIZE) ustack_top start st in
       case vmm_map_kernel_in_user_pml4 pml4 f0 f0 (PTE_WRITE OR PTE_NX) st of (st, r0) \<Rightarrow>
       if r0 \<noteq> 0 then (st, None)
       else case vmm_map_kernel_in_user_pml4 pml4 f1 f1 (PTE_WRITE OR PTE_NX) st of (st, r1) \<Rightarrow>
            if r1 \<noteq> 0 then (st, None) else (st, Some (f0, f1)))"

definition init_launch_impl :: "u64 \<Rightarrow> u8 list \<Rightarrow> u8 list \<Rightarrow> 'd launch_state \<Rightarrow> ('d launch_state \<times> int) option" where
  "init_launch_impl tramp init_elf httpd_elf os =
     (case devfs_get_node s_tty0 (l_fs os) of None \<Rightarrow> Some (os, -1)
      | Some tty_node \<Rightarrow>
        case open_std tty_node 0 3 (l_fs os) of (fs, ok) \<Rightarrow>
        let os = os\<lparr>l_fs := fs\<rparr> in
        if \<not> ok then Some (os, -1)
        else case load_program init_elf (os_mem os) of None \<Rightarrow> None
        | Some (m, None) \<Rightarrow> Some (set_mem m os, -1)
        | Some (m, Some (pml4, start, ustack_top)) \<Rightarrow>
          case init_kstack pml4 start ustack_top m of
            (m, None) \<Rightarrow> Some (set_mem m os, -1)
          | (m, Some (f0, f1)) \<Rightarrow>
            case kthread_create s_init tramp (set_mem m os) of None \<Rightarrow> None
            | Some (os, n) \<Rightarrow>
              if n < 0 then Some (os, -1)
              else
               let p = nat n in
               case kfree (kstack (os_proc os p)) (os_mem os) of None \<Rightarrow> None
               | Some m \<Rightarrow>
                  let os = upd_proc p (\<lambda>d. d\<lparr>kstack := f0, pml4_phys := pml4,
                             ctx := (ctx d)\<lparr>rsp := f1 + PAGE_SIZE - 40, rip := tramp\<rparr>\<rparr>) (set_mem m os);
                      os = os\<lparr>os_sched := (os_sched os)\<lparr>tss_rsp0 := f1 + PAGE_SIZE, kernel_rsp := f1 + PAGE_SIZE\<rparr>\<rparr>;
                      os = os\<lparr>os_sched := scheduler_add p (os_sched os)\<rparr>
                  in map_option (\<lambda>(os, r). (os, 0)) (launch_user_process tramp s_httpd httpd_elf os))"

section \<open>Pages of zeros\<close>

lemma user_flags_masked: "(PTE_USER OR PTE_WRITE) AND PTE_ADDR_MASK = 0"
  by (simp add: PTE_ADDR_MASK_def)

lemma map_pages_step:
  assumes us: "user_space st root {..<256}" and v: "unat (va i) = 4096 * k" "4096 * k + 4096 \<le> 2 ^ 47"
  shows "(\<exists>st'. map_pages va root i (Suc n) st = (st', False) \<and> user_space st' root {..<256} \<and> keeps root {..<256} st st' \<and>
       (\<forall>a. user_va a \<longrightarrow> user_byte st' root a = user_byte st root a) \<and> card (free_set (pmm st)) < 4) \<or>
     (\<exists>st'. map_pages va root i (Suc n) st = map_pages va root (Suc i) n st' \<and> user_space st' root {..<256} \<and> keeps root {..<256} st st' \<and>
       card (free_set (pmm st)) \<le> card (free_set (pmm st')) + 4 \<and>
       (\<forall>a. user_va a \<longrightarrow> user_byte st' root a = (if page_no a = k then Some 0 else user_byte st root a)))"
proof -
  have uv: "user_va (va i)" using v by (simp add: user_va_def)
  have iv: "VA_PML4_IDX (va i) \<in> {..<256}" using user_va_idx [OF uv] by simp
  obtain st1 f where a: "alloc_frame st = (st1, f)" by (cases "alloc_frame st")
  note e = alloc_frame_effect [OF spaceD(1) [OF user_spaceD(1) [OF us]] a]
  show ?thesis
  proof (cases "f = 0")
    case True
    then show ?thesis using e(2) a us by auto
  next
    case False
    then have f: "is_table f" using e(4) by blast
    let ?z = "zero_cells (PHYS_TO_VIRT f) 512 st1"
    have en: "\<forall>x j. is_table x \<longrightarrow> j < 512 \<longrightarrow> x \<noteq> f \<longrightarrow> entry ?z x j = entry st1 x j" by (simp add: entry_zero_cells [OF f])
    obtain st3 r where m: "vmm_map_user_page root (va i) f (PTE_USER OR PTE_WRITE) ?z = (st3, r)" by fastforce
    have p: "pmm ?z = pmm st1" by simp
    note fp = fresh_page [OF us iv user_flags_masked a False p en m]
    have step: "map_pages va root i (Suc n) st = (if r \<noteq> 0 then (free_frame f st3, False) else map_pages va root (Suc i) n st3)"
      using a False m by simp
    show ?thesis
    proof (cases "r = 0")
      case True
      have "user_byte st3 root b = (if page_no b = k then Some 0 else user_byte st root b)" if b: "user_va b" for b
      proof -
        have i: "VA_PML4_IDX b \<in> {..<256}" using user_va_idx [OF b] by simp
        have "frame_byte ?z f (unat b mod 4096) = 0" by (simp add: frame_zero_cells [OF f f])
        then show ?thesis using fp(4) [OF i] True user_va_path [OF b uv] unat_page [OF v(1)] by auto
      qed
      then show ?thesis using step True fp(1,3,7) by auto
    next
      case False
      have "user_byte (free_frame f st3) root b = user_byte st root b" if b: "user_va b" for b
        using fp(6) [OF False] user_va_idx [OF b] by simp
      then show ?thesis using step False fp(2,5,8) by auto
    qed
  qed
qed

text \<open>The loop maps the first \<open>j\<close> of the \<open>n\<close> pages; it stops early only when it runs out of frames.\<close>

lemma map_pages_correct:
  assumes "user_space st root {..<256}" and "\<forall>j < n. unat (va (i + j)) = 4096 * (k + j)" and "4096 * (k + n) \<le> 2 ^ 47"
  shows "\<exists>st' j. map_pages va root i n st = (st', j = n) \<and> j \<le> n \<and> user_space st' root {..<256} \<and> keeps root {..<256} st st' \<and>
     (\<forall>a. user_va a \<longrightarrow> user_byte st' root a = (if k \<le> page_no a \<and> page_no a < k + j then Some 0 else user_byte st root a)) \<and>
     (if j = n then card (free_set (pmm st)) \<le> card (free_set (pmm st')) + 4 * n else card (free_set (pmm st)) < 4 * n)"
  using assms
proof (induction n arbitrary: st i k)
  case 0
  then show ?case by auto
next
  case (Suc n)
  have v: "unat (va i) = 4096 * k" "4096 * k + 4096 \<le> 2 ^ 47" using Suc.prems(2) [rule_format, of 0] Suc.prems(3) by simp_all
  show ?case using map_pages_step [where va = va and i = i and n = n, OF Suc.prems(1) v]
  proof (elim disjE exE conjE)
    fix st' assume "map_pages va root i (Suc n) st = (st', False)" "user_space st' root {..<256}" "keeps root {..<256} st st'"
      "\<forall>a. user_va a \<longrightarrow> user_byte st' root a = user_byte st root a" "card (free_set (pmm st)) < 4"
    then show ?thesis by (intro exI [of _ st'] exI [of _ 0]) auto
  next
    fix st1 assume s: "map_pages va root i (Suc n) st = map_pages va root (Suc i) n st1" "user_space st1 root {..<256}" "keeps root {..<256} st st1"
      "card (free_set (pmm st)) \<le> card (free_set (pmm st1)) + 4"
      "\<forall>a. user_va a \<longrightarrow> user_byte st1 root a = (if page_no a = k then Some 0 else user_byte st root a)"
    have va: "\<forall>j < n. unat (va (Suc i + j)) = 4096 * (Suc k + j)" "4096 * (Suc k + n) \<le> 2 ^ 47"
      using Suc.prems(2,3) by (auto dest: spec [of _ "Suc _"])
    obtain st' j where ih: "map_pages va root (Suc i) n st1 = (st', j = n)" "j \<le> n" "user_space st' root {..<256}" "keeps root {..<256} st1 st'"
      "\<forall>a. user_va a \<longrightarrow> user_byte st' root a = (if Suc k \<le> page_no a \<and> page_no a < Suc k + j then Some 0 else user_byte st1 root a)"
      "if j = n then card (free_set (pmm st1)) \<le> card (free_set (pmm st')) + 4 * n else card (free_set (pmm st1)) < 4 * n"
      using Suc.IH [OF s(2) va] by blast
    have "user_byte st' root a = (if k \<le> page_no a \<and> page_no a < k + Suc j then Some 0 else user_byte st root a)" if "user_va a" for a
      using ih(5) [rule_format, OF that] s(5) [rule_format, OF that] by auto
    then show ?thesis unfolding s(1) using ih(1-3,6) s(4) keeps_trans [OF s(3) ih(4)]
      by (intro exI [of _ st'] exI [of _ "Suc j"]) (auto split: if_splits)
  qed
qed

section \<open>Anonymous mappings are fresh\<close>

definition mmap_cursor :: "process \<Rightarrow> u64" where
  "mmap_cursor p = (if mmap_next p = 0 then MMAP_BASE else mmap_next p)"

definition mmap_pages :: "u64 \<Rightarrow> nat" where
  "mmap_pages len = (unat len + 4095) div 4096"

lemma mmap_pages_word:
  assumes "unat len \<le> 2 ^ 62"
  shows "unat ((len + PAGE_SIZE - 1) div PAGE_SIZE) = mmap_pages len" "(len + PAGE_SIZE - 1) div PAGE_SIZE = of_nat (mmap_pages len)"
proof -
  have "unat (len + PAGE_SIZE) = unat len + 4096" using assms unat_sum [of len PAGE_SIZE] by simp
  then have "unat (len + PAGE_SIZE - 1) = unat len + 4095" using unat_diff [of 1 "len + PAGE_SIZE"] by simp
  then show u: "unat ((len + PAGE_SIZE - 1) div PAGE_SIZE) = mmap_pages len" unfolding unat_div by (simp add: mmap_pages_def)
  show "(len + PAGE_SIZE - 1) div PAGE_SIZE = of_nat (mmap_pages len)" unfolding u [symmetric] by simp
qed

lemma page_addr:
  assumes "n \<le> 2 ^ 51"
  shows "unat (of_nat n * PAGE_SIZE) = 4096 * n"
proof -
  have "of_nat n * PAGE_SIZE = (of_nat (4096 * n) :: u64)" by simp
  moreover have "unat (of_nat (4096 * n) :: u64) = 4096 * n" using assms by (simp only: unat_of_nat) simp
  ultimately show ?thesis by metis
qed

text \<open>The outcome of mapping the first \<open>j\<close> of \<open>n\<close> pages at page number \<open>k\<close> for the process in slot \<open>c\<close>.\<close>

definition mmap_mapped :: "'a os_state_scheme \<Rightarrow> nat \<Rightarrow> u64 \<Rightarrow> u64 \<Rightarrow> nat \<Rightarrow> nat \<Rightarrow> nat \<Rightarrow> 'a os_state_scheme \<times> u64 \<Rightarrow> bool" where
  "mmap_mapped os c root va k n j res \<longleftrightarrow> (case res of (os', r) \<Rightarrow>
     user_space (os_mem os') root {..<256} \<and> keeps root {..<256} (os_mem os) (os_mem os') \<and>
     (\<forall>a. user_va a \<longrightarrow> user_byte (os_mem os') root a =
        (if k \<le> page_no a \<and> page_no a < k + j then Some 0 else user_byte (os_mem os) root a)) \<and>
     (\<forall>q. q \<noteq> c \<longrightarrow> os_proc os' q = os_proc os q) \<and>
     (if j = n then r = va \<and> os_proc os' c = (os_proc os c)\<lparr>mmap_next := va + of_nat n * PAGE_SIZE\<rparr>
      else r = MAP_FAILED \<and> os_proc os' c = (os_proc os c)\<lparr>mmap_next := va\<rparr>))"


section \<open>New address spaces\<close>

lemma entry_zero_part:
  assumes "is_table f" "is_table t" "i < 512" "n \<le> 512"
  shows "entry (zero_cells (PHYS_TO_VIRT f) n st) t i = (if t = f \<and> i < n then 0 else entry st t i)"
proof -
  have "PHYS_TO_VIRT t + 8 * of_nat i = PHYS_TO_VIRT f + 8 * of_nat j \<longleftrightarrow> t = f \<and> i = j" if "j < n" for j
    using table_addr_inj [OF assms(2,1,3), of j] that assms(4) by auto
  then show ?thesis unfolding entry_def zero_cells_eq by auto
qed

text \<open>A new address space maps nothing in its lower half and shares the upper half of the boot tables.\<close>

lemma create_user_pml4_effect:
  assumes ok: "vm_ok st" and boot: "used_table st (vmm_pml4 st)" and c: "vmm_create_user_pml4 st = (st', root)"
  shows "root = 0 \<Longrightarrow> free_set (pmm st) = {} \<and> st' = st"
    and "root \<noteq> 0 \<Longrightarrow> user_space st' root {..<256}"
    and "root \<noteq> 0 \<Longrightarrow> user_va a \<Longrightarrow> user_byte st' root a = None"
    and "root \<noteq> 0 \<Longrightarrow> used_table st x \<Longrightarrow> used_table st' x \<and> x \<notin> tables st' root {..<256} \<and> (\<forall>i < 512. entry st' x i = entry st x i)"
    and "root \<noteq> 0 \<Longrightarrow> 256 \<le> i \<Longrightarrow> i < 512 \<Longrightarrow> entry st' root i = entry st (vmm_pml4 st) i"
    and "root \<noteq> 0 \<Longrightarrow> card (free_set (pmm st)) = Suc (card (free_set (pmm st')))"
proof -
  obtain st1 f where a: "alloc_frame st = (st1, f)" by (cases "alloc_frame st")
  note e = alloc_frame_effect [OF ok a]
  have rf: "root = f" using c a by (auto simp: vmm_create_user_pml4_def Let_def split: if_splits)
  show "root = 0 \<Longrightarrow> free_set (pmm st) = {} \<and> st' = st" using c a e(2) rf by (auto simp: vmm_create_user_pml4_def Let_def)
  assume "root \<noteq> 0"
  then have nz: "f \<noteq> 0" and f: "is_table f" "page_no f \<in> free_set (pmm st)" "free_set (pmm st1) = free_set (pmm st) - {page_no f}"
    using e(4) rf by auto
  define z where "z = zero_cells (PHYS_TO_VIRT f) 256 st1"
  have bt: "is_table (vmm_pml4 st)" "f \<noteq> vmm_pml4 st" using boot f(2) by (auto simp: used_table_def)
  have st'_eq: "st' = copy_cells (PHYS_TO_VIRT f + 8 * of_nat 256) (PHYS_TO_VIRT (vmm_pml4 st) + 8 * of_nat 256) 256 z"
    using c a nz e(5) by (auto simp: vmm_create_user_pml4_def z_def Let_def)
  have en: "entry st' x i = (if x = f then if i < 256 then 0 else entry st (vmm_pml4 st) i else entry st x i)" if "is_table x" "i < 512" for x i
  proof -
    have z: "entry z y j = (if y = f \<and> j < 256 then 0 else entry st y j)" if "is_table y" "j < 512" for y j
      unfolding z_def using entry_zero_part [OF f(1) that, of 256 st1] e(3) by (simp add: entry_def)
    show ?thesis unfolding st'_eq using entry_copy_cells [OF f(1) bt(1,2), of 256 256 x i z] that z [of x i] z [OF bt(1) that(2)] bt(2) by auto
  qed
  have p: "pmm st' = pmm st1" by (simp add: st'_eq z_def)
  have w: "walk st' f q = (if q = [] then Some f else None)" if "q \<in> paths {..<256}" for q
    using that en [OF f(1)] by (cases q) (auto simp: paths_def links_def)
  have tab: "tables st' f {..<256} = {f}" using w paths_nil by (auto simp: tables_def split: if_splits)
  have uf: "used_table st' f" using f p by (simp add: used_table_def)
  have ok': "vm_ok st'" using e(1) p by (simp add: vm_ok_def)
  have sp: "space st' f {..<256}" unfolding space_def
    using ok' uf w en [OF f(1)] by (auto split: if_splits)
  have gp: "get_phys_in f st' b = 0" if "VA_PML4_IDX b < 256" for b
    using en [OF f(1), of "VA_PML4_IDX b"] that by (simp add: get_phys_entries)
  have nh: "no_huge st' f b" if b: "VA_PML4_IDX b < 256" for b unfolding no_huge_def
  proof (intro allI impI, elim conjE)
    fix q j r t assume q: "va_path b = q @ j # r" "walk st' f q = Some t" "entry st' t j AND PTE_PRESENT \<noteq> 0"
    have "q \<in> paths {..<256}" using va_path_split(1) [OF q(1)] b by blast
    then have "q = []" "t = f" using w q(2) by (auto split: if_splits)
    then have "j = VA_PML4_IDX b" using q(1) by (simp add: va_path_def)
    then show "entry st' t j AND PTE_HUGE = 0" using q(3) \<open>t = f\<close> b en [OF f(1), of j] by simp
  qed
  show "user_space st' root {..<256}" unfolding rf user_space_def using sp nh gp by auto
  show "user_va a \<Longrightarrow> user_byte st' root a = None" unfolding rf using gp user_va_idx by (simp add: user_byte_def)
  show "used_table st x \<Longrightarrow> used_table st' x \<and> x \<notin> tables st' root {..<256} \<and> (\<forall>i < 512. entry st' x i = entry st x i)"
    unfolding rf tab using f p en by (auto simp: used_table_def)
  show "256 \<le> i \<Longrightarrow> i < 512 \<Longrightarrow> entry st' root i = entry st (vmm_pml4 st) i" unfolding rf using en [OF f(1)] by simp
  show "card (free_set (pmm st)) = Suc (card (free_set (pmm st')))" unfolding p f(3) by (rule card_Suc_Diff1 [OF finite_free_set f(2), symmetric])
qed

section \<open>Program images\<close>

lemma user_stack_correct:
  assumes "user_space st root {..<256}"
  shows "\<exists>st' t. alloc_user_stack root st = (st', t) \<and> user_space st' root {..<256} \<and> keeps root {..<256} st st' \<and>
     (\<forall>a. user_va a \<longrightarrow> \<not> (0x7FFFB \<le> page_no a \<and> page_no a < 0x7FFFF) \<longrightarrow> user_byte st' root a = user_byte st root a) \<and>
     (t = USTACK_TOP \<and> (\<forall>a. user_va a \<longrightarrow> 0x7FFFB \<le> page_no a \<longrightarrow> page_no a < 0x7FFFF \<longrightarrow> user_byte st' root a = Some 0) \<or>
      t = 0 \<and> card (free_set (pmm st)) < 16)"
proof -
  let ?va = "\<lambda>i. USTACK_TOP - of_nat (USTACK_PAGES - i) * PAGE_SIZE"
  have "unat (?va (0 + j)) = 4096 * (0x7FFFB + j)" if j: "j < 4" for j
  proof -
    consider "j = 0" | "j = 1" | "j = 2" | "j = 3" using j by linarith
    then show ?thesis by cases simp_all
  qed
  then have va: "\<forall>j < USTACK_PAGES. unat (?va (0 + j)) = 4096 * (0x7FFFB + j)" by simp
  have "4096 * (0x7FFFB + USTACK_PAGES) \<le> (2 :: nat) ^ 47" by simp
  from map_pages_correct [OF assms va this]
  obtain st' j where "map_pages ?va root 0 USTACK_PAGES st = (st', j = USTACK_PAGES)" "j \<le> USTACK_PAGES" "user_space st' root {..<256}" "keeps root {..<256} st st'"
    "\<forall>a. user_va a \<longrightarrow> user_byte st' root a = (if 0x7FFFB \<le> page_no a \<and> page_no a < 0x7FFFB + j then Some 0 else user_byte st root a)"
    "if j = USTACK_PAGES then card (free_set (pmm st)) \<le> card (free_set (pmm st')) + 4 * USTACK_PAGES else card (free_set (pmm st)) < 4 * USTACK_PAGES" by blast
  then show ?thesis unfolding alloc_user_stack_def
    by (intro exI [of _ st'] exI [of _ "if j = USTACK_PAGES then USTACK_TOP else 0"]) (auto split: if_splits)
qed

text \<open>The memory a program starts with: the stack over the image of its file.\<close>

definition start_image :: "u8 list \<Rightarrow> u64 \<Rightarrow> u8 option" where
  "start_image elf a =
     (if 0x7FFFB \<le> page_no a \<and> page_no a < 0x7FFFF then Some 0
      else elf_image elf (load_phdrs elf 0 (unat (e_phnum (hdr_of elf)))) a)"

text \<open>C24. Building the memory of a new program from a file whose header sums do not wrap: it returns and changes no frame that was in use, so no other
  process and no kernel data. On success the new address space holds exactly the image of the file, the four zero-filled stack pages and nothing else in its lower
  half, its upper half has the entries of the kernel's own root table, and the program starts at the entry point of the file with the stack pointer at the stack top. It fails only for a file the loader rejects or when fewer
  frames are free than one for the root table and four for each page of image and stack.\<close>

theorem load_program_correct:
  assumes "vm_ok st" and "used_table st (vmm_pml4 st)" and "elf_fits elf"
  shows "\<exists>st' res. load_program elf st = Some (st', res) \<and>
     (\<forall>x. used_table st x \<longrightarrow> used_table st' x \<and> (\<forall>i < 512. entry st' x i = entry st x i)) \<and>
     (case res of
        Some (root, pc, sp) \<Rightarrow> user_space st' root {..<256} \<and> \<not> used_table st root \<and> pc = e_entry (hdr_of elf) \<and> sp = USTACK_TOP \<and>
          (\<forall>a. user_va a \<longrightarrow> user_byte st' root a = start_image elf a) \<and> (\<forall>i. 256 \<le> i \<longrightarrow> i < 512 \<longrightarrow> entry st' root i = entry st (vmm_pml4 st) i)
      | None \<Rightarrow> let phs = load_phdrs elf 0 (unat (e_phnum (hdr_of elf))) in
          elf_check elf \<noteq> 0 \<or> phs = [] \<or> (\<exists>ph \<in> set phs. \<not> in_file elf ph) \<or> card (free_set (pmm st)) < 1 + 4 * (image_pages phs + 4))"
proof -
  let ?phs = "load_phdrs elf 0 (unat (e_phnum (hdr_of elf)))"
  obtain st1 root where c: "vmm_create_user_pml4 st = (st1, root)" by fastforce
  note cr = create_user_pml4_effect [OF assms(1,2) c]
  show ?thesis
  proof (cases "root = 0")
    case True
    then show ?thesis using cr(1) c by (intro exI [of _ st] exI [of _ None]) (simp add: load_program_def)
  next
    case False
    obtain st2 r e where l: "elf_load elf root st1 = Some (Inr (st2, r, e))" "user_space st2 root {..<256}" "keeps root {..<256} st1 st2"
      "\<forall>a. user_va a \<longrightarrow> elf_image elf ?phs a = None \<longrightarrow> user_byte st2 root a = user_byte st1 root a"
      "r = 0 \<and> e = Some (e_entry (hdr_of elf)) \<and> (\<forall>a b. user_va a \<longrightarrow> elf_image elf ?phs a = Some b \<longrightarrow> user_byte st2 root a = Some b) \<and>
         card (free_set (pmm st1)) \<le> card (free_set (pmm st2)) + 4 * image_pages ?phs \<or>
       r = -1 \<and> (elf_check elf \<noteq> 0 \<or> ?phs = [] \<or> (\<exists>ph \<in> set ?phs. \<not> in_file elf ph) \<or> card (free_set (pmm st1)) < 4 * image_pages ?phs)"
      using elf_load_lemma [OF cr(2) [OF False] assms(3)] by (auto simp: Let_def)
    have kept: "used_table s x \<and> (\<forall>i < 512. entry s x i = entry st x i)" if "keeps root {..<256} st1 s" "used_table st x" for s x
      using that cr(4) [OF False] by (simp add: keeps_def)
    have rn: "\<not> used_table st root"
    proof
      assume "used_table st root"
      then have "root \<notin> tables st1 root {..<256}" using cr(4) [OF False] by blast
      moreover have "walk st1 root [] = Some root" by simp
      ultimately show False using paths_nil unfolding tables_def by blast
    qed
    have im: "user_byte st2 root a = elf_image elf ?phs a" if "user_va a" "r = 0" for a
      using that l(4,5) cr(3) [OF False] by (cases "elf_image elf ?phs a") auto
    obtain st3 t where s: "alloc_user_stack root st2 = (st3, t)" "user_space st3 root {..<256}" "keeps root {..<256} st2 st3"
      "\<forall>a. user_va a \<longrightarrow> \<not> (0x7FFFB \<le> page_no a \<and> page_no a < 0x7FFFF) \<longrightarrow> user_byte st3 root a = user_byte st2 root a"
      "t = USTACK_TOP \<and> (\<forall>a. user_va a \<longrightarrow> 0x7FFFB \<le> page_no a \<longrightarrow> page_no a < 0x7FFFF \<longrightarrow> user_byte st3 root a = Some 0) \<or>
        t = 0 \<and> card (free_set (pmm st2)) < 16"
      using user_stack_correct [OF l(2)] by blast
    have e: "load_program elf st = Some (if r \<noteq> 0 then (st2, None) else if t = 0 then (st3, None)
        else (st3, Some (root, case e of None \<Rightarrow> 0 | Some start \<Rightarrow> start, t)))"
      unfolding load_program_def c prod.case if_not_P [OF False] l(1) option.case sum.case using s(1) by simp
    consider "r \<noteq> 0" | "r = 0" "t = 0" | "r = 0" "t \<noteq> 0" by blast
    then show ?thesis
    proof cases
      case 1
      then show ?thesis unfolding e using l(3,5) kept cr(6) [OF False] by (intro exI [of _ st2] exI [of _ None]) (auto simp: Let_def)
    next
      case 2
      then have "card (free_set (pmm st2)) < 16" using s(5) by auto
      then show ?thesis unfolding e using 2 l(5) kept [OF keeps_trans [OF l(3) s(3)]] cr(6) [OF False]
        by (intro exI [of _ st3] exI [of _ None]) (auto simp: Let_def)
    next
      case 3
      then have "user_byte st3 root a = start_image elf a" if "user_va a" for a
        using that s(4,5) im by (auto simp: start_image_def)
      moreover have "entry st3 root i = entry st (vmm_pml4 st) i" if "256 \<le> i" "i < 512" for i
        using keeps_trans [OF l(3) s(3)] cr(5) [OF False that] that by (simp add: keeps_def)
      ultimately show ?thesis unfolding e using 3 l(5) s(2,5) rn kept [OF keeps_trans [OF l(3) s(3)]]
        by (intro exI [of _ st3] exI [of _ "Some (root, e_entry (hdr_of elf), t)"]) auto
    qed
  qed
qed

section \<open>Witnesses\<close>

lemma empty_user_space:
  assumes "pmm st = pmm_demo" "kmem st = (\<lambda>_. 0)"
  shows "user_space st 0x40000 {..<256}" "user_byte st 0x40000 a = None" "vm_ok st" "used_table st 0x40000"
proof -
  have e: "entry st t i = 0" for t i using assms(2) by (simp add: entry_def)
  show ok: "vm_ok st" using pmm_demo_ok assms(1) by (auto simp: vm_ok_def pmm_demo_free)
  show ut: "used_table st 0x40000" using assms(1) by (simp add: used_table_def is_table_def pmm_demo_free page_no_def PTE_ADDR_MASK_def)
  have w: "walk st t p = (if p = [] then Some t else None)" for t p by (cases p) (simp_all add: links_def e)
  have g: "get_phys_in 0x40000 st b = 0" for b by (simp add: get_phys_entries e)
  show "user_space st 0x40000 {..<256}" using ok ut by (auto simp: user_space_def space_def no_huge_def w e g)
  show "user_byte st 0x40000 a = None" by (simp add: user_byte_def g)
qed

theorem load_program_correct_witness:
  "\<exists>st' root. load_program demo_elf vm_demo = Some (st', Some (root, 0x401000, 0x7FFFF000)) \<and> user_byte st' root 0x401001 = Some 0xEB \<and>
     user_byte st' root 0x7FFFEFF8 = Some 0 \<and> user_byte st' root 0x10000000 = None"
proof -
  have d: "vm_ok vm_demo" "used_table vm_demo (vmm_pml4 vm_demo)" using empty_user_space [of vm_demo] by (simp_all add: vm_demo_def)
  have n: "unat (e_phnum (hdr_of demo_elf)) = 1" by (simp add: demo_elf_hdr)
  let ?ph = "phdr_of demo_elf 64"
  have im: "start_image demo_elf 0x401001 = Some 0xEB" "start_image demo_elf 0x7FFFEFF8 = Some 0" "start_image demo_elf 0x10000000 = None"
    unfolding start_image_def n demo_elf_phdrs
    by (simp_all add: seg_covers_def first_page_def segment_pages_def page_no_def seg_byte_def demo_elf_phdr) (simp add: demo_elf_def)
  have uv: "user_va 0x401001" "user_va 0x7FFFEFF8" "user_va 0x10000000" by (simp_all add: user_va_def)
  have ok: "elf_check demo_elf = 0" "in_file demo_elf ?ph" "\<not> card (free_set (pmm vm_demo)) < 1 + 4 * (image_pages [?ph] + 4)" "e_entry (hdr_of demo_elf) = 0x401000"
    by (simp_all add: demo_elf_hdr in_file_def demo_elf_phdr vm_demo_def pmm_demo_free image_pages_def segment_pages_def first_page_def)
  obtain st' res where l: "load_program demo_elf vm_demo = Some (st', res)"
    "case res of Some (root, pc, sp) \<Rightarrow> pc = 0x401000 \<and> sp = 0x7FFFF000 \<and> (\<forall>a. user_va a \<longrightarrow> user_byte st' root a = start_image demo_elf a) | None \<Rightarrow> False"
    using load_program_correct [OF d demo_elf_fits] ok unfolding n demo_elf_phdrs Let_def by (auto split: option.splits)
  then obtain root where "res = Some (root, 0x401000, 0x7FFFF000)" "\<forall>a. user_va a \<longrightarrow> user_byte st' root a = start_image demo_elf a"
    by (auto split: option.splits)
  then show ?thesis using l(1) im uv by metis
qed


end
