(* ===== verification/Syscall.thy ===== *)
theory Syscall
  imports Launch
begin

text \<open>
  System calls (\<^verbatim>\<open>src/syscall/syscall.c\<close>, \<^verbatim>\<open>syscall_entry.asm\<close>): the dispatch table, the handlers of the core calls and the
  entry and exit through SYSCALL and SYSRET. The handlers of the socket calls (theory \<open>Socket\<close>) appear as names with their meaning a
  parameter. Buffers in user memory are read and written through the page tables in CR3 without any check of the address; write protection does not
  bind the kernel, since the boot code leaves CR0.WP clear. An access to an unmapped page stops the kernel: the result is \<open>None\<close>.
\<close>

section \<open>State\<close>

datatype 'n handler = Sys_read | Sys_write | Sys_open | Sys_close | Sys_getpid | Sys_exit | Sys_fork | Sys_execve | Sys_waitpid |
  Sys_enosys | Sys_mmap | Sys_munmap | Net_call 'n

record ('d, 'n) sys_state = "'d launch_state" +
  dispatch_table :: "'n handler option list"
  saved_rip :: u64
  saved_rsp :: u64
  saved_rflags :: u64
  msrs :: "u32 \<Rightarrow> u64"

text \<open>What the handlers need from outside: the terminal driver, the heap's \<^verbatim>\<open>krealloc\<close> as the file system sees it, the behaviour of the other
  processes while one waits, the address of the fork trampoline, the embedded program files and the socket calls.\<close>

record ('d, 'n) sys_env =
  env_tty_read :: "u32 \<Rightarrow> 'd \<Rightarrow> 'd \<times> u8 list"
  env_tty_write :: "u8 list \<Rightarrow> 'd \<Rightarrow> 'd \<times> int"
  env_krealloc :: "u8 list \<Rightarrow> nat \<Rightarrow> u8 list option"
  env_others :: "('d, 'n) sys_state \<Rightarrow> ('d, 'n) sys_state"
  env_tramp :: u64
  env_shell_elf :: "u8 list"
  env_httpd_elf :: "u8 list"
  env_net :: "'n \<Rightarrow> u64 list \<Rightarrow> ('d, 'n) sys_state \<Rightarrow> (('d, 'n) sys_state \<times> u64) option"

text \<open>How a handler ends: with a result for the caller, by entering user mode at another place, or with another process running.\<close>

datatype 's outcome = Returns 's u64 | Enters 's iret_frame | Left 's

section \<open>Constants\<close>

definition SYSCALL_MAX :: nat where [simp]: "SYSCALL_MAX = 320"
definition ENOSYS :: int where [simp]: "ENOSYS = 38"
definition EINVAL :: int where [simp]: "EINVAL = 22"
definition ENOENT :: int where [simp]: "ENOENT = 2"
definition ENOMEM :: int where [simp]: "ENOMEM = 12"
definition ESRCH :: int where [simp]: "ESRCH = 3"
definition ENOEXEC :: int where [simp]: "ENOEXEC = 8"
definition MSR_EFER :: u32 where [simp]: "MSR_EFER = 0xC0000080"
definition MSR_STAR :: u32 where [simp]: "MSR_STAR = 0xC0000081"
definition MSR_LSTAR :: u32 where [simp]: "MSR_LSTAR = 0xC0000082"
definition MSR_SFMASK :: u32 where [simp]: "MSR_SFMASK = 0xC0000084"
definition STAR_KERNEL_CS :: u64 where [simp]: "STAR_KERNEL_CS = 0x08"
definition STAR_USER_BASE :: u64 where [simp]: "STAR_USER_BASE = 0x10"

text \<open>\<^verbatim>\<open>(int)v\<close> of a 64-bit argument; \<^verbatim>\<open>(u64)(i64)v\<close> of a result is \<open>of_int\<close>.\<close>

definition int_arg :: "u64 \<Rightarrow> int" where
  "int_arg v = sint (ucast v :: u32)"

section \<open>User buffers\<close>

definition cur_byte :: "u64 \<Rightarrow> 'a vm_state_scheme \<Rightarrow> u8 option" where
  "cur_byte a st = user_byte st (vcr3 st AND PTE_ADDR_MASK) a"

fun user_get :: "u64 \<Rightarrow> nat \<Rightarrow> 'a vm_state_scheme \<Rightarrow> u8 list option" where
  "user_get a 0 st = Some []"
| "user_get a (Suc n) st =
     (case cur_byte a st of None \<Rightarrow> None | Some b \<Rightarrow> map_option (\<lambda>bs. b # bs) (user_get (a + 1) n st))"

fun user_put :: "u64 \<Rightarrow> u8 list \<Rightarrow> 'a vm_state_scheme \<Rightarrow> 'a vm_state_scheme option" where
  "user_put a [] st = Some st"
| "user_put a (b # bs) st =
     (let p = get_phys_in (vcr3 st AND PTE_ADDR_MASK) st a in
      if p = 0 then None else user_put (a + 1) bs (wr_byte (PHYS_TO_VIRT p) b st))"

section \<open>Handlers\<close>

definition sys_read :: "('d, 'n) sys_env \<Rightarrow> u64 \<Rightarrow> u64 \<Rightarrow> u64 \<Rightarrow> ('d, 'n) sys_state \<Rightarrow> ('d, 'n) sys_state outcome option" where
  "sys_read env fd buf cnt s =
     (case vfs_fd_read (env_tty_read env) (int_arg fd) (ucast cnt) (l_fs s) of Inl e \<Rightarrow> None
      | Inr (fs, ret, bs) \<Rightarrow>
          map_option (\<lambda>m. Returns (set_mem m (s\<lparr>l_fs := fs\<rparr>)) (of_int ret)) (user_put buf bs (os_mem s)))"

text \<open>A bad descriptor is reported before the buffer is touched.\<close>

definition sys_write :: "('d, 'n) sys_env \<Rightarrow> u64 \<Rightarrow> u64 \<Rightarrow> u64 \<Rightarrow> ('d, 'n) sys_state \<Rightarrow> ('d, 'n) sys_state outcome option" where
  "sys_write env fd buf cnt s =
     (if \<not> fd_valid (int_arg fd) (l_fs s) then Some (Returns s (of_int (-1)))
      else case user_get buf (unat (ucast cnt :: u32)) (os_mem s) of None \<Rightarrow> None
           | Some bs \<Rightarrow>
               case vfs_fd_write (env_krealloc env) (env_tty_write env) (int_arg fd) bs (l_fs s) of Inl e \<Rightarrow> None
               | Inr (fs, ret) \<Rightarrow> Some (Returns (s\<lparr>l_fs := fs\<rparr>) (of_int ret)))"

definition sys_open :: "('d, 'n) sys_state \<Rightarrow> ('d, 'n) sys_state outcome option" where
  "sys_open s = Some (Returns s (of_int (- EINVAL)))"

definition sys_close :: "u64 \<Rightarrow> ('d, 'n) sys_state \<Rightarrow> ('d, 'n) sys_state outcome option" where
  "sys_close fd s = Some (Returns (s\<lparr>l_fs := vfs_fd_close (int_arg fd) (l_fs s)\<rparr>) 0)"

definition sys_getpid :: "('d, 'n) sys_state \<Rightarrow> ('d, 'n) sys_state outcome option" where
  "sys_getpid s = Some (Returns s (case current_proc (os_sched s) of Some c \<Rightarrow> ucast (pid (os_proc s c)) | None \<Rightarrow> 0))"

definition sys_exit :: "u64 \<Rightarrow> ('d, 'n) sys_state \<Rightarrow> ('d, 'n) sys_state outcome option" where
  "sys_exit status s =
     (let s = (case current_proc (os_sched s) of Some c \<Rightarrow> upd_proc c (\<lambda>p. p\<lparr>exit_status := ucast status\<rparr>) s | None \<Rightarrow> s)
      in map_option Left (process_exit s))"

definition sys_fork :: "('d, 'n) sys_env \<Rightarrow> ('d, 'n) sys_state \<Rightarrow> ('d, 'n) sys_state outcome option" where
  "sys_fork env s = map_option (\<lambda>(s, r). Returns s (of_int r)) (process_fork (env_tramp env) s)"

definition sys_waitpid :: "('d, 'n) sys_env \<Rightarrow> u64 \<Rightarrow> u64 \<Rightarrow> ('d, 'n) sys_state \<Rightarrow> ('d, 'n) sys_state outcome option" where
  "sys_waitpid env n status_ptr s =
     (case process_waitpid (env_others env) (ucast n) s of None \<Rightarrow> None
      | Some (s, ret, status) \<Rightarrow>
          if ret < 0 then Some (Returns s (of_int (-1)))
          else if status_ptr \<noteq> 0
          then map_option (\<lambda>m. Returns (set_mem m s) (of_int ret))
                 (user_put status_ptr (le32 (case status of None \<Rightarrow> 0 | Some v \<Rightarrow> v)) (os_mem s))
          else Some (Returns s (of_int ret)))"

definition sys_enosys :: "('d, 'n) sys_state \<Rightarrow> ('d, 'n) sys_state outcome option" where
  "sys_enosys s = Some (Returns s (of_int (- ENOSYS)))"

section \<open>execve\<close>

definition s_bin_shell :: "u8 list" where "s_bin_shell = [0x2F, 0x62, 0x69, 0x6E, 0x2F, 0x73, 0x68, 0x65, 0x6C, 0x6C]"
definition s_bin_httpd :: "u8 list" where "s_bin_httpd = [0x2F, 0x62, 0x69, 0x6E, 0x2F, 0x68, 0x74, 0x74, 0x70, 0x64]"

text \<open>The comparison loop: the string at \<open>p\<close> in user memory against \<open>q\<close>.\<close>

fun path_matches :: "u8 list \<Rightarrow> u64 \<Rightarrow> 'a vm_state_scheme \<Rightarrow> bool option" where
  "path_matches [] p st = map_option (\<lambda>c. c = 0) (cur_byte p st)"
| "path_matches (q # qs) p st =
     (case cur_byte p st of None \<Rightarrow> None | Some c \<Rightarrow> if c = q then path_matches qs (p + 1) st else Some False)"

definition find_program :: "('d, 'n) sys_env \<Rightarrow> u64 \<Rightarrow> 'a vm_state_scheme \<Rightarrow> u8 list option option" where
  "find_program env path st =
     (if path = 0 then Some None
      else case path_matches s_bin_shell path st of None \<Rightarrow> None
           | Some True \<Rightarrow> Some (Some (env_shell_elf env))
           | Some False \<Rightarrow>
               map_option (\<lambda>b. if b then Some (env_httpd_elf env) else None) (path_matches s_bin_httpd path st))"

text \<open>The stack pages; the result of mapping a page is ignored.\<close>

fun exec_stack :: "u64 \<Rightarrow> nat \<Rightarrow> nat \<Rightarrow> 'a vm_state_scheme \<Rightarrow> 'a vm_state_scheme \<times> bool" where
  "exec_stack pml4 i 0 st = (st, True)"
| "exec_stack pml4 i (Suc n) st =
     (case alloc_frame st of (st, frame) \<Rightarrow>
      if frame = 0 then (st, False)
      else exec_stack pml4 (Suc i) n (fst (vmm_map_user_page pml4 (USTACK_TOP - of_nat (USTACK_PAGES - i) * PAGE_SIZE) frame
             (PTE_USER OR PTE_WRITE) (zero_cells (PHYS_TO_VIRT frame) 512 st))))"

text \<open>The last part: switch to the new address space, release the old one, a new kernel stack, and \<^verbatim>\<open>iretq\<close>.\<close>

definition exec_enter :: "nat \<Rightarrow> u64 \<Rightarrow> u64 \<Rightarrow> ('d, 'n) sys_state \<Rightarrow> ('d, 'n) sys_state outcome option" where
  "exec_enter c new_pml4 start s =
     (let old_pml4 = pml4_phys (os_proc s c);
          s = upd_proc c (\<lambda>p. p\<lparr>pml4_phys := new_pml4, mmap_next := 0\<rparr>) s;
          s = set_mem (vmm_switch_to new_pml4 (os_mem s)) s;
          s = (if old_pml4 \<noteq> 0 then set_mem (vmm_destroy_user_pml4 old_pml4 (os_mem s)) s else s) in
      case kmalloc KSTACK_SIZE (os_mem s) of None \<Rightarrow> None
      | Some (m, k) \<Rightarrow>
          if k = 0 then Some (Returns (set_mem (vmm_destroy_user_pml4 new_pml4 m) s) (of_int (- ENOMEM)))
          else
           let s = upd_proc c (\<lambda>p. p\<lparr>kstack := k\<rparr>) (set_mem (zero_bytes k KSTACK_SIZE m) s);
               s = s\<lparr>os_sched := (os_sched s)\<lparr>tss_rsp0 := k + KSTACK_SIZE, kernel_rsp := k + KSTACK_SIZE\<rparr>\<rparr>
           in Some (Enters s \<lparr>if_rip = start, if_cs = ucast SEG_USER_CODE, if_rflags = USER_RFLAGS, if_rsp = USTACK_TOP,
                              if_ss = ucast SEG_USER_DATA\<rparr>))"

definition sys_execve :: "('d, 'n) sys_env \<Rightarrow> u64 \<Rightarrow> ('d, 'n) sys_state \<Rightarrow> ('d, 'n) sys_state outcome option" where
  "sys_execve env path s =
     (case find_program env path (os_mem s) of None \<Rightarrow> None
      | Some None \<Rightarrow> Some (Returns s (of_int (- ENOENT)))
      | Some (Some elf) \<Rightarrow>
        case current_proc (os_sched s) of None \<Rightarrow> Some (Returns s (of_int (- ESRCH)))
        | Some c \<Rightarrow>
          case vmm_create_user_pml4 (os_mem s) of (m, new_pml4) \<Rightarrow>
          if new_pml4 = 0 then Some (Returns (set_mem m s) (of_int (- ENOMEM)))
          else case elf_load elf new_pml4 m of None \<Rightarrow> None
          | Some (Inl e) \<Rightarrow> None
          | Some (Inr (m, r, e)) \<Rightarrow>
            if r \<noteq> 0 then Some (Returns (set_mem (vmm_destroy_user_pml4 new_pml4 m) s) (of_int (- ENOEXEC)))
            else case exec_stack new_pml4 0 USTACK_PAGES m of (m, ok) \<Rightarrow>
              if \<not> ok then Some (Returns (set_mem (vmm_destroy_user_pml4 new_pml4 m) s) (of_int (- ENOMEM)))
              else exec_enter c new_pml4 (case e of None \<Rightarrow> 0 | Some a \<Rightarrow> a) (set_mem m s))"

section \<open>Dispatch\<close>

definition run_handler :: "('d, 'n) sys_env \<Rightarrow> 'n handler \<Rightarrow> u64 \<Rightarrow> u64 \<Rightarrow> u64 \<Rightarrow> u64 \<Rightarrow> u64 \<Rightarrow> ('d, 'n) sys_state \<Rightarrow>
    ('d, 'n) sys_state outcome option" where
  "run_handler env h a1 a2 a3 a4 a5 s =
     (case h of
        Sys_read \<Rightarrow> sys_read env a1 a2 a3 s
      | Sys_write \<Rightarrow> sys_write env a1 a2 a3 s
      | Sys_open \<Rightarrow> sys_open s
      | Sys_close \<Rightarrow> sys_close a1 s
      | Sys_getpid \<Rightarrow> sys_getpid s
      | Sys_exit \<Rightarrow> sys_exit a1 s
      | Sys_fork \<Rightarrow> sys_fork env s
      | Sys_execve \<Rightarrow> sys_execve env a1 s
      | Sys_waitpid \<Rightarrow> sys_waitpid env a1 a2 s
      | Sys_enosys \<Rightarrow> sys_enosys s
      | Sys_mmap \<Rightarrow> (case sys_mmap a2 a4 s of (s, r) \<Rightarrow> Some (Returns s r))
      | Sys_munmap \<Rightarrow> (case sys_munmap a1 a2 s of (s, r) \<Rightarrow> Some (Returns s r))
      | Net_call f \<Rightarrow> map_option (\<lambda>(s, r). Returns s r) (env_net env f [a1, a2, a3, a4, a5, 0] s))"

definition syscall_register :: "u32 \<Rightarrow> 'n handler \<Rightarrow> ('d, 'n) sys_state \<Rightarrow> ('d, 'n) sys_state" where
  "syscall_register nr fn s =
     (if unat nr < SYSCALL_MAX then s\<lparr>dispatch_table := (dispatch_table s)[unat nr := Some fn]\<rparr> else s)"

definition syscall_set_kernel_rsp :: "u64 \<Rightarrow> ('d, 'n) sys_state \<Rightarrow> ('d, 'n) sys_state" where
  "syscall_set_kernel_rsp v s = s\<lparr>os_sched := (os_sched s)\<lparr>kernel_rsp := v\<rparr>\<rparr>"

definition syscall_dispatch :: "('d, 'n) sys_env \<Rightarrow> u64 \<Rightarrow> u64 \<Rightarrow> u64 \<Rightarrow> u64 \<Rightarrow> u64 \<Rightarrow> u64 \<Rightarrow> ('d, 'n) sys_state \<Rightarrow>
    ('d, 'n) sys_state outcome option" where
  "syscall_dispatch env nr a1 a2 a3 a4 a5 s =
     (let s = process_save_user_ctx (saved_rip s) (saved_rsp s) (saved_rflags s) s in
      if unat nr \<ge> SYSCALL_MAX then Some (Returns s (of_int (- ENOSYS)))
      else case dispatch_table s ! unat nr of None \<Rightarrow> Some (Returns s (of_int (- ENOSYS)))
           | Some h \<Rightarrow> run_handler env h a1 a2 a3 a4 a5 s)"

definition wrmsr :: "u32 \<Rightarrow> u64 \<Rightarrow> ('d, 'n) sys_state \<Rightarrow> ('d, 'n) sys_state" where
  "wrmsr msr v s = s\<lparr>msrs := (msrs s)(msr := v)\<rparr>"

definition rdmsr :: "u32 \<Rightarrow> ('d, 'n) sys_state \<Rightarrow> u64" where
  "rdmsr msr s = msrs s msr"

text \<open>\<open>entry_va\<close> is the address of \<^verbatim>\<open>syscall_entry\<close>.\<close>

definition syscall_init :: "u64 \<Rightarrow> ('d, 'n) sys_state \<Rightarrow> ('d, 'n) sys_state \<times> int" where
  "syscall_init entry_va s =
     (let s = s\<lparr>dispatch_table := (replicate SYSCALL_MAX (Some Sys_enosys))
                [0 := Some Sys_read, 1 := Some Sys_write, 2 := Some Sys_open, 3 := Some Sys_close, 39 := Some Sys_getpid,
                 60 := Some Sys_exit, 57 := Some Sys_fork, 59 := Some Sys_execve, 61 := Some Sys_waitpid,
                 9 := Some Sys_enosys, 11 := Some Sys_enosys, 12 := Some Sys_enosys]\<rparr>;
          s = wrmsr MSR_EFER (rdmsr MSR_EFER s OR 1) s;
          s = wrmsr MSR_STAR (push_bit 48 STAR_USER_BASE OR push_bit 32 STAR_KERNEL_CS) s;
          s = wrmsr MSR_LSTAR entry_va s;
          s = wrmsr MSR_SFMASK (0x200 OR 0x400) s
      in (s, 0))"

definition dynlink_init :: "('d, 'n) sys_state \<Rightarrow> ('d, 'n) sys_state \<times> int" where
  "dynlink_init s = (syscall_register 11 Sys_munmap (syscall_register 9 Sys_mmap s), 0)"

section \<open>Entry and exit\<close>

text \<open>The registers at a SYSCALL instruction, after the processor has put the return address in RCX and the flags in R11.\<close>

record sys_regs =
  s_rax :: u64
  s_rdi :: u64
  s_rsi :: u64
  s_rdx :: u64
  s_r10 :: u64
  s_r8 :: u64
  s_rcx :: u64
  s_r11 :: u64
  s_rsp :: u64

datatype 's sys_result = Sysret 's user_regs | Iret 's iret_frame | Switched 's

definition push_sysret_frame :: "sys_regs \<Rightarrow> u64 \<Rightarrow> 'a vm_state_scheme \<Rightarrow> 'a vm_state_scheme" where
  "push_sysret_frame x ksp m = wr (window (ksp - 24)) (s_rsp x) (wr (window (ksp - 16)) (s_rcx x) (wr (window (ksp - 8)) (s_r11 x) m))"

definition syscall_entry :: "('d, 'n) sys_env \<Rightarrow> sys_regs \<Rightarrow> ('d, 'n) sys_state \<Rightarrow> ('d, 'n) sys_state sys_result option" where
  "syscall_entry env x s =
     (let s = s\<lparr>saved_rip := s_rcx x, saved_rsp := s_rsp x, saved_rflags := s_r11 x\<rparr>;
          ksp = kernel_rsp (os_sched s);
          s = set_mem (push_sysret_frame x ksp (os_mem s)) s
      in case syscall_dispatch env (s_rax x) (s_rdi x) (s_rsi x) (s_rdx x) (s_r10 x) (s_r8 x) s of None \<Rightarrow> None
         | Some (Returns s r) \<Rightarrow>
             Some (Sysret s \<lparr>u_rip = kmem (os_mem s) (window (ksp - 16)), u_rsp = kmem (os_mem s) (window (ksp - 24)),
                             u_rflags = kmem (os_mem s) (window (ksp - 8)), u_rax = r\<rparr>)
         | Some (Enters s f) \<Rightarrow> Some (Iret s f)
         | Some (Left s) \<Rightarrow> Some (Switched s))"

section \<open>The table\<close>

text \<open>The calls the kernel implements once the core, the mapping and the socket modules are up.\<close>

definition registered :: "(u32 \<times> 'n) list \<Rightarrow> (nat \<times> 'n handler) list" where
  "registered net =
     [(0, Sys_read), (1, Sys_write), (2, Sys_open), (3, Sys_close), (9, Sys_mmap), (11, Sys_munmap), (39, Sys_getpid), (57, Sys_fork),
      (59, Sys_execve), (60, Sys_exit), (61, Sys_waitpid)] @ map (\<lambda>(n, f). (unat n, Net_call f)) net"

definition register_net :: "(u32 \<times> 'n) list \<Rightarrow> ('d, 'n) sys_state \<Rightarrow> ('d, 'n) sys_state" where
  "register_net net s = fold (\<lambda>(n, f). syscall_register n (Net_call f)) net s"

lemma table_register:
  "unat nr < 320 \<Longrightarrow> length (dispatch_table s) = 320 \<Longrightarrow> n < 320 \<Longrightarrow>
   dispatch_table (syscall_register nr h s) ! n = (if n = unat nr then Some h else dispatch_table s ! n)"
  by (simp add: syscall_register_def)

lemma length_register [simp]: "length (dispatch_table (syscall_register nr h s)) = length (dispatch_table s)"
  by (simp add: syscall_register_def)

lemma register_net_table:
  assumes "length (dispatch_table s) = 320" "\<forall>(m, f) \<in> set net. unat m < 320" "distinct (map (unat \<circ> fst) net)" "n < 320"
  shows "length (dispatch_table (register_net net s)) = 320 \<and>
    dispatch_table (register_net net s) ! n = (case map_of (map (\<lambda>(m, f). (unat m, Net_call f)) net) n of Some h \<Rightarrow> Some h | None \<Rightarrow> dispatch_table s ! n)"
  using assms
proof (induction net arbitrary: s)
  case Nil
  then show ?case by (simp add: register_net_def)
next
  case (Cons x net)
  obtain m f where x: "x = (m, f)" by fastforce
  let ?s = "syscall_register m (Net_call f) s"
  have r: "register_net (x # net) s = register_net net ?s" by (simp add: register_net_def x)
  have mb: "unat m < 320" using Cons.prems(2) x by simp
  have ih: "length (dispatch_table (register_net net ?s)) = 320 \<and> dispatch_table (register_net net ?s) ! n =
      (case map_of (map (\<lambda>(m, f). (unat m, Net_call f)) net) n of Some h \<Rightarrow> Some h | None \<Rightarrow> dispatch_table ?s ! n)"
    using Cons.prems by (intro Cons.IH) auto
  have new: "map_of (map (\<lambda>(m, f). (unat m, Net_call f)) net) (unat m) = None"
    using Cons.prems(3) x by (force simp: map_of_eq_None_iff)
  show ?case unfolding r using ih new table_register [OF mb Cons.prems(1,4), of "Net_call f"]
    by (auto simp: x split: option.splits)
qed

lemma init_table: "n < 320 \<Longrightarrow> dispatch_table (fst (dynlink_init (fst (syscall_init e s)))) ! n =
    Some (case map_of (registered []) n of Some h \<Rightarrow> h | None \<Rightarrow> Sys_enosys)"
  "length (dispatch_table (fst (dynlink_init (fst (syscall_init e s))))) = 320"
  by (simp_all add: dynlink_init_def syscall_register_def syscall_init_def Let_def wrmsr_def registered_def nth_list_update)

text \<open>The state a handler starts in: the registers saved, and the frame for the way back on the kernel stack.\<close>

definition in_kernel :: "sys_regs \<Rightarrow> ('d, 'n) sys_state \<Rightarrow> ('d, 'n) sys_state" where
  "in_kernel x s =
     (let s = s\<lparr>saved_rip := s_rcx x, saved_rsp := s_rsp x, saved_rflags := s_r11 x\<rparr>
      in process_save_user_ctx (s_rcx x) (s_rsp x) (s_r11 x) (set_mem (push_sysret_frame x (kernel_rsp (os_sched s)) (os_mem s)) s))"

text \<open>A kernel stack pointer with room for the frame on its side of the window's start.\<close>

definition stack_room :: "u64 \<Rightarrow> bool" where
  "stack_room ksp \<longleftrightarrow> 24 \<le> ksp \<and> (ksp < KERNEL_VMA \<or> KERNEL_VMA + 24 \<le> ksp)"

lemma sysret_frame:
  assumes "stack_room ksp"
  shows "kmem (push_sysret_frame x ksp m) (window (ksp - 8)) = s_r11 x" "kmem (push_sysret_frame x ksp m) (window (ksp - 16)) = s_rcx x"
    "kmem (push_sysret_frame x ksp m) (window (ksp - 24)) = s_rsp x"
proof -
  have le: "d \<le> ksp" if "d \<le> 24" for d using assms that by (auto simp: stack_room_def)
  have w: "window (ksp - d) = (if ksp < KERNEL_VMA then PHYS_TO_VIRT (ksp - d) else ksp - d)" if d: "d \<le> 24" for d
  proof (cases "ksp < KERNEL_VMA")
    case True
    have "ksp - d \<le> ksp" using le [OF d] by (simp add: word_sub_le)
    then have "ksp - d < KERNEL_VMA" using True by (rule order.strict_trans1)
    then show ?thesis using True by (simp add: window_def)
  next
    case False
    then have "KERNEL_VMA + 24 \<le> ksp" using assms by (simp add: stack_room_def)
    then have "unat KERNEL_VMA + 24 \<le> unat ksp" by (simp add: word_le_nat_alt)
    moreover have "unat (ksp - d) = unat ksp - unat d" "unat d \<le> 24" using unat_diff [of d ksp] le [OF d] d by (simp_all add: word_le_nat_alt)
    ultimately have "\<not> ksp - d < KERNEL_VMA" unfolding word_less_nat_alt by linarith
    then show ?thesis using False by (simp add: window_def)
  qed
  have n: "(8 :: u64) \<le> 24" "(16 :: u64) \<le> 24" "(24 :: u64) \<le> 24" by simp_all
  show "kmem (push_sysret_frame x ksp m) (window (ksp - 8)) = s_r11 x" "kmem (push_sysret_frame x ksp m) (window (ksp - 16)) = s_rcx x"
    "kmem (push_sysret_frame x ksp m) (window (ksp - 24)) = s_rsp x"
    unfolding push_sysret_frame_def w [OF n(1)] w [OF n(2)] w [OF n(3)] by (auto simp: wr_def PHYS_TO_VIRT_def)
qed

lemma in_kernel_keeps: "dispatch_table (in_kernel x s) = dispatch_table s" "os_mem (in_kernel x s) = push_sysret_frame x (kernel_rsp (os_sched s)) (os_mem s)"
  by (simp_all add: in_kernel_def process_save_user_ctx_def upd_proc_def set_mem_def Let_def split: option.splits)

lemma syscall_entry_eq: "syscall_entry env x s =
    (case (if unat (s_rax x) \<ge> SYSCALL_MAX then Some (Returns (in_kernel x s) (of_int (- ENOSYS)))
      else case dispatch_table (in_kernel x s) ! unat (s_rax x) of None \<Rightarrow> Some (Returns (in_kernel x s) (of_int (- ENOSYS)))
           | Some h \<Rightarrow> run_handler env h (s_rdi x) (s_rsi x) (s_rdx x) (s_r10 x) (s_r8 x) (in_kernel x s)) of None \<Rightarrow> None
     | Some (Returns t r) \<Rightarrow> Some (Sysret t \<lparr>u_rip = kmem (os_mem t) (window (kernel_rsp (os_sched s) - 16)),
          u_rsp = kmem (os_mem t) (window (kernel_rsp (os_sched s) - 24)), u_rflags = kmem (os_mem t) (window (kernel_rsp (os_sched s) - 8)), u_rax = r\<rparr>)
     | Some (Enters t f) \<Rightarrow> Some (Iret t f)
     | Some (Left t) \<Rightarrow> Some (Switched t))"
proof -
  define t where "t = s\<lparr>saved_rip := s_rcx x, saved_rsp := s_rsp x, saved_rflags := s_r11 x\<rparr>"
  define u where "u = set_mem (push_sysret_frame x (kernel_rsp (os_sched t)) (os_mem t)) t"
  have k: "kernel_rsp (os_sched t) = kernel_rsp (os_sched s)" by (simp add: t_def)
  have u: "saved_rip u = s_rcx x" "saved_rsp u = s_rsp x" "saved_rflags u = s_r11 x" by (simp_all add: u_def t_def set_mem_def)
  have i: "process_save_user_ctx (s_rcx x) (s_rsp x) (s_r11 x) u = in_kernel x s" by (simp add: in_kernel_def Let_def u_def t_def)
  show ?thesis unfolding syscall_entry_def Let_def t_def [symmetric] u_def [symmetric] unfolding syscall_dispatch_def Let_def u i k by (rule refl)
qed


section \<open>Witness\<close>

definition sys_demo :: "(unit, nat) sys_state" where
  "sys_demo = \<lparr>os_mem = demo_mem, os_sched = (os_sched demo_os)\<lparr>kernel_rsp := 0xFFFFFFFF80100000\<rparr>, l_fs = fs_demo,
     dispatch_table = replicate 320 None, saved_rip = 0, saved_rsp = 0, saved_rflags = 0, msrs = (\<lambda>_. 0)\<rparr>"

definition env_demo :: "(unit, nat) sys_env" where
  "env_demo = \<lparr>env_tty_read = (\<lambda>n d. (d, [])), env_tty_write = (\<lambda>bs d. (d, 0)), env_krealloc = (\<lambda>bs n. Some bs), env_others = id, env_tramp = 0,
     env_shell_elf = demo_elf, env_httpd_elf = demo_elf, env_net = (\<lambda>n as s. Some (s, 0))\<rparr>"

definition regs_demo :: "u64 \<Rightarrow> sys_regs" where
  "regs_demo nr = \<lparr>s_rax = nr, s_rdi = 0, s_rsi = 0, s_rdx = 0, s_r10 = 0, s_r8 = 0, s_rcx = 0x401007, s_r11 = 0x202, s_rsp = 0x7FFFEFF0\<rparr>"


end
