(* ===== verification/Paging.thy ===== *)
theory Paging
  imports UserMem
begin

text \<open>
  The page tables of the boot code (\<^verbatim>\<open>boot/entry.asm\<close>): the first 4 GB of physical memory at their own addresses and at the top of the address space, in
  1 GB pages. The lemmas show that the rest of the kernel may use both views: a physical address as it is, and the window at \<open>KERNEL_VMA\<close>.
\<close>

section \<open>The tables\<close>

definition PDPE_PRESENT :: u64 where [simp]: "PDPE_PRESENT = 1"
definition PDPE_WRITE :: u64 where [simp]: "PDPE_WRITE = 2"
definition PDPE_1G :: u64 where [simp]: "PDPE_1G = 0x80"

text \<open>The three tables lie in a row from \<open>pml4\<close> on; cells are named by their address in the window.\<close>

definition boot_tables :: "u64 \<Rightarrow> 'a vm_state_scheme \<Rightarrow> 'a vm_state_scheme" where
  "boot_tables pml4 st =
     (let pdpt_id = pml4 + 0x1000;
          pdpt_hh = pml4 + 0x2000;
          st = zero_cells (PHYS_TO_VIRT pml4) (3 * 512) st;
          st = wr (PHYS_TO_VIRT pml4) (pdpt_id OR PDPE_PRESENT OR PDPE_WRITE) st;
          st = wr (PHYS_TO_VIRT pml4 + 8 * 511) (pdpt_hh OR PDPE_PRESENT OR PDPE_WRITE) st;
          st = for_range 0 4 (\<lambda>i. wr (PHYS_TO_VIRT pdpt_id + 8 * of_nat i) ((PDPE_PRESENT OR PDPE_WRITE OR PDPE_1G) + of_nat i * 0x40000000)) st;
          st = wr (PHYS_TO_VIRT pdpt_hh + 8 * 508) (PDPE_PRESENT OR PDPE_WRITE OR PDPE_1G OR 0x80000000) st;
          st = wr (PHYS_TO_VIRT pdpt_hh + 8 * 509) (PDPE_PRESENT OR PDPE_WRITE OR PDPE_1G OR 0xC0000000) st;
          st = wr (PHYS_TO_VIRT pdpt_hh + 8 * 510) (PDPE_PRESENT OR PDPE_WRITE OR PDPE_1G OR 0x00000000) st;
          st = wr (PHYS_TO_VIRT pdpt_hh + 8 * 511) (PDPE_PRESENT OR PDPE_WRITE OR PDPE_1G OR 0x40000000) st
      in st\<lparr>vcr3 := pml4\<rparr>)"

section \<open>Their entries\<close>

lemma zero_cells_split: "zero_cells p (m + n) st = zero_cells (p + 8 * of_nat m) n (zero_cells p m st)"
proof -
  have "(\<exists>i < m + n. a = p + 8 * of_nat i) \<longleftrightarrow> (\<exists>i < m. a = p + 8 * of_nat i) \<or> (\<exists>i < n. a = p + 8 * of_nat m + 8 * of_nat i)" for a
  proof
    assume "\<exists>i < m + n. a = p + 8 * of_nat i"
    then obtain i where i: "i < m + n" "a = p + 8 * of_nat i" by blast
    show "(\<exists>i < m. a = p + 8 * of_nat i) \<or> (\<exists>i < n. a = p + 8 * of_nat m + 8 * of_nat i)"
    proof (cases "i < m")
      case False
      then have "a = p + 8 * of_nat m + 8 * of_nat (i - m)" using i by (simp add: of_nat_diff algebra_simps)
      moreover have "i - m < n" using i False by simp
      ultimately show ?thesis by blast
    qed (use i in blast)
  next
    assume "(\<exists>i < m. a = p + 8 * of_nat i) \<or> (\<exists>i < n. a = p + 8 * of_nat m + 8 * of_nat i)"
    then show "\<exists>i < m + n. a = p + 8 * of_nat i"
    proof (elim disjE exE conjE)
      fix i assume "i < n" "a = p + 8 * of_nat m + 8 * of_nat i"
      then show ?thesis by (intro exI [of _ "m + i"]) (simp add: algebra_simps)
    qed (use trans_less_add1 in blast)
  qed
  then have "(\<lambda>a. if \<exists>i < m + n. a = p + 8 * of_nat i then 0 else kmem st a) =
      (\<lambda>a. if \<exists>i < n. a = p + 8 * of_nat m + 8 * of_nat i then 0 else if \<exists>i < m. a = p + 8 * of_nat i then 0 else kmem st a)" by (intro ext) auto
  then show ?thesis unfolding zero_cells_eq by (simp cong: if_cong)
qed

text \<open>Three frames for the tables.\<close>

definition boot_frames :: "u64 \<Rightarrow> bool" where
  "boot_frames pml4 \<longleftrightarrow> is_table pml4 \<and> is_table (pml4 + 0x1000) \<and> is_table (pml4 + 0x2000)"

lemma boot_entries:
  assumes "boot_frames pml4" "i < 512"
  shows "entry (boot_tables pml4 st) pml4 i = (if i = 0 then (pml4 + 0x1000) OR 3 else if i = 511 then (pml4 + 0x2000) OR 3 else 0)"
    and "entry (boot_tables pml4 st) (pml4 + 0x1000) i = (if i < 4 then 0x83 + of_nat i * 0x40000000 else 0)"
    and "entry (boot_tables pml4 st) (pml4 + 0x2000) i =
      (if i = 508 then 0x80000083 else if i = 509 then 0xC0000083 else if i = 510 then 0x83 else if i = 511 then 0x40000083 else 0)"
proof -
  let ?a = "pml4" and ?b = "pml4 + 0x1000" and ?c = "pml4 + 0x2000"
  have t: "is_table ?a" "is_table ?b" "is_table ?c" using assms(1) by (simp_all add: boot_frames_def)
  have ne: "?a \<noteq> ?b" "?a \<noteq> ?c" "?b \<noteq> ?c" "?b \<noteq> ?a" "?c \<noteq> ?a" "?c \<noteq> ?b" by simp_all
  have adr: "PHYS_TO_VIRT ?a + 8 * of_nat 512 = PHYS_TO_VIRT ?b" "PHYS_TO_VIRT ?b + 8 * of_nat 512 = PHYS_TO_VIRT ?c"
    by (simp_all add: PHYS_TO_VIRT_def)
  define z where "z = zero_cells (PHYS_TO_VIRT ?a) (3 * 512) st"
  have z3: "z = zero_cells (PHYS_TO_VIRT ?c) 512 (zero_cells (PHYS_TO_VIRT ?b) 512 (zero_cells (PHYS_TO_VIRT ?a) 512 st))"
    using zero_cells_split [of "PHYS_TO_VIRT ?a" 512 "512 + 512" st] zero_cells_split [of "PHYS_TO_VIRT ?b" 512 512] adr by (simp add: z_def)
  have ez: "entry z ?a j = 0" "entry z ?b j = 0" "entry z ?c j = 0" if "j < 512" for j
    unfolding z3 using that by (simp_all add: entry_zero_cells t)
  define W where "W = (\<lambda>x k v (u :: 'a vm_state_scheme). wr (PHYS_TO_VIRT x + 8 * of_nat k) v u)"
  have w: "entry (W x k v u) y j = (if y = x \<and> j = k then v else entry u y j)" if "is_table x" "is_table y" "k < 512" "j < 512" for x y j k v u
    unfolding W_def by (rule entry_wr [OF that])
  have fr: "for_range 0 4 f u = f 3 (f 2 (f 1 (f 0 u)))" for f and u :: "'a vm_state_scheme" by (simp add: for_range_def upt_rec numeral_2_eq_2 numeral_3_eq_3)
  have eb: "boot_tables pml4 st = (W ?c 511 0x40000083 (W ?c 510 0x83 (W ?c 509 0xC0000083 (W ?c 508 0x80000083
     (W ?b 3 0xC0000083 (W ?b 2 0x80000083 (W ?b 1 0x40000083 (W ?b 0 0x83 (W ?a 511 (?c OR 3) (W ?a 0 (?b OR 3) z))))))))))\<lparr>vcr3 := pml4\<rparr>"
    by (simp add: boot_tables_def Let_def z_def fr W_def)
  have e0: "entry (u\<lparr>vcr3 := p\<rparr>) x k = entry u x k" for u :: "'a vm_state_scheme" and p x k by (simp add: entry_def)
  show "entry (boot_tables pml4 st) pml4 i = (if i = 0 then (pml4 + 0x1000) OR 3 else if i = 511 then (pml4 + 0x2000) OR 3 else 0)"
    unfolding eb e0 by (simp add: w t ez assms(2))
  show "entry (boot_tables pml4 st) (pml4 + 0x2000) i =
      (if i = 508 then 0x80000083 else if i = 509 then 0xC0000083 else if i = 510 then 0x83 else if i = 511 then 0x40000083 else 0)"
    unfolding eb e0 by (simp add: w t ez assms(2))
  consider "i = 0" | "i = 1" | "i = 2" | "i = 3" | "\<not> i < 4" by linarith
  then show "entry (boot_tables pml4 st) (pml4 + 0x1000) i = (if i < 4 then 0x83 + of_nat i * 0x40000000 else 0)"
    unfolding eb e0 by cases (simp_all add: w t ez assms(2))
qed

section \<open>Translation\<close>

lemma or_disjoint: "a AND b = 0 \<Longrightarrow> a OR b = a + b" for a b :: u64
  using word_plus_and_or [of a b] by simp

lemma low_30: "unat (v AND 0x3FFFFFFF :: u64) = unat v mod 2 ^ 30"
proof -
  have m: "(0x3FFFFFFF :: u64) = mask 30" by (simp add: mask_eq_exp_minus_1)
  show ?thesis unfolding m unat_and_mask by simp
qed

text \<open>A 1 GB entry: gigabyte \<open>g\<close> of physical memory.\<close>

lemma giga_entry:
  fixes v :: u64
  assumes "g < 4"
  shows "(0x83 + of_nat g * 0x40000000 :: u64) AND PTE_PRESENT \<noteq> 0" "(0x83 + of_nat g * 0x40000000 :: u64) AND PTE_HUGE \<noteq> 0"
    "unat (((0x83 + of_nat g * 0x40000000) AND 0x000FFFFFC0000000) OR (v AND 0x3FFFFFFF)) = g * 2 ^ 30 + unat v mod 2 ^ 30"
proof -
  consider "g = 0" | "g = 1" | "g = 2" | "g = 3" using assms by linarith
  then have g: "(0x83 + of_nat g * 0x40000000 :: u64) AND PTE_PRESENT \<noteq> 0 \<and> (0x83 + of_nat g * 0x40000000 :: u64) AND PTE_HUGE \<noteq> 0 \<and>
    ((0x83 + of_nat g * 0x40000000 :: u64) AND 0x000FFFFFC0000000) = of_nat g * 0x40000000 \<and> unat (of_nat g * 0x40000000 :: u64) = g * 2 ^ 30 \<and>
    (of_nat g * 0x40000000 :: u64) AND 0x3FFFFFFF = 0"
    by cases simp_all
  then show "(0x83 + of_nat g * 0x40000000 :: u64) AND PTE_PRESENT \<noteq> 0" "(0x83 + of_nat g * 0x40000000 :: u64) AND PTE_HUGE \<noteq> 0" by blast+
  have "(of_nat g * 0x40000000 :: u64) AND (v AND 0x3FFFFFFF) = (of_nat g * 0x40000000 AND 0x3FFFFFFF) AND v" by (simp only: ac_simps)
  then have z: "(of_nat g * 0x40000000 :: u64) AND (v AND 0x3FFFFFFF) = 0" using g by simp
  have "g * 2 ^ 30 \<le> 3 * 2 ^ 30" using assms by simp
  then have "unat (of_nat g * 0x40000000 + (v AND 0x3FFFFFFF) :: u64) = g * 2 ^ 30 + unat v mod 2 ^ 30"
    using g low_30 [of v] by (subst unat_add_lem [THEN iffD1]) simp_all
  then show "unat (((0x83 + of_nat g * 0x40000000) AND 0x000FFFFFC0000000) OR (v AND 0x3FFFFFFF)) = g * 2 ^ 30 + unat v mod 2 ^ 30"
    using g or_disjoint [OF z] by simp
qed

lemma boot_walk:
  assumes f: "boot_frames pml4" and st': "st' = boot_tables pml4 st"
    and e4: "t = (if VA_PML4_IDX v = 0 then pml4 + 0x1000 else pml4 + 0x2000)" "VA_PML4_IDX v = 0 \<or> VA_PML4_IDX v = 511"
    and e3: "entry st' t (VA_PDPT_IDX v) = 0x83 + of_nat g * 0x40000000" "g < 4"
  shows "unat (get_phys_in pml4 st' v) = g * 2 ^ 30 + unat v mod 2 ^ 30"
proof -
  have t: "is_table t" using f e4(1) by (simp add: boot_frames_def)
  have e: "entry st' pml4 (VA_PML4_IDX v) = t OR 2 OR PTE_PRESENT"
    unfolding st' boot_entries(1) [OF f va_idx_bound(1)] using e4 by (auto simp: or.assoc)
  note n = new_entry_bits [OF t, of 2, unfolded links_def]
  show ?thesis unfolding get_phys_entries e Let_def using n giga_entry(1,2) [OF e3(2)] giga_entry(3) [OF e3(2), of v] e3(1) by simp
qed

lemma giga_index: "VA_PML4_IDX v = unat v div 2 ^ 39 mod 512" "VA_PDPT_IDX v = unat v div 2 ^ 30 mod 512"
  by (simp_all add: va_idx_page page_no_def div_mult2_eq [symmetric])

text \<open>The two views, one gigabyte at a time.\<close>

lemma boot_low:
  assumes "boot_frames pml4" and "unat a < 2 ^ 32"
  shows "get_phys_in pml4 (boot_tables pml4 st) a = a"
proof -
  have i: "VA_PML4_IDX a = 0" "VA_PDPT_IDX a = unat a div 2 ^ 30" "unat a div 2 ^ 30 < 4" using assms(2) by (simp_all add: giga_index)
  have "unat (get_phys_in pml4 (boot_tables pml4 st) a) = (unat a div 2 ^ 30) * 2 ^ 30 + unat a mod 2 ^ 30"
    by (rule boot_walk [OF assms(1) refl refl]) (use i boot_entries(2) [OF assms(1) va_idx_bound(2) [of a], of st] in simp_all)
  then show ?thesis by (simp add: word_unat_eq_iff)
qed

lemma boot_high:
  assumes "boot_frames pml4" and "w < 2 ^ 32" and "unat v = 0xFFFFFFFF00000000 + w"
  shows "unat (get_phys_in pml4 (boot_tables pml4 st) v) = (w + 2 ^ 31) mod 2 ^ 32"
proof -
  define k where "k = w div 2 ^ 30"
  have k: "k < 4" "w = k * 2 ^ 30 + w mod 2 ^ 30" using assms(2) by (simp_all add: k_def)
  have c: "k = 0 \<or> k = 1 \<or> k = 2 \<or> k = 3" using k(1) by linarith
  have "unat v div 2 ^ 30 = 17179869180 + k" "unat v div 2 ^ 39 = 33554431"
    using assms(2) unfolding assms(3) k_def by (simp_all add: div_nat_eqI)
  then have i: "VA_PML4_IDX v = 511" "VA_PDPT_IDX v = 508 + k" using c by (auto simp: giga_index)
  have m: "unat v mod 2 ^ 30 = w mod 2 ^ 30" using mod_mult_self3 [of 17179869180 "2 ^ 30" w] assms(3) by simp
  have e: "entry (boot_tables pml4 st) (pml4 + 0x2000) (VA_PDPT_IDX v) = 0x83 + of_nat ((k + 2) mod 4) * 0x40000000"
    unfolding i using c boot_entries(3) [OF assms(1), of "508 + k" st] by auto
  have r: "unat (get_phys_in pml4 (boot_tables pml4 st) v) = ((k + 2) mod 4) * 2 ^ 30 + unat v mod 2 ^ 30"
    by (rule boot_walk [OF assms(1) refl refl]) (use i e in simp_all)
  have "w mod 2 ^ 30 < 2 ^ 30" by simp
  then have "((k + 2) mod 4) * 2 ^ 30 + w mod 2 ^ 30 = (k * 2 ^ 30 + w mod 2 ^ 30 + 2 ^ 31) mod 2 ^ 32" using c by (auto simp: le_mod_geq)
  then show ?thesis using r m k(2) by simp
qed

text \<open>C30. With the tables the boot code builds, every physical address below 4 GB is mapped at itself, the kernel window maps the first 2 GB, the two
  gigabytes below the window map the upper 2 GB (the device registers among them), and everything outside the first and the last 512 GB is unmapped.\<close>

theorem boot_paging:
  assumes f: "boot_frames pml4"
  shows "vcr3 (boot_tables pml4 st) = pml4 \<and>
    (unat a < 2 ^ 32 \<longrightarrow> get_phys_in pml4 (boot_tables pml4 st) a = a) \<and>
    (unat a < 2 ^ 31 \<longrightarrow> get_phys_in pml4 (boot_tables pml4 st) (PHYS_TO_VIRT a) = a) \<and>
    (2 ^ 31 \<le> unat a \<and> unat a < 2 ^ 32 \<longrightarrow> get_phys_in pml4 (boot_tables pml4 st) (a - 2 ^ 31 + 0xFFFFFFFF00000000) = a) \<and>
    (VA_PML4_IDX a \<notin> {0, 511} \<longrightarrow> get_phys_in pml4 (boot_tables pml4 st) a = 0)"
proof (intro conjI impI)
  show "vcr3 (boot_tables pml4 st) = pml4" by (simp add: boot_tables_def Let_def)
  show "get_phys_in pml4 (boot_tables pml4 st) a = a" if "unat a < 2 ^ 32" by (rule boot_low [OF f that])
  show "get_phys_in pml4 (boot_tables pml4 st) (PHYS_TO_VIRT a) = a" if a: "unat a < 2 ^ 31"
  proof -
    have "unat (PHYS_TO_VIRT a) = 0xFFFFFFFF00000000 + (2 ^ 31 + unat a)"
      using a unfolding PHYS_TO_VIRT_def by (subst unat_add_lem [THEN iffD1]) (simp_all add: KERNEL_VMA_def)
    from boot_high [OF f _ this, of st] show ?thesis using a by (simp add: word_unat_eq_iff)
  qed
  show "get_phys_in pml4 (boot_tables pml4 st) (a - 2 ^ 31 + 0xFFFFFFFF00000000) = a" if a: "2 ^ 31 \<le> unat a \<and> unat a < 2 ^ 32"
  proof -
    have "unat (a - 2 ^ 31) = unat a - 2 ^ 31" using a by (subst unat_sub) (simp_all add: word_le_nat_alt)
    then have "unat (a - 2 ^ 31 + 0xFFFFFFFF00000000) = 0xFFFFFFFF00000000 + (unat a - 2 ^ 31)"
      using a by (subst unat_add_lem [THEN iffD1]) simp_all
    moreover have "unat a - 2 ^ 31 < 2 ^ 32" using a by linarith
    ultimately show ?thesis using a boot_high [OF f, where w = "unat a - 2 ^ 31" and st = st] by (simp add: word_unat_eq_iff)
  qed
  show "get_phys_in pml4 (boot_tables pml4 st) a = 0" if "VA_PML4_IDX a \<notin> {0, 511}"
    using boot_entries(1) [OF f va_idx_bound(1) [of a], of st] that by (simp add: get_phys_entries)
qed

theorem boot_paging_witness:
  "boot_frames 0x101000 \<and> get_phys_in 0x101000 (boot_tables 0x101000 vm_demo) (PHYS_TO_VIRT 0x100000) = 0x100000 \<and>
   get_phys_in 0x101000 (boot_tables 0x101000 vm_demo) 0xFFFFFFFF3EC00000 = 0xBEC00000"
  using boot_paging [where ?pml4.0 = "0x101000" and st = vm_demo and a = "0x100000"]
    boot_paging [where ?pml4.0 = "0x101000" and st = vm_demo and a = "0xBEC00000"] by (simp add: boot_frames_def is_table_def page_no_def PTE_ADDR_MASK_def)

end
