(* ===== verification/Pci.thy ===== *)
theory Pci
  imports Prelude
begin

text \<open>
  PCI enumeration (\<^verbatim>\<open>src/pci/pci.c\<close>). The configuration space is what the hardware answers: \<open>cfg a\<close> is the
  dword the data port returns after the address \<open>a\<close> was written to the address port. The writes of
  \<^verbatim>\<open>pci_write32\<close> are a log. The lemmas show that the table is exactly the list of the functions present on
  the bus, cut at the size of the array.
\<close>

section \<open>Configuration space\<close>

definition PCI_ADDR :: "u8 \<Rightarrow> u8 \<Rightarrow> u8 \<Rightarrow> u8 \<Rightarrow> u32" where
  "PCI_ADDR bus slot func off = push_bit 31 1 OR push_bit 16 (ucast bus) OR push_bit 11 (ucast slot) OR
     push_bit 8 (ucast func) OR (ucast off AND 0xFC)"

definition PCI_OFF_VENDOR :: u8 where [simp]: "PCI_OFF_VENDOR = 0x00"
definition PCI_OFF_DEVICE :: u8 where [simp]: "PCI_OFF_DEVICE = 0x02"
definition PCI_OFF_PROG_IF :: u8 where [simp]: "PCI_OFF_PROG_IF = 0x09"
definition PCI_OFF_SUBCLASS :: u8 where [simp]: "PCI_OFF_SUBCLASS = 0x0A"
definition PCI_OFF_CLASS :: u8 where [simp]: "PCI_OFF_CLASS = 0x0B"
definition PCI_OFF_HEADER_TYPE :: u8 where [simp]: "PCI_OFF_HEADER_TYPE = 0x0E"
definition PCI_OFF_BAR0 :: u8 where [simp]: "PCI_OFF_BAR0 = 0x10"
definition PCI_OFF_INT_LINE :: u8 where [simp]: "PCI_OFF_INT_LINE = 0x3C"
definition PCI_HTYPE_MULTI :: u8 where [simp]: "PCI_HTYPE_MULTI = 0x80"
definition PCI_MAX_BUS :: nat where [simp]: "PCI_MAX_BUS = 256"
definition PCI_MAX_SLOT :: nat where [simp]: "PCI_MAX_SLOT = 32"
definition PCI_MAX_FUNC :: nat where [simp]: "PCI_MAX_FUNC = 8"
definition PCI_MAX_DEVICES :: nat where [simp]: "PCI_MAX_DEVICES = 64"

type_synonym config = "u32 \<Rightarrow> u32"

definition config_read32 :: "config \<Rightarrow> u8 \<Rightarrow> u8 \<Rightarrow> u8 \<Rightarrow> u8 \<Rightarrow> u32" where
  "config_read32 cfg bus slot func off = cfg (PCI_ADDR bus slot func off)"

definition config_read16 :: "config \<Rightarrow> u8 \<Rightarrow> u8 \<Rightarrow> u8 \<Rightarrow> u8 \<Rightarrow> u16" where
  "config_read16 cfg bus slot func off =
     (let dword = config_read32 cfg bus slot func (off AND 0xFC)
      in ucast (drop_bit (unat (off AND 2) * 8) dword))"

definition config_read8 :: "config \<Rightarrow> u8 \<Rightarrow> u8 \<Rightarrow> u8 \<Rightarrow> u8 \<Rightarrow> u8" where
  "config_read8 cfg bus slot func off =
     (let dword = config_read32 cfg bus slot func (off AND 0xFC)
      in ucast (drop_bit (unat (off AND 3) * 8) dword))"

section \<open>The device table\<close>

record pci_device =
  pbus :: u8
  pslot :: u8
  pfunc :: u8
  vendor_id :: u16
  device_id :: u16
  class_code :: u8
  psubclass :: u8
  prog_if :: u8
  int_line :: u8
  bar :: "u32 list"

text \<open>\<open>devices\<close> holds the first \<^verbatim>\<open>device_count\<close> entries of the array.\<close>

record pci_state =
  devices :: "pci_device list"
  cfg_writes :: "(u32 \<times> u32) list"

definition pci_read32 :: "config \<Rightarrow> pci_device \<Rightarrow> u8 \<Rightarrow> u32" where
  "pci_read32 cfg d off = config_read32 cfg (pbus d) (pslot d) (pfunc d) off"

definition pci_write32 :: "pci_device \<Rightarrow> u8 \<Rightarrow> u32 \<Rightarrow> pci_state \<Rightarrow> pci_state" where
  "pci_write32 d off val st = st\<lparr>cfg_writes := (PCI_ADDR (pbus d) (pslot d) (pfunc d) off, val) # cfg_writes st\<rparr>"

definition probe_function :: "config \<Rightarrow> u8 \<Rightarrow> u8 \<Rightarrow> u8 \<Rightarrow> pci_state \<Rightarrow> pci_state" where
  "probe_function cfg bus slot func st =
     (let vendor = config_read16 cfg bus slot func PCI_OFF_VENDOR in
      if vendor = 0xFFFF then st
      else if length (devices st) \<ge> PCI_MAX_DEVICES then st
      else st\<lparr>devices := devices st @ [
        \<lparr>pbus = bus, pslot = slot, pfunc = func, vendor_id = vendor,
         device_id = config_read16 cfg bus slot func PCI_OFF_DEVICE,
         class_code = config_read8 cfg bus slot func PCI_OFF_CLASS,
         psubclass = config_read8 cfg bus slot func PCI_OFF_SUBCLASS,
         prog_if = config_read8 cfg bus slot func PCI_OFF_PROG_IF,
         int_line = config_read8 cfg bus slot func PCI_OFF_INT_LINE,
         bar = map (\<lambda>i. config_read32 cfg bus slot func (PCI_OFF_BAR0 + of_nat i * 4)) [0..<6]\<rparr>]\<rparr>)"

definition probe_slot :: "config \<Rightarrow> u8 \<Rightarrow> u8 \<Rightarrow> pci_state \<Rightarrow> pci_state" where
  "probe_slot cfg bus slot st =
     (let vendor = config_read16 cfg bus slot 0 PCI_OFF_VENDOR in
      if vendor = 0xFFFF then st
      else
       let st = probe_function cfg bus slot 0 st;
           htype = config_read8 cfg bus slot 0 PCI_OFF_HEADER_TYPE
       in if htype AND PCI_HTYPE_MULTI \<noteq> 0
          then for_range 1 PCI_MAX_FUNC (\<lambda>func. probe_function cfg bus slot (of_nat func)) st
          else st)"

definition pci_find_device :: "u16 \<Rightarrow> u16 \<Rightarrow> pci_state \<Rightarrow> pci_device option" where
  "pci_find_device vendor device st =
     (case scan (\<lambda>i. vendor_id (devices st ! i) = vendor \<and> device_id (devices st ! i) = device) (length (devices st)) of
        Some i \<Rightarrow> Some (devices st ! i)
      | None \<Rightarrow> None)"

definition pci_init :: "config \<Rightarrow> pci_state \<Rightarrow> pci_state \<times> int" where
  "pci_init cfg st =
     (let st = st\<lparr>devices := []\<rparr>
      in (for_range 0 PCI_MAX_BUS (\<lambda>bus st.
            for_range 0 PCI_MAX_SLOT (\<lambda>slot. probe_slot cfg (of_nat bus) (of_nat slot)) st) st, 0))"

section \<open>What the table holds\<close>

text \<open>
  The layout of configuration space of the PCI specification: 64 dwords for every function, vendor and device in the
  first, class code in the third, header type in the fourth, base addresses from the fifth on and the interrupt line
  in the last. A vendor of all ones says that there is no function; functions other than 0 exist only in a device whose
  function 0 exists and has the multi-function bit.
\<close>

definition cfg_dword :: "config \<Rightarrow> u8 \<Rightarrow> u8 \<Rightarrow> u8 \<Rightarrow> nat \<Rightarrow> u32" where
  "cfg_dword cfg bus slot func n = cfg (0x80000000 + 0x10000 * ucast bus + 0x800 * ucast slot + 0x100 * ucast func + 4 * of_nat n)"

definition answers :: "config \<Rightarrow> u8 \<Rightarrow> u8 \<Rightarrow> u8 \<Rightarrow> bool" where
  "answers cfg bus slot func \<longleftrightarrow> (ucast (cfg_dword cfg bus slot func 0) :: u16) \<noteq> 0xFFFF"

definition present :: "config \<Rightarrow> u8 \<Rightarrow> u8 \<Rightarrow> u8 \<Rightarrow> bool" where
  "present cfg bus slot func \<longleftrightarrow> answers cfg bus slot 0 \<and> answers cfg bus slot func \<and>
     (func = 0 \<or> bit (cfg_dword cfg bus slot 0 3) 23)"

definition pci_entry :: "config \<Rightarrow> u8 \<Rightarrow> u8 \<Rightarrow> u8 \<Rightarrow> pci_device" where
  "pci_entry cfg bus slot func =
     \<lparr>pbus = bus, pslot = slot, pfunc = func, vendor_id = ucast (cfg_dword cfg bus slot func 0),
      device_id = ucast (drop_bit 16 (cfg_dword cfg bus slot func 0)),
      class_code = ucast (drop_bit 24 (cfg_dword cfg bus slot func 2)),
      psubclass = ucast (drop_bit 16 (cfg_dword cfg bus slot func 2)),
      prog_if = ucast (drop_bit 8 (cfg_dword cfg bus slot func 2)),
      int_line = ucast (cfg_dword cfg bus slot func 15),
      bar = map (\<lambda>i. cfg_dword cfg bus slot func (4 + i)) [0..<6]\<rparr>"

text \<open>The entries of the functions that are present, in the order of the enumeration.\<close>

definition slot_functions :: "config \<Rightarrow> u8 \<Rightarrow> u8 \<Rightarrow> pci_device list" where
  "slot_functions cfg bus slot = map (pci_entry cfg bus slot) (filter (present cfg bus slot) (map of_nat [0..<8]))"

definition bus_functions :: "config \<Rightarrow> pci_device list" where
  "bus_functions cfg = concat (map (\<lambda>b. concat (map (\<lambda>k. slot_functions cfg (of_nat b) (of_nat k)) [0..<32])) [0..<256])"

subsection \<open>The reads of the code\<close>

lemma small_bits: "unat x < 2 ^ k \<Longrightarrow> bit x n \<Longrightarrow> n < k" for x :: u8
proof (rule ccontr)
  assume "unat x < 2 ^ k" "bit x n" "\<not> n < k"
  then have "take_bit k (unat x) = unat x" "bit (unat x) n" by (simp_all add: take_bit_nat_eq_self bit_unsigned_iff)
  then show False using \<open>\<not> n < k\<close> by (metis bit_take_bit_iff)
qed

lemma PCI_ADDR_sum:
  assumes "unat slot < 32" and "unat func < 8"
  shows "PCI_ADDR bus slot func off = 0x80000000 + 0x10000 * ucast bus + 0x800 * ucast slot + 0x100 * ucast func + (ucast off AND 0xFC)"
proof -
  have sb: "bit slot n \<Longrightarrow> n < 5" "bit func n \<Longrightarrow> n < 3" for n
    using small_bits [of slot 5 n] small_bits [of func 3 n] assms by simp_all
  have m: "0x10000 * x = push_bit 16 x" "0x800 * x = push_bit 11 x" "0x100 * x = push_bit 8 x" "(0x80000000 :: u32) = push_bit 31 1" for x :: u32
    by (simp_all add: push_bit_eq_mult mult.commute)
  define t :: u32 where "t = push_bit 31 1"
  have top: "bit t n \<longleftrightarrow> n = 31" for n
    unfolding t_def by (auto simp only: bit_push_bit_iff bit_1_iff possible_bit_word) auto
  let ?a = t and ?b = "push_bit 16 (ucast bus) :: u32" and ?c = "push_bit 11 (ucast slot) :: u32"
    and ?d = "push_bit 8 (ucast func) :: u32" and ?e = "ucast off AND 0xFC :: u32"
  have "?a + ?b = ?a OR ?b"
    by (rule disjunctive_add_eq_or, rule bit_eqI) (auto simp: top bit_and_iff bit_push_bit_iff bit_ucast_iff dest: bit_imp_le_length)
  moreover have "(?a OR ?b) + ?c = ?a OR ?b OR ?c"
    by (rule disjunctive_add_eq_or [THEN trans], rule bit_eqI)
      (auto simp: top bit_and_iff bit_or_iff bit_push_bit_iff bit_ucast_iff or.assoc dest: sb)
  moreover have "(?a OR ?b OR ?c) + ?d = ?a OR ?b OR ?c OR ?d"
    by (rule disjunctive_add_eq_or [THEN trans], rule bit_eqI)
      (auto simp: top bit_and_iff bit_or_iff bit_push_bit_iff bit_ucast_iff or.assoc dest: sb)
  moreover have "(?a OR ?b OR ?c OR ?d) + ?e = ?a OR ?b OR ?c OR ?d OR ?e"
    by (rule disjunctive_add_eq_or [THEN trans], rule bit_eqI)
      (auto simp: top bit_and_iff bit_or_iff bit_push_bit_iff bit_ucast_iff or.assoc dest: sb bit_imp_le_length)
  ultimately show ?thesis unfolding PCI_ADDR_def m t_def by (simp only: or.assoc)
qed

lemma config_reads:
  assumes "unat slot < 32" and "unat func < 8"
  shows "config_read16 cfg bus slot func PCI_OFF_VENDOR = ucast (cfg_dword cfg bus slot func 0)"
    and "config_read16 cfg bus slot func PCI_OFF_DEVICE = ucast (drop_bit 16 (cfg_dword cfg bus slot func 0))"
    and "config_read8 cfg bus slot func PCI_OFF_CLASS = ucast (drop_bit 24 (cfg_dword cfg bus slot func 2))"
    and "config_read8 cfg bus slot func PCI_OFF_SUBCLASS = ucast (drop_bit 16 (cfg_dword cfg bus slot func 2))"
    and "config_read8 cfg bus slot func PCI_OFF_PROG_IF = ucast (drop_bit 8 (cfg_dword cfg bus slot func 2))"
    and "config_read8 cfg bus slot func PCI_OFF_INT_LINE = ucast (cfg_dword cfg bus slot func 15)"
    and "config_read8 cfg bus slot func PCI_OFF_HEADER_TYPE AND PCI_HTYPE_MULTI \<noteq> 0 \<longleftrightarrow> bit (cfg_dword cfg bus slot func 3) 23"
    and "i < 6 \<Longrightarrow> config_read32 cfg bus slot func (PCI_OFF_BAR0 + of_nat i * 4) = cfg_dword cfg bus slot func (4 + i)"
proof -
  note d = config_read16_def config_read8_def config_read32_def cfg_dword_def Let_def PCI_ADDR_sum [OF assms]
  show "config_read16 cfg bus slot func PCI_OFF_VENDOR = ucast (cfg_dword cfg bus slot func 0)"
    "config_read16 cfg bus slot func PCI_OFF_DEVICE = ucast (drop_bit 16 (cfg_dword cfg bus slot func 0))"
    "config_read8 cfg bus slot func PCI_OFF_CLASS = ucast (drop_bit 24 (cfg_dword cfg bus slot func 2))"
    "config_read8 cfg bus slot func PCI_OFF_SUBCLASS = ucast (drop_bit 16 (cfg_dword cfg bus slot func 2))"
    "config_read8 cfg bus slot func PCI_OFF_PROG_IF = ucast (drop_bit 8 (cfg_dword cfg bus slot func 2))"
    "config_read8 cfg bus slot func PCI_OFF_INT_LINE = ucast (cfg_dword cfg bus slot func 15)"
    by (simp_all add: d)
  have "(x :: u8) AND 0x80 \<noteq> 0 \<longleftrightarrow> bit x 7" for x
    using and_exp_eq_0_iff_not_bit [of x 7] by simp
  then show "config_read8 cfg bus slot func PCI_OFF_HEADER_TYPE AND PCI_HTYPE_MULTI \<noteq> 0 \<longleftrightarrow> bit (cfg_dword cfg bus slot func 3) 23"
    by (simp add: d bit_simps)
  assume "i < 6"
  then have "i \<in> {0, 1, 2, 3, 4, 5}" by auto
  then show "config_read32 cfg bus slot func (PCI_OFF_BAR0 + of_nat i * 4) = cfg_dword cfg bus slot func (4 + i)"
    by (auto simp: d)
qed

lemma bar_reads:
  assumes "unat slot < 32" and "unat func < 8"
  shows "map (\<lambda>i. config_read32 cfg bus slot func (PCI_OFF_BAR0 + of_nat i * 4)) [0..<6] = bar (pci_entry cfg bus slot func)"
  using config_reads(8) [OF assms] by (simp add: pci_entry_def)

subsection \<open>The enumeration\<close>

text \<open>A step that would append \<open>ds\<close> to a table without bound: the table is the prefix that fits the array.\<close>

definition appends :: "(pci_state \<Rightarrow> pci_state) \<Rightarrow> pci_device list \<Rightarrow> bool" where
  "appends f ds \<longleftrightarrow> (\<forall>st L. devices st = take 64 L \<longrightarrow> devices (f st) = take 64 (L @ ds) \<and> cfg_writes (f st) = cfg_writes st)"

lemma appends_id: "appends (\<lambda>st. st) []"
  by (simp add: appends_def)

lemma appends_comp: "appends f xs \<Longrightarrow> appends g ys \<Longrightarrow> appends (\<lambda>st. g (f st)) (xs @ ys)"
  unfolding appends_def by (metis append.assoc)

lemma appends_for_range:
  assumes "\<And>i. lo \<le> i \<Longrightarrow> i < hi \<Longrightarrow> appends (body i) (f i)"
  shows "appends (for_range lo hi body) (concat (map f [lo..<hi]))"
  using assms
proof (induction hi)
  case 0
  then show ?case by (simp add: appends_def)
next
  case (Suc hi)
  show ?case
  proof (cases "lo \<le> hi")
    case True
    have "appends (\<lambda>st. body hi (for_range lo hi body st)) (concat (map f [lo..<hi]) @ f hi)"
      by (rule appends_comp) (use Suc True in auto)
    moreover have "for_range lo (Suc hi) body = (\<lambda>st. body hi (for_range lo hi body st))"
      using True by (simp add: for_range_last fun_eq_iff)
    ultimately show ?thesis using True by simp
  next
    case False
    then show ?thesis by (simp add: appends_def)
  qed
qed

lemma probe_function_appends:
  assumes "unat slot < 32" and "unat func < 8"
  shows "appends (probe_function cfg bus slot func) (if answers cfg bus slot func then [pci_entry cfg bus slot func] else [])"
  unfolding appends_def probe_function_def Let_def config_reads [OF assms] bar_reads [OF assms]
  by (auto simp: answers_def pci_entry_def)

lemma concat_map_if: "concat (map (\<lambda>x. if P x then [g x] else []) xs) = map g (filter P xs)"
  by (induction xs) auto

lemma slot_functions_eq:
  "slot_functions cfg bus slot = (if \<not> answers cfg bus slot 0 then []
     else if bit (cfg_dword cfg bus slot 0 3) 23
     then pci_entry cfg bus slot 0 # map (pci_entry cfg bus slot) (filter (answers cfg bus slot) (map of_nat [1..<8]))
     else [pci_entry cfg bus slot 0])"
proof -
  have fs: "map of_nat [0..<8] = (0 :: u8) # map of_nat [1..<8]" by (simp add: upt_rec)
  have nz: "0 \<notin> set (map of_nat [1..<8] :: u8 list)" by (auto simp: upt_rec)
  have "filter (present cfg bus slot) (map of_nat [1..<8]) =
      (if answers cfg bus slot 0 \<and> bit (cfg_dword cfg bus slot 0 3) 23 then filter (answers cfg bus slot) (map of_nat [1..<8]) else [])"
    using nz by (auto simp: present_def filter_empty_conv intro!: filter_cong)
  then show ?thesis unfolding slot_functions_def fs by (simp add: present_def)
qed

lemma probe_slot_appends:
  assumes "unat slot < 32"
  shows "appends (probe_slot cfg bus slot) (slot_functions cfg bus slot)"
proof -
  have zero: "unat (0 :: u8) < 8" by simp
  have f: "appends (probe_function cfg bus slot (of_nat i)) (if answers cfg bus slot (of_nat i) then [pci_entry cfg bus slot (of_nat i)] else [])"
    if "i < 8" for i by (rule probe_function_appends [OF assms]) (use that in \<open>simp add: unat_of_nat\<close>)
  let ?l = "for_range 1 PCI_MAX_FUNC (\<lambda>i. probe_function cfg bus slot (of_nat i))"
  have "appends ?l (concat (map (\<lambda>i. if answers cfg bus slot (of_nat i) then [pci_entry cfg bus slot (of_nat i)] else []) [1..<PCI_MAX_FUNC]))"
    by (rule appends_for_range) (use f in simp)
  then have l: "appends ?l (map (pci_entry cfg bus slot) (filter (answers cfg bus slot) (map of_nat [1..<8])))"
    by (simp add: concat_map_if filter_map comp_def)
  note z = probe_function_appends [OF assms zero, of cfg bus]
  show ?thesis
  proof (cases "answers cfg bus slot 0")
    case False
    then have "probe_slot cfg bus slot = (\<lambda>st. st)"
      unfolding probe_slot_def Let_def config_reads [OF assms zero] by (simp add: answers_def fun_eq_iff)
    then show ?thesis using False by (simp add: slot_functions_eq appends_id)
  next
    case True
    have eq: "probe_slot cfg bus slot = (\<lambda>st. if bit (cfg_dword cfg bus slot 0 3) 23 then ?l (probe_function cfg bus slot 0 st) else probe_function cfg bus slot 0 st)"
      using True unfolding probe_slot_def Let_def config_reads [OF assms zero] by (simp add: answers_def fun_eq_iff)
    show ?thesis using appends_comp [OF z l] z True unfolding eq by (simp add: slot_functions_eq)
  qed
qed

lemma pci_init_table: "devices (fst (pci_init cfg st)) = take 64 (bus_functions cfg) \<and> cfg_writes (fst (pci_init cfg st)) = cfg_writes st"
proof -
  have "appends (for_range 0 PCI_MAX_BUS (\<lambda>b. for_range 0 PCI_MAX_SLOT (\<lambda>k. probe_slot cfg (of_nat b) (of_nat k))))
      (concat (map (\<lambda>b. concat (map (\<lambda>k. slot_functions cfg (of_nat b) (of_nat k)) [0..<PCI_MAX_SLOT])) [0..<PCI_MAX_BUS]))"
    by (intro appends_for_range probe_slot_appends) (simp add: unat_of_nat)
  then show ?thesis by (simp add: appends_def pci_init_def Let_def bus_functions_def)
qed

subsection \<open>The table as a set\<close>

definition pci_pos :: "pci_device \<Rightarrow> u8 \<times> u8 \<times> u8" where
  "pci_pos d = (pbus d, pslot d, pfunc d)"

lemma u8_of_nat_eq: "m < 256 \<Longrightarrow> n < 256 \<Longrightarrow> (of_nat m :: u8) = of_nat n \<longleftrightarrow> m = n"
proof -
  have "unat (of_nat k :: u8) = k" if "k < 256" for k using that by (simp add: unat_of_nat)
  then show "m < 256 \<Longrightarrow> n < 256 \<Longrightarrow> ?thesis" by metis
qed

lemma distinct_concat_map:
  assumes "distinct xs" and "\<And>x. x \<in> set xs \<Longrightarrow> distinct (g x)"
    and "\<And>x y. x \<in> set xs \<Longrightarrow> y \<in> set xs \<Longrightarrow> x \<noteq> y \<Longrightarrow> set (g x) \<inter> set (g y) = {}"
  shows "distinct (concat (map g xs))"
  using assms by (induction xs) fastforce+

lemma set_slot_functions:
  "set (slot_functions cfg bus slot) = pci_entry cfg bus slot ` {f. unat f < 8 \<and> present cfg bus slot f}"
proof -
  have "set (map of_nat [0..<8]) = {f :: u8. unat f < 8}"
  proof (intro set_eqI iffI)
    fix f :: u8 assume "f \<in> {f. unat f < 8}"
    then have "f = of_nat (unat f)" "unat f \<in> {0..<8}" by simp_all
    then show "f \<in> set (map of_nat [0..<8])" by (metis image_eqI set_map set_upt)
  qed (auto simp: unat_of_nat)
  then show ?thesis by (auto simp: slot_functions_def)
qed

lemma set_bus_functions:
  "set (bus_functions cfg) = {pci_entry cfg bus slot func | bus slot func. unat slot < 32 \<and> unat func < 8 \<and> present cfg bus slot func}"
proof -
  have "\<exists>b < 256. (bus :: u8) = of_nat b" for bus using unat_lt_8 [of bus] by (intro exI [of _ "unat bus"]) simp
  moreover have "unat slot < 32 \<longleftrightarrow> (\<exists>k < 32. (slot :: u8) = of_nat k)" for slot
    by (auto simp: unat_of_nat intro: exI [of _ "unat slot"])
  ultimately show ?thesis
    by (auto simp: bus_functions_def set_slot_functions) (metis (mono_tags, lifting) atLeastLessThan_iff le0 image_eqI mem_Collect_eq)+
qed

lemma distinct_bus_functions: "distinct (map pci_pos (bus_functions cfg))"
proof -
  have pos: "map pci_pos (slot_functions cfg bus slot) = map (\<lambda>f. (bus, slot, f)) (filter (present cfg bus slot) (map of_nat [0..<8]))" for bus slot
    by (simp add: slot_functions_def pci_pos_def pci_entry_def)
  have one: "distinct (map pci_pos (slot_functions cfg bus slot))" for bus slot
    unfolding pos by (auto simp: distinct_map inj_on_def u8_of_nat_eq intro!: distinct_filter)
  have slots: "distinct (concat (map (\<lambda>k. map pci_pos (slot_functions cfg bus (of_nat k))) [0..<32]))" for bus
    by (rule distinct_concat_map, simp, rule one, simp only: pos, auto simp: u8_of_nat_eq)
  have "distinct (concat (map (\<lambda>b. concat (map (\<lambda>k. map pci_pos (slot_functions cfg (of_nat b) (of_nat k))) [0..<32])) [0..<256]))"
    by (rule distinct_concat_map, simp, rule slots, simp only: pos, auto simp: u8_of_nat_eq)
  then show ?thesis by (simp add: bus_functions_def map_concat comp_def)
qed

lemma pci_find_device_iff:
  "(\<exists>d \<in> set (devices st). vendor_id d = v \<and> device_id d = w) \<longleftrightarrow> pci_find_device v w st \<noteq> None"
  by (auto simp: pci_find_device_def scan_None_iff in_set_conv_nth split: option.splits dest!: scan_SomeD) (metis nth_mem)

lemma pci_find_device_in:
  "pci_find_device v w st = Some d \<Longrightarrow> d \<in> set (devices st) \<and> vendor_id d = v \<and> device_id d = w"
  by (auto simp: pci_find_device_def split: option.splits dest: scan_SomeD)

text \<open>C25. Enumeration lists what is on the bus. Every entry of the table describes a function that is present (one that
  answers, at function 0 or in a multi-function device) with the identification, class, interrupt line and base
  addresses at their places in its configuration space, no function is listed twice, and the table has at most 64
  entries. When it did not fill up, every function that is present is listed, so that looking up its vendor and device
  succeeds. Whatever lookup returns is an entry of the table with the vendor and device asked for.\<close>

theorem pci_find_device_complete:
  "\<forall>t. t = fst (pci_init cfg st) \<longrightarrow>
    (\<forall>d \<in> set (devices t). unat (pslot d) < 32 \<and> unat (pfunc d) < 8 \<and> present cfg (pbus d) (pslot d) (pfunc d) \<and>
       d = pci_entry cfg (pbus d) (pslot d) (pfunc d)) \<and>
    distinct (map pci_pos (devices t)) \<and> length (devices t) \<le> 64 \<and>
    (length (devices t) < 64 \<longrightarrow> (\<forall>bus slot func. unat slot < 32 \<longrightarrow> unat func < 8 \<longrightarrow> present cfg bus slot func \<longrightarrow>
       pci_entry cfg bus slot func \<in> set (devices t) \<and>
       pci_find_device (vendor_id (pci_entry cfg bus slot func)) (device_id (pci_entry cfg bus slot func)) t \<noteq> None)) \<and>
    (\<forall>v w d. pci_find_device v w t = Some d \<longrightarrow> d \<in> set (devices t) \<and> vendor_id d = v \<and> device_id d = w)"
proof (intro allI impI, goal_cases)
  case (1 t)
  then have t: "devices t = take 64 (bus_functions cfg)" using pci_init_table by blast
  have "set (devices t) \<subseteq> set (bus_functions cfg)" unfolding t by (rule set_take_subset)
  then have true: "\<forall>d \<in> set (devices t). unat (pslot d) < 32 \<and> unat (pfunc d) < 8 \<and> present cfg (pbus d) (pslot d) (pfunc d) \<and>
       d = pci_entry cfg (pbus d) (pslot d) (pfunc d)"
    unfolding set_bus_functions by (fastforce simp: pci_entry_def)
  have "distinct (map pci_pos (devices t))" unfolding t take_map [symmetric] by (rule distinct_take) (rule distinct_bus_functions)
  moreover have "set (devices t) = set (bus_functions cfg)" if "length (devices t) < 64" using that by (simp add: t)
  then have "length (devices t) < 64 \<longrightarrow> (\<forall>bus slot func. unat slot < 32 \<longrightarrow> unat func < 8 \<longrightarrow> present cfg bus slot func \<longrightarrow>
       pci_entry cfg bus slot func \<in> set (devices t) \<and>
       pci_find_device (vendor_id (pci_entry cfg bus slot func)) (device_id (pci_entry cfg bus slot func)) t \<noteq> None)"
    unfolding pci_find_device_iff [symmetric] set_bus_functions by blast
  moreover have "length (devices t) \<le> 64" by (simp add: t)
  ultimately show ?case using true pci_find_device_in by blast
qed

text \<open>A bus with one network card, in slot 3 of bus 0.\<close>

definition pci_demo :: config where
  "pci_demo a = (if a = 0x80001800 then 0x100E8086 else if a = 0x80001810 then 0xFEB80000
     else if a = 0x8000180C then 0 else 0xFFFFFFFF)"

lemma pci_demo_present:
  assumes "unat slot < 32"
  shows "present pci_demo bus slot func \<longleftrightarrow> bus = 0 \<and> slot = 3 \<and> func = 0"
proof -
  let ?a = "0x80000000 + 0x10000 * ucast bus + 0x800 * ucast slot :: u32"
  define x where "x = 32 * unat bus + unat slot"
  have "unat ?a = 0x80000000 + 0x10000 * unat bus + 0x800 * unat slot"
    using assms unat_lt_8 [of bus] by (simp add: unat_word_ariths unsigned_ucast_eq take_bit_eq_mod)
  then have u: "unat ?a = 0x80000000 + 0x800 * x" by (simp add: x_def)
  have x: "0x80000000 + 0x800 * x = 0x80001800 \<longleftrightarrow> x = 3" "0x80000000 + 0x800 * x \<noteq> 0x80001810" "0x80000000 + 0x800 * x \<noteq> 0x8000180C"
    by (cases "x \<le> 3"; simp)+
  have "x = 3 \<longleftrightarrow> bus = 0 \<and> slot = 3"
    using assms by (cases "unat bus = 0") (auto simp: x_def word_unat_eq_iff)
  then have a: "?a = 0x80001800 \<longleftrightarrow> bus = 0 \<and> slot = 3" "?a \<noteq> 0x80001810" "?a \<noteq> 0x8000180C"
    using x unfolding word_unat_eq_iff u by simp_all
  then show ?thesis by (auto simp: present_def answers_def cfg_dword_def pci_demo_def)
qed

lemma pci_demo_functions: "bus_functions pci_demo = [pci_entry pci_demo 0 3 0]"
proof -
  have "set (bus_functions pci_demo) = {pci_entry pci_demo 0 3 0}"
    unfolding set_bus_functions
    by (auto simp: pci_demo_present) (rule exI [of _ 0], rule exI [of _ 3], rule exI [of _ 0], simp add: pci_demo_present)
  moreover have "distinct (bus_functions pci_demo)" using distinct_bus_functions [of pci_demo] by (simp add: distinct_map)
  ultimately show ?thesis by (cases "bus_functions pci_demo", simp, cases "tl (bus_functions pci_demo)") auto
qed

theorem pci_find_device_complete_witness:
  "(\<exists>d. pci_find_device 0x8086 0x100E (fst (pci_init pci_demo \<lparr>devices = [], cfg_writes = []\<rparr>)) = Some d \<and>
     vendor_id d = 0x8086 \<and> bar d ! 0 = 0xFEB80000) \<and>
   pci_find_device 0xFFFF 0xFFFF (fst (pci_init pci_demo \<lparr>devices = [], cfg_writes = []\<rparr>)) = None"
proof -
  let ?t = "fst (pci_init pci_demo \<lparr>devices = [], cfg_writes = []\<rparr>)" and ?e = "pci_entry pci_demo 0 3 0"
  note c = pci_find_device_complete [of pci_demo "\<lparr>devices = [], cfg_writes = []\<rparr>", rule_format, OF refl]
  have e: "vendor_id ?e = 0x8086" "device_id ?e = 0x100E" "bar ?e ! 0 = 0xFEB80000"
    by (simp_all add: pci_entry_def cfg_dword_def pci_demo_def)
  have one: "d = ?e" if "d \<in> set (devices ?t)" for d
    using that pci_init_table [of pci_demo "\<lparr>devices = [], cfg_writes = []\<rparr>"] by (simp add: pci_demo_functions)
  have "length (devices ?t) < 64"
    using pci_init_table [of pci_demo "\<lparr>devices = [], cfg_writes = []\<rparr>"] by (simp add: pci_demo_functions)
  then have "pci_find_device (vendor_id ?e) (device_id ?e) ?t \<noteq> None"
    using c pci_demo_present [of 3 0 0] by simp
  then obtain d where d: "pci_find_device 0x8086 0x100E ?t = Some d" unfolding e by blast
  have found: "x \<in> set (devices ?t) \<and> vendor_id x = v \<and> device_id x = w" if "pci_find_device v w ?t = Some x" for v w x
    using c that by simp
  have "pci_find_device 0xFFFF 0xFFFF ?t = None"
    using found [of "0xFFFF" "0xFFFF"] one e(1) by (cases "pci_find_device 0xFFFF 0xFFFF ?t") auto
  then show ?thesis using d found [OF d] one e by blast
qed

end
