(* ===== verification/E1000.thy ===== *)
theory E1000
  imports Wire Pci
begin

text \<open>
  The network card driver (\<^verbatim>\<open>src/net/e1000/e1000.c\<close>): register access, MAC address, descriptor rings,
  sending and the receive poll. Register accesses are a log; what a register read returns is the
  device's answer to the log so far (\<open>hw\<close>). Buffers are byte lists. What depends on code outside the
  network stack or on the card is part of the state as an environment: \<open>kmalloc_ok n\<close> says whether the
  heap grants a buffer of \<open>n\<close> bytes (each operation that takes one frees it before it returns), \<open>tx_done i\<close>
  whether the card reports transmit descriptor \<open>i\<close> as done within the 100000 reads of the wait loop, and
  \<open>clock\<close> is the value of \<^verbatim>\<open>timer_get_ticks()\<close>. The receive control register is set to buffers of 2048
  bytes, so a descriptor the card completes has at most that length. The list \<open>sent\<close> records the frames handed to the card.
\<close>

section \<open>Registers, bits and sizes\<close>

definition E1000_VENDOR_ID :: u16 where [simp]: "E1000_VENDOR_ID = 0x8086"
definition E1000_DEVICE_ID :: u16 where [simp]: "E1000_DEVICE_ID = 0x100E"

definition E1000_REG_CTRL :: u32 where [simp]: "E1000_REG_CTRL = 0x0000"
definition E1000_REG_STATUS :: u32 where [simp]: "E1000_REG_STATUS = 0x0008"
definition E1000_REG_EERD :: u32 where [simp]: "E1000_REG_EERD = 0x0014"
definition E1000_REG_ICR :: u32 where [simp]: "E1000_REG_ICR = 0x00C0"
definition E1000_REG_IMC :: u32 where [simp]: "E1000_REG_IMC = 0x00D8"
definition E1000_REG_RCTL :: u32 where [simp]: "E1000_REG_RCTL = 0x0100"
definition E1000_REG_TCTL :: u32 where [simp]: "E1000_REG_TCTL = 0x0400"
definition E1000_REG_TIPG :: u32 where [simp]: "E1000_REG_TIPG = 0x0410"
definition E1000_REG_RDBAL :: u32 where [simp]: "E1000_REG_RDBAL = 0x2800"
definition E1000_REG_RDBAH :: u32 where [simp]: "E1000_REG_RDBAH = 0x2804"
definition E1000_REG_RDLEN :: u32 where [simp]: "E1000_REG_RDLEN = 0x2808"
definition E1000_REG_RDH :: u32 where [simp]: "E1000_REG_RDH = 0x2810"
definition E1000_REG_RDT :: u32 where [simp]: "E1000_REG_RDT = 0x2818"
definition E1000_REG_TDBAL :: u32 where [simp]: "E1000_REG_TDBAL = 0x3800"
definition E1000_REG_TDBAH :: u32 where [simp]: "E1000_REG_TDBAH = 0x3804"
definition E1000_REG_TDLEN :: u32 where [simp]: "E1000_REG_TDLEN = 0x3808"
definition E1000_REG_TDH :: u32 where [simp]: "E1000_REG_TDH = 0x3810"
definition E1000_REG_TDT :: u32 where [simp]: "E1000_REG_TDT = 0x3818"
definition E1000_REG_MTA :: u32 where [simp]: "E1000_REG_MTA = 0x5200"
definition E1000_REG_RAL0 :: u32 where [simp]: "E1000_REG_RAL0 = 0x5400"
definition E1000_REG_RAH0 :: u32 where [simp]: "E1000_REG_RAH0 = 0x5404"

definition E1000_CTRL_RST :: u32 where [simp]: "E1000_CTRL_RST = push_bit 26 1"
definition E1000_CTRL_ASDE :: u32 where [simp]: "E1000_CTRL_ASDE = push_bit 5 1"
definition E1000_CTRL_SLU :: u32 where [simp]: "E1000_CTRL_SLU = push_bit 6 1"
definition E1000_RCTL_EN :: u32 where [simp]: "E1000_RCTL_EN = push_bit 1 1"
definition E1000_RCTL_UPE :: u32 where [simp]: "E1000_RCTL_UPE = push_bit 3 1"
definition E1000_RCTL_MPE :: u32 where [simp]: "E1000_RCTL_MPE = push_bit 4 1"
definition E1000_RCTL_BAM :: u32 where [simp]: "E1000_RCTL_BAM = push_bit 15 1"
definition E1000_RCTL_SECRC :: u32 where [simp]: "E1000_RCTL_SECRC = push_bit 26 1"
definition E1000_TCTL_EN :: u32 where [simp]: "E1000_TCTL_EN = push_bit 1 1"
definition E1000_TCTL_PSP :: u32 where [simp]: "E1000_TCTL_PSP = push_bit 3 1"
definition E1000_EERD_START :: u32 where [simp]: "E1000_EERD_START = push_bit 0 1"
definition E1000_EERD_DONE :: u32 where [simp]: "E1000_EERD_DONE = push_bit 4 1"
definition E1000_RAH_AV :: u32 where [simp]: "E1000_RAH_AV = push_bit 31 1"
definition E1000_RCTL_BSIZE_2K :: u32 where [simp]: "E1000_RCTL_BSIZE_2K = 0"
definition E1000_TCTL_CT_SHIFT :: nat where [simp]: "E1000_TCTL_CT_SHIFT = 4"
definition E1000_TCTL_COLD_SHIFT :: nat where [simp]: "E1000_TCTL_COLD_SHIFT = 12"
definition E1000_EERD_ADDR_SHIFT :: nat where [simp]: "E1000_EERD_ADDR_SHIFT = 8"
definition E1000_EERD_DATA_SHIFT :: nat where [simp]: "E1000_EERD_DATA_SHIFT = 16"

definition E1000_RXD_STAT_DD :: u8 where [simp]: "E1000_RXD_STAT_DD = 1"
definition E1000_RXD_STAT_EOP :: u8 where [simp]: "E1000_RXD_STAT_EOP = 2"
definition E1000_TXD_CMD_EOP :: u8 where [simp]: "E1000_TXD_CMD_EOP = 1"
definition E1000_TXD_CMD_FCS :: u8 where [simp]: "E1000_TXD_CMD_FCS = 2"
definition E1000_TXD_CMD_RS :: u8 where [simp]: "E1000_TXD_CMD_RS = 8"
definition E1000_TXD_STAT_DD :: u8 where [simp]: "E1000_TXD_STAT_DD = 1"

section \<open>State\<close>

definition E1000_NUM_RX_DESC :: nat where [simp]: "E1000_NUM_RX_DESC = 32"
definition E1000_NUM_TX_DESC :: nat where [simp]: "E1000_NUM_TX_DESC = 32"
definition E1000_RX_BUF_SIZE :: nat where [simp]: "E1000_RX_BUF_SIZE = 2048"
definition E1000_MAX_FRAME :: nat where [simp]: "E1000_MAX_FRAME = 1518"

record rx_desc =
  rd_addr :: u64
  rd_length :: u16
  rd_checksum :: u16
  rd_status :: u8
  rd_errors :: u8
  rd_special :: u16

record tx_desc =
  td_addr :: u64
  td_length :: u16
  td_cso :: u8
  td_cmd :: u8
  td_status :: u8
  td_css :: u8
  td_special :: u16

datatype mmio_op = Mmio_write u32 u32 | Mmio_read u32

type_synonym mmio_log = "mmio_op list"

datatype rx_cb = Ethernet_rx

record e1000_state =
  mmio_base :: u64
  mmio :: mmio_log          \<comment> \<open>most recent access first\<close>
  mac :: "u8 list"
  rx_descs :: "rx_desc list"
  rx_descs_phys :: u64
  rx_bufs :: "u8 list list"
  rx_bufs_phys :: "u64 list"
  rx_ring_tail :: u32
  tx_descs :: "tx_desc list"
  tx_descs_phys :: u64
  tx_bufs :: "u8 list list"
  tx_bufs_phys :: "u64 list"
  tx_ring_tail :: u32
  e1000_ready :: bool
  rx_callback :: "rx_cb option"
  kmalloc_ok :: "nat \<Rightarrow> bool"
  tx_done :: "nat \<Rightarrow> bool"
  clock :: u32
  sent :: "u8 list list"

section \<open>Registers\<close>

definition e1000_write :: "u32 \<Rightarrow> u32 \<Rightarrow> 'a e1000_state_scheme \<Rightarrow> 'a e1000_state_scheme" where
  "e1000_write reg val st = st\<lparr>mmio := Mmio_write reg val # mmio st\<rparr>"

definition e1000_read :: "(mmio_log \<Rightarrow> u32 \<Rightarrow> u32) \<Rightarrow> u32 \<Rightarrow> 'a e1000_state_scheme \<Rightarrow> 'a e1000_state_scheme \<times> u32" where
  "e1000_read hw reg st = (st\<lparr>mmio := Mmio_read reg # mmio st\<rparr>, hw (mmio st) reg)"

fun eeprom_poll :: "(mmio_log \<Rightarrow> u32 \<Rightarrow> u32) \<Rightarrow> nat \<Rightarrow> 'a e1000_state_scheme \<Rightarrow> 'a e1000_state_scheme \<times> u16" where
  "eeprom_poll hw 0 st = (st, 0)"
| "eeprom_poll hw (Suc n) st =
     (case e1000_read hw E1000_REG_EERD st of (st, v) \<Rightarrow>
      if v AND E1000_EERD_DONE \<noteq> 0 then (st, ucast (drop_bit E1000_EERD_DATA_SHIFT v)) else eeprom_poll hw n st)"

definition eeprom_read :: "(mmio_log \<Rightarrow> u32 \<Rightarrow> u32) \<Rightarrow> u8 \<Rightarrow> 'a e1000_state_scheme \<Rightarrow> 'a e1000_state_scheme \<times> u16" where
  "eeprom_read hw addr st = eeprom_poll hw 100000 (e1000_write E1000_REG_EERD (E1000_EERD_START OR push_bit E1000_EERD_ADDR_SHIFT (ucast addr)) st)"

definition read_mac :: "(mmio_log \<Rightarrow> u32 \<Rightarrow> u32) \<Rightarrow> 'a e1000_state_scheme \<Rightarrow> 'a e1000_state_scheme" where
  "read_mac hw st =
     (case eeprom_read hw 0 st of (st, w0) \<Rightarrow>
      if w0 \<noteq> 0 then
        case eeprom_read hw 1 st of (st, w1) \<Rightarrow>
        case eeprom_read hw 2 st of (st, w2) \<Rightarrow>
        st\<lparr>mac := [ucast (w0 AND 0xFF), ucast (drop_bit 8 w0), ucast (w1 AND 0xFF), ucast (drop_bit 8 w1),
                   ucast (w2 AND 0xFF), ucast (drop_bit 8 w2)]\<rparr>
      else
        case e1000_read hw E1000_REG_RAL0 st of (st, ral) \<Rightarrow>
        case e1000_read hw E1000_REG_RAH0 st of (st, rah) \<Rightarrow>
        st\<lparr>mac := [ucast (ral AND 0xFF), ucast (drop_bit 8 ral AND 0xFF), ucast (drop_bit 16 ral AND 0xFF),
                   ucast (drop_bit 24 ral AND 0xFF), ucast (rah AND 0xFF), ucast (drop_bit 8 rah AND 0xFF)]\<rparr>)"

section \<open>Rings\<close>

text \<open>The blocks the ring set-up takes from the heap: \<open>ring\<close> is the address of the descriptor block and \<open>buf i\<close> that of
  buffer \<open>i\<close> (0 for NULL); \<open>phys\<close> is \<^verbatim>\<open>vmm_get_phys\<close>. The blocks are zeroed.\<close>

definition align16 :: "u64 \<Rightarrow> u64" where
  "align16 raw = (raw + 15) AND NOT 15"

definition rx_desc_zero :: rx_desc where
  "rx_desc_zero = \<lparr>rd_addr = 0, rd_length = 0, rd_checksum = 0, rd_status = 0, rd_errors = 0, rd_special = 0\<rparr>"

definition tx_desc_zero :: tx_desc where
  "tx_desc_zero = \<lparr>td_addr = 0, td_length = 0, td_cso = 0, td_cmd = 0, td_status = 0, td_css = 0, td_special = 0\<rparr>"

fun init_rx_bufs :: "(nat \<Rightarrow> u64) \<Rightarrow> (u64 \<Rightarrow> u64) \<Rightarrow> nat \<Rightarrow> nat \<Rightarrow> 'a e1000_state_scheme \<Rightarrow> 'a e1000_state_scheme \<times> bool" where
  "init_rx_bufs buf phys i 0 st = (st, True)"
| "init_rx_bufs buf phys i (Suc n) st =
     (if buf i = 0 then (st, False)
      else init_rx_bufs buf phys (Suc i) n
        (st\<lparr>rx_bufs := (rx_bufs st)[i := replicate E1000_RX_BUF_SIZE 0],
            rx_bufs_phys := (rx_bufs_phys st)[i := phys (buf i)],
            rx_descs := (rx_descs st)[i := (rx_descs st ! i)\<lparr>rd_addr := phys (buf i), rd_status := 0\<rparr>]\<rparr>))"

definition init_rx :: "u64 \<Rightarrow> (nat \<Rightarrow> u64) \<Rightarrow> (u64 \<Rightarrow> u64) \<Rightarrow> 'a e1000_state_scheme \<Rightarrow> 'a e1000_state_scheme \<times> int" where
  "init_rx ring buf phys st =
     (if ring = 0 then (st, -1)
      else
       let st = st\<lparr>rx_descs := replicate E1000_NUM_RX_DESC rx_desc_zero, rx_descs_phys := phys (align16 ring)\<rparr>
       in case init_rx_bufs buf phys 0 E1000_NUM_RX_DESC st of (st, ok) \<Rightarrow>
          if \<not> ok then (st, -1)
          else
           let st = st\<lparr>rx_ring_tail := 0\<rparr>;
               st = e1000_write E1000_REG_RDBAL (ucast (rx_descs_phys st AND 0xFFFFFFFF)) st;
               st = e1000_write E1000_REG_RDBAH (ucast (drop_bit 32 (rx_descs_phys st))) st;
               st = e1000_write E1000_REG_RDLEN (of_nat E1000_NUM_RX_DESC * 16) st;
               st = e1000_write E1000_REG_RDH 0 st;
               st = e1000_write E1000_REG_RDT (of_nat E1000_NUM_RX_DESC - 1) st;
               rctl = E1000_RCTL_EN OR E1000_RCTL_BAM OR E1000_RCTL_BSIZE_2K OR E1000_RCTL_SECRC OR E1000_RCTL_UPE OR E1000_RCTL_MPE
           in (e1000_write E1000_REG_RCTL rctl st, 0))"

fun init_tx_bufs :: "(nat \<Rightarrow> u64) \<Rightarrow> (u64 \<Rightarrow> u64) \<Rightarrow> nat \<Rightarrow> nat \<Rightarrow> 'a e1000_state_scheme \<Rightarrow> 'a e1000_state_scheme \<times> bool" where
  "init_tx_bufs buf phys i 0 st = (st, True)"
| "init_tx_bufs buf phys i (Suc n) st =
     (if buf i = 0 then (st, False)
      else init_tx_bufs buf phys (Suc i) n
        (st\<lparr>tx_bufs := (tx_bufs st)[i := replicate E1000_RX_BUF_SIZE 0],
            tx_bufs_phys := (tx_bufs_phys st)[i := phys (buf i)],
            tx_descs := (tx_descs st)[i := (tx_descs st ! i)\<lparr>td_status := E1000_TXD_STAT_DD\<rparr>]\<rparr>))"

definition init_tx :: "u64 \<Rightarrow> (nat \<Rightarrow> u64) \<Rightarrow> (u64 \<Rightarrow> u64) \<Rightarrow> 'a e1000_state_scheme \<Rightarrow> 'a e1000_state_scheme \<times> int" where
  "init_tx ring buf phys st =
     (if ring = 0 then (st, -1)
      else
       let st = st\<lparr>tx_descs := replicate E1000_NUM_TX_DESC tx_desc_zero, tx_descs_phys := phys (align16 ring)\<rparr>
       in case init_tx_bufs buf phys 0 E1000_NUM_TX_DESC st of (st, ok) \<Rightarrow>
          if \<not> ok then (st, -1)
          else
           let st = st\<lparr>tx_ring_tail := 0\<rparr>;
               st = e1000_write E1000_REG_TDBAL (ucast (tx_descs_phys st AND 0xFFFFFFFF)) st;
               st = e1000_write E1000_REG_TDBAH (ucast (drop_bit 32 (tx_descs_phys st))) st;
               st = e1000_write E1000_REG_TDLEN (of_nat E1000_NUM_TX_DESC * 16) st;
               st = e1000_write E1000_REG_TDH 0 st;
               st = e1000_write E1000_REG_TDT 0 st;
               tctl = E1000_TCTL_EN OR E1000_TCTL_PSP OR push_bit E1000_TCTL_CT_SHIFT 15 OR push_bit E1000_TCTL_COLD_SHIFT 63;
               st = e1000_write E1000_REG_TCTL tctl st
           in (e1000_write E1000_REG_TIPG (push_bit 20 6 OR push_bit 10 8 OR 10) st, 0))"

text \<open>\<^verbatim>\<open>e1000_init_impl\<close> after the \<^verbatim>\<open>memset\<close> of the driver state. The heap blocks of the two rings are
  \<open>rxr\<close>, \<open>rxb\<close> and \<open>txr\<close>, \<open>txb\<close>.\<close>

definition program_mac :: "'a e1000_state_scheme \<Rightarrow> 'a e1000_state_scheme" where
  "program_mac st =
     (let ral = ucast (mac st ! 0) OR push_bit 8 (ucast (mac st ! 1)) OR push_bit 16 (ucast (mac st ! 2)) OR push_bit 24 (ucast (mac st ! 3));
          rah = ucast (mac st ! 4) OR push_bit 8 (ucast (mac st ! 5)) OR E1000_RAH_AV;
          st = e1000_write E1000_REG_RAL0 ral st
      in e1000_write E1000_REG_RAH0 rah st)"

definition e1000_init_impl :: "(mmio_log \<Rightarrow> u32 \<Rightarrow> u32) \<Rightarrow> config \<Rightarrow> pci_state \<Rightarrow> u64 \<Rightarrow> (nat \<Rightarrow> u64) \<Rightarrow> u64 \<Rightarrow> (nat \<Rightarrow> u64) \<Rightarrow>
    (u64 \<Rightarrow> u64) \<Rightarrow> 'a e1000_state_scheme \<Rightarrow> pci_state \<times> 'a e1000_state_scheme \<times> int" where
  "e1000_init_impl hw cfg pci rxr rxb txr txb phys st =
     (let st = st\<lparr>mac := replicate 6 0, rx_bufs := replicate 32 [], rx_bufs_phys := replicate 32 0, rx_ring_tail := 0,
                 tx_bufs := replicate 32 [], tx_bufs_phys := replicate 32 0, tx_ring_tail := 0, mmio_base := 0,
                 rx_descs := [], rx_descs_phys := 0, tx_descs := [], tx_descs_phys := 0\<rparr> in
      case pci_find_device E1000_VENDOR_ID E1000_DEVICE_ID pci of None \<Rightarrow> (pci, st, -1)
      | Some d \<Rightarrow>
          let mmio_phys = ucast (bar d ! 0 AND NOT 0xF);
              st = st\<lparr>mmio_base := 0xFFFFFFFF40000000 + (mmio_phys - 0xC0000000)\<rparr>;
              cmd = pci_read32 cfg d 0x04;
              pci = pci_write32 d 0x04 (cmd OR push_bit 2 1) pci in
          case e1000_read hw E1000_REG_CTRL st of (st, ctrl) \<Rightarrow>
          case e1000_read hw E1000_REG_CTRL (e1000_write E1000_REG_CTRL (ctrl OR E1000_CTRL_RST) st) of (st, ctrl) \<Rightarrow>
          if ctrl AND E1000_CTRL_RST \<noteq> 0 then (pci, st, -1) else
          case e1000_read hw E1000_REG_CTRL st of (st, ctrl) \<Rightarrow>
          let st = e1000_write E1000_REG_CTRL (ctrl OR E1000_CTRL_SLU OR E1000_CTRL_ASDE) st;
              st = for_range 0 128 (\<lambda>i. e1000_write (E1000_REG_MTA + of_nat i * 4) 0) st;
              st = program_mac (read_mac hw st);
              st = e1000_write E1000_REG_IMC 0xFFFFFFFF st;
              st = fst (e1000_read hw E1000_REG_ICR st) in
          case init_rx rxr rxb phys st of (st, r) \<Rightarrow>
          if r < 0 then (pci, st, -1) else
          case init_tx txr txb phys st of (st, r) \<Rightarrow>
          if r < 0 then (pci, st, -1)
          else (pci, fst (e1000_read hw E1000_REG_STATUS (st\<lparr>e1000_ready := True\<rparr>)), 0))"

section \<open>Sending\<close>

definition e1000_send :: "u8 list \<Rightarrow> 'a e1000_state_scheme \<Rightarrow> 'a e1000_state_scheme \<times> int" where
  "e1000_send buf st =
     (if \<not> e1000_ready st then (st, -1)
      else if length buf > E1000_MAX_FRAME then (st, -1)
      else
       let idx = unat (tx_ring_tail st) mod E1000_NUM_TX_DESC in
       if td_status (tx_descs st ! idx) AND E1000_TXD_STAT_DD = 0 \<and> \<not> tx_done st idx then (st, -1)
       else
        let st = st\<lparr>tx_bufs := (tx_bufs st)[idx := buf @ drop (length buf) (tx_bufs st ! idx)]\<rparr>;
            st = st\<lparr>tx_descs := (tx_descs st)[idx := (tx_descs st ! idx)\<lparr>td_addr := tx_bufs_phys st ! idx,
                   td_length := of_nat (length buf), td_cso := 0, td_css := 0, td_special := 0, td_cmd := E1000_TXD_CMD_EOP OR E1000_TXD_CMD_FCS OR E1000_TXD_CMD_RS,
                   td_status := 0\<rparr>]\<rparr>;
            st = st\<lparr>tx_ring_tail := of_nat ((idx + 1) mod E1000_NUM_TX_DESC)\<rparr>;
            st = e1000_write E1000_REG_TDT (tx_ring_tail st) st
        in (st\<lparr>sent := sent st @ [buf]\<rparr>, 0))"

definition e1000_register_rx_callback :: "rx_cb \<Rightarrow> 'a e1000_state_scheme \<Rightarrow> 'a e1000_state_scheme" where
  "e1000_register_rx_callback cb st = st\<lparr>rx_callback := Some cb\<rparr>"

definition e1000_get_mac :: "'a e1000_state_scheme \<Rightarrow> u8 list" where
  "e1000_get_mac st = mac st"

section \<open>Receiving\<close>

text \<open>One completed descriptor: deliver a copy of the frame to the callback (\<open>run\<close>), give the descriptor back.\<close>

definition e1000_rx_one :: "(rx_cb \<Rightarrow> u8 list \<Rightarrow> 'a e1000_state_scheme \<Rightarrow> 'a e1000_state_scheme) \<Rightarrow>
    'a e1000_state_scheme \<Rightarrow> 'a e1000_state_scheme" where
  "e1000_rx_one run st =
     (let idx = unat (rx_ring_tail st) mod E1000_NUM_RX_DESC;
          d = rx_descs st ! idx;
          len = unat (rd_length d);
          st = (if len > 0 \<and> rd_status d AND E1000_RXD_STAT_EOP \<noteq> 0
                then case rx_callback st of
                       Some cb \<Rightarrow> if kmalloc_ok st len then run cb (take len (rx_bufs st ! idx)) st else st
                     | None \<Rightarrow> st
                else st);
          st = st\<lparr>rx_descs := (rx_descs st)[idx := (rx_descs st ! idx)\<lparr>rd_status := 0, rd_addr := rx_bufs_phys st ! idx\<rparr>]\<rparr>;
          st = st\<lparr>rx_ring_tail := of_nat ((idx + 1) mod E1000_NUM_RX_DESC)\<rparr>
      in e1000_write E1000_REG_RDT (of_nat idx) st)"

definition rx_ready :: "'a e1000_state_scheme \<Rightarrow> bool" where
  "rx_ready st \<longleftrightarrow> rd_status (rx_descs st ! (unat (rx_ring_tail st) mod E1000_NUM_RX_DESC)) AND E1000_RXD_STAT_DD \<noteq> 0"

partial_function (option) e1000_poll_loop :: "(rx_cb \<Rightarrow> u8 list \<Rightarrow> 'a e1000_state_scheme \<Rightarrow> 'a e1000_state_scheme) \<Rightarrow>
    'a e1000_state_scheme \<Rightarrow> 'a e1000_state_scheme option" where
  "e1000_poll_loop run st = (if rx_ready st then e1000_poll_loop run (e1000_rx_one run st) else Some st)"

definition e1000_poll :: "(rx_cb \<Rightarrow> u8 list \<Rightarrow> 'a e1000_state_scheme \<Rightarrow> 'a e1000_state_scheme) \<Rightarrow>
    'a e1000_state_scheme \<Rightarrow> 'a e1000_state_scheme option" where
  "e1000_poll run st = (if \<not> e1000_ready st then Some st else e1000_poll_loop run st)"

end
