(* ===== verification/Ethernet.thy ===== *)
theory Ethernet
  imports E1000
begin

text \<open>
  The Ethernet layer (\<^verbatim>\<open>src/net/ethernet/ethernet.c\<close>): a table of handlers by ethertype, dispatch of received
  frames, building of frames to send. A handler is named by a constructor of \<open>eth_handler\<close>; \<open>run\<close> maps the name to the function
  and is fixed where the layers above are defined. The lemmas show that a sent frame is received with
  its source, type and payload.
\<close>

section \<open>State\<close>

definition ETHERTYPE_IPV4 :: u16 where [simp]: "ETHERTYPE_IPV4 = 0x0800"
definition ETHERTYPE_ARP :: u16 where [simp]: "ETHERTYPE_ARP = 0x0806"
definition ETH_MAX_PAYLOAD :: nat where [simp]: "ETH_MAX_PAYLOAD = 1500"
definition ETH_HEADER_LEN :: nat where [simp]: "ETH_HEADER_LEN = 14"
definition ETH_MAX_HANDLERS :: nat where [simp]: "ETH_MAX_HANDLERS = 8"
definition ETH_BROADCAST :: "u8 list" where "ETH_BROADCAST = replicate 6 0xFF"

record eth_hdr =
  eth_dst :: "u8 list"
  eth_src :: "u8 list"
  eth_type :: u16

definition eth_hdr_bytes :: "eth_hdr \<Rightarrow> u8 list" where
  "eth_hdr_bytes h = eth_dst h @ eth_src h @ le16 (eth_type h)"

definition eth_hdr_of :: "u8 list \<Rightarrow> eth_hdr" where
  "eth_hdr_of b = \<lparr>eth_dst = take 6 b, eth_src = take 6 (drop 6 b), eth_type = get16 b 12\<rparr>"

datatype eth_handler = Arp_rx | Ipv4_rx

record eth_state = e1000_state +
  eth_handlers :: "(u16 \<times> eth_handler) list"
  our_mac :: "u8 list"

section \<open>Operations\<close>

definition ethernet_rx :: "(eth_handler \<Rightarrow> u8 list \<Rightarrow> u8 list \<Rightarrow> 'a eth_state_scheme \<Rightarrow> 'a eth_state_scheme) \<Rightarrow> u8 list \<Rightarrow>
    'a eth_state_scheme \<Rightarrow> 'a eth_state_scheme" where
  "ethernet_rx run buf st =
     (if length buf < ETH_HEADER_LEN then st
      else
       let hdr = eth_hdr_of buf;
           type = ntohs (eth_type hdr);
           payload = drop ETH_HEADER_LEN buf
       in case find (\<lambda>e. fst e = type) (eth_handlers st) of
            Some e \<Rightarrow> run (snd e) payload (eth_src hdr) st
          | None \<Rightarrow> st)"

definition ethernet_register :: "u16 \<Rightarrow> eth_handler \<Rightarrow> 'a eth_state_scheme \<Rightarrow> 'a eth_state_scheme \<times> int" where
  "ethernet_register ethertype handler st =
     (if length (eth_handlers st) \<ge> ETH_MAX_HANDLERS then (st, -1)
      else (st\<lparr>eth_handlers := eth_handlers st @ [(ethertype, handler)]\<rparr>, 0))"

definition ethernet_send :: "u8 list \<Rightarrow> u16 \<Rightarrow> u8 list \<Rightarrow> 'a eth_state_scheme \<Rightarrow> 'a eth_state_scheme \<times> int" where
  "ethernet_send dst type payload st =
     (if length payload > ETH_MAX_PAYLOAD then (st, -1)
      else if \<not> kmalloc_ok st (ETH_HEADER_LEN + length payload) then (st, -1)
      else e1000_send (eth_hdr_bytes \<lparr>eth_dst = dst, eth_src = our_mac st, eth_type = htons type\<rparr> @ payload) st)"

definition ethernet_poll :: "(rx_cb \<Rightarrow> u8 list \<Rightarrow> 'a eth_state_scheme \<Rightarrow> 'a eth_state_scheme) \<Rightarrow>
    'a eth_state_scheme \<Rightarrow> 'a eth_state_scheme option" where
  "ethernet_poll run st = e1000_poll run st"

definition ethernet_get_mac :: "'a eth_state_scheme \<Rightarrow> u8 list" where
  "ethernet_get_mac st = our_mac st"

definition ethernet_init_impl :: "'a eth_state_scheme \<Rightarrow> 'a eth_state_scheme \<times> int" where
  "ethernet_init_impl st =
     (let st = st\<lparr>eth_handlers := []\<rparr>;
          st = st\<lparr>our_mac := e1000_get_mac st\<rparr>
      in (e1000_register_rx_callback Ethernet_rx st, 0))"

section \<open>Frames\<close>

lemma eth_hdr_of_bytes:
  "length (eth_dst h) = 6 \<Longrightarrow> length (eth_src h) = 6 \<Longrightarrow> eth_hdr_of (eth_hdr_bytes h @ rest) = h"
proof -
  assume l: "length (eth_dst h) = 6" "length (eth_src h) = 6"
  have "get16 (eth_hdr_bytes h @ rest) 12 = eth_type h"
    by (rule get16_le16) (simp_all add: eth_hdr_bytes_def l le16_def)
  then show ?thesis using l by (simp add: eth_hdr_of_def eth_hdr_bytes_def)
qed

lemma length_eth_hdr_bytes [simp]:
  "length (eth_dst h) = 6 \<Longrightarrow> length (eth_src h) = 6 \<Longrightarrow> length (eth_hdr_bytes h) = 14"
  by (simp add: eth_hdr_bytes_def le16_def)

text \<open>The driver can take a frame: it is set up and the next descriptor is free.\<close>

definition tx_open :: "'a e1000_state_scheme \<Rightarrow> bool" where
  "tx_open st \<longleftrightarrow> e1000_ready st \<and> (let idx = unat (tx_ring_tail st) mod E1000_NUM_TX_DESC in
     td_status (tx_descs st ! idx) AND E1000_TXD_STAT_DD \<noteq> 0 \<or> tx_done st idx)"

definition frame_of :: "u8 list \<Rightarrow> u8 list \<Rightarrow> u16 \<Rightarrow> u8 list \<Rightarrow> u8 list" where
  "frame_of dst src type payload = eth_hdr_bytes \<lparr>eth_dst = dst, eth_src = src, eth_type = htons type\<rparr> @ payload"

lemma e1000_send_result:
  "e1000_send buf st = (st', r) \<Longrightarrow>
     (if tx_open st \<and> length buf \<le> E1000_MAX_FRAME then r = 0 \<and> sent st' = sent st @ [buf] else r = -1 \<and> st' = st)"
  by (auto simp: e1000_send_def tx_open_def Let_def e1000_write_def split: if_splits)

text \<open>What sending keeps: everything but the transmit ring, the register log and the record of frames.\<close>

definition tx_only :: "'a e1000_state_scheme \<Rightarrow> 'a e1000_state_scheme \<Rightarrow> bool" where
  "tx_only st st' \<longleftrightarrow> (\<exists>b d t m s. st' = st\<lparr>tx_bufs := b, tx_descs := d, tx_ring_tail := t, mmio := m, sent := s\<rparr>)"

lemma tx_onlyI:
  "st' = st\<lparr>tx_bufs := tx_bufs st', tx_descs := tx_descs st', tx_ring_tail := tx_ring_tail st', mmio := mmio st', sent := sent st'\<rparr>
     \<Longrightarrow> tx_only st st'"
  unfolding tx_only_def by blast

lemma tx_only_refl [simp]: "tx_only st st"
  by (rule tx_onlyI) simp

lemma tx_only_trans [trans]: "tx_only a b \<Longrightarrow> tx_only b c \<Longrightarrow> tx_only a c"
  unfolding tx_only_def by (elim exE) (rule tx_onlyI [unfolded tx_only_def], simp)

lemma e1000_send_frame: "tx_only st (fst (e1000_send buf st))"
  by (rule tx_onlyI) (auto simp: e1000_send_def Let_def e1000_write_def)

text \<open>Sending a frame, at the Ethernet level.\<close>

lemma ethernet_send_result:
  "ethernet_send dst type payload st = (st', r) \<Longrightarrow> length dst = 6 \<Longrightarrow> length (our_mac st) = 6 \<Longrightarrow>
     (if tx_open st \<and> length payload \<le> 1500 \<and> kmalloc_ok st (14 + length payload)
      then r = 0 \<and> sent st' = sent st @ [frame_of dst (our_mac st) type payload] else r = -1 \<and> st' = st)"
  by (auto simp: ethernet_send_def frame_of_def split: if_splits dest: e1000_send_result)

lemma ethernet_send_frame: "tx_only st (fst (ethernet_send dst type payload st))"
  by (simp add: ethernet_send_def e1000_send_frame)

lemma ethernet_rx_frame_of:
  "length dst = 6 \<Longrightarrow> length src = 6 \<Longrightarrow>
     ethernet_rx run (frame_of dst src type payload) st =
       (case find (\<lambda>e. fst e = type) (eth_handlers st) of Some e \<Rightarrow> run (snd e) payload src st | None \<Rightarrow> st)"
  by (simp add: ethernet_rx_def frame_of_def eth_hdr_of_bytes split: option.split)

end
