(* ===== verification/Arp.thy ===== *)
theory Arp
  imports Ethernet
begin

text \<open>
  Address resolution (\<^verbatim>\<open>src/net/arp/arp.c\<close>): the table of 16 mappings with eviction of slot 0, requests and the
  handler of received packets. The lemmas show what an insertion does to every later lookup and what a
  host does on a request for its address.
\<close>

section \<open>Packets and state\<close>

definition ARP_HTYPE_ETHERNET :: u16 where [simp]: "ARP_HTYPE_ETHERNET = 1"
definition ARP_PTYPE_IPV4 :: u16 where [simp]: "ARP_PTYPE_IPV4 = 0x0800"
definition ARP_OP_REQUEST :: u16 where [simp]: "ARP_OP_REQUEST = 1"
definition ARP_OP_REPLY :: u16 where [simp]: "ARP_OP_REPLY = 2"
definition ARP_TABLE_SIZE :: nat where [simp]: "ARP_TABLE_SIZE = 16"

record arp_pkt =
  arp_htype :: u16
  arp_ptype :: u16
  arp_hlen :: u8
  arp_plen :: u8
  arp_oper :: u16
  arp_sha :: "u8 list"
  arp_spa :: "u8 list"
  arp_tha :: "u8 list"
  arp_tpa :: "u8 list"

definition arp_pkt_bytes :: "arp_pkt \<Rightarrow> u8 list" where
  "arp_pkt_bytes p = le16 (arp_htype p) @ le16 (arp_ptype p) @ [arp_hlen p, arp_plen p] @ le16 (arp_oper p) @
     arp_sha p @ arp_spa p @ arp_tha p @ arp_tpa p"

definition arp_pkt_of :: "u8 list \<Rightarrow> arp_pkt" where
  "arp_pkt_of b = \<lparr>arp_htype = get16 b 0, arp_ptype = get16 b 2, arp_hlen = b ! 4, arp_plen = b ! 5, arp_oper = get16 b 6,
     arp_sha = take 6 (drop 8 b), arp_spa = take 4 (drop 14 b), arp_tha = take 6 (drop 18 b), arp_tpa = take 4 (drop 24 b)\<rparr>"

record arp_entry =
  ent_ip :: u32
  ent_mac :: "u8 list"

record arp_state = eth_state +
  arp_table :: "arp_entry list"
  arp_our_ip :: u32

section \<open>Operations\<close>

definition arp_lookup :: "u32 \<Rightarrow> 'a arp_state_scheme \<Rightarrow> u8 list option" where
  "arp_lookup ip st = map_option (\<lambda>i. ent_mac (arp_table st ! i)) (scan (\<lambda>i. ent_ip (arp_table st ! i) = ip) ARP_TABLE_SIZE)"

definition arp_insert :: "u32 \<Rightarrow> u8 list \<Rightarrow> 'a arp_state_scheme \<Rightarrow> 'a arp_state_scheme" where
  "arp_insert ip m st =
     (case scan (\<lambda>i. ent_ip (arp_table st ! i) = ip) ARP_TABLE_SIZE of
        Some i \<Rightarrow> st\<lparr>arp_table := (arp_table st)[i := (arp_table st ! i)\<lparr>ent_mac := m\<rparr>]\<rparr>
      | None \<Rightarrow>
          case scan (\<lambda>i. ent_ip (arp_table st ! i) = 0) ARP_TABLE_SIZE of
            Some i \<Rightarrow> st\<lparr>arp_table := (arp_table st)[i := \<lparr>ent_ip = ip, ent_mac = m\<rparr>]\<rparr>
          | None \<Rightarrow> st\<lparr>arp_table := (arp_table st)[0 := \<lparr>ent_ip = ip, ent_mac = m\<rparr>]\<rparr>)"

definition arp_request :: "u32 \<Rightarrow> 'a arp_state_scheme \<Rightarrow> 'a arp_state_scheme" where
  "arp_request ip st =
     (let pkt = \<lparr>arp_htype = htons ARP_HTYPE_ETHERNET, arp_ptype = htons ARP_PTYPE_IPV4, arp_hlen = 6, arp_plen = 4,
                 arp_oper = htons ARP_OP_REQUEST, arp_sha = ethernet_get_mac st, arp_spa = le32 (htonl (arp_our_ip st)),
                 arp_tha = replicate 6 0, arp_tpa = le32 (htonl ip)\<rparr>
      in fst (ethernet_send ETH_BROADCAST ETHERTYPE_ARP (arp_pkt_bytes pkt) st))"

definition arp_reply :: "arp_pkt \<Rightarrow> 'a arp_state_scheme \<Rightarrow> arp_pkt" where
  "arp_reply pkt st = \<lparr>arp_htype = htons ARP_HTYPE_ETHERNET, arp_ptype = htons ARP_PTYPE_IPV4, arp_hlen = 6, arp_plen = 4,
     arp_oper = htons ARP_OP_REPLY, arp_sha = ethernet_get_mac st, arp_spa = le32 (htonl (arp_our_ip st)),
     arp_tha = arp_sha pkt, arp_tpa = arp_spa pkt\<rparr>"

definition arp_rx :: "u8 list \<Rightarrow> u8 list \<Rightarrow> 'a arp_state_scheme \<Rightarrow> 'a arp_state_scheme" where
  "arp_rx payload src_mac st =
     (if length payload < 28 then st
      else
       let pkt = arp_pkt_of payload in
       if ntohs (arp_htype pkt) \<noteq> ARP_HTYPE_ETHERNET then st
       else if ntohs (arp_ptype pkt) \<noteq> ARP_PTYPE_IPV4 then st
       else if arp_hlen pkt \<noteq> 6 \<or> arp_plen pkt \<noteq> 4 then st
       else
        let oper = ntohs (arp_oper pkt);
            sender_ip = ntohl (get32 (arp_spa pkt) 0);
            st = (if sender_ip \<noteq> 0 then arp_insert sender_ip (arp_sha pkt) st else st)
        in if oper = ARP_OP_REQUEST \<and> arp_our_ip st \<noteq> 0 then
             let target_ip = ntohl (get32 (arp_tpa pkt) 0)
             in if target_ip \<noteq> arp_our_ip st then st
                else fst (ethernet_send (arp_sha pkt) ETHERTYPE_ARP (arp_pkt_bytes (arp_reply pkt st)) st)
           else st)"

definition arp_set_ip :: "u32 \<Rightarrow> 'a arp_state_scheme \<Rightarrow> 'a arp_state_scheme" where
  "arp_set_ip ip st = st\<lparr>arp_our_ip := ip\<rparr>"

definition arp_init_impl :: "'a arp_state_scheme \<Rightarrow> 'a arp_state_scheme \<times> int" where
  "arp_init_impl st =
     (let st = st\<lparr>arp_table := replicate ARP_TABLE_SIZE \<lparr>ent_ip = 0, ent_mac = replicate 6 0\<rparr>, arp_our_ip := 0\<rparr>
      in (fst (ethernet_register ETHERTYPE_ARP Arp_rx st), 0))"

section \<open>The table\<close>

text \<open>The invariant: sixteen slots, no address twice.\<close>

definition arp_ok :: "'a arp_state_scheme \<Rightarrow> bool" where
  "arp_ok st \<longleftrightarrow> length (arp_table st) = 16 \<and>
     (\<forall>i < 16. \<forall>j < 16. ent_ip (arp_table st ! i) = ent_ip (arp_table st ! j) \<longrightarrow> ent_ip (arp_table st ! i) \<noteq> 0 \<longrightarrow> i = j)"

lemma arp_okD: "arp_ok st \<Longrightarrow> i < 16 \<Longrightarrow> j < 16 \<Longrightarrow> ent_ip (arp_table st ! i) = ent_ip (arp_table st ! j) \<Longrightarrow>
    ent_ip (arp_table st ! i) \<noteq> 0 \<Longrightarrow> i = j"
  unfolding arp_ok_def by blast

lemma arp_scan:
  assumes "arp_ok st" "ip \<noteq> 0" "i < 16" "ent_ip (arp_table st ! i) = ip"
  shows "scan (\<lambda>i. ent_ip (arp_table st ! i) = ip) 16 = Some i"
proof -
  have "ent_ip (arp_table st ! j) \<noteq> ip" if "j < i" for j
    using arp_okD [OF assms(1), of i j] assms(2-4) that by fastforce
  then show ?thesis using assms(3,4) by (simp add: scan_Some_iff)
qed

lemma arp_lookup_iff:
  assumes "arp_ok st" "ip \<noteq> 0"
  shows "arp_lookup ip st = Some m \<longleftrightarrow> (\<exists>i < 16. ent_ip (arp_table st ! i) = ip \<and> ent_mac (arp_table st ! i) = m)"
proof
  assume "arp_lookup ip st = Some m"
  then obtain i where i: "scan (\<lambda>i. ent_ip (arp_table st ! i) = ip) 16 = Some i" "ent_mac (arp_table st ! i) = m"
    by (auto simp: arp_lookup_def)
  then show "\<exists>i < 16. ent_ip (arp_table st ! i) = ip \<and> ent_mac (arp_table st ! i) = m" using scan_SomeD [OF i(1)] by blast
next
  assume "\<exists>i < 16. ent_ip (arp_table st ! i) = ip \<and> ent_mac (arp_table st ! i) = m"
  then show "arp_lookup ip st = Some m" using arp_scan [OF assms] by (auto simp: arp_lookup_def)
qed

lemma arp_lookup_eqI:
  assumes "arp_ok s" "arp_ok t" "ip \<noteq> 0"
    and "\<And>m. (\<exists>i < 16. ent_ip (arp_table s ! i) = ip \<and> ent_mac (arp_table s ! i) = m) \<longleftrightarrow>
              (\<exists>i < 16. ent_ip (arp_table t ! i) = ip \<and> ent_mac (arp_table t ! i) = m)"
  shows "arp_lookup ip s = arp_lookup ip t"
proof -
  have "arp_lookup ip s = Some m \<longleftrightarrow> arp_lookup ip t = Some m" for m
    unfolding arp_lookup_iff [OF assms(1,3)] arp_lookup_iff [OF assms(2,3)] by (rule assms(4))
  then show ?thesis by (metis option.exhaust)
qed

text \<open>The slot an insertion writes: the address's own, else the first empty one, else slot 0.\<close>

definition arp_slot :: "u32 \<Rightarrow> 'a arp_state_scheme \<Rightarrow> nat" where
  "arp_slot ip st = (case scan (\<lambda>i. ent_ip (arp_table st ! i) = ip) 16 of Some i \<Rightarrow> i
     | None \<Rightarrow> case scan (\<lambda>i. ent_ip (arp_table st ! i) = 0) 16 of Some i \<Rightarrow> i | None \<Rightarrow> 0)"

lemma arp_entry_mac: "e\<lparr>ent_mac := m\<rparr> = \<lparr>ent_ip = ent_ip e, ent_mac = m\<rparr>" for e :: arp_entry
  by (cases e) simp

lemma arp_insert_slot: "arp_insert ip m st = st\<lparr>arp_table := (arp_table st)[arp_slot ip st := \<lparr>ent_ip = ip, ent_mac = m\<rparr>]\<rparr>"
  by (auto simp: arp_insert_def arp_slot_def arp_entry_mac split: option.split dest!: scan_SomeD)

lemma arp_slot_bound: "arp_slot ip st < 16"
proof -
  have "(case scan (\<lambda>i. ent_ip (arp_table st ! i) = 0) 16 of Some i \<Rightarrow> i | None \<Rightarrow> 0) < 16"
    by (simp split: option.split) (blast dest: scan_SomeD)
  then show ?thesis unfolding arp_slot_def
    by (cases "scan (\<lambda>i. ent_ip (arp_table st ! i) = ip) 16") (use scan_SomeD in fastforce)+
qed

lemma arp_slot_own: "arp_ok st \<Longrightarrow> ip \<noteq> 0 \<Longrightarrow> i < 16 \<Longrightarrow> ent_ip (arp_table st ! i) = ip \<Longrightarrow> arp_slot ip st = i"
  by (simp add: arp_slot_def arp_scan)

lemma arp_insert_nth:
  "arp_ok st \<Longrightarrow> i < 16 \<Longrightarrow> arp_table (arp_insert ip m st) ! i =
     (if i = arp_slot ip st then \<lparr>ent_ip = ip, ent_mac = m\<rparr> else arp_table st ! i)"
  using arp_slot_bound [of ip st] by (simp add: arp_insert_slot arp_ok_def)

lemma arp_insert_ok: "arp_ok st \<Longrightarrow> ip \<noteq> 0 \<Longrightarrow> arp_ok (arp_insert ip m st)"
proof -
  assume a: "arp_ok st" "ip \<noteq> 0"
  note own = arp_slot_own [OF a]
  have "i = j" if "i < 16" "j < 16" "ent_ip (arp_table (arp_insert ip m st) ! i) = ent_ip (arp_table (arp_insert ip m st) ! j)"
    "ent_ip (arp_table (arp_insert ip m st) ! i) \<noteq> 0" for i j
  proof (cases "i = arp_slot ip st \<or> j = arp_slot ip st")
    case True
    then have "(i = arp_slot ip st \<or> ent_ip (arp_table st ! i) = ip) \<and> (j = arp_slot ip st \<or> ent_ip (arp_table st ! j) = ip)"
      using that(1-3) unfolding arp_insert_nth [OF a(1) that(1)] arp_insert_nth [OF a(1) that(2)] by (elim disjE) (simp_all split: if_splits)
    then show ?thesis using own [OF that(1)] own [OF that(2)] by metis
  next
    case False
    then show ?thesis
      using that(3,4) arp_okD [OF a(1) that(1,2)] unfolding arp_insert_nth [OF a(1) that(1)] arp_insert_nth [OF a(1) that(2)] by simp
  qed
  moreover have "length (arp_table (arp_insert ip m st)) = 16" using a(1) by (simp add: arp_insert_slot arp_ok_def)
  ultimately show ?thesis unfolding arp_ok_def by blast
qed

text \<open>Every later lookup: the inserted address is found; another one is lost only when the table was full and it had slot 0.\<close>

definition evicted :: "u32 \<Rightarrow> 'a arp_state_scheme \<Rightarrow> u32" where
  "evicted ip st = (let old = ent_ip (arp_table st ! arp_slot ip st) in if old = ip then 0 else old)"

lemma evicted_full: "evicted ip st \<noteq> 0 \<Longrightarrow> (\<forall>i < 16. ent_ip (arp_table st ! i) \<noteq> 0 \<and> ent_ip (arp_table st ! i) \<noteq> ip) \<and>
    evicted ip st = ent_ip (arp_table st ! 0)"
proof -
  assume e: "evicted ip st \<noteq> 0"
  have n: "scan (\<lambda>i. ent_ip (arp_table st ! i) = ip) 16 = None"
  proof (rule ccontr)
    assume "scan (\<lambda>i. ent_ip (arp_table st ! i) = ip) 16 \<noteq> None"
    then obtain i where i: "scan (\<lambda>i. ent_ip (arp_table st ! i) = ip) 16 = Some i" by blast
    then show False using e scan_SomeD [OF i] by (simp add: evicted_def arp_slot_def)
  qed
  have z: "scan (\<lambda>i. ent_ip (arp_table st ! i) = 0) 16 = None"
  proof (rule ccontr)
    assume "scan (\<lambda>i. ent_ip (arp_table st ! i) = 0) 16 \<noteq> None"
    then obtain i where i: "scan (\<lambda>i. ent_ip (arp_table st ! i) = 0) 16 = Some i" by blast
    then show False using e n scan_SomeD [OF i] by (simp add: evicted_def arp_slot_def split: if_splits)
  qed
  have "arp_slot ip st = 0" using n z by (simp add: arp_slot_def)
  then have "evicted ip st = ent_ip (arp_table st ! 0)" using e by (simp add: evicted_def Let_def split: if_splits)
  then show ?thesis using n z unfolding scan_None_iff by blast
qed

lemma arp_lookup_insert:
  assumes "arp_ok st" "ip \<noteq> 0" "x \<noteq> 0"
  shows "arp_lookup x (arp_insert ip m st) = (if x = ip then Some m else if x = evicted ip st then None else arp_lookup x st)"
proof -
  let ?t = "arp_insert ip m st"
  note ok = arp_insert_ok [OF assms(1,2), of m] and nth = arp_insert_nth [OF assms(1), of _ ip m]
  have found: "arp_lookup x ?t = Some k \<longleftrightarrow> (\<exists>i < 16. ent_ip (arp_table ?t ! i) = x \<and> ent_mac (arp_table ?t ! i) = k)" for k
    by (rule arp_lookup_iff [OF ok assms(3)])
  have here: "ent_ip (arp_table ?t ! arp_slot ip st) = ip" "ent_mac (arp_table ?t ! arp_slot ip st) = m"
    using arp_slot_bound [of ip st] by (simp_all add: nth)
  show ?thesis
  proof (cases "x = ip")
    case True
    then show ?thesis using found [of m] here arp_slot_bound [of ip st] by auto
  next
    case False
    have other: "(\<exists>i < 16. ent_ip (arp_table ?t ! i) = x \<and> ent_mac (arp_table ?t ! i) = k) \<longleftrightarrow>
        (\<exists>i < 16. i \<noteq> arp_slot ip st \<and> ent_ip (arp_table st ! i) = x \<and> ent_mac (arp_table st ! i) = k)" for k
      using False by (auto simp: nth)
    show ?thesis
    proof (cases "x = evicted ip st")
      case True
      then have "ent_ip (arp_table st ! arp_slot ip st) = x" using assms(3) by (auto simp: evicted_def Let_def split: if_splits)
      then have "arp_lookup x ?t \<noteq> Some k" for k
        using found [of k] other [of k] arp_okD [OF assms(1) _ arp_slot_bound [of ip st]] assms(3) by auto
      then show ?thesis using True False by (metis not_Some_eq)
    next
      case ne: False
      then have "ent_ip (arp_table st ! arp_slot ip st) \<noteq> x" using False by (auto simp: evicted_def)
      then have "(\<exists>i < 16. ent_ip (arp_table ?t ! i) = x \<and> ent_mac (arp_table ?t ! i) = k) \<longleftrightarrow>
          (\<exists>i < 16. ent_ip (arp_table st ! i) = x \<and> ent_mac (arp_table st ! i) = k)" for k
        using other [of k] by auto
      then have "arp_lookup x ?t = arp_lookup x st" by (rule arp_lookup_eqI [OF ok assms(1,3)])
      then show ?thesis using False ne by simp
    qed
  qed
qed

section \<open>Packets on the wire\<close>

definition arp_pkt_ok :: "arp_pkt \<Rightarrow> bool" where
  "arp_pkt_ok p \<longleftrightarrow> length (arp_sha p) = 6 \<and> length (arp_spa p) = 4 \<and> length (arp_tha p) = 6 \<and> length (arp_tpa p) = 4"

lemma length_arp_pkt_bytes: "arp_pkt_ok p \<Longrightarrow> length (arp_pkt_bytes p) = 28"
  by (simp add: arp_pkt_ok_def arp_pkt_bytes_def le16_def)

lemma arp_pkt_of_bytes: "arp_pkt_ok p \<Longrightarrow> arp_pkt_of (arp_pkt_bytes p @ pad) = p"
proof -
  assume ok: "arp_pkt_ok p"
  let ?b = "arp_pkt_bytes p @ pad"
  note l = length_arp_pkt_bytes [OF ok]
  have "get16 ?b 0 = arp_htype p" "get16 ?b 2 = arp_ptype p" "get16 ?b 6 = arp_oper p"
    by (rule get16_le16, simp add: l, simp add: arp_pkt_bytes_def le16_def)+
  moreover have "?b ! 4 = arp_hlen p" "?b ! 5 = arp_plen p"
    by (simp_all add: arp_pkt_bytes_def le16_def)
  moreover have "take 6 (drop 8 ?b) = arp_sha p" "take 4 (drop 14 ?b) = arp_spa p"
    "take 6 (drop 18 ?b) = arp_tha p" "take 4 (drop 24 ?b) = arp_tpa p"
    using ok by (simp_all add: arp_pkt_bytes_def le16_def arp_pkt_ok_def)
  ultimately show ?thesis by (simp add: arp_pkt_of_def)
qed

lemma get32_le32_all [simp]: "get32 (le32 v) 0 = v"
  by (rule get32_le32) (simp_all add: le32_def)

lemma length_le32 [simp]: "length (le32 v) = 4"
  by (simp add: le32_def)

text \<open>Insertions touch only the table; requests and replies only the transmit side.\<close>

lemma arp_insert_frame: "\<exists>t. arp_insert ip m st = st\<lparr>arp_table := t\<rparr>"
  by (auto simp: arp_insert_slot)

lemma arp_request_frame: "tx_only st (arp_request ip st)"
  by (simp add: arp_request_def Let_def ethernet_send_frame)

lemma arp_request_sent:
  assumes "tx_open st" "kmalloc_ok st 42" "length (our_mac st) = 6"
  shows "sent (arp_request ip st) = sent st @ [frame_of ETH_BROADCAST (our_mac st) ETHERTYPE_ARP (arp_pkt_bytes
     \<lparr>arp_htype = htons 1, arp_ptype = htons 0x0800, arp_hlen = 6, arp_plen = 4, arp_oper = htons 1, arp_sha = our_mac st,
      arp_spa = le32 (htonl (arp_our_ip st)), arp_tha = replicate 6 0, arp_tpa = le32 (htonl ip)\<rparr>)]"
proof -
  let ?p = "\<lparr>arp_htype = htons 1, arp_ptype = htons 0x0800, arp_hlen = 6, arp_plen = 4, arp_oper = htons 1, arp_sha = our_mac st,
      arp_spa = le32 (htonl (arp_our_ip st)), arp_tha = replicate 6 0, arp_tpa = le32 (htonl ip)\<rparr>"
  have l: "length (arp_pkt_bytes ?p) = 28" by (rule length_arp_pkt_bytes) (simp add: arp_pkt_ok_def assms)
  obtain st' r where r: "ethernet_send ETH_BROADCAST ETHERTYPE_ARP (arp_pkt_bytes ?p) st = (st', r)" by (metis surj_pair)
  have "sent st' = sent st @ [frame_of ETH_BROADCAST (our_mac st) ETHERTYPE_ARP (arp_pkt_bytes ?p)]"
    using ethernet_send_result [OF r _ assms(3)] assms(1,2) l by (simp add: ETH_BROADCAST_def)
  then show ?thesis using r by (simp add: arp_request_def ethernet_get_mac_def)
qed

text \<open>What a host does with a packet of its own kind: learn the sender, answer a request for its address.\<close>

lemma arp_rx_pkt:
  assumes "arp_pkt_ok p" "arp_htype p = htons 1" "arp_ptype p = htons 0x0800" "arp_hlen p = 6" "arp_plen p = 4"
    and "arp_spa p = le32 (htonl s)" "s \<noteq> 0" "arp_tpa p = le32 (htonl t)"
  shows "arp_rx (arp_pkt_bytes p @ pad) src st =
    (let st = arp_insert s (arp_sha p) st in
     if arp_oper p = htons 1 \<and> arp_our_ip st \<noteq> 0 \<and> t = arp_our_ip st
     then fst (ethernet_send (arp_sha p) ETHERTYPE_ARP (arp_pkt_bytes (arp_reply p st)) st) else st)"
proof -
  have "ntohs (arp_oper p) = 1 \<longleftrightarrow> arp_oper p = htons 1" by (metis htons_ntohs ntohs_htons)
  then show ?thesis
    unfolding arp_rx_def by (simp add: length_arp_pkt_bytes [OF assms(1)] arp_pkt_of_bytes [OF assms(1)] assms(2-) Let_def)
qed

end
