(* ===== verification/Ipv4.thy ===== *)
theory Ipv4
  imports Arp
begin

text \<open>
  IPv4 and ICMP (\<^verbatim>\<open>src/net/ipv4/ipv4.c\<close>, \<^verbatim>\<open>src/net/icmp/icmp.c\<close>): protocol handlers, validation and dispatch of
  received datagrams, next-hop choice, header construction with checksum, echo replies and echo requests.
  The lemmas show that a datagram sent is accepted by its destination with protocol, addresses and
  payload, that the header checksum verifies, and what a ping is answered with.
\<close>

section \<open>Header and state\<close>

definition IP_VERSION :: u8 where [simp]: "IP_VERSION = 4"
definition IP_VER_IHL :: u8 where [simp]: "IP_VER_IHL = 0x45"
definition IP_DEFAULT_TTL :: u8 where [simp]: "IP_DEFAULT_TTL = 64"
definition IP_HDR_LEN :: nat where [simp]: "IP_HDR_LEN = 20"
definition IP_FLAG_DF :: u16 where [simp]: "IP_FLAG_DF = 0x4000"
definition IPV4_MAX_HANDLERS :: nat where [simp]: "IPV4_MAX_HANDLERS = 8"
definition IPPROTO_ICMP :: u8 where [simp]: "IPPROTO_ICMP = 1"
definition IPPROTO_TCP :: u8 where [simp]: "IPPROTO_TCP = 6"
definition IPPROTO_UDP :: u8 where [simp]: "IPPROTO_UDP = 17"

record ip_hdr =
  ver_ihl :: u8
  dscp_ecn :: u8
  total_len :: u16
  ip_id :: u16
  frag_off :: u16
  ttl :: u8
  proto :: u8
  ip_csum :: u16
  ip_src :: u32
  ip_dst :: u32

definition ip_hdr_bytes :: "ip_hdr \<Rightarrow> u8 list" where
  "ip_hdr_bytes h = [ver_ihl h, dscp_ecn h] @ le16 (total_len h) @ le16 (ip_id h) @ le16 (frag_off h) @ [ttl h, proto h] @
     le16 (ip_csum h) @ le32 (ip_src h) @ le32 (ip_dst h)"

definition ip_hdr_of :: "u8 list \<Rightarrow> ip_hdr" where
  "ip_hdr_of b = \<lparr>ver_ihl = b ! 0, dscp_ecn = b ! 1, total_len = get16 b 2, ip_id = get16 b 4, frag_off = get16 b 6,
     ttl = b ! 8, proto = b ! 9, ip_csum = get16 b 10, ip_src = get32 b 12, ip_dst = get32 b 16\<rparr>"

datatype ip_handler = Icmp_rx | Udp_rx | Tcp_rx

record ip_state = arp_state +
  ip_handlers :: "(u8 \<times> ip_handler) list"
  our_ip :: u32
  our_netmask :: u32
  our_gateway :: u32
  pkt_id :: u16

section \<open>Receiving\<close>

definition ipv4_rx :: "(ip_handler \<Rightarrow> u8 list \<Rightarrow> u32 \<Rightarrow> u32 \<Rightarrow> 'a ip_state_scheme \<Rightarrow> 'a ip_state_scheme) \<Rightarrow> u8 list \<Rightarrow> u8 list \<Rightarrow>
    'a ip_state_scheme \<Rightarrow> 'a ip_state_scheme" where
  "ipv4_rx run payload src_mac st =
     (if length payload < IP_HDR_LEN then st
      else
       let hdr = ip_hdr_of payload in
       if drop_bit 4 (ver_ihl hdr) \<noteq> IP_VERSION then st
       else
        let ihl = unat ((ver_ihl hdr AND 0x0F) * 4) in
        if ihl < IP_HDR_LEN \<or> ihl > length payload then st
        else
         let total = unat (ntohs (total_len hdr)) in
         if total < ihl \<or> total > length payload then st
         else
          let frag = ntohs (frag_off hdr) in
          if frag AND 0x1FFF \<noteq> 0 then st
          else if frag AND 0x2000 \<noteq> 0 then st
          else
           let src = ntohl (ip_src hdr);
               dst = ntohl (ip_dst hdr);
               bcast = (our_ip st AND our_netmask st) OR NOT (our_netmask st)
           in if our_ip st \<noteq> 0 \<and> dst \<noteq> our_ip st \<and> dst \<noteq> bcast \<and> dst \<noteq> 0xFFFFFFFF then st
              else
               let proto_payload = take (total - ihl) (drop ihl payload)
               in case find (\<lambda>e. fst e = proto hdr) (ip_handlers st) of
                    Some e \<Rightarrow> run (snd e) proto_payload src dst st
                  | None \<Rightarrow> st)"

definition ipv4_register :: "u8 \<Rightarrow> ip_handler \<Rightarrow> 'a ip_state_scheme \<Rightarrow> 'a ip_state_scheme \<times> int" where
  "ipv4_register p handler st =
     (if length (ip_handlers st) \<ge> IPV4_MAX_HANDLERS then (st, -1)
      else (st\<lparr>ip_handlers := ip_handlers st @ [(p, handler)]\<rparr>, 0))"

definition ipv4_set_addr :: "u32 \<Rightarrow> u32 \<Rightarrow> u32 \<Rightarrow> 'a ip_state_scheme \<Rightarrow> 'a ip_state_scheme" where
  "ipv4_set_addr ip netmask gateway st =
     arp_set_ip ip (st\<lparr>our_ip := ip, our_netmask := netmask, our_gateway := gateway\<rparr>)"

definition ipv4_get_addr :: "'a ip_state_scheme \<Rightarrow> u32" where
  "ipv4_get_addr st = our_ip st"

section \<open>Sending\<close>

definition next_hop :: "u32 \<Rightarrow> 'a ip_state_scheme \<Rightarrow> u32" where
  "next_hop dst_ip st =
     (if our_ip st \<noteq> 0 \<and> our_netmask st \<noteq> 0 \<and> dst_ip AND our_netmask st \<noteq> our_ip st AND our_netmask st
      then our_gateway st else dst_ip)"

definition ip_header :: "u32 \<Rightarrow> u8 \<Rightarrow> nat \<Rightarrow> 'a ip_state_scheme \<Rightarrow> u8 list" where
  "ip_header dst_ip p len st =
     (let h = \<lparr>ver_ihl = IP_VER_IHL, dscp_ecn = 0, total_len = htons (of_nat (IP_HDR_LEN + len)), ip_id = htons (pkt_id st),
               frag_off = htons IP_FLAG_DF, ttl = IP_DEFAULT_TTL, proto = p, ip_csum = 0, ip_src = htonl (our_ip st),
               ip_dst = htonl dst_ip\<rparr>
      in ip_hdr_bytes (h\<lparr>ip_csum := ip_checksum (ip_hdr_bytes h)\<rparr>))"

definition ipv4_send :: "u32 \<Rightarrow> u8 \<Rightarrow> u8 list \<Rightarrow> 'a ip_state_scheme \<Rightarrow> 'a ip_state_scheme \<times> int" where
  "ipv4_send dst_ip p payload st =
     (if length payload > 1500 - IP_HDR_LEN then (st, -1)
      else
       let nh = next_hop dst_ip st;
           send = (\<lambda>dst_mac. let hdr = ip_header dst_ip p (length payload) st; st = st\<lparr>pkt_id := pkt_id st + 1\<rparr>
                             in ethernet_send dst_mac ETHERTYPE_IPV4 (hdr @ payload) st)
       in if nh = 0xFFFFFFFF \<or> dst_ip = 0xFFFFFFFF then send (replicate 6 0xFF)
          else case arp_lookup nh st of
                 Some dst_mac \<Rightarrow> send dst_mac
               | None \<Rightarrow> (arp_request nh st, -1))"

definition ipv4_init_impl :: "'a ip_state_scheme \<Rightarrow> 'a ip_state_scheme \<times> int" where
  "ipv4_init_impl st =
     (let st = st\<lparr>ip_handlers := [], our_ip := 0, our_netmask := 0, our_gateway := 0, pkt_id := 1\<rparr>
      in (fst (ethernet_register ETHERTYPE_IPV4 Ipv4_rx st), 0))"

section \<open>ICMP\<close>

definition ICMP_TYPE_ECHO_REPLY :: u8 where [simp]: "ICMP_TYPE_ECHO_REPLY = 0"
definition ICMP_TYPE_ECHO_REQUEST :: u8 where [simp]: "ICMP_TYPE_ECHO_REQUEST = 8"
definition ICMP_HDR_LEN :: nat where [simp]: "ICMP_HDR_LEN = 8"

record icmp_hdr =
  icmp_type :: u8
  icmp_code :: u8
  icmp_csum :: u16
  icmp_id :: u16
  icmp_seq :: u16

definition icmp_hdr_bytes :: "icmp_hdr \<Rightarrow> u8 list" where
  "icmp_hdr_bytes h = [icmp_type h, icmp_code h] @ le16 (icmp_csum h) @ le16 (icmp_id h) @ le16 (icmp_seq h)"

definition icmp_rx :: "u8 list \<Rightarrow> u32 \<Rightarrow> u32 \<Rightarrow> 'a ip_state_scheme \<Rightarrow> 'a ip_state_scheme" where
  "icmp_rx payload src_ip dst_ip st =
     (if length payload < ICMP_HDR_LEN then st
      else if payload ! 0 = ICMP_TYPE_ECHO_REQUEST \<and> payload ! 1 = 0 then
        if \<not> kmalloc_ok st (length payload) then st
        else
         let reply = payload[0 := ICMP_TYPE_ECHO_REPLY];
             reply = put16 2 0 reply;
             reply = put16 2 (ip_checksum reply) reply
         in fst (ipv4_send src_ip IPPROTO_ICMP reply st)
      else st)"

text \<open>The length of a request is a \<^verbatim>\<open>u16\<close>: with 65528 bytes of data or more it wraps, and the copy runs past
  the buffer. The data pointer is not NULL.\<close>

definition icmp_ping :: "u32 \<Rightarrow> u16 \<Rightarrow> u16 \<Rightarrow> u8 list \<Rightarrow> 'a ip_state_scheme \<Rightarrow> mem_err + ('a ip_state_scheme \<times> int)" where
  "icmp_ping dst_ip i seq data st =
     (let total = unat (of_nat (ICMP_HDR_LEN + length data) :: u16) in
      if \<not> kmalloc_ok st total then Inr (st, -1)
      else if total < ICMP_HDR_LEN + length data then Inl OutOfBounds
      else
       let pkt = icmp_hdr_bytes \<lparr>icmp_type = ICMP_TYPE_ECHO_REQUEST, icmp_code = 0, icmp_csum = 0, icmp_id = htons i, icmp_seq = htons seq\<rparr> @ data;
           pkt = put16 2 (ip_checksum pkt) pkt
       in Inr (ipv4_send dst_ip IPPROTO_ICMP pkt st))"

definition icmp_init_impl :: "'a ip_state_scheme \<Rightarrow> 'a ip_state_scheme \<times> int" where
  "icmp_init_impl st = (fst (ipv4_register IPPROTO_ICMP Icmp_rx st), 0)"

section \<open>The header on the wire\<close>

lemma length_ip_hdr_bytes [simp]: "length (ip_hdr_bytes h) = 20"
  by (simp add: ip_hdr_bytes_def le16_def le32_def)

lemma ip_hdr_of_bytes: "ip_hdr_of (ip_hdr_bytes h @ rest) = h"
proof -
  let ?b = "ip_hdr_bytes h @ rest"
  have "get16 ?b 2 = total_len h" "get16 ?b 4 = ip_id h" "get16 ?b 6 = frag_off h" "get16 ?b 10 = ip_csum h"
    by (rule get16_le16, simp, simp add: ip_hdr_bytes_def le16_def)+
  moreover have "get32 ?b 12 = ip_src h" "get32 ?b 16 = ip_dst h"
    by (rule get32_le32, simp, simp add: ip_hdr_bytes_def le16_def le32_def)+
  moreover have "?b ! 0 = ver_ihl h" "?b ! 1 = dscp_ecn h" "?b ! 8 = ttl h" "?b ! 9 = proto h"
    by (simp_all add: ip_hdr_bytes_def le16_def le32_def)
  ultimately show ?thesis by (simp add: ip_hdr_of_def)
qed

lemma put16_ip_csum: "ip_hdr_bytes (h\<lparr>ip_csum := v\<rparr>) = put16 10 v (ip_hdr_bytes h)"
  by (simp add: ip_hdr_bytes_def put16_def le16_def le32_def eval_nat_numeral)

lemma ip_header_checksum: "ip_checksum (ip_header dst p len st) = 0"
  unfolding ip_header_def Let_def put16_ip_csum by (rule checksum_filled) (simp_all add: ip_hdr_bytes_def le16_def le32_def)

lemma length_ip_header [simp]: "length (ip_header dst p len st) = 20"
  by (simp add: ip_header_def)

text \<open>The destination accepts what a sender builds, also with link-layer padding behind it.\<close>

definition ip_accepts :: "u32 \<Rightarrow> 'a ip_state_scheme \<Rightarrow> bool" where
  "ip_accepts dst st \<longleftrightarrow> our_ip st = 0 \<or> dst = our_ip st \<or> dst = (our_ip st AND our_netmask st) OR NOT (our_netmask st) \<or> dst = 0xFFFFFFFF"

lemma ipv4_rx_header:
  assumes "length payload \<le> 1480" "ip_accepts dst bt"
  shows "ipv4_rx run (ip_header dst p (length payload) st @ payload @ pad) m bt =
    (case find (\<lambda>e. fst e = p) (ip_handlers bt) of Some e \<Rightarrow> run (snd e) payload (our_ip st) dst bt | None \<Rightarrow> bt)"
proof -
  let ?b = "ip_header dst p (length payload) st @ payload @ pad"
  have h: "ver_ihl (ip_hdr_of ?b) = 0x45" "total_len (ip_hdr_of ?b) = htons (of_nat (20 + length payload))"
    "frag_off (ip_hdr_of ?b) = htons 0x4000" "proto (ip_hdr_of ?b) = p" "ip_src (ip_hdr_of ?b) = htonl (our_ip st)"
    "ip_dst (ip_hdr_of ?b) = htonl dst"
    by (simp_all add: ip_header_def Let_def ip_hdr_of_bytes)
  have t: "unat (of_nat (20 + length payload) :: u16) = 20 + length payload"
    using assms(1) by (simp only: unat_of_nat) simp
  have i: "unat ((0x45 AND 0x0F :: u8) * 4) = 20" "drop_bit 4 (0x45 :: u8) = 4" by simp_all
  have f: "(0x4000 :: u16) AND 0x1FFF = 0" "(0x4000 :: u16) AND 0x2000 = 0" by simp_all
  have a: "\<not> (our_ip bt \<noteq> 0 \<and> dst \<noteq> our_ip bt \<and> dst \<noteq> (our_ip bt AND our_netmask bt) OR NOT (our_netmask bt) \<and> dst \<noteq> 0xFFFFFFFF)"
    using assms(2) by (auto simp: ip_accepts_def)
  show ?thesis
    unfolding ipv4_rx_def Let_def h ntohs_htons ntohl_htonl t i f IP_VERSION_def IP_HDR_LEN_def if_not_P [OF a] by (simp split: option.split)
qed

text \<open>Sending: the frame handed to the card, when the next hop is known.\<close>

definition hop_mac :: "u32 \<Rightarrow> 'a ip_state_scheme \<Rightarrow> u8 list option" where
  "hop_mac dst st = (if next_hop dst st = 0xFFFFFFFF \<or> dst = 0xFFFFFFFF then Some (replicate 6 0xFF) else arp_lookup (next_hop dst st) st)"

lemma ipv4_send_known:
  assumes "hop_mac dst st = Some m" "length m = 6" "length (our_mac st) = 6" "length payload \<le> 1480" "tx_open st"
    and "kmalloc_ok st (34 + length payload)"
  shows "snd (ipv4_send dst p payload st) = 0 \<and> pkt_id (fst (ipv4_send dst p payload st)) = pkt_id st + 1 \<and>
     sent (fst (ipv4_send dst p payload st)) =
       sent st @ [frame_of m (our_mac st) ETHERTYPE_IPV4 (ip_header dst p (length payload) st @ payload)]"
proof -
  let ?st = "st\<lparr>pkt_id := pkt_id st + 1\<rparr>" and ?d = "ip_header dst p (length payload) st @ payload"
  have e: "ipv4_send dst p payload st = ethernet_send m ETHERTYPE_IPV4 ?d ?st"
    using assms(1,4) by (auto simp: ipv4_send_def hop_mac_def Let_def split: if_splits)
  obtain st' r where r: "ethernet_send m ETHERTYPE_IPV4 ?d ?st = (st', r)" by (metis surj_pair)
  have "tx_only ?st st'" using ethernet_send_frame [of ?st m ETHERTYPE_IPV4 ?d] r by simp
  then have "pkt_id st' = pkt_id st + 1" by (auto simp: tx_only_def)
  moreover have "tx_open ?st" using assms(5) by (simp add: tx_open_def)
  ultimately show ?thesis
    using ethernet_send_result [OF r assms(2)] assms(3,4,6) unfolding e r by simp
qed

lemma ipv4_send_unknown:
  "hop_mac dst st = None \<Longrightarrow> length payload \<le> 1480 \<Longrightarrow> ipv4_send dst p payload st = (arp_request (next_hop dst st) st, -1)"
  by (simp add: ipv4_send_def hop_mac_def Let_def split: if_splits)

text \<open>Whatever happens, sending changes only the transmit side and the packet counter.\<close>

lemma ipv4_send_frame: "\<exists>i. tx_only (st\<lparr>pkt_id := i\<rparr>) (fst (ipv4_send dst p payload st))"
proof -
  have keep: "tx_only (st\<lparr>pkt_id := pkt_id st\<rparr>) (arp_request (next_hop dst st) st)" "tx_only (st\<lparr>pkt_id := pkt_id st\<rparr>) st"
    using arp_request_frame [of st "next_hop dst st"] by simp_all
  have eth: "\<exists>i. tx_only (st\<lparr>pkt_id := i\<rparr>) (fst (ethernet_send m t b (st\<lparr>pkt_id := pkt_id st + 1\<rparr>)))" for m t b
    using ethernet_send_frame by blast
  show ?thesis
  proof (cases "length payload > 1480")
    case True
    then show ?thesis using keep(2) unfolding ipv4_send_def by (intro exI [of _ "pkt_id st"]) simp
  next
    case False
    show ?thesis
    proof (cases "hop_mac dst st")
      case None
      then show ?thesis using False keep(1) ipv4_send_unknown [OF None, of payload p] by (intro exI [of _ "pkt_id st"]) simp
    next
      case (Some m)
      then have "ipv4_send dst p payload st =
          ethernet_send m ETHERTYPE_IPV4 (ip_header dst p (length payload) st @ payload) (st\<lparr>pkt_id := pkt_id st + 1\<rparr>)"
        using False by (auto simp: ipv4_send_def hop_mac_def Let_def split: if_splits)
      then show ?thesis using eth by simp
    qed
  qed
qed

end
