(* ===== verification/Udp.thy ===== *)
theory Udp
  imports Ipv4
begin

text \<open>
  UDP (\<^verbatim>\<open>src/net/udp/udp.c\<close>): port handlers with a catch-all, validation and dispatch of received datagrams, and
  sending with the checksum over pseudo-header, header and data. The lemmas show that what is sent
  verifies at the receiver and is dispatched with its ports and data.
\<close>

section \<open>Header and state\<close>

definition UDP_HDR_LEN :: nat where [simp]: "UDP_HDR_LEN = 8"
definition UDP_MAX_HANDLERS :: nat where [simp]: "UDP_MAX_HANDLERS = 16"

record udp_hdr =
  uh_src_port :: u16
  uh_dst_port :: u16
  uh_length :: u16
  uh_checksum :: u16

definition udp_hdr_bytes :: "udp_hdr \<Rightarrow> u8 list" where
  "udp_hdr_bytes h = le16 (uh_src_port h) @ le16 (uh_dst_port h) @ le16 (uh_length h) @ le16 (uh_checksum h)"

definition udp_hdr_of :: "u8 list \<Rightarrow> udp_hdr" where
  "udp_hdr_of b = \<lparr>uh_src_port = get16 b 0, uh_dst_port = get16 b 2, uh_length = get16 b 4, uh_checksum = get16 b 6\<rparr>"

datatype udp_handler = Udp_sock_rx | Dhcp_rx

record udp_state = ip_state +
  udp_handlers :: "(u16 \<times> udp_handler) list"

section \<open>Operations\<close>

definition pseudo_header :: "u32 \<Rightarrow> u32 \<Rightarrow> u8 \<Rightarrow> u16 \<Rightarrow> u8 list" where
  "pseudo_header src_ip dst_ip p len =
     [ucast (drop_bit 24 src_ip), ucast (drop_bit 16 src_ip), ucast (drop_bit 8 src_ip), ucast src_ip,
      ucast (drop_bit 24 dst_ip), ucast (drop_bit 16 dst_ip), ucast (drop_bit 8 dst_ip), ucast dst_ip,
      0, p, ucast (drop_bit 8 len), ucast len]"

definition udp_checksum :: "u32 \<Rightarrow> u32 \<Rightarrow> udp_hdr \<Rightarrow> u8 list \<Rightarrow> u16" where
  "udp_checksum src_ip dst_ip hdr data =
     (let udp_len = of_nat (UDP_HDR_LEN + length data);
          s = csum_native 0 (pseudo_header src_ip dst_ip IPPROTO_UDP udp_len);
          s = csum_native s (udp_hdr_bytes hdr);
          s = csum_native s data;
          result = ucast (NOT (csum_fold s))
      in if result \<noteq> 0 then result else 0xFFFF)"

text \<open>The handler search: the first exact match, else the last catch-all (port 0).\<close>

fun udp_match :: "(u16 \<times> udp_handler) list \<Rightarrow> u16 \<Rightarrow> udp_handler option \<Rightarrow> udp_handler option" where
  "udp_match [] dst_port catch_all = catch_all"
| "udp_match ((port, h) # es) dst_port catch_all =
     (if port = dst_port then Some h
      else udp_match es dst_port (if port = 0 then Some h else catch_all))"

definition udp_rx :: "(udp_handler \<Rightarrow> u8 list \<Rightarrow> u32 \<Rightarrow> u16 \<Rightarrow> u16 \<Rightarrow> 'a udp_state_scheme \<Rightarrow> 'a udp_state_scheme) \<Rightarrow>
    u8 list \<Rightarrow> u32 \<Rightarrow> u32 \<Rightarrow> 'a udp_state_scheme \<Rightarrow> 'a udp_state_scheme" where
  "udp_rx run payload src_ip dst_ip st =
     (if length payload < UDP_HDR_LEN then st
      else
       let hdr = udp_hdr_of payload;
           src_port = ntohs (uh_src_port hdr);
           dst_port = ntohs (uh_dst_port hdr);
           udp_len = unat (ntohs (uh_length hdr))
       in if udp_len < UDP_HDR_LEN \<or> udp_len > length payload then st
          else
           let data = take (udp_len - UDP_HDR_LEN) (drop UDP_HDR_LEN payload)
           in case udp_match (udp_handlers st) dst_port None of
                Some h \<Rightarrow> run h data src_ip src_port dst_port st
              | None \<Rightarrow> st)"

definition udp_register :: "u16 \<Rightarrow> udp_handler \<Rightarrow> 'a udp_state_scheme \<Rightarrow> 'a udp_state_scheme \<times> int" where
  "udp_register dst_port handler st =
     (if length (udp_handlers st) \<ge> UDP_MAX_HANDLERS then (st, -1)
      else (st\<lparr>udp_handlers := udp_handlers st @ [(dst_port, handler)]\<rparr>, 0))"

text \<open>The packet length is a \<^verbatim>\<open>u16\<close>: with 65528 bytes of data or more it wraps, and the copy runs past the buffer.\<close>

definition udp_packet :: "u32 \<Rightarrow> u32 \<Rightarrow> u16 \<Rightarrow> u16 \<Rightarrow> u8 list \<Rightarrow> u8 list" where
  "udp_packet src_ip dst_ip src_port dst_port data =
     (let hdr = \<lparr>uh_src_port = htons src_port, uh_dst_port = htons dst_port,
                 uh_length = htons (of_nat (UDP_HDR_LEN + length data)), uh_checksum = 0\<rparr>
      in udp_hdr_bytes (hdr\<lparr>uh_checksum := udp_checksum src_ip dst_ip hdr data\<rparr>) @ data)"

definition udp_send :: "u32 \<Rightarrow> u16 \<Rightarrow> u16 \<Rightarrow> u8 list \<Rightarrow> 'a udp_state_scheme \<Rightarrow> mem_err + ('a udp_state_scheme \<times> int)" where
  "udp_send dst_ip src_port dst_port data st =
     (let total = unat (of_nat (UDP_HDR_LEN + length data) :: u16) in
      if \<not> kmalloc_ok st total then Inr (st, -1)
      else if total < UDP_HDR_LEN + length data then Inl OutOfBounds
      else Inr (ipv4_send dst_ip IPPROTO_UDP (udp_packet (ipv4_get_addr st) dst_ip src_port dst_port data) st))"

definition udp_init_impl :: "'a udp_state_scheme \<Rightarrow> 'a udp_state_scheme \<times> int" where
  "udp_init_impl st = (fst (ipv4_register IPPROTO_UDP Udp_rx st), 0)"

section \<open>The datagram on the wire\<close>

lemma length_udp_hdr_bytes [simp]: "length (udp_hdr_bytes h) = 8"
  by (simp add: udp_hdr_bytes_def le16_def)

lemma udp_hdr_of_bytes: "udp_hdr_of (udp_hdr_bytes h @ rest) = h"
proof -
  let ?b = "udp_hdr_bytes h @ rest"
  have "get16 ?b 0 = uh_src_port h" "get16 ?b 2 = uh_dst_port h" "get16 ?b 4 = uh_length h" "get16 ?b 6 = uh_checksum h"
    by (rule get16_le16, simp, simp add: udp_hdr_bytes_def le16_def)+
  then show ?thesis by (simp add: udp_hdr_of_def)
qed

lemma length_udp_packet [simp]: "length (udp_packet s d sp dp data) = 8 + length data"
  by (simp add: udp_packet_def)

lemma udp_rx_packet:
  assumes "8 + length data < 65536"
  shows "udp_rx run (udp_packet s d sp dp data) src dst st =
    (case udp_match (udp_handlers st) dp None of Some h \<Rightarrow> run h data src sp dp st | None \<Rightarrow> st)"
proof -
  have t: "unat (of_nat (8 + length data) :: u16) = 8 + length data" using assms by (simp only: unat_of_nat) simp
  have h: "uh_src_port (udp_hdr_of (udp_packet s d sp dp data)) = htons sp"
    "uh_dst_port (udp_hdr_of (udp_packet s d sp dp data)) = htons dp"
    "uh_length (udp_hdr_of (udp_packet s d sp dp data)) = htons (of_nat (8 + length data))"
    by (simp_all add: udp_packet_def Let_def udp_hdr_of_bytes)
  have "drop 8 (udp_packet s d sp dp data) = data" by (simp add: udp_packet_def Let_def)
  then show ?thesis unfolding udp_rx_def Let_def h ntohs_htons t UDP_HDR_LEN_def by (simp split: option.split)
qed

text \<open>A receiver's check (RFC 768): pseudo-header and datagram sum to all ones.\<close>

definition udp_verifies :: "u32 \<Rightarrow> u32 \<Rightarrow> u8 list \<Rightarrow> bool" where
  "udp_verifies src dst pkt \<longleftrightarrow> csum_fold (csum_native 0 (pseudo_header src dst IPPROTO_UDP (of_nat (length pkt)) @ pkt)) = 0xFFFF"

lemma length_pseudo_header [simp]: "length (pseudo_header s d p n) = 12"
  by (simp add: pseudo_header_def)

lemma csum_native_append: "even (length a) \<Longrightarrow> csum_native s (a @ b) = csum_native (csum_native s a) b"
  by (induction s a rule: csum_native.induct) simp_all

lemma nsum_udp_hdr: "nsum (udp_hdr_bytes (h\<lparr>uh_checksum := v\<rparr>)) = nsum (udp_hdr_bytes (h\<lparr>uh_checksum := 0\<rparr>)) + unat v"
  using word_bytes [of v] by (simp add: udp_hdr_bytes_def le16_def)

lemma udp_packet_verifies:
  assumes "length data \<le> 60000"
  shows "udp_verifies s d (udp_packet s d sp dp data)"
proof -
  let ?ph = "pseudo_header s d IPPROTO_UDP (of_nat (8 + length data))"
  let ?h = "\<lparr>uh_src_port = htons sp, uh_dst_port = htons dp, uh_length = htons (of_nat (8 + length data)), uh_checksum = 0\<rparr>"
  let ?c = "udp_checksum s d ?h data"
  let ?S = "csum_native 0 (?ph @ udp_hdr_bytes ?h @ data)" and ?T = "csum_native 0 (?ph @ udp_hdr_bytes (?h\<lparr>uh_checksum := ?c\<rparr>) @ data)"
  have n: "unat (csum_native 0 (?ph @ udp_hdr_bytes h @ data)) = nsum ?ph + nsum (udp_hdr_bytes h) + nsum data" for h
  proof -
    have "nsum (?ph @ udp_hdr_bytes h @ data) = nsum ?ph + nsum (udp_hdr_bytes h) + nsum data" by (simp add: nsum_append)
    then show ?thesis using csum_native_nat [of 0 "?ph @ udp_hdr_bytes h @ data"]
      sum_small [of "?ph @ udp_hdr_bytes h @ data"] assms by simp
  qed
  have c: "?c = csum_result ?S"
    by (simp add: udp_checksum_def csum_result_def Let_def csum_native_append)
  have "unat ?T = unat ?S + unat (csum_result ?S)"
    unfolding n c [symmetric] using nsum_udp_hdr [where h = ?h and v = ?c] by simp
  then have "csum_fold ?T = 0xFFFF" by (rule csum_result_completes)
  then show ?thesis by (simp add: udp_verifies_def udp_packet_def Let_def)
qed

end
