(* ===== verification/Tcp.thy ===== *)
theory Tcp
  imports Udp Ring Slots
begin

text \<open>
  TCP (\<^verbatim>\<open>src/net/tcp/tcp.c\<close>): the connection table, segment construction, retransmission, the handler of
  received segments (one definition per block of \<^verbatim>\<open>tcp_rx\<close>) and the calls of the socket layer. The callbacks
  of a connection are named by constructors; \<open>cb\<close> maps the names to functions. A receive buffer's indices start at 0 and
  are only assigned modulo the buffer size.
\<close>

section \<open>Header, connections and state\<close>

definition TCP_HDR_LEN :: nat where [simp]: "TCP_HDR_LEN = 20"
definition TCP_FIN :: u8 where [simp]: "TCP_FIN = 0x01"
definition TCP_SYN :: u8 where [simp]: "TCP_SYN = 0x02"
definition TCP_RST :: u8 where [simp]: "TCP_RST = 0x04"
definition TCP_PSH :: u8 where [simp]: "TCP_PSH = 0x08"
definition TCP_ACK :: u8 where [simp]: "TCP_ACK = 0x10"
definition TCP_DATA_OFF_MIN :: u8 where [simp]: "TCP_DATA_OFF_MIN = 0x50"
definition TCP_RX_BUF_SIZE :: nat where [simp]: "TCP_RX_BUF_SIZE = 4096"
definition TCP_RTO_MS :: u32 where [simp]: "TCP_RTO_MS = 1000"
definition TCP_MAX_RETRIES :: nat where [simp]: "TCP_MAX_RETRIES = 5"
definition TCP_TIME_WAIT_MS :: u32 where [simp]: "TCP_TIME_WAIT_MS = 4000"
definition TCP_WINDOW :: u16 where [simp]: "TCP_WINDOW = 4096"
definition TCP_MAX_CONN :: nat where [simp]: "TCP_MAX_CONN = 8"

record tcp_hdr =
  th_src_port :: u16
  th_dst_port :: u16
  th_seq :: u32
  th_ack :: u32
  th_data_off :: u8
  th_flags :: u8
  th_window :: u16
  th_checksum :: u16
  th_urg_ptr :: u16

definition tcp_hdr_bytes :: "tcp_hdr \<Rightarrow> u8 list" where
  "tcp_hdr_bytes h = le16 (th_src_port h) @ le16 (th_dst_port h) @ le32 (th_seq h) @ le32 (th_ack h) @
     [th_data_off h, th_flags h] @ le16 (th_window h) @ le16 (th_checksum h) @ le16 (th_urg_ptr h)"

definition tcp_hdr_of :: "u8 list \<Rightarrow> tcp_hdr" where
  "tcp_hdr_of b = \<lparr>th_src_port = get16 b 0, th_dst_port = get16 b 2, th_seq = get32 b 4, th_ack = get32 b 8,
     th_data_off = b ! 12, th_flags = b ! 13, th_window = get16 b 14, th_checksum = get16 b 16, th_urg_ptr = get16 b 18\<rparr>"

datatype tcp_conn_state = TCP_CLOSED | TCP_LISTEN | TCP_SYN_SENT | TCP_SYN_RCVD | TCP_ESTABLISHED | TCP_FIN_WAIT_1 |
  TCP_FIN_WAIT_2 | TCP_CLOSE_WAIT | TCP_CLOSING | TCP_LAST_ACK | TCP_TIME_WAIT

datatype tcp_data_cb = Tcp_sock_data
datatype tcp_close_cb = Tcp_sock_close

record tcp_conn =
  conn_state :: tcp_conn_state
  local_ip :: u32
  local_port :: u16
  remote_ip :: u32
  remote_port :: u16
  snd_una :: u32
  snd_nxt :: u32
  snd_wnd :: u16
  rcv_nxt :: u32
  retx_buf :: "u8 list option"
  retx_len :: u16
  retx_deadline :: u32
  retx_count :: nat
  rx_buf :: "u8 list"
  rx_head :: u16
  rx_tail :: u16
  on_data :: "tcp_data_cb option"
  on_close :: "tcp_close_cb option"

record tcp_state = udp_state +
  conns :: "tcp_conn list"
  isn_counter :: u32

text \<open>The callbacks: \<open>cb_data cb\<close> and \<open>cb_close cb\<close> run a named one for a connection number.\<close>

record 's tcp_callbacks =
  cb_data :: "tcp_data_cb \<Rightarrow> nat \<Rightarrow> u8 list \<Rightarrow> 's \<Rightarrow> 's"
  cb_close :: "tcp_close_cb \<Rightarrow> nat \<Rightarrow> 's \<Rightarrow> 's"

definition upd_conn :: "nat \<Rightarrow> (tcp_conn \<Rightarrow> tcp_conn) \<Rightarrow> 'a tcp_state_scheme \<Rightarrow> 'a tcp_state_scheme" where
  "upd_conn i f st = st\<lparr>conns := (conns st)[i := f (conns st ! i)]\<rparr>"

section \<open>Helpers\<close>

definition next_isn :: "'a tcp_state_scheme \<Rightarrow> 'a tcp_state_scheme \<times> u32" where
  "next_isn st = (let v = isn_counter st * 1664525 + 1013904223 in (st\<lparr>isn_counter := v\<rparr>, v))"

definition tcp_checksum :: "u32 \<Rightarrow> u32 \<Rightarrow> u8 list \<Rightarrow> u16" where
  "tcp_checksum src_ip dst_ip seg =
     (let s = csum_add 0 (pseudo_header src_ip dst_ip IPPROTO_TCP (of_nat (length seg)));
          s = csum_add s seg;
          result = ucast (NOT (csum_fold s))
      in if result \<noteq> 0 then result else 0xFFFF)"

definition conn_alloc :: "'a tcp_state_scheme \<Rightarrow> nat option" where
  "conn_alloc st = scan (\<lambda>i. conn_state (conns st ! i) = TCP_CLOSED) TCP_MAX_CONN"

definition seq_lt :: "u32 \<Rightarrow> u32 \<Rightarrow> bool" where
  "seq_lt a b \<longleftrightarrow> sint (a - b) < 0"

definition seq_leq :: "u32 \<Rightarrow> u32 \<Rightarrow> bool" where
  "seq_leq a b \<longleftrightarrow> sint (a - b) \<le> 0"

section \<open>Sending segments\<close>

definition tcp_fill :: "tcp_conn \<Rightarrow> u8 list \<Rightarrow> u8 list" where
  "tcp_fill c seg = (let seg = put16 16 0 seg in put16 16 (tcp_checksum (local_ip c) (remote_ip c) seg) seg)"

definition tcp_send_raw :: "tcp_conn \<Rightarrow> u8 list \<Rightarrow> 'a tcp_state_scheme \<Rightarrow> 'a tcp_state_scheme \<times> int" where
  "tcp_send_raw c seg st = ipv4_send (remote_ip c) IPPROTO_TCP (tcp_fill c seg) st"

definition ctrl_segment :: "tcp_conn \<Rightarrow> u8 \<Rightarrow> u32 \<Rightarrow> u32 \<Rightarrow> u8 list" where
  "ctrl_segment c flags seq ack = tcp_hdr_bytes
     \<lparr>th_src_port = htons (local_port c), th_dst_port = htons (remote_port c), th_seq = htonl seq, th_ack = htonl ack,
      th_data_off = TCP_DATA_OFF_MIN, th_flags = flags, th_window = htons TCP_WINDOW, th_checksum = 0, th_urg_ptr = 0\<rparr>"

definition send_ctrl :: "tcp_conn \<Rightarrow> u8 \<Rightarrow> u32 \<Rightarrow> u32 \<Rightarrow> 'a tcp_state_scheme \<Rightarrow> 'a tcp_state_scheme" where
  "send_ctrl c flags seq ack st = fst (tcp_send_raw c (ctrl_segment c flags seq ack) st)"

definition send_rst_reply :: "u32 \<Rightarrow> u16 \<Rightarrow> u32 \<Rightarrow> u16 \<Rightarrow> u32 \<Rightarrow> u32 \<Rightarrow> u8 \<Rightarrow> 'a tcp_state_scheme \<Rightarrow> 'a tcp_state_scheme" where
  "send_rst_reply src_ip src_port dst_ip dst_port seq ack flags st =
     (let h = \<lparr>th_src_port = htons dst_port, th_dst_port = htons src_port, th_seq = 0, th_ack = 0,
               th_data_off = TCP_DATA_OFF_MIN, th_flags = 0, th_window = 0, th_checksum = 0, th_urg_ptr = 0\<rparr>;
          h = (if flags AND TCP_ACK \<noteq> 0 then h\<lparr>th_seq := htonl ack, th_ack := 0, th_flags := TCP_RST\<rparr>
               else h\<lparr>th_seq := 0, th_ack := htonl (seq + 1), th_flags := TCP_RST OR TCP_ACK\<rparr>);
          s = csum_add 0 (pseudo_header dst_ip src_ip IPPROTO_TCP 20);
          s = csum_fold (csum_add s (tcp_hdr_bytes h));
          h = h\<lparr>th_checksum := (if (ucast (NOT s) :: u16) \<noteq> 0 then ucast (NOT s) else 0xFFFF)\<rparr>
      in fst (ipv4_send src_ip IPPROTO_TCP (tcp_hdr_bytes h) st))"

definition retx_arm :: "nat \<Rightarrow> u8 list \<Rightarrow> 'a tcp_state_scheme \<Rightarrow> 'a tcp_state_scheme" where
  "retx_arm i seg st =
     (let st = upd_conn i (\<lambda>c. c\<lparr>retx_buf := None\<rparr>) st
      in if \<not> kmalloc_ok st (length seg) then st
         else upd_conn i (\<lambda>c. c\<lparr>retx_buf := Some seg, retx_len := of_nat (length seg), retx_deadline := clock st + TCP_RTO_MS,
                                retx_count := 0\<rparr>) st)"

definition retx_clear :: "tcp_conn \<Rightarrow> tcp_conn" where
  "retx_clear c = c\<lparr>retx_buf := None, retx_len := 0, retx_count := 0\<rparr>"

section \<open>The receive buffer\<close>

definition rx_used :: "tcp_conn \<Rightarrow> nat" where
  "rx_used c = ring_used TCP_RX_BUF_SIZE (unat (rx_head c)) (unat (rx_tail c))"

definition rx_free :: "tcp_conn \<Rightarrow> nat" where
  "rx_free c = TCP_RX_BUF_SIZE - 1 - rx_used c"

definition rx_put :: "u8 \<Rightarrow> tcp_conn \<Rightarrow> tcp_conn" where
  "rx_put b c = c\<lparr>rx_buf := (rx_buf c)[unat (rx_tail c) := b], rx_tail := of_nat ((unat (rx_tail c) + 1) mod TCP_RX_BUF_SIZE)\<rparr>"

definition rx_push :: "u8 list \<Rightarrow> tcp_conn \<Rightarrow> tcp_conn" where
  "rx_push data c = fold rx_put data c"

definition rx_get :: "tcp_conn \<Rightarrow> tcp_conn \<times> u8" where
  "rx_get c = (c\<lparr>rx_head := of_nat ((unat (rx_head c) + 1) mod TCP_RX_BUF_SIZE)\<rparr>, rx_buf c ! unat (rx_head c))"

section \<open>Received segments\<close>

text \<open>The search of the table: the first matching connection, and the last listener on the port seen before it.\<close>

fun tcp_find :: "tcp_conn list \<Rightarrow> nat \<Rightarrow> u16 \<Rightarrow> u16 \<Rightarrow> u32 \<Rightarrow> nat option \<Rightarrow> nat option \<times> nat option" where
  "tcp_find [] i dst_port src_port src_ip lstn = (None, lstn)"
| "tcp_find (t # ts) i dst_port src_port src_ip lstn =
     (if conn_state t = TCP_CLOSED then tcp_find ts (Suc i) dst_port src_port src_ip lstn
      else if conn_state t = TCP_LISTEN \<and> local_port t = dst_port then tcp_find ts (Suc i) dst_port src_port src_ip (Some i)
      else if local_port t = dst_port \<and> remote_port t = src_port \<and> remote_ip t = src_ip then (Some i, lstn)
      else tcp_find ts (Suc i) dst_port src_port src_ip lstn)"

definition tcp_passive_open :: "nat \<Rightarrow> u32 \<Rightarrow> u16 \<Rightarrow> u32 \<Rightarrow> u16 \<Rightarrow> u32 \<Rightarrow> u32 \<Rightarrow> u16 \<Rightarrow> u8 \<Rightarrow>
    'a tcp_state_scheme \<Rightarrow> 'a tcp_state_scheme" where
  "tcp_passive_open lstn src_ip src_port dst_ip dst_port seg_seq seg_ack seg_wnd flags st =
     (case conn_alloc st of
        None \<Rightarrow> send_rst_reply src_ip src_port dst_ip dst_port seg_seq seg_ack flags st
      | Some i \<Rightarrow>
          case next_isn st of (st, isn) \<Rightarrow>
          let l = conns st ! lstn;
              st = upd_conn i (\<lambda>nc. nc\<lparr>conn_state := TCP_SYN_RCVD, local_ip := dst_ip, local_port := dst_port,
                     remote_ip := src_ip, remote_port := src_port, snd_una := isn, snd_nxt := isn + 1, snd_wnd := seg_wnd,
                     rcv_nxt := seg_seq + 1, rx_head := 0, rx_tail := 0, retx_buf := None, retx_len := 0,
                     on_data := on_data l, on_close := on_close l\<rparr>) st;
              nc = conns st ! i;
              synack = ctrl_segment nc (TCP_SYN OR TCP_ACK) (snd_una nc) (rcv_nxt nc);
              st = retx_arm i synack st
          in fst (tcp_send_raw (conns st ! i) synack st))"

definition close_conn :: "'a tcp_state_scheme tcp_callbacks \<Rightarrow> nat \<Rightarrow> 'a tcp_state_scheme \<Rightarrow> 'a tcp_state_scheme" where
  "close_conn cb i st =
     (let st = upd_conn i retx_clear st;
          st = (case on_close (conns st ! i) of Some h \<Rightarrow> cb_close cb h i st | None \<Rightarrow> st)
      in upd_conn i (\<lambda>c. c\<lparr>conn_state := TCP_CLOSED\<rparr>) st)"

definition tcp_rst :: "'a tcp_state_scheme tcp_callbacks \<Rightarrow> nat \<Rightarrow> u32 \<Rightarrow> 'a tcp_state_scheme \<Rightarrow> 'a tcp_state_scheme" where
  "tcp_rst cb i seg_seq st =
     (let c = conns st ! i in
      if conn_state c = TCP_SYN_SENT \<or> (\<not> seq_lt seg_seq (rcv_nxt c) \<and> \<not> seq_leq (rcv_nxt c + ucast TCP_WINDOW) seg_seq)
      then close_conn cb i st else st)"

definition tcp_syn_sent :: "nat \<Rightarrow> u32 \<Rightarrow> u16 \<Rightarrow> u32 \<Rightarrow> u16 \<Rightarrow> u32 \<Rightarrow> u32 \<Rightarrow> u16 \<Rightarrow> u8 \<Rightarrow>
    'a tcp_state_scheme \<Rightarrow> 'a tcp_state_scheme" where
  "tcp_syn_sent i src_ip src_port dst_ip dst_port seg_seq seg_ack seg_wnd flags st =
     (let c = conns st ! i in
      if flags AND TCP_ACK = 0 then st
      else if seg_ack \<noteq> snd_nxt c then send_rst_reply src_ip src_port dst_ip dst_port seg_seq seg_ack flags st
      else if flags AND TCP_SYN = 0 then st
      else
       let st = upd_conn i (\<lambda>c. (retx_clear (c\<lparr>snd_una := seg_ack, snd_wnd := seg_wnd, rcv_nxt := seg_seq + 1\<rparr>))\<lparr>conn_state := TCP_ESTABLISHED\<rparr>) st;
           c = conns st ! i
       in send_ctrl c TCP_ACK (snd_nxt c) (rcv_nxt c) st)"

definition tcp_syn_rcvd :: "nat \<Rightarrow> u32 \<Rightarrow> u16 \<Rightarrow> 'a tcp_state_scheme \<Rightarrow> 'a tcp_state_scheme" where
  "tcp_syn_rcvd i seg_ack seg_wnd st =
     (if seg_ack = snd_nxt (conns st ! i)
      then upd_conn i (\<lambda>c. (retx_clear (c\<lparr>snd_una := seg_ack, snd_wnd := seg_wnd\<rparr>))\<lparr>conn_state := TCP_ESTABLISHED\<rparr>) st
      else st)"

text \<open>The acknowledgement block; the second component says that the handler returns there.\<close>

definition ack_window :: "u32 \<Rightarrow> u16 \<Rightarrow> tcp_conn \<Rightarrow> tcp_conn" where
  "ack_window seg_ack seg_wnd c =
     (if conn_state c \<in> {TCP_ESTABLISHED, TCP_FIN_WAIT_1, TCP_CLOSE_WAIT, TCP_CLOSING} \<and>
         seq_leq (snd_una c) seg_ack \<and> seq_leq seg_ack (snd_nxt c)
      then let c = c\<lparr>snd_una := seg_ack, snd_wnd := seg_wnd\<rparr>
           in if retx_buf c \<noteq> None \<and> seq_leq (snd_nxt c) (snd_una c) then retx_clear c else c
      else c)"

definition tcp_ack :: "'a tcp_state_scheme tcp_callbacks \<Rightarrow> nat \<Rightarrow> u32 \<Rightarrow> u16 \<Rightarrow> 'a tcp_state_scheme \<Rightarrow> 'a tcp_state_scheme \<times> bool" where
  "tcp_ack cb i seg_ack seg_wnd st =
     (let st = upd_conn i (ack_window seg_ack seg_wnd) st;
          st = upd_conn i (\<lambda>c. if conn_state c = TCP_FIN_WAIT_1 \<and> seg_ack = snd_nxt c then c\<lparr>conn_state := TCP_FIN_WAIT_2\<rparr> else c) st;
          st = upd_conn i (\<lambda>c. if conn_state c = TCP_CLOSING \<and> seg_ack = snd_nxt c
                 then c\<lparr>conn_state := TCP_TIME_WAIT, retx_deadline := clock st + TCP_TIME_WAIT_MS\<rparr> else c) st;
          c = conns st ! i
      in if conn_state c = TCP_LAST_ACK \<and> seg_ack = snd_nxt c then (close_conn cb i st, True) else (st, False))"

definition tcp_data :: "'a tcp_state_scheme tcp_callbacks \<Rightarrow> nat \<Rightarrow> u32 \<Rightarrow> u8 list \<Rightarrow> 'a tcp_state_scheme \<Rightarrow> 'a tcp_state_scheme" where
  "tcp_data cb i seg_seq data st =
     (let c = conns st ! i in
      if data \<noteq> [] \<and> conn_state c \<in> {TCP_ESTABLISHED, TCP_FIN_WAIT_1, TCP_FIN_WAIT_2} then
        let st = (if seg_seq = rcv_nxt c then
                    let acc = min (length data) (rx_free c)
                    in if acc > 0 then
                         let st = upd_conn i (\<lambda>c. (rx_push (take acc data) c)\<lparr>rcv_nxt := rcv_nxt c + of_nat acc\<rparr>) st
                         in case on_data (conns st ! i) of Some h \<Rightarrow> cb_data cb h i (take acc data) st | None \<Rightarrow> st
                       else st
                  else st);
            c = conns st ! i
        in send_ctrl c TCP_ACK (snd_nxt c) (rcv_nxt c) st
      else st)"

definition tcp_fin :: "'a tcp_state_scheme tcp_callbacks \<Rightarrow> nat \<Rightarrow> 'a tcp_state_scheme \<Rightarrow> 'a tcp_state_scheme" where
  "tcp_fin cb i st =
     (let st = upd_conn i (\<lambda>c. c\<lparr>rcv_nxt := rcv_nxt c + 1\<rparr>) st;
          ack = (\<lambda>st. let c = conns st ! i in send_ctrl c TCP_ACK (snd_nxt c) (rcv_nxt c) st)
      in case conn_state (conns st ! i) of
           TCP_ESTABLISHED \<Rightarrow>
             let st = ack (upd_conn i (\<lambda>c. c\<lparr>conn_state := TCP_CLOSE_WAIT\<rparr>) st)
             in (case on_close (conns st ! i) of Some h \<Rightarrow> cb_close cb h i st | None \<Rightarrow> st)
         | TCP_FIN_WAIT_1 \<Rightarrow> ack (upd_conn i (\<lambda>c. c\<lparr>conn_state := TCP_CLOSING\<rparr>) st)
         | TCP_FIN_WAIT_2 \<Rightarrow> ack (upd_conn i (\<lambda>c. c\<lparr>conn_state := TCP_TIME_WAIT, retx_deadline := clock st + TCP_TIME_WAIT_MS\<rparr>) st)
         | _ \<Rightarrow> st)"

definition tcp_segment :: "'a tcp_state_scheme tcp_callbacks \<Rightarrow> nat \<Rightarrow> u32 \<Rightarrow> u32 \<Rightarrow> u16 \<Rightarrow> u8 \<Rightarrow> u8 list \<Rightarrow>
    'a tcp_state_scheme \<Rightarrow> 'a tcp_state_scheme" where
  "tcp_segment cb i seg_seq seg_ack seg_wnd flags data st =
     (case (if flags AND TCP_ACK \<noteq> 0 then tcp_ack cb i seg_ack seg_wnd st else (st, False)) of (st, returned) \<Rightarrow>
      if returned then st
      else let st = tcp_data cb i seg_seq data st
           in if flags AND TCP_FIN \<noteq> 0 then tcp_fin cb i st else st)"

definition tcp_conn_rx :: "'a tcp_state_scheme tcp_callbacks \<Rightarrow> nat \<Rightarrow> u32 \<Rightarrow> u16 \<Rightarrow> u32 \<Rightarrow> u16 \<Rightarrow> u32 \<Rightarrow> u32 \<Rightarrow> u16 \<Rightarrow> u8 \<Rightarrow> u8 list \<Rightarrow>
    'a tcp_state_scheme \<Rightarrow> 'a tcp_state_scheme" where
  "tcp_conn_rx cb i src_ip src_port dst_ip dst_port seg_seq seg_ack seg_wnd flags data st =
     (if flags AND TCP_RST \<noteq> 0 then tcp_rst cb i seg_seq st
      else if conn_state (conns st ! i) = TCP_SYN_SENT
      then tcp_syn_sent i src_ip src_port dst_ip dst_port seg_seq seg_ack seg_wnd flags st
      else if conn_state (conns st ! i) = TCP_SYN_RCVD then
        if flags AND TCP_ACK = 0 then st
        else let st = tcp_syn_rcvd i seg_ack seg_wnd st
             in if conn_state (conns st ! i) \<noteq> TCP_ESTABLISHED then st
                else tcp_segment cb i seg_seq seg_ack seg_wnd flags data st
      else tcp_segment cb i seg_seq seg_ack seg_wnd flags data st)"

definition tcp_rx :: "'a tcp_state_scheme tcp_callbacks \<Rightarrow> u8 list \<Rightarrow> u32 \<Rightarrow> u32 \<Rightarrow> 'a tcp_state_scheme \<Rightarrow> 'a tcp_state_scheme" where
  "tcp_rx cb payload src_ip dst_ip st =
     (if length payload < TCP_HDR_LEN then st
      else
       let h = tcp_hdr_of payload;
           hdr_len = unat (drop_bit 4 (th_data_off h)) * 4
       in if hdr_len < TCP_HDR_LEN \<or> hdr_len > length payload then st
          else
           let src_port = ntohs (th_src_port h);
               dst_port = ntohs (th_dst_port h);
               seg_seq = ntohl (th_seq h);
               seg_ack = ntohl (th_ack h);
               seg_wnd = ntohs (th_window h);
               flags = th_flags h;
               data = drop hdr_len payload
           in case tcp_find (conns st) 0 dst_port src_port src_ip None of
                (None, lstn) \<Rightarrow>
                  (case lstn of
                     Some l \<Rightarrow>
                       if flags AND TCP_SYN \<noteq> 0 \<and> flags AND TCP_ACK = 0
                       then tcp_passive_open l src_ip src_port dst_ip dst_port seg_seq seg_ack seg_wnd flags st
                       else if flags AND TCP_RST = 0 then send_rst_reply src_ip src_port dst_ip dst_port seg_seq seg_ack flags st
                       else st
                   | None \<Rightarrow>
                       if flags AND TCP_RST = 0 then send_rst_reply src_ip src_port dst_ip dst_port seg_seq seg_ack flags st else st)
              | (Some i, lstn) \<Rightarrow>
                  tcp_conn_rx cb i src_ip src_port dst_ip dst_port seg_seq seg_ack seg_wnd flags data st)"

section \<open>Calls from the socket layer\<close>

definition tcp_listen :: "u16 \<Rightarrow> tcp_data_cb option \<Rightarrow> tcp_close_cb option \<Rightarrow> 'a tcp_state_scheme \<Rightarrow> 'a tcp_state_scheme \<times> int" where
  "tcp_listen port d cl st =
     (case conn_alloc st of None \<Rightarrow> (st, -1)
      | Some i \<Rightarrow>
          (upd_conn i (\<lambda>c. c\<lparr>conn_state := TCP_LISTEN, local_ip := ipv4_get_addr st, local_port := port, remote_ip := 0,
             remote_port := 0, rx_head := 0, rx_tail := 0, retx_buf := None, retx_len := 0, on_data := d, on_close := cl\<rparr>) st, int i))"

definition tcp_connect :: "u32 \<Rightarrow> u16 \<Rightarrow> u16 \<Rightarrow> tcp_data_cb option \<Rightarrow> tcp_close_cb option \<Rightarrow>
    'a tcp_state_scheme \<Rightarrow> 'a tcp_state_scheme \<times> int" where
  "tcp_connect ip rport lport d cl st =
     (case conn_alloc st of None \<Rightarrow> (st, -1)
      | Some i \<Rightarrow>
          case next_isn st of (st, isn) \<Rightarrow>
          let st = upd_conn i (\<lambda>c. c\<lparr>conn_state := TCP_SYN_SENT, local_ip := ipv4_get_addr st, local_port := lport, remote_ip := ip,
                     remote_port := rport, snd_una := isn, snd_nxt := isn + 1, snd_wnd := 0, rcv_nxt := 0, rx_head := 0,
                     rx_tail := 0, retx_buf := None, retx_len := 0, on_data := d, on_close := cl\<rparr>) st;
              c = conns st ! i;
              syn = tcp_hdr_bytes \<lparr>th_src_port = htons lport, th_dst_port = htons rport, th_seq = htonl (snd_una c), th_ack = 0,
                      th_data_off = TCP_DATA_OFF_MIN, th_flags = TCP_SYN, th_window = htons TCP_WINDOW, th_checksum = 0, th_urg_ptr = 0\<rparr>;
              st = retx_arm i syn st
          in (fst (tcp_send_raw (conns st ! i) syn st), int i))"

definition data_segment :: "tcp_conn \<Rightarrow> u8 list \<Rightarrow> u8 list" where
  "data_segment c data = ctrl_segment c (TCP_PSH OR TCP_ACK) (snd_nxt c) (rcv_nxt c) @ data"

text \<open>The segment length is a \<^verbatim>\<open>u16\<close>: with 65516 bytes of data or more it wraps, and the copy runs past the buffer.\<close>

definition tcp_send :: "int \<Rightarrow> u8 list \<Rightarrow> 'a tcp_state_scheme \<Rightarrow> mem_err + ('a tcp_state_scheme \<times> int)" where
  "tcp_send i data st =
     (if i < 0 \<or> i \<ge> int TCP_MAX_CONN then Inr (st, -1)
      else
       let c = conns st ! nat i in
       if conn_state c \<noteq> TCP_ESTABLISHED \<and> conn_state c \<noteq> TCP_CLOSE_WAIT then Inr (st, -1)
       else if data = [] then Inr (st, 0)
       else
        let total = unat (of_nat (TCP_HDR_LEN + length data) :: u16) in
        if \<not> kmalloc_ok st total then Inr (st, -1)
        else if total < TCP_HDR_LEN + length data then Inl OutOfBounds
        else
         let seg = data_segment c data;
             st = upd_conn (nat i) (\<lambda>c. c\<lparr>snd_nxt := snd_nxt c + of_nat (length data)\<rparr>) st;
             st = retx_arm (nat i) seg st
         in Inr (tcp_send_raw (conns st ! nat i) seg st))"

definition tcp_close :: "int \<Rightarrow> 'a tcp_state_scheme \<Rightarrow> 'a tcp_state_scheme \<times> int" where
  "tcp_close i st =
     (if i < 0 \<or> i \<ge> int TCP_MAX_CONN then (st, -1)
      else
       let k = nat i; c = conns st ! k in
       (if conn_state c = TCP_ESTABLISHED \<or> conn_state c = TCP_SYN_RCVD then
          upd_conn k (\<lambda>c. c\<lparr>snd_nxt := snd_nxt c + 1, conn_state := TCP_FIN_WAIT_1\<rparr>)
            (send_ctrl c (TCP_FIN OR TCP_ACK) (snd_nxt c) (rcv_nxt c) st)
        else if conn_state c = TCP_CLOSE_WAIT then
          upd_conn k (\<lambda>c. c\<lparr>snd_nxt := snd_nxt c + 1, conn_state := TCP_LAST_ACK\<rparr>)
            (send_ctrl c (TCP_FIN OR TCP_ACK) (snd_nxt c) (rcv_nxt c) st)
        else if conn_state c = TCP_LISTEN \<or> conn_state c = TCP_SYN_SENT then
          upd_conn k (\<lambda>c. (retx_clear c)\<lparr>conn_state := TCP_CLOSED\<rparr>) st
        else st, 0))"

definition tcp_tick_conn :: "'a tcp_state_scheme tcp_callbacks \<Rightarrow> u32 \<Rightarrow> nat \<Rightarrow> 'a tcp_state_scheme \<Rightarrow> 'a tcp_state_scheme" where
  "tcp_tick_conn cb now i st =
     (let c = conns st ! i in
      if conn_state c = TCP_TIME_WAIT then
        if sint (now - retx_deadline c) \<ge> 0 then upd_conn i (\<lambda>c. c\<lparr>conn_state := TCP_CLOSED\<rparr>) st else st
      else case retx_buf c of None \<Rightarrow> st
      | Some seg \<Rightarrow>
          if retx_len c = 0 then st
          else if sint (now - retx_deadline c) < 0 then st
          else if retx_count c \<ge> TCP_MAX_RETRIES then close_conn cb i st
          else
           let n = retx_count c + 1;
               seg = take (unat (retx_len c)) seg;
               st = upd_conn i (\<lambda>c. c\<lparr>retx_count := n, retx_deadline := now + TCP_RTO_MS * push_bit n 1,
                      retx_buf := Some (tcp_fill c seg)\<rparr>) st
           in fst (tcp_send_raw (conns st ! i) seg st))"

definition tcp_tick :: "'a tcp_state_scheme tcp_callbacks \<Rightarrow> 'a tcp_state_scheme \<Rightarrow> 'a tcp_state_scheme" where
  "tcp_tick cb st = for_range 0 TCP_MAX_CONN (tcp_tick_conn cb (clock st)) st"

definition tcp_accept :: "u16 \<Rightarrow> 'a tcp_state_scheme \<Rightarrow> 'a tcp_state_scheme \<times> int" where
  "tcp_accept port st =
     (case scan (\<lambda>i. let c = conns st ! i in conn_state c = TCP_ESTABLISHED \<and> local_port c = port \<and> remote_port c \<noteq> 0) TCP_MAX_CONN of
        Some i \<Rightarrow> (upd_conn i (\<lambda>c. c\<lparr>on_data := None\<rparr>) st, int i)
      | None \<Rightarrow> (st, -1))"

definition tcp_read :: "int \<Rightarrow> u16 \<Rightarrow> 'a tcp_state_scheme \<Rightarrow> 'a tcp_state_scheme \<times> u8 list" where
  "tcp_read i len st =
     (if i < 0 \<or> i \<ge> int TCP_MAX_CONN then (st, [])
      else
       let c = conns st ! nat i;
           avail = rx_used c
       in if avail = 0 then (st, [])
          else case take_bytes rx_get (min avail (unat len)) c of (c, bs) \<Rightarrow> (upd_conn (nat i) (\<lambda>_. c) st, bs))"

definition tcp_get_peer :: "int \<Rightarrow> 'a tcp_state_scheme \<Rightarrow> u32 \<times> u16" where
  "tcp_get_peer i st =
     (if i < 0 \<or> i \<ge> int TCP_MAX_CONN then (0, 0) else (remote_ip (conns st ! nat i), remote_port (conns st ! nat i)))"

definition tcp_init_impl :: "'a tcp_state_scheme \<Rightarrow> 'a tcp_state_scheme \<times> int" where
  "tcp_init_impl st =
     (let st = for_range 0 TCP_MAX_CONN (\<lambda>i. upd_conn i (\<lambda>c. c\<lparr>conn_state := TCP_CLOSED\<rparr>)) st
      in (fst (ipv4_register IPPROTO_TCP Tcp_rx st), 0))"

section \<open>Segments on the wire\<close>

lemma length_tcp_hdr_bytes [simp]: "length (tcp_hdr_bytes h) = 20"
  by (simp add: tcp_hdr_bytes_def le16_def le32_def)

lemma tcp_hdr_of_bytes: "tcp_hdr_of (tcp_hdr_bytes h @ rest) = h"
proof -
  let ?b = "tcp_hdr_bytes h @ rest"
  have "get16 ?b 0 = th_src_port h" "get16 ?b 2 = th_dst_port h" "get16 ?b 14 = th_window h" "get16 ?b 16 = th_checksum h"
    "get16 ?b 18 = th_urg_ptr h"
    by (rule get16_le16, simp, simp add: tcp_hdr_bytes_def le16_def le32_def)+
  moreover have "get32 ?b 4 = th_seq h" "get32 ?b 8 = th_ack h"
    by (rule get32_le32, simp, simp add: tcp_hdr_bytes_def le16_def le32_def)+
  moreover have "?b ! 12 = th_data_off h" "?b ! 13 = th_flags h"
    by (simp_all add: tcp_hdr_bytes_def le16_def le32_def)
  ultimately show ?thesis by (simp add: tcp_hdr_of_def)
qed

section \<open>The receive buffer as a queue\<close>

definition rx_queue :: "tcp_conn \<Rightarrow> u8 list" where
  "rx_queue c = ring_queue TCP_RX_BUF_SIZE (rx_buf c) (unat (rx_head c)) (unat (rx_tail c))"

definition rx_ok :: "tcp_conn \<Rightarrow> bool" where
  "rx_ok c \<longleftrightarrow> ring_ok TCP_RX_BUF_SIZE (rx_buf c) (unat (rx_head c)) (unat (rx_tail c))"

lemma unat_mod_4096: "unat (of_nat (n mod 4096) :: u16) = n mod 4096"
  by (simp only: unat_of_nat) (rule mod_less, rule less_trans [OF mod_less_divisor], simp_all)

lemma rx_free_queue: "rx_ok c \<Longrightarrow> rx_free c = 4095 - length (rx_queue c)"
  by (simp add: rx_free_def rx_used_def rx_queue_def)

interpretation rx: block_queue rx_put rx_get rx_queue rx_ok 4095
proof
  fix c and b assume ok: "rx_ok c" "length (rx_queue c) < 4095"
  then have b: "unat (rx_head c) < 4096" "unat (rx_tail c) < 4096" by (auto simp: rx_ok_def ring_ok_def)
  have "Suc (unat (rx_tail c)) mod 4096 \<noteq> unat (rx_head c)"
    using ok(2) ring_full_iff [OF b] by (simp add: rx_queue_def)
  from ring_push [OF ok(1) [unfolded rx_ok_def TCP_RX_BUF_SIZE_def] this]
  show "rx_ok (rx_put b c) \<and> rx_queue (rx_put b c) = rx_queue c @ [b]"
    by (simp add: rx_ok_def rx_queue_def rx_put_def unat_mod_4096)
next
  fix c b bs assume ok: "rx_ok c" "rx_queue c = b # bs"
  then have ne: "unat (rx_head c) \<noteq> unat (rx_tail c)"
    using ring_empty_iff [OF ok(1) [unfolded rx_ok_def]] by (auto simp: rx_queue_def)
  from ring_pop [OF ok(1) [unfolded rx_ok_def TCP_RX_BUF_SIZE_def] ne] ok(2)
  show "rx_ok (fst (rx_get c)) \<and> rx_queue (fst (rx_get c)) = bs \<and> snd (rx_get c) = b"
    by (simp add: rx_ok_def rx_queue_def rx_get_def unat_mod_4096)
qed

text \<open>Filling the buffer touches nothing but the buffer and its write index.\<close>

lemma rx_push_frame: "\<exists>b t. rx_push data c = c\<lparr>rx_buf := b, rx_tail := t\<rparr>"
proof (induction data arbitrary: c)
  case Nil
  show ?case by (rule exI [of _ "rx_buf c"], rule exI [of _ "rx_tail c"]) (simp add: rx_push_def)
next
  case (Cons d data)
  obtain b t where "rx_push data (rx_put d c) = (rx_put d c)\<lparr>rx_buf := b, rx_tail := t\<rparr>" using Cons.IH by blast
  then have "rx_push (d # data) c = c\<lparr>rx_buf := b, rx_tail := t\<rparr>" by (simp add: rx_push_def rx_put_def)
  then show ?case by blast
qed

lemma rx_push_fields [simp]:
  "conn_state (rx_push d c) = conn_state c" "local_port (rx_push d c) = local_port c" "remote_port (rx_push d c) = remote_port c"
  "remote_ip (rx_push d c) = remote_ip c" "rcv_nxt (rx_push d c) = rcv_nxt c" "rx_head (rx_push d c) = rx_head c"
  using rx_push_frame [of d c] by auto

lemma rx_get_frame: "take_bytes rx_get n c = (c', bs) \<Longrightarrow> \<exists>h. c' = c\<lparr>rx_head := h\<rparr>"
proof (induction n arbitrary: c bs)
  case 0
  then show ?case by (intro exI [of _ "rx_head c"]) simp
next
  case (Suc n)
  obtain bs' where "take_bytes rx_get n (fst (rx_get c)) = (c', bs')" using Suc.prems by (cases "rx_get c") (auto split: prod.splits)
  from Suc.IH [OF this] show ?case by (auto simp: rx_get_def)
qed

section \<open>Sending leaves the connections alone\<close>

lemma ipv4_send_conns [simp]:
  "conns (fst (ipv4_send d p b st)) = conns st" "clock (fst (ipv4_send d p b st)) = clock st"
  "kmalloc_ok (fst (ipv4_send d p b st)) = kmalloc_ok st"
  using ipv4_send_frame [of st d p b] by (auto simp: tx_only_def)

lemma send_ctrl_conns [simp]: "conns (send_ctrl c f s a st) = conns st" "clock (send_ctrl c f s a st) = clock st"
  "kmalloc_ok (send_ctrl c f s a st) = kmalloc_ok st"
  by (simp_all add: send_ctrl_def tcp_send_raw_def)

lemma send_rst_reply_conns [simp]: "conns (send_rst_reply a b c d e f g st) = conns st"
  by (simp add: send_rst_reply_def Let_def)

lemma upd_conn_simps [simp]:
  "conns (upd_conn i f st) = (conns st)[i := f (conns st ! i)]" "clock (upd_conn i f st) = clock st"
  "kmalloc_ok (upd_conn i f st) = kmalloc_ok st"
  by (simp_all add: upd_conn_def)

section \<open>In-order delivery\<close>

text \<open>A connection that is receiving, for the segments of one peer.\<close>

definition receiving :: "nat \<Rightarrow> u16 \<Rightarrow> u16 \<Rightarrow> u32 \<Rightarrow> 'a tcp_state_scheme \<Rightarrow> bool" where
  "receiving i lport rport rip st \<longleftrightarrow> length (conns st) = 8 \<and> i < 8 \<and> conn_state (conns st ! i) = TCP_ESTABLISHED \<and>
     rx_ok (conns st ! i) \<and> fst (tcp_find (conns st) 0 lport rport rip None) = Some i"

lemma tcp_find_update:
  assumes "i < length cs" "conn_state c' = conn_state (cs ! i)" "local_port c' = local_port (cs ! i)"
    "remote_port c' = remote_port (cs ! i)" "remote_ip c' = remote_ip (cs ! i)"
  shows "tcp_find (cs[i := c']) k lport rport rip l = tcp_find cs k lport rport rip l"
  using assms
proof (induction cs arbitrary: i k l)
  case (Cons t ts)
  then show ?case by (cases i) simp_all
qed simp

lemma receiving_update:
  assumes "receiving i lport rport rip st" "conns st' = (conns st)[i := c']" "rx_ok c'"
    and "conn_state c' = TCP_ESTABLISHED" "local_port c' = local_port (conns st ! i)"
    "remote_port c' = remote_port (conns st ! i)" "remote_ip c' = remote_ip (conns st ! i)"
  shows "receiving i lport rport rip st'"
proof -
  have "i < length (conns st)" "conn_state c' = conn_state (conns st ! i)" using assms(1,4) by (simp_all add: receiving_def)
  then have "tcp_find (conns st') 0 lport rport rip None = tcp_find (conns st) 0 lport rport rip None"
    unfolding assms(2) by (rule tcp_find_update) (use assms in simp_all)
  then show ?thesis using assms by (simp add: receiving_def)
qed

lemma ack_window_frame: "\<exists>u w b l n. ack_window a v c = c\<lparr>snd_una := u, snd_wnd := w, retx_buf := b, retx_len := l, retx_count := n\<rparr>"
proof -
  have "c = c\<lparr>snd_una := snd_una c, snd_wnd := snd_wnd c, retx_buf := retx_buf c, retx_len := retx_len c, retx_count := retx_count c\<rparr>"
    by simp
  moreover have "c\<lparr>snd_una := a, snd_wnd := v\<rparr> =
      c\<lparr>snd_una := a, snd_wnd := v, retx_buf := retx_buf c, retx_len := retx_len c, retx_count := retx_count c\<rparr>" by simp
  ultimately show ?thesis unfolding ack_window_def retx_clear_def Let_def by metis
qed

lemma tcp_ack_established:
  assumes "i < length (conns st)" "conn_state (conns st ! i) = TCP_ESTABLISHED"
  shows "\<exists>u w b l n. conns (fst (tcp_ack cb i a v st)) =
      (conns st)[i := (conns st ! i)\<lparr>snd_una := u, snd_wnd := w, retx_buf := b, retx_len := l, retx_count := n\<rparr>] \<and> \<not> snd (tcp_ack cb i a v st)"
proof -
  obtain u w b l n where f: "ack_window a v (conns st ! i) =
      (conns st ! i)\<lparr>snd_una := u, snd_wnd := w, retx_buf := b, retx_len := l, retx_count := n\<rparr>" using ack_window_frame by blast
  show ?thesis
    by (rule exI [of _ u], rule exI [of _ w], rule exI [of _ b], rule exI [of _ l], rule exI [of _ n])
      (simp add: tcp_ack_def Let_def f assms)
qed

lemma tcp_data_effect:
  assumes r: "i < length (conns st)" "conn_state (conns st ! i) = TCP_ESTABLISHED" "rx_ok (conns st ! i)"
    and cb: "\<And>h d s. conns (cb_data cb h i d s) = conns s"
  defines "c \<equiv> conns st ! i"
  shows "\<exists>c'. conns (tcp_data cb i q data st) = (conns st)[i := c'] \<and> rx_ok c' \<and>
    conn_state c' = conn_state c \<and> local_port c' = local_port c \<and> remote_port c' = remote_port c \<and> remote_ip c' = remote_ip c \<and>
    (let acc = (if q = rcv_nxt c then take (4095 - length (rx_queue c)) data else [])
     in rx_queue c' = rx_queue c @ acc \<and> rcv_nxt c' = rcv_nxt c + of_nat (length acc))"
proof (cases "data \<noteq> [] \<and> q = rcv_nxt c \<and> rx_free c > 0")
  case True
  let ?acc = "take (min (length data) (rx_free c)) data"
  have free: "rx_free c = 4095 - length (rx_queue c)" using rx_free_queue r(3) by (simp add: c_def)
  have "length (rx_queue c) + length ?acc \<le> 4095" using free True by auto
  from rx.put_block [OF r(3) [folded c_def] this] have q: "rx_ok (rx_push ?acc c)" "rx_queue (rx_push ?acc c) = rx_queue c @ ?acc"
    by (simp_all add: rx_push_def)
  let ?c = "(rx_push ?acc c)\<lparr>rcv_nxt := rcv_nxt c + of_nat (length ?acc)\<rparr>"
  have len: "length ?acc = min (length data) (rx_free c)" by simp
  have "conns (tcp_data cb i q data st) = (conns st)[i := ?c]"
    using True r unfolding tcp_data_def Let_def by (simp add: cb c_def [symmetric] split: option.split)
  moreover have "rx_ok ?c" "rx_queue ?c = rx_queue c @ ?acc" using q by (simp_all add: rx_ok_def rx_queue_def)
  moreover have "?acc = take (4095 - length (rx_queue c)) data" by (simp add: free min_def)
  ultimately show ?thesis using True by (intro exI [of _ ?c]) simp
next
  case False
  then have "conns (tcp_data cb i q data st) = conns st"
    using r unfolding tcp_data_def Let_def by (auto simp: c_def [symmetric])
  moreover have "(if q = rcv_nxt c then take (4095 - length (rx_queue c)) data else []) = []"
    using False rx_free_queue [OF r(3)] by (auto simp: c_def)
  ultimately show ?thesis using r by (intro exI [of _ c]) (simp add: c_def)
qed

text \<open>A segment with data and no RST or FIN: what it does to the connection, whatever it acknowledges.\<close>

definition peer_segment :: "u16 \<Rightarrow> u16 \<Rightarrow> u32 \<Rightarrow> u32 \<Rightarrow> u8 \<Rightarrow> u16 \<Rightarrow> u16 \<Rightarrow> u8 list \<Rightarrow> u8 list" where
  "peer_segment rport lport q a f w k data = tcp_hdr_bytes \<lparr>th_src_port = htons rport, th_dst_port = htons lport, th_seq = htonl q,
     th_ack = htonl a, th_data_off = TCP_DATA_OFF_MIN, th_flags = f, th_window = htons w, th_checksum = k, th_urg_ptr = 0\<rparr> @ data"

lemma tcp_rx_peer_segment:
  "tcp_rx cb (peer_segment rport lport q a f w k data) rip lip st =
     (case tcp_find (conns st) 0 lport rport rip None of
        (None, lstn) \<Rightarrow>
          (case lstn of
             Some l \<Rightarrow> if f AND TCP_SYN \<noteq> 0 \<and> f AND TCP_ACK = 0 then tcp_passive_open l rip rport lip lport q a w f st
                       else if f AND TCP_RST = 0 then send_rst_reply rip rport lip lport q a f st else st
           | None \<Rightarrow> if f AND TCP_RST = 0 then send_rst_reply rip rport lip lport q a f st else st)
      | (Some i, lstn) \<Rightarrow> tcp_conn_rx cb i rip rport lip lport q a w f data st)"
proof -
  have n: "unat (drop_bit 4 (0x50 :: u8)) * 4 = 20" by simp
  show ?thesis
    unfolding tcp_rx_def peer_segment_def tcp_hdr_of_bytes Let_def
    by (simp add: n split: option.split prod.split del: TCP_SYN_def TCP_ACK_def TCP_RST_def)
qed

lemma tcp_segment_effect:
  assumes r: "receiving i lport rport rip st" and f: "f AND TCP_RST = 0" "f AND TCP_FIN = 0"
    and cb: "\<And>h d s. conns (cb_data cb h i d s) = conns s"
    and c_def: "c = conns st ! i" and st'_def: "st' = tcp_rx cb (peer_segment rport lport q a f w k data) rip lip st"
  shows "receiving i lport rport rip st' \<and>
    (let acc = (if q = rcv_nxt c then take (4095 - length (rx_queue c)) data else [])
     in rx_queue (conns st' ! i) = rx_queue c @ acc \<and> rcv_nxt (conns st' ! i) = rcv_nxt c + of_nat (length acc))"
proof -
  note i = r [unfolded receiving_def]
  obtain l where l: "tcp_find (conns st) 0 lport rport rip None = (Some i, l)"
    using i by (cases "tcp_find (conns st) 0 lport rport rip None") auto
  define s1 where "s1 = (if f AND TCP_ACK \<noteq> 0 then fst (tcp_ack cb i a w st) else st)"
  have e: "st' = tcp_data cb i q data s1"
  proof -
    have "\<not> snd (tcp_ack cb i a w st)" using tcp_ack_established [of i st cb a w] i by auto
    then show ?thesis
      using f i unfolding st'_def tcp_rx_peer_segment l tcp_conn_rx_def tcp_segment_def s1_def
      by (auto simp: Let_def split: prod.splits)
  qed
  obtain u v b n m where s1: "conns s1 = (conns st)[i := c\<lparr>snd_una := u, snd_wnd := v, retx_buf := b, retx_len := n, retx_count := m\<rparr>]"
  proof (cases "f AND TCP_ACK \<noteq> 0")
    case True
    then show thesis using tcp_ack_established [of i st cb a w] i that by (auto simp: s1_def c_def)
  next
    case False
    then show thesis using that [where u = "snd_una c" and v = "snd_wnd c" and b = "retx_buf c" and n = "retx_len c" and m = "retx_count c"] by (simp add: s1_def c_def)
  qed
  let ?c1 = "c\<lparr>snd_una := u, snd_wnd := v, retx_buf := b, retx_len := n, retx_count := m\<rparr>"
  have c1: "conns s1 ! i = ?c1" using s1 i by simp
  have q1: "rx_queue ?c1 = rx_queue c" "rx_ok ?c1 \<longleftrightarrow> rx_ok c" by (simp_all add: rx_queue_def rx_ok_def)
  have pre: "i < length (conns s1)" "conn_state (conns s1 ! i) = TCP_ESTABLISHED" "rx_ok (conns s1 ! i)"
    using i s1 q1 c1 by (auto simp: c_def)
  obtain c' where c': "conns st' = (conns s1)[i := c']" "rx_ok c'" "conn_state c' = conn_state ?c1" "local_port c' = local_port ?c1"
    "remote_port c' = remote_port ?c1" "remote_ip c' = remote_ip ?c1"
    and acc: "let acc = (if q = rcv_nxt ?c1 then take (4095 - length (rx_queue ?c1)) data else [])
       in rx_queue c' = rx_queue ?c1 @ acc \<and> rcv_nxt c' = rcv_nxt ?c1 + of_nat (length acc)"
    using tcp_data_effect [OF pre cb, of q data] unfolding e c1 by blast
  have cs: "conns st' = (conns st)[i := c']" using c'(1) s1 by simp
  have "receiving i lport rport rip st'"
    by (rule receiving_update [OF r cs c'(2)]) (use c' i in \<open>simp_all add: c_def\<close>)
  moreover have "conns st' ! i = c'" using cs i by simp
  ultimately show ?thesis using acc by (simp add: q1 Let_def)
qed

text \<open>Reading takes from the front of the queue.\<close>

lemma tcp_read_effect:
  assumes r: "receiving i lport rport rip st" and "tcp_read (int i) len st = (st', bs)"
  shows "receiving i lport rport rip st' \<and> rx_queue (conns st ! i) = bs @ rx_queue (conns st' ! i) \<and>
    rcv_nxt (conns st' ! i) = rcv_nxt (conns st ! i) \<and> length bs = min (length (rx_queue (conns st ! i))) (unat len)"
proof -
  note i = r [unfolded receiving_def]
  have u: "rx_used (conns st ! i) = length (rx_queue (conns st ! i))" by (simp add: rx_used_def rx_queue_def)
  show ?thesis
  proof (cases "rx_queue (conns st ! i) = []")
    case True
    then show ?thesis using assms i u by (simp add: tcp_read_def Let_def)
  next
    case False
    obtain c' where t: "take_bytes rx_get (min (rx_used (conns st ! i)) (unat len)) (conns st ! i) = (c', bs)"
      and st': "st' = upd_conn i (\<lambda>_. c') st"
      using assms(2) False i u by (auto simp: tcp_read_def Let_def split: prod.splits)
    have g: "rx_ok c'" "bs = take (min (rx_used (conns st ! i)) (unat len)) (rx_queue (conns st ! i))"
      "rx_queue c' = drop (min (rx_used (conns st ! i)) (unat len)) (rx_queue (conns st ! i))"
      using rx.get_block [OF _ _ t] i u by simp_all
    obtain h where h: "c' = (conns st ! i)\<lparr>rx_head := h\<rparr>" using rx_get_frame [OF t] by blast
    have "receiving i lport rport rip st'"
      by (rule receiving_update [OF r _ g(1)]) (use i in \<open>simp_all add: st' h\<close>)
    moreover have "conns st' ! i = c'" using i by (simp add: st')
    ultimately show ?thesis using g u h by simp
  qed
qed

text \<open>What the senders of this host put on the wire are such segments.\<close>

lemma put16_tcp_checksum: "put16 16 v (tcp_hdr_bytes h @ data) = tcp_hdr_bytes (h\<lparr>th_checksum := v\<rparr>) @ data"
  by (simp add: put16_def tcp_hdr_bytes_def le16_def le32_def eval_nat_numeral)

lemma tcp_fill_segment:
  "\<exists>k. tcp_fill c (tcp_hdr_bytes \<lparr>th_src_port = htons sp, th_dst_port = htons dp, th_seq = htonl q, th_ack = htonl a,
     th_data_off = TCP_DATA_OFF_MIN, th_flags = f, th_window = htons TCP_WINDOW, th_checksum = 0, th_urg_ptr = 0\<rparr> @ data) =
     peer_segment sp dp q a f 4096 k data"
  by (simp add: tcp_fill_def Let_def put16_tcp_checksum peer_segment_def) (rule exI, rule refl)

lemma tcp_fill_ctrl:
  "local_port d = sp \<Longrightarrow> remote_port d = dp \<Longrightarrow> \<exists>k. tcp_fill c (ctrl_segment d f q a) = peer_segment sp dp q a f 4096 k []"
  using tcp_fill_segment [of c sp dp q a f "[]"] by (simp add: ctrl_segment_def)

end
