(* ===== verification/Checksum.thy ===== *)
theory Checksum
  imports Tcp
begin

text \<open>
  The two ways the stack computes the Internet checksum, against the definition of RFC 1071: IP, ICMP and UDP add words in the
  processor's byte order, TCP adds words in network order. The sums are equivalent up to a swap of the two result bytes. IP, ICMP
  and UDP store the result as it is, which is right; TCP stores its result as it is, too, which is not.
\<close>

text \<open>RFC 1071: the one's complement of the one's complement sum of the big-endian words.\<close>

definition ones_sum :: "u8 list \<Rightarrow> nat" where
  "ones_sum xs = (if bsum xs = 0 then 0 else (bsum xs - 1) mod 65535 + 1)"

definition rfc1071 :: "u8 list \<Rightarrow> u16" where
  "rfc1071 xs = of_nat (65535 - ones_sum xs)"

lemma ones_sum_folded: "ones_sum xs < 65536" "ones_sum xs mod 65535 = bsum xs mod 65535" "ones_sum xs = 0 \<longleftrightarrow> bsum xs = 0"
proof -
  show "ones_sum xs < 65536" by (simp add: ones_sum_def less_Suc_eq_le)
  show "ones_sum xs mod 65535 = bsum xs mod 65535"
  proof (cases "bsum xs = 0")
    case False
    then have "ones_sum xs mod 65535 = ((bsum xs - 1) mod 65535 + 1) mod 65535" by (simp add: ones_sum_def)
    also have "\<dots> = (bsum xs - 1 + 1) mod 65535" by (rule mod_add_left_eq)
    finally show ?thesis using False by simp
  qed (simp add: ones_sum_def)
  show "ones_sum xs = 0 \<longleftrightarrow> bsum xs = 0" by (simp add: ones_sum_def)
qed

lemma csum_fold_ones: "unat s = bsum xs \<Longrightarrow> unat (csum_fold s) = ones_sum xs"
  by (rule folded_unique) (use csum_fold_spec [of s] ones_sum_folded [of xs] in simp_all)

text \<open>Swapping bytes is multiplication by 256 modulo 65535.\<close>

lemma unat_htons: "unat (htons v) = 256 * (unat v mod 256) + unat v div 256"
proof -
  have l: "unat v div 256 < 256" using unat_lt_16 [of v] by simp
  have "unat (ucast (htons v) :: u8) = unat v div 256" "unat (ucast (drop_bit 8 (htons v)) :: u8) = unat v mod 256"
  proof -
    have "(ucast (htons v) :: u8) = ucast (drop_bit 8 v)" "(ucast (drop_bit 8 (htons v)) :: u8) = ucast v"
      using le16_htons [of v] by (simp_all add: le16_def)
    then show "unat (ucast (htons v) :: u8) = unat v div 256" "unat (ucast (drop_bit 8 (htons v)) :: u8) = unat v mod 256"
      using l by (simp_all add: unsigned_ucast_eq take_bit_nat_eq_self unat_drop_bit take_bit_eq_mod)
  qed
  then show ?thesis using word_bytes [of "htons v"] by simp
qed

lemma htons_mod: "unat (htons v) mod 65535 = 256 * unat v mod 65535"
proof -
  have "256 * unat v = 65535 * (unat v div 256) + unat (htons v)"
    unfolding unat_htons using div_mult_mod_eq [of "unat v" 256] by linarith
  then show ?thesis by (metis mod_mult_self4)
qed

lemma htons_eq_0: "unat (htons v) = 0 \<longleftrightarrow> unat v = 0"
  using div_mult_mod_eq [of "unat v" 256] unfolding unat_htons by linarith

lemma htons_NOT: "htons (NOT v) = NOT (htons v)"
  by (rule bit_eqI) (auto simp: htons_def bit_simps dest: bit_imp_le_length)

lemma bsum_zero: "bsum xs = 0 \<longleftrightarrow> nsum xs = 0"
  by (induction xs rule: nsum.induct) auto

lemma bsum_small: "length xs \<le> 65535 \<Longrightarrow> bsum xs < 2 ^ 32"
proof -
  assume "length xs \<le> 65535"
  then have "(length xs + 1) div 2 \<le> 32768" by linarith
  then have "bsum xs \<le> 65535 * 32768" using bsum_bound [of xs] by (meson le_trans mult_le_mono2)
  then show ?thesis by simp
qed

text \<open>C29. The checksum of IP and ICMP, summed in the processor's byte order, and the sum TCP uses, in network order, are both the
  checksum of RFC 1071: the first one already in the byte order of the wire, the second in the processor's.\<close>

theorem checksum_equivalence:
  assumes "length xs \<le> 65535"
  shows "ip_checksum xs = htons (rfc1071 xs) \<and> ucast (NOT (csum_fold (csum_add 0 xs))) = rfc1071 xs"
proof -
  define s where "s = csum_fold (csum_add 0 xs)"
  define t :: u16 where "t = ucast (csum_fold (csum_native 0 xs))"
  have n: "unat (csum_native 0 xs) = nsum xs" using csum_native_nat [of 0 xs] sum_small [OF assms] by simp
  have b: "unat (csum_add 0 xs) = bsum xs" using csum_add_nat [of 0 xs] bsum_small [OF assms] by simp
  have s: "unat s = ones_sum xs" unfolding s_def using b by (rule csum_fold_ones)
  have r: "unat (rfc1071 xs) = 65535 - ones_sum xs" unfolding rfc1071_def by (simp only: unat_of_nat) simp
  then have add: "ucast (NOT (csum_fold (csum_add 0 xs))) = rfc1071 xs"
    using unat_not16 [of s] s ones_sum_folded(1) [of xs] by (simp add: s_def word_unat_eq_iff)
  have f: "unat (csum_fold (csum_native 0 xs)) < 65536" "unat (csum_fold (csum_native 0 xs)) mod 65535 = nsum xs mod 65535"
    "unat (csum_fold (csum_native 0 xs)) = 0 \<longleftrightarrow> nsum xs = 0"
    using csum_fold_spec [of "csum_native 0 xs"] n by simp_all
  have t: "unat t = unat (csum_fold (csum_native 0 xs))" using f(1) by (simp add: t_def unsigned_ucast_eq take_bit_nat_eq_self)
  have m: "unat (htons t) mod 65535 = bsum xs mod 65535"
    unfolding htons_mod bsum_nsum t using f(2) by (metis mod_mult_right_eq)
  have "unat (htons t) = ones_sum xs"
    by (rule folded_unique [OF _ ones_sum_folded(1)])
      (use ones_sum_folded [of xs] unat_lt_16 [of "htons t"] htons_eq_0 [of t] bsum_zero [of xs] t f(3) m in simp_all)
  then have "htons t = ucast s" using s ones_sum_folded(1) [of xs]
    by (simp add: word_unat_eq_iff unsigned_ucast_eq take_bit_nat_eq_self)
  then have "t = htons (ucast s)" using ntohs_htons [of t] by (simp add: htons_ntohs)
  moreover have "ip_checksum xs = NOT t" unfolding ip_checksum_def t_def by (rule bit_eqI) (auto simp: bit_simps)
  moreover have "NOT (ucast s) = (ucast (NOT s) :: u16)" by (rule bit_eqI) (auto simp: bit_simps)
  ultimately have "ip_checksum xs = htons (rfc1071 xs)" using add by (simp add: s_def htons_NOT [symmetric])
  then show ?thesis using add by simp
qed

theorem checksum_equivalence_witness:
  "ip_checksum [0x45, 0, 0, 20, 1] = htons (rfc1071 [0x45, 0, 0, 20, 1]) \<and> rfc1071 [0x45, 0, 0, 20, 1] = 0xB9EB"
  using checksum_equivalence [of "[0x45, 0, 0, 20, 1]"] by (simp add: rfc1071_def ones_sum_def)

section \<open>The checksum TCP stores\<close>

lemma mod_add_cancel: "(b + x) mod m = (b + y) mod m \<longleftrightarrow> x mod m = y mod m" for b x y m :: nat
proof
  assume "(b + x) mod m = (b + y) mod m"
  then have "(int b + int x) mod int m = (int b + int y) mod int m" by (metis of_nat_add zmod_int)
  then have "int x mod int m = int y mod int m" by (metis add_diff_cancel_left' mod_diff_left_eq)
  then show "x mod m = y mod m" by (metis of_nat_eq_iff zmod_int)
qed (metis mod_add_right_eq)

lemma bsum_append: "even (length xs) \<Longrightarrow> bsum (xs @ ys) = bsum xs + bsum ys"
  by (induction xs rule: bsum.induct) auto

lemma csum_add_append: "even (length a) \<Longrightarrow> csum_add s (a @ b) = csum_add (csum_add s a) b"
  by (induction s a rule: csum_add.induct) simp_all

lemma put16_put16: "put16 i v (put16 i w b) = put16 i v b"
  by (simp add: put16_def list_update_swap [of "Suc i" i])

lemma bsum_put16:
  assumes "even i" "Suc i < length b"
  shows "bsum (put16 i v b) = bsum (put16 i 0 b) + unat (htons v)"
proof -
  have e: "even (length (take i b))" using assms by simp
  have "256 * unat (ucast v :: u8) + unat (ucast (drop_bit 8 v) :: u8) = unat (htons v)"
    using word_bytes [of "htons v"] le16_htons [of v] by (simp add: le16_def)
  then show ?thesis unfolding put16_split [OF assms(2)] bsum_append [OF e] by simp
qed

text \<open>A receiver's check (RFC 793): pseudo-header and segment, as big-endian words, sum to all ones.\<close>

definition tcp_verifies :: "u32 \<Rightarrow> u32 \<Rightarrow> u8 list \<Rightarrow> bool" where
  "tcp_verifies src dst seg \<longleftrightarrow> rfc1071 (pseudo_header src dst IPPROTO_TCP (of_nat (length seg)) @ seg) = 0"

lemma rfc1071_zero: "rfc1071 xs = 0 \<longleftrightarrow> bsum xs mod 65535 = 0 \<and> bsum xs \<noteq> 0"
proof -
  have "unat (rfc1071 xs) = 65535 - ones_sum xs" unfolding rfc1071_def by (simp only: unat_of_nat) simp
  then have "rfc1071 xs = 0 \<longleftrightarrow> ones_sum xs = 65535"
    using ones_sum_folded(1) [of xs] by (simp add: word_unat_eq_iff) linarith
  also have "\<dots> \<longleftrightarrow> ones_sum xs mod 65535 = 0 \<and> ones_sum xs \<noteq> 0"
    using folded_unique [of "ones_sum xs" 65535] ones_sum_folded(1) [of xs] by auto
  finally show ?thesis unfolding ones_sum_folded(2,3) .
qed

lemma csum_result_mod: "(unat s + unat (csum_result s)) mod 65535 = 0" "unat (csum_result s) \<noteq> 0"
proof -
  define f where "f = unat (csum_fold s)"
  have f: "f < 65536" "f mod 65535 = unat s mod 65535" using csum_fold_spec [of s] by (simp_all add: f_def)
  have c: "unat (csum_result s) = (if f = 65535 then 65535 else 65535 - f)" unfolding f_def by (rule unat_csum_result)
  have "(unat s + unat (csum_result s)) mod 65535 = (f + unat (csum_result s)) mod 65535" using f(2) by (metis mod_add_left_eq)
  then show "(unat s + unat (csum_result s)) mod 65535 = 0" using f(1) by (simp add: c)
  show "unat (csum_result s) \<noteq> 0" using f(1) unfolding c by simp
qed

text \<open>C38. The checksum of an outgoing TCP segment is stored in the processor's byte order: the segment verifies at a receiver exactly
  when the two bytes of the checksum happen to be equal, and every other segment is corrupt on the wire.\<close>

theorem tcp_checksum_swapped:
  assumes "20 \<le> length seg" "length seg \<le> 65515"
  shows "tcp_verifies (local_ip c) (remote_ip c) (tcp_fill c seg) \<longleftrightarrow> tcp_fill c seg ! 16 = tcp_fill c seg ! 17"
proof -
  define z where "z = put16 16 0 seg"
  define ph where "ph = pseudo_header (local_ip c) (remote_ip c) IPPROTO_TCP (of_nat (length seg))"
  define k where "k = tcp_checksum (local_ip c) (remote_ip c) z"
  have fill: "tcp_fill c seg = put16 16 k seg" by (simp add: tcp_fill_def z_def k_def Let_def put16_put16)
  have l: "length ph = 12" "length z = length seg" by (simp_all add: ph_def z_def)
  have k: "k = csum_result (csum_add 0 (ph @ z))"
    using l by (simp add: k_def tcp_checksum_def csum_result_def Let_def csum_add_append ph_def)
  have b: "unat (csum_add 0 (ph @ z)) = bsum (ph @ z)" using csum_add_nat [of 0 "ph @ z"] bsum_small [of "ph @ z"] assms l by simp
  have s: "bsum (ph @ put16 16 k seg) = bsum (ph @ z) + unat (htons k)"
    using bsum_put16 [of 16 seg k] assms(1) l by (simp add: bsum_append z_def)
  have nz: "unat k \<noteq> 0" and m: "(bsum (ph @ z) + unat k) mod 65535 = 0" using csum_result_mod [of "csum_add 0 (ph @ z)"] by (simp_all add: k b)
  have "tcp_verifies (local_ip c) (remote_ip c) (tcp_fill c seg) \<longleftrightarrow> (bsum (ph @ z) + unat (htons k)) mod 65535 = 0"
    unfolding tcp_verifies_def fill length_put16 ph_def [symmetric] rfc1071_zero s using nz htons_eq_0 [of k] by simp
  also have "\<dots> \<longleftrightarrow> unat (htons k) mod 65535 = unat k mod 65535" using m mod_add_cancel [of "bsum (ph @ z)" "unat (htons k)" 65535 "unat k"] by simp
  also have "\<dots> \<longleftrightarrow> unat (htons k) = unat k"
    using folded_unique [of "unat (htons k)" "unat k"] unat_lt_16 [of "htons k"] unat_lt_16 [of k] htons_eq_0 [of k] by auto
  also have "\<dots> \<longleftrightarrow> unat k mod 256 = unat k div 256"
    using div_mult_mod_eq [of "unat k" 256] unfolding unat_htons by linarith
  also have "\<dots> \<longleftrightarrow> (ucast k :: u8) = ucast (drop_bit 8 k)"
    using unat_lt_16 [of k] by (simp add: word_unat_eq_iff unsigned_ucast_eq take_bit_eq_mod unat_drop_bit)
  also have "\<dots> \<longleftrightarrow> tcp_fill c seg ! 16 = tcp_fill c seg ! 17" using assms(1) by (simp add: fill put16_def)
  finally show ?thesis .
qed

text \<open>An acknowledgement that does not verify.\<close>

definition plain_segment :: "u8 list" where
  "plain_segment = tcp_hdr_bytes \<lparr>th_src_port = htons 80, th_dst_port = htons 5000, th_seq = htonl 1, th_ack = htonl 1, th_data_off = TCP_DATA_OFF_MIN,
     th_flags = TCP_ACK, th_window = htons TCP_WINDOW, th_checksum = 0, th_urg_ptr = 0\<rparr>"

definition conn_between :: "u32 \<Rightarrow> u32 \<Rightarrow> tcp_conn" where
  "conn_between a b = \<lparr>conn_state = TCP_ESTABLISHED, local_ip = a, local_port = 80, remote_ip = b, remote_port = 5000, snd_una = 1, snd_nxt = 1,
     snd_wnd = 0, rcv_nxt = 1, retx_buf = None, retx_len = 0, retx_deadline = 0, retx_count = 0, rx_buf = [], rx_head = 0, rx_tail = 0,
     on_data = None, on_close = None\<rparr>"

theorem tcp_checksum_swapped_witness:
  "\<not> tcp_verifies 0x0A000001 0x0A000002 (tcp_fill (conn_between 0x0A000001 0x0A000002) plain_segment)"
proof -
  have "length plain_segment = 20" by (simp add: plain_segment_def)
  then have "tcp_verifies 0x0A000001 0x0A000002 (tcp_fill (conn_between 0x0A000001 0x0A000002) plain_segment) \<longleftrightarrow>
    tcp_fill (conn_between 0x0A000001 0x0A000002) plain_segment ! 16 = tcp_fill (conn_between 0x0A000001 0x0A000002) plain_segment ! 17"
    using tcp_checksum_swapped [of plain_segment "conn_between 0x0A000001 0x0A000002"] by (simp add: conn_between_def)
  moreover have "tcp_fill (conn_between 0x0A000001 0x0A000002) plain_segment ! 16 \<noteq> tcp_fill (conn_between 0x0A000001 0x0A000002) plain_segment ! 17"
    by code_simp
  ultimately show ?thesis by simp
qed

end
