(* ===== verification/Socket.thy ===== *)
theory Socket
  imports Tcp
begin

text \<open>
  The socket layer (\<^verbatim>\<open>src/net/socket/socket.c\<close>): the socket table, the callbacks UDP and TCP run, and the eight
  system calls. A user pointer to an address is an optional \<open>sockaddr_in\<close> value, a user buffer the list of its bytes; what
  a call writes to user memory is part of its result. A system call returns a \<^verbatim>\<open>u64\<close>, an error as its negated code.
\<close>

section \<open>Constants and state\<close>

definition AF_INET :: u16 where [simp]: "AF_INET = 2"
definition SOCK_STREAM :: u64 where [simp]: "SOCK_STREAM = 1"
definition SOCK_DGRAM :: u64 where [simp]: "SOCK_DGRAM = 2"
definition SYS_SOCKET :: u32 where [simp]: "SYS_SOCKET = 41"
definition SYS_CONNECT :: u32 where [simp]: "SYS_CONNECT = 42"
definition SYS_ACCEPT :: u32 where [simp]: "SYS_ACCEPT = 43"
definition SYS_SENDTO :: u32 where [simp]: "SYS_SENDTO = 44"
definition SYS_RECVFROM :: u32 where [simp]: "SYS_RECVFROM = 45"
definition SYS_SHUTDOWN :: u32 where [simp]: "SYS_SHUTDOWN = 48"
definition SYS_BIND :: u32 where [simp]: "SYS_BIND = 49"
definition SYS_LISTEN :: u32 where [simp]: "SYS_LISTEN = 50"
definition SOCK_MAX :: nat where [simp]: "SOCK_MAX = 16"
definition SOCK_FD_BASE :: int where [simp]: "SOCK_FD_BASE = 64"
definition SOCK_BUF :: nat where [simp]: "SOCK_BUF = 2048"

datatype errno = EINVAL | ENOMEM | EAFNOSUPPORT | EPROTONOSUPPORT | ENOTSOCK | ENOTCONN | EISCONN | EADDRINUSE | EOPNOTSUPP | EAGAIN

fun errno_code :: "errno \<Rightarrow> int" where
  "errno_code EINVAL = 22"
| "errno_code ENOMEM = 12"
| "errno_code EAFNOSUPPORT = 97"
| "errno_code EPROTONOSUPPORT = 93"
| "errno_code ENOTSOCK = 88"
| "errno_code ENOTCONN = 107"
| "errno_code EISCONN = 106"
| "errno_code EADDRINUSE = 98"
| "errno_code EOPNOTSUPP = 95"
| "errno_code EAGAIN = 11"

definition fail :: "errno \<Rightarrow> u64" where
  "fail e = word_of_int (- errno_code e)"

record sockaddr_in =
  sin_family :: u16
  sin_port :: u16
  sin_addr :: u32

datatype sock_kind = SOCK_FREE | SOCK_TCP | SOCK_UDP

record sock =
  sock_type :: sock_kind
  conn_id :: int
  bound_port :: u16
  peer_ip :: u32
  peer_port :: u16
  srx_buf :: "u8 list"
  srx_head :: u16
  srx_tail :: u16

datatype sock_call = Sys_socket | Sys_bind | Sys_listen | Sys_accept | Sys_connect | Sys_sendto | Sys_recvfrom | Sys_shutdown

record sock_state = tcp_state +
  socks :: "sock list"
  sock_calls :: "(u32 \<times> sock_call) list"

definition upd_sock :: "nat \<Rightarrow> (sock \<Rightarrow> sock) \<Rightarrow> 'a sock_state_scheme \<Rightarrow> 'a sock_state_scheme" where
  "upd_sock i f st = st\<lparr>socks := (socks st)[i := f (socks st ! i)]\<rparr>"

section \<open>Helpers and callbacks\<close>

text \<open>\<^verbatim>\<open>(int)fd\<close>, then the table index.\<close>

definition fd_int :: "u64 \<Rightarrow> int" where
  "fd_int fd = sint (ucast fd :: u32)"

definition fd_to_idx :: "int \<Rightarrow> nat option" where
  "fd_to_idx fd = (let idx = fd - SOCK_FD_BASE in if idx < 0 \<or> idx \<ge> int SOCK_MAX then None else Some (nat idx))"

definition alloc_sock :: "'a sock_state_scheme \<Rightarrow> nat option" where
  "alloc_sock st = scan (\<lambda>i. sock_type (socks st ! i) = SOCK_FREE) SOCK_MAX"

definition srx_used :: "sock \<Rightarrow> nat" where
  "srx_used s = ring_used SOCK_BUF (unat (srx_head s)) (unat (srx_tail s))"

definition srx_put :: "u8 \<Rightarrow> sock \<Rightarrow> sock" where
  "srx_put b s = s\<lparr>srx_buf := (srx_buf s)[unat (srx_tail s) := b], srx_tail := of_nat ((unat (srx_tail s) + 1) mod SOCK_BUF)\<rparr>"

definition srx_get :: "sock \<Rightarrow> sock \<times> u8" where
  "srx_get s = (s\<lparr>srx_head := of_nat ((unat (srx_head s) + 1) mod SOCK_BUF)\<rparr>, srx_buf s ! unat (srx_head s))"

definition udp_sock_rx :: "u8 list \<Rightarrow> u32 \<Rightarrow> u16 \<Rightarrow> u16 \<Rightarrow> 'a sock_state_scheme \<Rightarrow> 'a sock_state_scheme" where
  "udp_sock_rx data src_ip src_port dst_port st =
     (case scan (\<lambda>i. sock_type (socks st ! i) = SOCK_UDP \<and> bound_port (socks st ! i) = dst_port) SOCK_MAX of
        None \<Rightarrow> st
      | Some i \<Rightarrow>
          upd_sock i (\<lambda>s. let s = s\<lparr>peer_ip := src_ip, peer_port := src_port\<rparr>;
                              free = SOCK_BUF - 1 - srx_used s
                          in fold srx_put (take (min (length data) free) data) s) st)"

definition tcp_sock_data :: "nat \<Rightarrow> u8 list \<Rightarrow> 'a sock_state_scheme \<Rightarrow> 'a sock_state_scheme" where
  "tcp_sock_data i data st = st"

definition tcp_sock_close :: "nat \<Rightarrow> 'a sock_state_scheme \<Rightarrow> 'a sock_state_scheme" where
  "tcp_sock_close k st =
     (case scan (\<lambda>i. sock_type (socks st ! i) = SOCK_TCP \<and> conn_id (socks st ! i) = int k) SOCK_MAX of
        None \<Rightarrow> st
      | Some i \<Rightarrow> upd_sock i (\<lambda>s. s\<lparr>conn_id := -1\<rparr>) st)"

section \<open>System calls\<close>

definition sys_socket :: "u64 \<Rightarrow> u64 \<Rightarrow> 'a sock_state_scheme \<Rightarrow> 'a sock_state_scheme \<times> u64" where
  "sys_socket domain type st =
     (if domain \<noteq> ucast AF_INET then (st, fail EAFNOSUPPORT)
      else if type \<noteq> SOCK_STREAM \<and> type \<noteq> SOCK_DGRAM then (st, fail EPROTONOSUPPORT)
      else case alloc_sock st of None \<Rightarrow> (st, fail ENOMEM)
      | Some i \<Rightarrow>
          (upd_sock i (\<lambda>s. s\<lparr>sock_type := (if type = SOCK_STREAM then SOCK_TCP else SOCK_UDP), conn_id := -1, bound_port := 0,
             peer_ip := 0, peer_port := 0, srx_head := 0, srx_tail := 0\<rparr>) st, word_of_int (SOCK_FD_BASE + int i)))"

definition sys_bind :: "u64 \<Rightarrow> sockaddr_in \<Rightarrow> 'a sock_state_scheme \<Rightarrow> 'a sock_state_scheme \<times> u64" where
  "sys_bind fd sa st =
     (case fd_to_idx (fd_int fd) of None \<Rightarrow> (st, fail ENOTSOCK)
      | Some idx \<Rightarrow>
          if sock_type (socks st ! idx) = SOCK_FREE then (st, fail ENOTSOCK)
          else if sin_family sa \<noteq> AF_INET then (st, fail EAFNOSUPPORT)
          else
           let port = ntohs (sin_port sa) in
           if scan (\<lambda>i. i \<noteq> idx \<and> sock_type (socks st ! i) \<noteq> SOCK_FREE \<and> bound_port (socks st ! i) = port) SOCK_MAX \<noteq> None
           then (st, fail EADDRINUSE)
           else
            let st = upd_sock idx (\<lambda>s. s\<lparr>bound_port := port\<rparr>) st
            in (if sock_type (socks st ! idx) = SOCK_UDP then fst (udp_register port Udp_sock_rx st) else st, 0))"

definition sys_listen :: "u64 \<Rightarrow> 'a sock_state_scheme \<Rightarrow> 'a sock_state_scheme \<times> u64" where
  "sys_listen fd st =
     (case fd_to_idx (fd_int fd) of None \<Rightarrow> (st, fail ENOTSOCK)
      | Some idx \<Rightarrow>
          if sock_type (socks st ! idx) \<noteq> SOCK_TCP then (st, fail EOPNOTSUPP)
          else if bound_port (socks st ! idx) = 0 then (st, fail EINVAL)
          else case tcp_listen (bound_port (socks st ! idx)) (Some Tcp_sock_data) (Some Tcp_sock_close) st of (st, cid) \<Rightarrow>
               if cid < 0 then (st, fail EINVAL) else (upd_sock idx (\<lambda>s. s\<lparr>conn_id := cid\<rparr>) st, 0))"

text \<open>The third component is what the call writes through the address pointer: family, port and address, and nothing
  when \<open>want\<close> (a pointer was given) is false.\<close>

definition sys_accept :: "u64 \<Rightarrow> bool \<Rightarrow> 'a sock_state_scheme \<Rightarrow> 'a sock_state_scheme \<times> u64 \<times> sockaddr_in option" where
  "sys_accept fd want st =
     (case fd_to_idx (fd_int fd) of None \<Rightarrow> (st, fail ENOTSOCK, None)
      | Some idx \<Rightarrow>
          if sock_type (socks st ! idx) \<noteq> SOCK_TCP then (st, fail EOPNOTSUPP, None)
          else case tcp_accept (bound_port (socks st ! idx)) st of (st, found) \<Rightarrow>
               if found < 0 then (st, fail EAGAIN, None)
               else case alloc_sock st of None \<Rightarrow> (st, fail ENOMEM, None)
               | Some nidx \<Rightarrow>
                   let port = bound_port (socks st ! idx);
                       st = upd_sock nidx (\<lambda>s. s\<lparr>sock_type := SOCK_TCP, conn_id := found, bound_port := port, srx_head := 0,
                              srx_tail := 0\<rparr>) st;
                       peer = tcp_get_peer found st;
                       sa = \<lparr>sin_family = AF_INET, sin_port = htons (snd peer), sin_addr = htonl (fst peer)\<rparr>
                   in (st, word_of_int (SOCK_FD_BASE + int nidx), if want then Some sa else None))"

definition sys_connect :: "u64 \<Rightarrow> sockaddr_in \<Rightarrow> 'a sock_state_scheme \<Rightarrow> 'a sock_state_scheme \<times> u64" where
  "sys_connect fd sa st =
     (case fd_to_idx (fd_int fd) of None \<Rightarrow> (st, fail ENOTSOCK)
      | Some idx \<Rightarrow>
          let s = socks st ! idx in
          if sock_type s \<noteq> SOCK_TCP then (st, fail EOPNOTSUPP)
          else if conn_id s \<ge> 0 then (st, fail EISCONN)
          else
           let dst_ip = ntohl (sin_addr sa);
               dst_port = ntohs (sin_port sa);
               src_port = (if bound_port s \<noteq> 0 then bound_port s else word_of_int (49152 + fd_int fd))
           in case tcp_connect dst_ip dst_port src_port (Some Tcp_sock_data) (Some Tcp_sock_close) st of (st, cid) \<Rightarrow>
              if cid < 0 then (st, fail EINVAL) else (upd_sock idx (\<lambda>s. s\<lparr>conn_id := cid\<rparr>) st, 0))"

text \<open>\<^verbatim>\<open>(u16)len\<close> bytes of the buffer are sent; the result is the whole \<^verbatim>\<open>len\<close>.\<close>

definition send_result :: "u64 \<Rightarrow> mem_err + ('s \<times> int) \<Rightarrow> mem_err + ('s \<times> u64)" where
  "send_result len r = map_sum (\<lambda>e. e) (\<lambda>(st, ret). (st, if ret < 0 then fail EINVAL else len)) r"

definition sys_sendto :: "u64 \<Rightarrow> u8 list \<Rightarrow> u64 \<Rightarrow> sockaddr_in option \<Rightarrow> 'a sock_state_scheme \<Rightarrow>
    mem_err + ('a sock_state_scheme \<times> u64)" where
  "sys_sendto fd buf len addr st =
     (case fd_to_idx (fd_int fd) of None \<Rightarrow> Inr (st, fail ENOTSOCK)
      | Some idx \<Rightarrow>
          let s = socks st ! idx;
              data = take (unat (ucast len :: u16)) buf
          in case sock_type s of
               SOCK_TCP \<Rightarrow>
                 if conn_id s < 0 then Inr (st, fail ENOTCONN)
                 else send_result len (tcp_send (conn_id s) data st)
             | SOCK_UDP \<Rightarrow>
                 (case addr of
                    Some sa \<Rightarrow> send_result len (udp_send (ntohl (sin_addr sa)) (bound_port s) (ntohs (sin_port sa)) data st)
                  | None \<Rightarrow>
                      if peer_ip s \<noteq> 0 then send_result len (udp_send (peer_ip s) (bound_port s) (peer_port s) data st)
                      else Inr (st, fail ENOTCONN))
             | SOCK_FREE \<Rightarrow> Inr (st, fail ENOTSOCK))"

text \<open>The results: the return value, the bytes written to the buffer and the sender's address.\<close>

definition sys_recvfrom :: "u64 \<Rightarrow> u64 \<Rightarrow> bool \<Rightarrow> 'a sock_state_scheme \<Rightarrow>
    'a sock_state_scheme \<times> u64 \<times> u8 list \<times> sockaddr_in option" where
  "sys_recvfrom fd len want st =
     (case fd_to_idx (fd_int fd) of None \<Rightarrow> (st, fail ENOTSOCK, [], None)
      | Some idx \<Rightarrow>
          let s = socks st ! idx in
          case sock_type s of
            SOCK_TCP \<Rightarrow>
              if conn_id s < 0 then (st, fail ENOTCONN, [], None)
              else (case tcp_read (conn_id s) (ucast len) st of (st, bs) \<Rightarrow>
                    if bs = [] then (st, fail EAGAIN, [], None) else (st, of_nat (length bs), bs, None))
          | SOCK_UDP \<Rightarrow>
              let avail = srx_used s in
              if avail = 0 then (st, fail EAGAIN, [], None)
              else (case take_bytes srx_get (min avail (unat (ucast len :: u16))) s of (s, bs) \<Rightarrow>
                    (upd_sock idx (\<lambda>_. s) st, of_nat (length bs), bs,
                     if want then Some \<lparr>sin_family = AF_INET, sin_port = htons (peer_port s), sin_addr = htonl (peer_ip s)\<rparr> else None))
          | SOCK_FREE \<Rightarrow> (st, fail ENOTSOCK, [], None))"

definition sys_shutdown :: "u64 \<Rightarrow> 'a sock_state_scheme \<Rightarrow> 'a sock_state_scheme \<times> u64" where
  "sys_shutdown fd st =
     (case fd_to_idx (fd_int fd) of None \<Rightarrow> (st, fail ENOTSOCK)
      | Some idx \<Rightarrow>
          let s = socks st ! idx;
              st = (if sock_type s = SOCK_TCP \<and> conn_id s \<ge> 0 then fst (tcp_close (conn_id s) st) else st)
          in (upd_sock idx (\<lambda>s. s\<lparr>sock_type := SOCK_FREE, conn_id := -1\<rparr>) st, 0))"

text \<open>The registrations are kept in the order they are made.\<close>

definition syscall_register_sock :: "u32 \<Rightarrow> sock_call \<Rightarrow> 'a sock_state_scheme \<Rightarrow> 'a sock_state_scheme" where
  "syscall_register_sock nr f st = st\<lparr>sock_calls := sock_calls st @ [(nr, f)]\<rparr>"

definition socket_init_impl :: "'a sock_state_scheme \<Rightarrow> 'a sock_state_scheme \<times> int" where
  "socket_init_impl st =
     (let st = for_range 0 SOCK_MAX (\<lambda>i. upd_sock i (\<lambda>s. s\<lparr>sock_type := SOCK_FREE, conn_id := -1\<rparr>)) st;
          st = syscall_register_sock SYS_SOCKET Sys_socket st;
          st = syscall_register_sock SYS_BIND Sys_bind st;
          st = syscall_register_sock SYS_LISTEN Sys_listen st;
          st = syscall_register_sock SYS_ACCEPT Sys_accept st;
          st = syscall_register_sock SYS_CONNECT Sys_connect st;
          st = syscall_register_sock SYS_SENDTO Sys_sendto st;
          st = syscall_register_sock SYS_RECVFROM Sys_recvfrom st;
          st = syscall_register_sock SYS_SHUTDOWN Sys_shutdown st
      in (st, 0))"

section \<open>The datagram buffer as a queue\<close>

definition srx_queue :: "sock \<Rightarrow> u8 list" where
  "srx_queue s = ring_queue SOCK_BUF (srx_buf s) (unat (srx_head s)) (unat (srx_tail s))"

definition srx_ok :: "sock \<Rightarrow> bool" where
  "srx_ok s \<longleftrightarrow> ring_ok SOCK_BUF (srx_buf s) (unat (srx_head s)) (unat (srx_tail s))"

lemma unat_mod_2048: "unat (of_nat (n mod 2048) :: u16) = n mod 2048"
  by (simp only: unat_of_nat) (rule mod_less, rule less_trans [OF mod_less_divisor], simp_all)

lemma srx_used_queue: "srx_used s = length (srx_queue s)"
  by (simp add: srx_used_def srx_queue_def)

interpretation srx: block_queue srx_put srx_get srx_queue srx_ok 2047
proof
  fix s and b assume ok: "srx_ok s" "length (srx_queue s) < 2047"
  then have b: "unat (srx_head s) < 2048" "unat (srx_tail s) < 2048" by (auto simp: srx_ok_def ring_ok_def)
  have "Suc (unat (srx_tail s)) mod 2048 \<noteq> unat (srx_head s)"
    using ok(2) ring_full_iff [OF b] by (simp add: srx_queue_def)
  from ring_push [OF ok(1) [unfolded srx_ok_def SOCK_BUF_def] this]
  show "srx_ok (srx_put b s) \<and> srx_queue (srx_put b s) = srx_queue s @ [b]"
    by (simp add: srx_ok_def srx_queue_def srx_put_def unat_mod_2048)
next
  fix s b bs assume ok: "srx_ok s" "srx_queue s = b # bs"
  then have ne: "unat (srx_head s) \<noteq> unat (srx_tail s)"
    using ring_empty_iff [OF ok(1) [unfolded srx_ok_def]] by (auto simp: srx_queue_def)
  from ring_pop [OF ok(1) [unfolded srx_ok_def SOCK_BUF_def] ne] ok(2)
  show "srx_ok (fst (srx_get s)) \<and> srx_queue (fst (srx_get s)) = bs \<and> snd (srx_get s) = b"
    by (simp add: srx_ok_def srx_queue_def srx_get_def unat_mod_2048)
qed

lemma srx_put_frame: "\<exists>b t. fold srx_put data s = s\<lparr>srx_buf := b, srx_tail := t\<rparr>"
proof (induction data arbitrary: s)
  case Nil
  show ?case by (rule exI [of _ "srx_buf s"], rule exI [of _ "srx_tail s"]) simp
next
  case (Cons d data)
  obtain b t where "fold srx_put data (srx_put d s) = (srx_put d s)\<lparr>srx_buf := b, srx_tail := t\<rparr>" using Cons.IH by blast
  then have "fold srx_put (d # data) s = s\<lparr>srx_buf := b, srx_tail := t\<rparr>" by (simp add: srx_put_def)
  then show ?case by blast
qed

lemma srx_get_frame: "take_bytes srx_get n s = (s', bs) \<Longrightarrow> \<exists>h. s' = s\<lparr>srx_head := h\<rparr>"
proof (induction n arbitrary: s bs)
  case 0
  then show ?case by (intro exI [of _ "srx_head s"]) simp
next
  case (Suc n)
  obtain bs' where "take_bytes srx_get n (fst (srx_get s)) = (s', bs')" using Suc.prems by (cases "srx_get s") (auto split: prod.splits)
  from Suc.IH [OF this] show ?case by (auto simp: srx_get_def)
qed

section \<open>Datagrams through a socket\<close>

text \<open>Socket \<open>j\<close> is the one datagrams for \<open>port\<close> go to.\<close>

definition udp_bound :: "nat \<Rightarrow> u16 \<Rightarrow> 'a sock_state_scheme \<Rightarrow> bool" where
  "udp_bound j port st \<longleftrightarrow> length (socks st) = 16 \<and> srx_ok (socks st ! j) \<and>
     scan (\<lambda>i. sock_type (socks st ! i) = SOCK_UDP \<and> bound_port (socks st ! i) = port) 16 = Some j"

lemma udp_sock_rx_effect:
  assumes "udp_bound j port st"
  shows "\<exists>s. udp_sock_rx data ip sp port st = upd_sock j (\<lambda>_. s) st \<and> srx_ok s \<and> sock_type s = SOCK_UDP \<and> bound_port s = port \<and>
    peer_ip s = ip \<and> peer_port s = sp \<and> srx_queue s = srx_queue (socks st ! j) @ take (2047 - length (srx_queue (socks st ! j))) data"
proof -
  let ?s = "(socks st ! j)\<lparr>peer_ip := ip, peer_port := sp\<rparr>" and ?q = "srx_queue (socks st ! j)"
  let ?d = "take (min (length data) (2047 - length ?q)) data"
  have sc: "scan (\<lambda>i. sock_type (socks st ! i) = SOCK_UDP \<and> bound_port (socks st ! i) = port) 16 = Some j"
    and ok: "srx_ok ?s" using assms by (simp_all add: udp_bound_def srx_ok_def)
  have q: "srx_queue ?s = ?q" by (simp add: srx_queue_def)
  have bound: "length ?q < 2048" using ring_used_bound [OF ok [unfolded srx_ok_def]] by (simp add: srx_queue_def)
  have "length (srx_queue ?s) + length ?d \<le> 2047" using bound by (auto simp: q)
  from srx.put_block [OF ok this] have p: "srx_ok (fold srx_put ?d ?s)" "srx_queue (fold srx_put ?d ?s) = ?q @ ?d" by (simp_all add: q)
  obtain b t where f: "fold srx_put ?d ?s = ?s\<lparr>srx_buf := b, srx_tail := t\<rparr>" using srx_put_frame by blast
  have e: "udp_sock_rx data ip sp port st = upd_sock j (\<lambda>_. fold srx_put ?d ?s) st"
    using sc by (simp add: udp_sock_rx_def Let_def srx_used_queue q upd_sock_def)
  have "?d = take (2047 - length ?q) data" by (simp add: min_def)
  then show ?thesis using e p f scan_SomeD [OF sc] by (intro exI [of _ "fold srx_put ?d ?s"]) simp
qed

lemma sys_recvfrom_udp:
  assumes "fd_to_idx (fd_int fd) = Some j" "j < length (socks st)" "sock_type (socks st ! j) = SOCK_UDP" "srx_ok (socks st ! j)"
    and q: "srx_queue (socks st ! j) \<noteq> []" "length (srx_queue (socks st ! j)) \<le> unat (ucast len :: u16)"
  shows "\<exists>h. sys_recvfrom fd len True st =
     (upd_sock j (\<lambda>s. s\<lparr>srx_head := h\<rparr>) st, of_nat (length (srx_queue (socks st ! j))), srx_queue (socks st ! j),
      Some \<lparr>sin_family = AF_INET, sin_port = htons (peer_port (socks st ! j)), sin_addr = htonl (peer_ip (socks st ! j))\<rparr>)"
proof -
  obtain s bs where t: "take_bytes srx_get (length (srx_queue (socks st ! j))) (socks st ! j) = (s, bs)" by (metis surj_pair)
  have bs: "bs = srx_queue (socks st ! j)" using srx.get_block [OF assms(4) _ t] by simp
  obtain h where h: "s = (socks st ! j)\<lparr>srx_head := h\<rparr>" using srx_get_frame [OF t] by blast
  show ?thesis
    by (rule exI [of _ h]) (use assms(1,3) q t in \<open>simp add: sys_recvfrom_def Let_def srx_used_queue min_def bs h upd_sock_def\<close>)
qed

end
