(* ===== verification/Dhcp.thy ===== *)
theory Dhcp
  imports Socket
begin

text \<open>
  The DHCP client (\<^verbatim>\<open>src/net/dhcp/dhcp.c\<close>), the network poll it registers with the timer, and the stack as a
  whole: with every layer defined, the handler names of the layers below get their functions here.
\<close>

section \<open>Constants and state\<close>

definition DHCP_CLIENT_PORT :: u16 where [simp]: "DHCP_CLIENT_PORT = 68"
definition DHCP_SERVER_PORT :: u16 where [simp]: "DHCP_SERVER_PORT = 67"
definition DHCP_OP_REQUEST :: u8 where [simp]: "DHCP_OP_REQUEST = 1"
definition DHCP_OP_REPLY :: u8 where [simp]: "DHCP_OP_REPLY = 2"
definition DHCP_DISCOVER :: u8 where [simp]: "DHCP_DISCOVER = 1"
definition DHCP_OFFER :: u8 where [simp]: "DHCP_OFFER = 2"
definition DHCP_REQUEST :: u8 where [simp]: "DHCP_REQUEST = 3"
definition DHCP_ACK :: u8 where [simp]: "DHCP_ACK = 5"
definition DHCP_NAK :: u8 where [simp]: "DHCP_NAK = 6"
definition DHCP_OPT_SUBNET :: u8 where [simp]: "DHCP_OPT_SUBNET = 1"
definition DHCP_OPT_ROUTER :: u8 where [simp]: "DHCP_OPT_ROUTER = 3"
definition DHCP_OPT_DNS :: u8 where [simp]: "DHCP_OPT_DNS = 6"
definition DHCP_OPT_REQIP :: u8 where [simp]: "DHCP_OPT_REQIP = 50"
definition DHCP_OPT_MSGTYPE :: u8 where [simp]: "DHCP_OPT_MSGTYPE = 53"
definition DHCP_OPT_SERVERID :: u8 where [simp]: "DHCP_OPT_SERVERID = 54"
definition DHCP_OPT_PARAMREQ :: u8 where [simp]: "DHCP_OPT_PARAMREQ = 55"
definition DHCP_OPT_END :: u8 where [simp]: "DHCP_OPT_END = 255"
definition DHCP_MAGIC_COOKIE :: u32 where [simp]: "DHCP_MAGIC_COOKIE = 0x63825363"
definition DHCP_HDR_LEN :: nat where [simp]: "DHCP_HDR_LEN = 240"
definition DHCP_MIN_SIZE :: nat where [simp]: "DHCP_MIN_SIZE = 548"
definition DHCP_PKT_LEN :: nat where [simp]: "DHCP_PKT_LEN = DHCP_MIN_SIZE"
definition DHCP_XID :: u32 where [simp]: "DHCP_XID = 0xDEADBEEF"
definition DHCP_MAX_RETRIES :: nat where [simp]: "DHCP_MAX_RETRIES = 5"
definition DHCP_RETRY_MS :: u32 where [simp]: "DHCP_RETRY_MS = 3000"

record dhcp_hdr =
  dh_op :: u8
  dh_htype :: u8
  dh_hlen :: u8
  dh_hops :: u8
  dh_xid :: u32
  dh_secs :: u16
  dh_flags :: u16
  dh_ciaddr :: u32
  dh_yiaddr :: u32
  dh_siaddr :: u32
  dh_giaddr :: u32
  dh_chaddr :: "u8 list"
  dh_sname :: "u8 list"
  dh_file :: "u8 list"
  dh_magic :: u32

definition dhcp_hdr_bytes :: "dhcp_hdr \<Rightarrow> u8 list" where
  "dhcp_hdr_bytes h = [dh_op h, dh_htype h, dh_hlen h, dh_hops h] @ le32 (dh_xid h) @ le16 (dh_secs h) @ le16 (dh_flags h) @
     le32 (dh_ciaddr h) @ le32 (dh_yiaddr h) @ le32 (dh_siaddr h) @ le32 (dh_giaddr h) @ dh_chaddr h @ dh_sname h @ dh_file h @
     le32 (dh_magic h)"

definition dhcp_hdr_of :: "u8 list \<Rightarrow> dhcp_hdr" where
  "dhcp_hdr_of b = \<lparr>dh_op = b ! 0, dh_htype = b ! 1, dh_hlen = b ! 2, dh_hops = b ! 3, dh_xid = get32 b 4, dh_secs = get16 b 8,
     dh_flags = get16 b 10, dh_ciaddr = get32 b 12, dh_yiaddr = get32 b 16, dh_siaddr = get32 b 20, dh_giaddr = get32 b 24,
     dh_chaddr = take 16 (drop 28 b), dh_sname = take 64 (drop 44 b), dh_file = take 128 (drop 108 b), dh_magic = get32 b 236\<rparr>"

datatype dhcp_client_state = DHCP_STATE_IDLE | DHCP_STATE_SELECTING | DHCP_STATE_REQUESTING | DHCP_STATE_BOUND | DHCP_STATE_FAILED

datatype net_timer = Net_poll

record dhcp_state = sock_state +
  dhcp_phase :: dhcp_client_state
  offered_ip :: u32
  server_ip :: u32
  retry_count :: nat
  deadline :: u32
  timer_callbacks :: "net_timer list"

section \<open>Messages\<close>

definition opt_u8 :: "u8 \<Rightarrow> u8 \<Rightarrow> u8 list" where
  "opt_u8 code val = [code, 1, val]"

definition opt_u32 :: "u8 \<Rightarrow> u32 \<Rightarrow> u8 list" where
  "opt_u32 code val = [code, 4, ucast (drop_bit 24 val), ucast (drop_bit 16 val), ucast (drop_bit 8 val), ucast val]"

text \<open>A packet: header, options, zeros up to the fixed size.\<close>

definition dhcp_packet :: "u8 list \<Rightarrow> u8 list \<Rightarrow> u8 list" where
  "dhcp_packet m opts =
     (let h = \<lparr>dh_op = DHCP_OP_REQUEST, dh_htype = 1, dh_hlen = 6, dh_hops = 0, dh_xid = htonl DHCP_XID, dh_secs = 0,
               dh_flags = htons 0, dh_ciaddr = 0, dh_yiaddr = 0, dh_siaddr = 0, dh_giaddr = 0, dh_chaddr = m @ replicate 10 0,
               dh_sname = replicate 64 0, dh_file = replicate 128 0, dh_magic = htonl DHCP_MAGIC_COOKIE\<rparr>;
          p = dhcp_hdr_bytes h @ opts
      in p @ replicate (DHCP_PKT_LEN - length p) 0)"

definition dhcp_send :: "u8 list \<Rightarrow> 'a dhcp_state_scheme \<Rightarrow> 'a dhcp_state_scheme" where
  "dhcp_send opts st =
     (case udp_send 0xFFFFFFFF DHCP_CLIENT_PORT DHCP_SERVER_PORT (dhcp_packet (ethernet_get_mac st) opts) st of
        Inr (st, r) \<Rightarrow> st | Inl e \<Rightarrow> st)"

definition send_discover :: "'a dhcp_state_scheme \<Rightarrow> 'a dhcp_state_scheme" where
  "send_discover st = dhcp_send (opt_u8 DHCP_OPT_MSGTYPE DHCP_DISCOVER @
     [DHCP_OPT_PARAMREQ, 3, DHCP_OPT_SUBNET, DHCP_OPT_ROUTER, DHCP_OPT_DNS, DHCP_OPT_END]) st"

definition send_request :: "u32 \<Rightarrow> u32 \<Rightarrow> 'a dhcp_state_scheme \<Rightarrow> 'a dhcp_state_scheme" where
  "send_request req_ip srv_ip st = dhcp_send (opt_u8 DHCP_OPT_MSGTYPE DHCP_REQUEST @ opt_u32 DHCP_OPT_REQIP req_ip @
     opt_u32 DHCP_OPT_SERVERID srv_ip @ [DHCP_OPT_PARAMREQ, 3, DHCP_OPT_SUBNET, DHCP_OPT_ROUTER, DHCP_OPT_DNS, DHCP_OPT_END]) st"

text \<open>The option parser. An option whose length exceeds what is left ends it.\<close>

record dhcp_opts =
  msgtype :: u8
  out_srv :: u32
  out_mask :: u32
  out_gw :: u32

definition be32 :: "u8 list \<Rightarrow> u32" where
  "be32 p = push_bit 24 (ucast (p ! 0)) OR push_bit 16 (ucast (p ! 1)) OR push_bit 8 (ucast (p ! 2)) OR ucast (p ! 3)"

definition apply_option :: "u8 \<Rightarrow> u8 list \<Rightarrow> dhcp_opts \<Rightarrow> dhcp_opts" where
  "apply_option code val r =
     (if code = DHCP_OPT_MSGTYPE then if length val \<ge> 1 then r\<lparr>msgtype := val ! 0\<rparr> else r
      else if code = DHCP_OPT_SERVERID then if length val \<ge> 4 then r\<lparr>out_srv := be32 val\<rparr> else r
      else if code = DHCP_OPT_SUBNET then if length val \<ge> 4 then r\<lparr>out_mask := be32 val\<rparr> else r
      else if code = DHCP_OPT_ROUTER then if length val \<ge> 4 then r\<lparr>out_gw := be32 val\<rparr> else r
      else r)"

function parse_options :: "u8 list \<Rightarrow> dhcp_opts \<Rightarrow> dhcp_opts" where
  "parse_options [] r = r"
| "parse_options (code # p) r =
     (if code = DHCP_OPT_END then r
      else if code = 0 then parse_options p r
      else case p of [] \<Rightarrow> r
      | olen # p \<Rightarrow>
          if unat olen > length p then r
          else parse_options (drop (unat olen) p) (apply_option code (take (unat olen) p) r))"
  by pat_completeness auto

termination by (relation "measure (length \<circ> fst)") auto

section \<open>The client\<close>

definition dhcp_rx :: "u8 list \<Rightarrow> 'a dhcp_state_scheme \<Rightarrow> 'a dhcp_state_scheme" where
  "dhcp_rx data st =
     (if length data < DHCP_HDR_LEN then st
      else
       let h = dhcp_hdr_of data in
       if dh_op h \<noteq> DHCP_OP_REPLY then st
       else if ntohl (dh_xid h) \<noteq> DHCP_XID then st
       else if ntohl (dh_magic h) \<noteq> DHCP_MAGIC_COOKIE then st
       else
        let yiaddr = ntohl (dh_yiaddr h) in
        if yiaddr = 0 then st
        else
         let r = parse_options (drop DHCP_HDR_LEN data) \<lparr>msgtype = 0, out_srv = 0, out_mask = 0xFFFFFF00, out_gw = 0\<rparr> in
         if dhcp_phase st = DHCP_STATE_SELECTING \<and> msgtype r = DHCP_OFFER then
           let st = st\<lparr>offered_ip := yiaddr, server_ip := out_srv r\<rparr>;
               st = send_request (offered_ip st) (server_ip st) st
           in st\<lparr>dhcp_phase := DHCP_STATE_REQUESTING, deadline := clock st + DHCP_RETRY_MS\<rparr>
         else if dhcp_phase st = DHCP_STATE_REQUESTING \<and> msgtype r = DHCP_ACK then
           let gw = (if out_gw r = 0 then server_ip st else out_gw r)
           in (ipv4_set_addr yiaddr (out_mask r) gw st)\<lparr>dhcp_phase := DHCP_STATE_BOUND\<rparr>
         else if msgtype r = DHCP_NAK then
           let st = st\<lparr>dhcp_phase := DHCP_STATE_SELECTING, offered_ip := 0, server_ip := 0, retry_count := 0\<rparr>;
               st = send_discover st
           in st\<lparr>deadline := clock st + DHCP_RETRY_MS\<rparr>
         else st)"

definition dhcp_tick :: "'a dhcp_state_scheme \<Rightarrow> 'a dhcp_state_scheme \<times> int" where
  "dhcp_tick st =
     (if dhcp_phase st = DHCP_STATE_BOUND then (st, 1)
      else if dhcp_phase st = DHCP_STATE_IDLE then (st, 0)
      else if dhcp_phase st = DHCP_STATE_FAILED then (st, -1)
      else
       let now = clock st in
       if sint (now - deadline st) < 0 then (st, 0)
       else if retry_count st \<ge> DHCP_MAX_RETRIES then (st\<lparr>dhcp_phase := DHCP_STATE_FAILED\<rparr>, -1)
       else
        let st = st\<lparr>retry_count := retry_count st + 1, deadline := now + DHCP_RETRY_MS\<rparr>
        in (if dhcp_phase st = DHCP_STATE_SELECTING then send_discover st
            else if dhcp_phase st = DHCP_STATE_REQUESTING then send_request (offered_ip st) (server_ip st) st
            else st, 0))"

definition dhcp_bound :: "'a dhcp_state_scheme \<Rightarrow> int" where
  "dhcp_bound st = (if dhcp_phase st = DHCP_STATE_BOUND then 1 else 0)"

section \<open>The stack\<close>

text \<open>The functions behind the handler names, from the top layer down.\<close>

fun run_udp :: "udp_handler \<Rightarrow> u8 list \<Rightarrow> u32 \<Rightarrow> u16 \<Rightarrow> u16 \<Rightarrow> 'a dhcp_state_scheme \<Rightarrow> 'a dhcp_state_scheme" where
  "run_udp Udp_sock_rx data src_ip src_port dst_port st = udp_sock_rx data src_ip src_port dst_port st"
| "run_udp Dhcp_rx data src_ip src_port dst_port st = dhcp_rx data st"

definition sock_cbs :: "'a dhcp_state_scheme tcp_callbacks" where
  "sock_cbs = \<lparr>cb_data = (\<lambda>_. tcp_sock_data), cb_close = (\<lambda>_. tcp_sock_close)\<rparr>"

fun run_ip :: "ip_handler \<Rightarrow> u8 list \<Rightarrow> u32 \<Rightarrow> u32 \<Rightarrow> 'a dhcp_state_scheme \<Rightarrow> 'a dhcp_state_scheme" where
  "run_ip Icmp_rx p src dst st = icmp_rx p src dst st"
| "run_ip Udp_rx p src dst st = udp_rx run_udp p src dst st"
| "run_ip Tcp_rx p src dst st = tcp_rx sock_cbs p src dst st"

fun run_eth :: "eth_handler \<Rightarrow> u8 list \<Rightarrow> u8 list \<Rightarrow> 'a dhcp_state_scheme \<Rightarrow> 'a dhcp_state_scheme" where
  "run_eth Arp_rx p m st = arp_rx p m st"
| "run_eth Ipv4_rx p m st = ipv4_rx run_ip p m st"

fun run_nic :: "rx_cb \<Rightarrow> u8 list \<Rightarrow> 'a dhcp_state_scheme \<Rightarrow> 'a dhcp_state_scheme" where
  "run_nic Ethernet_rx f st = ethernet_rx run_eth f st"

definition net_poll :: "'a dhcp_state_scheme \<Rightarrow> 'a dhcp_state_scheme option" where
  "net_poll st =
     (case ethernet_poll run_nic st of None \<Rightarrow> None
      | Some st \<Rightarrow> let st = fst (dhcp_tick st) in Some (tcp_tick sock_cbs st))"

definition dhcp_init_impl :: "'a dhcp_state_scheme \<Rightarrow> 'a dhcp_state_scheme \<times> int" where
  "dhcp_init_impl st =
     (let st = st\<lparr>dhcp_phase := DHCP_STATE_IDLE, offered_ip := 0, server_ip := 0, retry_count := 0\<rparr>;
          st = fst (udp_register DHCP_CLIENT_PORT Dhcp_rx st);
          st = st\<lparr>timer_callbacks := timer_callbacks st @ [Net_poll]\<rparr>;
          st = send_discover st
      in (st\<lparr>dhcp_phase := DHCP_STATE_SELECTING, deadline := clock st + DHCP_RETRY_MS\<rparr>, 0))"

end
