(* ===== verification/NetStack.thy ===== *)
theory NetStack
  imports Dhcp
begin

text \<open>
  Properties of the network stack as a whole. Two hosts exchange frames: \<open>deliver a b\<close> hands the last frame host \<open>a\<close> gave
  to its card to the driver's receive callback of host \<open>b\<close>, through every layer up to the handler registered for it.
\<close>

section \<open>Hosts on a link\<close>

definition deliver :: "'a e1000_state_scheme \<Rightarrow> 'b dhcp_state_scheme \<Rightarrow> 'b dhcp_state_scheme" where
  "deliver a b = run_nic Ethernet_rx (last (sent a)) b"

text \<open>A host that can send: the driver is set up, descriptors complete, the heap grants buffers, the address is six bytes.\<close>

definition can_send :: "'a eth_state_scheme \<Rightarrow> bool" where
  "can_send st \<longleftrightarrow> e1000_ready st \<and> (\<forall>i. tx_done st i) \<and> (\<forall>n. kmalloc_ok st n) \<and> length (our_mac st) = 6"

text \<open>The handlers the initialisation functions register.\<close>

definition stack_up :: "'a udp_state_scheme \<Rightarrow> bool" where
  "stack_up st \<longleftrightarrow> eth_handlers st = [(ETHERTYPE_ARP, Arp_rx), (ETHERTYPE_IPV4, Ipv4_rx)] \<and>
     ip_handlers st = [(IPPROTO_ICMP, Icmp_rx), (IPPROTO_UDP, Udp_rx), (IPPROTO_TCP, Tcp_rx)]"

lemma can_send_tx_open: "can_send st \<Longrightarrow> tx_open st"
  by (simp add: can_send_def tx_open_def)

lemma tx_only_keeps:
  "tx_only st st' \<Longrightarrow> can_send st' = can_send st" for st st' :: "'a eth_state_scheme"
  by (auto simp: tx_only_def can_send_def)

text \<open>A datagram handed to IPv4 by one host is handed by IPv4 to the protocol's handler on the other.\<close>

definition hop_known :: "u32 \<Rightarrow> 'a ip_state_scheme \<Rightarrow> bool" where
  "hop_known dst st \<longleftrightarrow> (\<exists>m. hop_mac dst st = Some m \<and> length m = 6)"

lemma find_registered: "find P [] = None" "find P (x # xs) = (if P x then Some x else find P xs)"
  by simp_all

lemma deliver_ip:
  assumes a: "can_send a" "hop_known dst a" "length payload \<le> 1480" and b: "stack_up b" "ip_accepts dst b"
    and p: "find (\<lambda>e. fst e = p) (ip_handlers b) = Some (p, h)"
  shows "deliver (fst (ipv4_send dst p payload a)) b = run_ip h payload (our_ip a) dst b"
    and "snd (ipv4_send dst p payload a) = 0"
proof -
  obtain m where m: "hop_mac dst a = Some m" "length m = 6" using a(2) by (auto simp: hop_known_def)
  have mac: "length (our_mac a) = 6" and km: "kmalloc_ok a (34 + length payload)" using a(1) by (simp_all add: can_send_def)
  note s = ipv4_send_known [OF m mac a(3) can_send_tx_open [OF a(1)] km, of p]
  then have l: "last (sent (fst (ipv4_send dst p payload a))) =
      frame_of m (our_mac a) ETHERTYPE_IPV4 (ip_header dst p (length payload) a @ payload)" by simp
  have e: "find (\<lambda>e. fst e = ETHERTYPE_IPV4) (eth_handlers b) = Some (ETHERTYPE_IPV4, Ipv4_rx)" using b(1) by (simp add: stack_up_def)
  show "deliver (fst (ipv4_send dst p payload a)) b = run_ip h payload (our_ip a) dst b"
    unfolding deliver_def l using ipv4_rx_header [OF a(3) b(2), of run_ip p a "[]" "our_mac a"]
    by (simp add: ethernet_rx_frame_of [OF m(2) mac] e [unfolded ETHERTYPE_IPV4_def] p)
  show "snd (ipv4_send dst p payload a) = 0" using s by simp
qed

section \<open>Address resolution\<close>

lemma arp_cong: "arp_table s = arp_table t \<Longrightarrow> arp_lookup x s = arp_lookup x t" "arp_table s = arp_table t \<Longrightarrow> arp_ok s = arp_ok t"
  by (simp_all add: arp_lookup_def arp_ok_def)

lemma arp_insert_table: "arp_table s = arp_table t \<Longrightarrow> arp_table (arp_insert ip m s) = arp_table (arp_insert ip m t)"
  unfolding arp_insert_slot arp_slot_def by (simp cong: option.case_cong)

lemma deliver_arp:
  assumes "stack_up b" "length dst = 6" "length src = 6"
    and "last (sent a) = frame_of dst src ETHERTYPE_ARP p"
  shows "deliver a b = arp_rx p src b"
  using assms by (simp add: deliver_def ethernet_rx_frame_of stack_up_def)

lemma arp_exchange:
  fixes a b :: "'a dhcp_state_scheme"
  assumes a: "can_send a" "stack_up a" "arp_our_ip a \<noteq> 0" and b: "can_send b" "stack_up b" "arp_our_ip b \<noteq> 0"
    and a1: "a1 = arp_request (arp_our_ip b) a" and b1: "b1 = deliver a1 b" and a2: "a2 = deliver b1 a1"
  shows "arp_table a2 = arp_table (arp_insert (arp_our_ip b) (our_mac b) a) \<and>
     arp_table b1 = arp_table (arp_insert (arp_our_ip a) (our_mac a) b)"
proof -
  let ?p = "\<lparr>arp_htype = htons 1, arp_ptype = htons 0x0800, arp_hlen = 6, arp_plen = 4, arp_oper = htons 1, arp_sha = our_mac a,
      arp_spa = le32 (htonl (arp_our_ip a)), arp_tha = replicate 6 0, arp_tpa = le32 (htonl (arp_our_ip b))\<rparr>"
  let ?b = "arp_insert (arp_our_ip a) (our_mac a) b"
  obtain t where t: "?b = b\<lparr>arp_table := t\<rparr>" using arp_insert_frame by blast
  let ?r = "arp_reply ?p ?b"
  have mac: "length (our_mac a) = 6" "length (our_mac b) = 6" using a(1) b(1) by (simp_all add: can_send_def)
  have ta: "tx_only a a1" unfolding a1 by (rule arp_request_frame)
  then have same: "stack_up a1" "arp_table a1 = arp_table a" "our_mac a1 = our_mac a"
    using a(2) by (auto simp: tx_only_def stack_up_def)
  have "sent a1 = sent a @ [frame_of ETH_BROADCAST (our_mac a) ETHERTYPE_ARP (arp_pkt_bytes ?p)]"
    unfolding a1 by (rule arp_request_sent) (use a(1) can_send_tx_open in \<open>auto simp: can_send_def\<close>)
  then have l: "last (sent a1) = frame_of ETH_BROADCAST (our_mac a) ETHERTYPE_ARP (arp_pkt_bytes ?p)" by simp
  have pok: "arp_pkt_ok ?p" by (simp add: arp_pkt_ok_def mac)
  have "b1 = arp_rx (arp_pkt_bytes ?p @ []) (our_mac a) b"
    unfolding b1 using deliver_arp [OF b(2) _ mac(1) l] by (simp add: ETH_BROADCAST_def)
  also have "\<dots> = fst (ethernet_send (our_mac a) ETHERTYPE_ARP (arp_pkt_bytes ?r) ?b)"
    using arp_rx_pkt [OF pok _ _ _ _ _ a(3), of "arp_our_ip b" "[]" "our_mac a" b] b(3) by (simp add: t Let_def)
  finally have b1': "b1 = fst (ethernet_send (our_mac a) ETHERTYPE_ARP (arp_pkt_bytes ?r) ?b)" .
  have bt: "tx_only ?b b1" unfolding b1' by (rule ethernet_send_frame)
  then have tb: "arp_table b1 = arp_table ?b" by (auto simp: tx_only_def)
  have rok: "arp_pkt_ok ?r" by (simp add: arp_pkt_ok_def arp_reply_def ethernet_get_mac_def mac t)
  have "can_send ?b" using b(1) by (simp add: can_send_def t)
  then have cs: "tx_open ?b" "length (our_mac ?b) = 6" "kmalloc_ok ?b 42" using can_send_tx_open by (auto simp: can_send_def)
  obtain x y where xy: "ethernet_send (our_mac a) ETHERTYPE_ARP (arp_pkt_bytes ?r) ?b = (x, y)" by (metis surj_pair)
  have lb: "last (sent b1) = frame_of (our_mac a) (our_mac b) ETHERTYPE_ARP (arp_pkt_bytes ?r)"
    using ethernet_send_result [OF xy mac(1) cs(2)] cs(1,3) length_arp_pkt_bytes [OF rok] unfolding b1' xy by (simp add: t)
  have "a2 = arp_rx (arp_pkt_bytes ?r @ []) (our_mac b) a1"
    unfolding a2 using deliver_arp [OF same(1) mac lb] by simp
  also have "\<dots> = arp_insert (arp_our_ip b) (our_mac b) a1"
    using arp_rx_pkt [OF rok _ _ _ _ _ b(3), of "arp_our_ip a" "[]" "our_mac b" a1]
    by (simp add: arp_reply_def ethernet_get_mac_def t htons_def Let_def)
  finally show ?thesis using tb arp_insert_table [OF same(2)] by simp
qed


section \<open>Echo\<close>

definition echo_message :: "u8 \<Rightarrow> u16 \<Rightarrow> u16 \<Rightarrow> u16 \<Rightarrow> u8 list \<Rightarrow> u8 list" where
  "echo_message type csum i seq data =
     icmp_hdr_bytes \<lparr>icmp_type = type, icmp_code = 0, icmp_csum = csum, icmp_id = htons i, icmp_seq = htons seq\<rparr> @ data"

lemma put16_echo: "put16 2 v (echo_message t c i seq data) = echo_message t v i seq data"
  by (simp add: echo_message_def icmp_hdr_bytes_def put16_def le16_def eval_nat_numeral)

lemma echo_type: "(echo_message t c i seq data)[0 := u] = echo_message u c i seq data" "echo_message t c i seq data ! 0 = t"
  "echo_message t c i seq data ! 1 = 0" "echo_message t c i seq data ! Suc 0 = 0" "length (echo_message t c i seq data) = 8 + length data"
  by (simp_all add: echo_message_def icmp_hdr_bytes_def le16_def)

lemma echo_checksum:
  "length data \<le> 60000 \<Longrightarrow> ip_checksum (echo_message t (ip_checksum (echo_message t 0 i seq data)) i seq data) = 0"
  using checksum_filled [of 2 "echo_message t 0 i seq data"]
  by (simp add: put16_echo echo_type) (simp add: echo_message_def icmp_hdr_bytes_def le16_def)

lemma icmp_ping_sends:
  assumes "can_send st" "length data \<le> 1472"
  shows "icmp_ping dst i seq data st =
    Inr (ipv4_send dst IPPROTO_ICMP (echo_message 8 (ip_checksum (echo_message 8 0 i seq data)) i seq data) st)"
proof -
  have "unat (of_nat (8 + length data) :: u16) = 8 + length data" using assms(2) by (simp only: unat_of_nat) simp
  then show ?thesis
    unfolding icmp_ping_def Let_def ICMP_HDR_LEN_def ICMP_TYPE_ECHO_REQUEST_def echo_message_def [symmetric] put16_echo
    using assms(1) by (simp add: can_send_def)
qed

lemma icmp_rx_request:
  assumes "can_send st"
  shows "icmp_rx (echo_message 8 c i seq data) src dst st =
    fst (ipv4_send src IPPROTO_ICMP (echo_message 0 (ip_checksum (echo_message 0 0 i seq data)) i seq data) st)"
  using assms by (simp add: icmp_rx_def echo_type put16_echo can_send_def)

text \<open>C23. Host \<open>a\<close> pings host \<open>b\<close>. The request is sent with a checksum that verifies; when it is delivered, \<open>b\<close> sends one
  frame to the next hop towards \<open>a\<close>: an echo reply with the same identifier, sequence number and data and with a checksum that
  verifies, in a datagram whose header checksum verifies. Delivered to \<open>a\<close>, the reply passes validation and changes nothing.\<close>

theorem ping_answered:
  fixes a b :: dhcp_state
  assumes a: "can_send a" "stack_up a" "hop_known (our_ip b) a" and b: "can_send b" "stack_up b" "hop_mac (our_ip a) b = Some m" "length m = 6"
    and d: "length data \<le> 1472"
  shows "\<exists>a1 reply. icmp_ping (our_ip b) i seq data a = Inr (a1, 0) \<and>
    sent (deliver a1 b) = sent b @ [frame_of m (our_mac b) ETHERTYPE_IPV4 (ip_header (our_ip a) IPPROTO_ICMP (8 + length data) b @ reply)] \<and>
    reply = echo_message ICMP_TYPE_ECHO_REPLY (get16 reply 2) i seq data \<and> ip_checksum reply = 0 \<and>
    ip_checksum (ip_header (our_ip a) IPPROTO_ICMP (8 + length data) b) = 0 \<and> deliver (deliver a1 b) a1 = a1"
proof -
  let ?q = "echo_message 8 (ip_checksum (echo_message 8 0 i seq data)) i seq data"
  let ?r = "echo_message 0 (ip_checksum (echo_message 0 0 i seq data)) i seq data"
  let ?a = "fst (ipv4_send (our_ip b) IPPROTO_ICMP ?q a)"
  have lq: "length ?q \<le> 1480" "length ?r \<le> 1480" using d by (simp_all add: echo_type)
  have hb: "find (\<lambda>e. fst e = IPPROTO_ICMP) (ip_handlers b) = Some (IPPROTO_ICMP, Icmp_rx)" using b(2) by (simp add: stack_up_def)
  note del = deliver_ip [OF a(1,3) lq(1) b(2) _ hb]
  have acc: "ip_accepts (our_ip b) b" by (simp add: ip_accepts_def)
  have ping: "icmp_ping (our_ip b) i seq data a = Inr (?a, 0)"
    using icmp_ping_sends [OF a(1) d] del(2) [OF acc] by (metis prod.collapse)
  have b1: "deliver ?a b = fst (ipv4_send (our_ip a) IPPROTO_ICMP ?r b)"
    unfolding del(1) [OF acc] by (simp add: icmp_rx_request [OF b(1)] del: IPPROTO_ICMP_def)
  have s: "sent (deliver ?a b) = sent b @ [frame_of m (our_mac b) ETHERTYPE_IPV4 (ip_header (our_ip a) IPPROTO_ICMP (length ?r) b @ ?r)]"
    unfolding b1 using ipv4_send_known [OF b(3,4) _ lq(2) can_send_tx_open [OF b(1)]] b(1) by (simp add: can_send_def del: IPPROTO_ICMP_def)
  have "\<exists>k. tx_only (a\<lparr>pkt_id := k\<rparr>) ?a" by (rule ipv4_send_frame)
  then have a1: "stack_up ?a" "our_ip ?a = our_ip a" using a(2) by (auto simp: tx_only_def stack_up_def)
  have ha: "find (\<lambda>e. fst e = IPPROTO_ICMP) (ip_handlers ?a) = Some (IPPROTO_ICMP, Icmp_rx)" using a1(1) by (simp add: stack_up_def)
  have "hop_known (our_ip a) b" "ip_accepts (our_ip a) ?a" using b(3,4) a1(2) by (auto simp: hop_known_def ip_accepts_def)
  then have ret: "deliver (deliver ?a b) ?a = ?a"
    unfolding b1 using deliver_ip(1) [OF b(1) _ lq(2) a1(1) _ ha] by (simp add: icmp_rx_def echo_type)
  have c: "get16 ?r 2 = ip_checksum (echo_message 0 0 i seq data)"
    by (rule get16_le16) (simp_all add: echo_type, simp add: echo_message_def icmp_hdr_bytes_def le16_def)
  have "ip_checksum ?r = 0" by (rule echo_checksum) (use d in simp)
  then show ?thesis
    using ping s ret c by (intro exI [of _ ?a] exI [of _ ?r]) (simp add: echo_type ip_header_checksum del: IPPROTO_ICMP_def)
qed

section \<open>Datagram sockets\<close>


section \<open>Connections\<close>

text \<open>The part of a host's state that decides whether it can send and what it accepts; TCP does not touch it.\<close>

definition env :: "'a ip_state_scheme \<Rightarrow> bool \<times> (nat \<Rightarrow> bool) \<times> (nat \<Rightarrow> bool) \<times> u8 list \<times> (u16 \<times> eth_handler) list \<times>
    (u8 \<times> ip_handler) list \<times> arp_entry list \<times> u32 \<times> u32 \<times> u32" where
  "env s = (e1000_ready s, tx_done s, kmalloc_ok s, our_mac s, eth_handlers s, ip_handlers s, arp_table s, our_ip s, our_netmask s,
     our_gateway s)"

lemma env_cong:
  assumes "env s = env t"
  shows "can_send s = can_send t" "hop_mac d s = hop_mac d t" "hop_known d s = hop_known d t" "ip_accepts d s = ip_accepts d t" "our_ip s = our_ip t"
  using assms by (simp_all add: env_def can_send_def hop_known_def hop_mac_def next_hop_def arp_lookup_def ip_accepts_def)

lemma env_stack_up: "env s = env t \<Longrightarrow> stack_up s = stack_up t" for s t :: "'a udp_state_scheme"
  by (simp add: env_def stack_up_def)

lemma env_ipv4_send [simp]: "env (fst (ipv4_send d p b s)) = env s"
  using ipv4_send_frame [of s d p b] by (auto simp: tx_only_def env_def)

lemma env_upd_conn [simp]: "env (upd_conn i f s) = env s"
  by (simp add: upd_conn_def env_def)

lemma env_next_isn [simp]: "env (s\<lparr>isn_counter := v\<rparr>) = env s"
  by (simp add: env_def)

lemma env_retx_arm [simp]: "env (retx_arm i seg s) = env s"
  by (simp add: retx_arm_def Let_def)

lemma retx_arm_conns:
  "(\<forall>n. kmalloc_ok s n) \<Longrightarrow> conns (retx_arm i seg s) = (conns s)[i := (conns s ! i)\<lparr>retx_buf := Some seg, retx_len := of_nat (length seg),
     retx_deadline := clock s + TCP_RTO_MS, retx_count := 0\<rparr>]"
  by (cases "i < length (conns s)") (simp_all add: retx_arm_def Let_def list_update_beyond)

text \<open>Opening a connection in a free slot makes the search find that slot.\<close>

lemma tcp_find_opened:
  assumes "fst (tcp_find cs k lp rp ip l) = None" "j < length cs" "conn_state (cs ! j) = TCP_CLOSED"
    and c: "conn_state c \<noteq> TCP_CLOSED" "conn_state c \<noteq> TCP_LISTEN" "local_port c = lp" "remote_port c = rp" "remote_ip c = ip"
  shows "fst (tcp_find (cs[j := c]) k lp rp ip l) = Some (k + j)"
  using assms(1-3)
proof (induction cs arbitrary: j k l)
  case (Cons t ts)
  show ?case
  proof (cases j)
    case 0
    then show ?thesis using c by simp
  next
    case (Suc i)
    then show ?thesis using Cons.prems Cons.IH [of "Suc k" _ i] by (auto split: if_splits)
  qed
qed simp

lemma conn_alloc_closed: "conn_alloc s = Some i \<Longrightarrow> i < 8 \<and> conn_state (conns s ! i) = TCP_CLOSED"
  unfolding conn_alloc_def TCP_MAX_CONN_def by (rule scan_SomeD)

definition conns_ok :: "'a tcp_state_scheme \<Rightarrow> bool" where
  "conns_ok s \<longleftrightarrow> length (conns s) = 8 \<and> (\<forall>i < 8. length (rx_buf (conns s ! i)) = 4096)"

text \<open>The active side: the connection it opens and the segment it sends.\<close>

lemma tcp_connect_effect:
  fixes s :: "'a tcp_state_scheme"
  assumes s: "can_send s" "conns_ok s" "conn_alloc s = Some i" "fst (tcp_find (conns s) 0 lp rp ip None) = None"
    and c: "tcp_connect ip rp lp d cl s = (s', r)"
  obtains c k t where "r = int i" "s' = fst (ipv4_send ip IPPROTO_TCP (peer_segment lp rp (snd_una c) 0 TCP_SYN 4096 k []) t)"
    "env t = env s" "conns t = (conns s)[i := c]" "fst (tcp_find (conns t) 0 lp rp ip None) = Some i" "i < 8"
    "conn_state c = TCP_SYN_SENT" "local_port c = lp" "remote_port c = rp" "remote_ip c = ip" "snd_nxt c = snd_una c + 1"
    "rx_ok c" "rx_queue c = []"
proof -
  define isn where "isn = isn_counter s * 1664525 + 1013904223"
  let ?s1 = "s\<lparr>isn_counter := isn\<rparr>"
  let ?c0 = "(conns s ! i)\<lparr>conn_state := TCP_SYN_SENT, local_ip := our_ip s, local_port := lp, remote_ip := ip,
                     remote_port := rp, snd_una := isn, snd_nxt := isn + 1, snd_wnd := 0, rcv_nxt := 0, rx_head := 0,
                     rx_tail := 0, retx_buf := None, retx_len := 0, on_data := d, on_close := cl\<rparr>"
  let ?h = "tcp_hdr_bytes \<lparr>th_src_port = htons lp, th_dst_port = htons rp, th_seq = htonl isn, th_ack = 0,
                      th_data_off = TCP_DATA_OFF_MIN, th_flags = TCP_SYN, th_window = htons TCP_WINDOW, th_checksum = 0, th_urg_ptr = 0\<rparr>"
  have i: "i < 8" "conn_state (conns s ! i) = TCP_CLOSED" "length (conns s) = 8" "length (rx_buf (conns s ! i)) = 4096"
    using conn_alloc_closed [OF s(3)] s(2) by (auto simp: conns_ok_def)
  let ?s2 = "upd_conn i (\<lambda>c. ?c0) ?s1"
  let ?t = "retx_arm i ?h ?s2"
  let ?c = "?c0\<lparr>retx_buf := Some ?h, retx_len := of_nat (length ?h), retx_deadline := clock s + TCP_RTO_MS, retx_count := 0\<rparr>"
  have km: "\<forall>n. kmalloc_ok ?s2 n" using s(1) by (simp add: can_send_def)
  have ct: "conns ?t = (conns s)[i := ?c]" using retx_arm_conns [OF km, of i ?h] i by simp
  have "s' = fst (tcp_send_raw (conns ?t ! i) ?h ?t)" and r: "r = int i"
    using c s(3) i unfolding tcp_connect_def next_isn_def Let_def isn_def
    by (auto simp: upd_conn_def ipv4_get_addr_def)
  then have s': "s' = fst (tcp_send_raw ?c ?h ?t)" using ct i by simp
  obtain k where k: "tcp_fill ?c ?h = peer_segment lp rp isn 0 TCP_SYN 4096 k []"
    using tcp_fill_segment [of ?c lp rp isn 0 TCP_SYN "[]"] by (auto simp: htonl_def)
  have "s' = fst (ipv4_send ip IPPROTO_TCP (peer_segment lp rp (snd_una ?c) 0 TCP_SYN 4096 k []) ?t)"
    unfolding s' tcp_send_raw_def k by simp
  moreover have "fst (tcp_find (conns ?t) 0 lp rp ip None) = Some i"
    unfolding ct using tcp_find_opened [OF s(4), of i ?c] i by simp
  moreover have "rx_ok ?c" "rx_queue ?c = []" using i by (simp_all add: rx_ok_def ring_ok_def rx_queue_def ring_empty)
  ultimately show thesis using that [OF r _ _ ct] i by simp
qed

text \<open>The passive side: the connection a SYN opens and the answer to it.\<close>

lemma tcp_passive_effect:
  fixes s :: "'a tcp_state_scheme"
  assumes s: "can_send s" "conns_ok s" "conn_alloc s = Some j" "tcp_find (conns s) 0 lp rp ip None = (None, Some l)"
  obtains c k' t where "tcp_rx cb (peer_segment rp lp q a TCP_SYN w k []) ip lip s =
      fst (ipv4_send ip IPPROTO_TCP (peer_segment lp rp (snd_una c) (rcv_nxt c) (TCP_SYN OR TCP_ACK) 4096 k' []) t)"
    "env t = env s" "conns t = (conns s)[j := c]" "fst (tcp_find (conns t) 0 lp rp ip None) = Some j" "j < 8"
    "conn_state c = TCP_SYN_RCVD" "local_port c = lp" "remote_port c = rp" "remote_ip c = ip" "snd_nxt c = snd_una c + 1"
    "rcv_nxt c = q + 1" "rx_ok c" "rx_queue c = []"
proof -
  define isn where "isn = isn_counter s * 1664525 + 1013904223"
  let ?s1 = "s\<lparr>isn_counter := isn\<rparr>" and ?l = "conns s ! l"
  let ?c0 = "(conns s ! j)\<lparr>conn_state := TCP_SYN_RCVD, local_ip := lip, local_port := lp,
                     remote_ip := ip, remote_port := rp, snd_una := isn, snd_nxt := isn + 1, snd_wnd := w,
                     rcv_nxt := q + 1, rx_head := 0, rx_tail := 0, retx_buf := None, retx_len := 0,
                     on_data := on_data ?l, on_close := on_close ?l\<rparr>"
  let ?h = "ctrl_segment ?c0 (TCP_SYN OR TCP_ACK) isn (q + 1)"
  have j: "j < 8" "conn_state (conns s ! j) = TCP_CLOSED" "length (conns s) = 8" "length (rx_buf (conns s ! j)) = 4096"
    using conn_alloc_closed [OF s(3)] s(2) by (auto simp: conns_ok_def)
  let ?s2 = "upd_conn j (\<lambda>c. ?c0) ?s1"
  let ?t = "retx_arm j ?h ?s2"
  let ?c = "?c0\<lparr>retx_buf := Some ?h, retx_len := of_nat (length ?h), retx_deadline := clock s + TCP_RTO_MS, retx_count := 0\<rparr>"
  have km: "\<forall>n. kmalloc_ok ?s2 n" using s(1) by (simp add: can_send_def)
  have ct: "conns ?t = (conns s)[j := ?c]" using retx_arm_conns [OF km, of j ?h] j by simp
  have f: "TCP_SYN AND TCP_SYN \<noteq> 0" "TCP_SYN AND TCP_ACK = 0" by simp_all
  have "tcp_rx cb (peer_segment rp lp q a TCP_SYN w k []) ip lip s = tcp_passive_open l ip rp lip lp q a w TCP_SYN s"
    unfolding tcp_rx_peer_segment s(4) using f by simp
  also have "\<dots> = fst (tcp_send_raw (conns ?t ! j) ?h ?t)"
    using s(3) j unfolding tcp_passive_open_def next_isn_def Let_def isn_def by (simp add: upd_conn_def)
  also have "\<dots> = fst (tcp_send_raw ?c ?h ?t)" using ct j by simp
  finally have e: "tcp_rx cb (peer_segment rp lp q a TCP_SYN w k []) ip lip s = fst (tcp_send_raw ?c ?h ?t)" .
  have "\<exists>k'. tcp_fill ?c ?h = peer_segment lp rp isn (q + 1) (TCP_SYN OR TCP_ACK) 4096 k' []" by (rule tcp_fill_ctrl) simp_all
  then obtain k' where k': "tcp_fill ?c ?h = peer_segment lp rp isn (q + 1) (TCP_SYN OR TCP_ACK) 4096 k' []" ..
  have "tcp_rx cb (peer_segment rp lp q a TCP_SYN w k []) ip lip s =
      fst (ipv4_send ip IPPROTO_TCP (peer_segment lp rp (snd_una ?c) (rcv_nxt ?c) (TCP_SYN OR TCP_ACK) 4096 k' []) ?t)"
    unfolding e tcp_send_raw_def k' by simp
  moreover have "fst (tcp_find (conns ?t) 0 lp rp ip None) = Some j"
    unfolding ct using tcp_find_opened [of "conns s" 0 lp rp ip None j ?c] s(4) j by simp
  moreover have "rx_ok ?c" "rx_queue ?c = []" using j by (simp_all add: rx_ok_def ring_ok_def rx_queue_def ring_empty)
  ultimately show thesis using that [OF _ _ ct] j by simp
qed

text \<open>The two acknowledgements that complete the handshake.\<close>

lemma tcp_synack_effect:
  fixes s :: "'a tcp_state_scheme"
  assumes i: "i < 8" "length (conns s) = 8" "fst (tcp_find (conns s) 0 lp rp ip None) = Some i" "conn_state (conns s ! i) = TCP_SYN_SENT"
    "local_port (conns s ! i) = lp" "remote_port (conns s ! i) = rp" "remote_ip (conns s ! i) = ip"
    and c: "c = (retx_clear ((conns s ! i)\<lparr>snd_una := snd_nxt (conns s ! i), snd_wnd := w, rcv_nxt := q + 1\<rparr>))\<lparr>conn_state := TCP_ESTABLISHED\<rparr>"
  shows "\<exists>k'. tcp_rx cb (peer_segment rp lp q (snd_nxt (conns s ! i)) (TCP_SYN OR TCP_ACK) w k []) ip lip s =
    fst (ipv4_send ip IPPROTO_TCP (peer_segment lp rp (snd_nxt c) (rcv_nxt c) TCP_ACK 4096 k' []) (upd_conn i (\<lambda>_. c) s))"
proof -
  obtain l where l: "tcp_find (conns s) 0 lp rp ip None = (Some i, l)" using i(3) by (cases "tcp_find (conns s) 0 lp rp ip None") auto
  have f: "(TCP_SYN OR TCP_ACK) AND TCP_RST = 0" "(TCP_SYN OR TCP_ACK) AND TCP_ACK \<noteq> 0" "(TCP_SYN OR TCP_ACK) AND TCP_SYN \<noteq> 0" by simp_all
  have u: "upd_conn i (\<lambda>_. c) s = upd_conn i (\<lambda>x. (retx_clear (x\<lparr>snd_una := snd_nxt (conns s ! i), snd_wnd := w, rcv_nxt := q + 1\<rparr>))\<lparr>conn_state := TCP_ESTABLISHED\<rparr>) s"
    by (simp add: upd_conn_def c)
  have "tcp_rx cb (peer_segment rp lp q (snd_nxt (conns s ! i)) (TCP_SYN OR TCP_ACK) w k []) ip lip s =
      send_ctrl c TCP_ACK (snd_nxt c) (rcv_nxt c) (upd_conn i (\<lambda>_. c) s)"
    unfolding tcp_rx_peer_segment l tcp_conn_rx_def tcp_syn_sent_def Let_def u using f i(1,2,4)
    by (simp add: c upd_conn_def del: TCP_SYN_def TCP_ACK_def TCP_RST_def)
  moreover have p: "local_port c = lp" "remote_port c = rp" "remote_ip c = ip" using i by (simp_all add: c retx_clear_def)
  ultimately show ?thesis
    using tcp_fill_ctrl [OF p(1,2), of c TCP_ACK "snd_nxt c" "rcv_nxt c"] by (auto simp: send_ctrl_def tcp_send_raw_def)
qed

lemma tcp_ack_completes:
  fixes s :: "'a tcp_state_scheme"
  assumes i: "i < 8" "length (conns s) = 8" "fst (tcp_find (conns s) 0 lp rp ip None) = Some i" "conn_state (conns s ! i) = TCP_SYN_RCVD"
  shows "\<exists>u w' b n m. conns (tcp_rx cb (peer_segment rp lp q (snd_nxt (conns s ! i)) TCP_ACK w k []) ip lip s) =
    (conns s)[i := (conns s ! i)\<lparr>conn_state := TCP_ESTABLISHED, snd_una := u, snd_wnd := w', retx_buf := b, retx_len := n, retx_count := m\<rparr>]"
proof -
  let ?c = "conns s ! i"
  obtain l where l: "tcp_find (conns s) 0 lp rp ip None = (Some i, l)" using i(3) by (cases "tcp_find (conns s) 0 lp rp ip None") auto
  have f: "TCP_ACK AND TCP_RST = 0" "TCP_ACK AND TCP_ACK \<noteq> 0" "TCP_ACK AND TCP_FIN = 0" by simp_all
  let ?s1 = "tcp_syn_rcvd i (snd_nxt ?c) w s"
  have s1: "conns ?s1 = (conns s)[i := (retx_clear (?c\<lparr>snd_una := snd_nxt ?c, snd_wnd := w\<rparr>))\<lparr>conn_state := TCP_ESTABLISHED\<rparr>]"
    by (simp add: tcp_syn_rcvd_def)
  then have est: "i < length (conns ?s1)" "conn_state (conns ?s1 ! i) = TCP_ESTABLISHED" using i(1,2) by simp_all
  obtain u w' b n m where a: "conns (fst (tcp_ack cb i (snd_nxt ?c) w ?s1)) = (conns ?s1)[i := (conns ?s1 ! i)\<lparr>snd_una := u, snd_wnd := w',
      retx_buf := b, retx_len := n, retx_count := m\<rparr>]" "\<not> snd (tcp_ack cb i (snd_nxt ?c) w ?s1)"
    using tcp_ack_established [OF est] by blast
  have "tcp_rx cb (peer_segment rp lp q (snd_nxt ?c) TCP_ACK w k []) ip lip s = tcp_data cb i q [] (fst (tcp_ack cb i (snd_nxt ?c) w ?s1))"
    unfolding tcp_rx_peer_segment l tcp_conn_rx_def tcp_segment_def Let_def using f i(4) est(2) a(2)
    by (simp add: prod.case_eq_if del: TCP_SYN_def TCP_ACK_def TCP_RST_def TCP_FIN_def)
  also have "conns \<dots> = (conns s)[i := ?c\<lparr>conn_state := TCP_ESTABLISHED, snd_una := u, snd_wnd := w', retx_buf := b, retx_len := n, retx_count := m\<rparr>]"
    using a(1) s1 i(1,2) by (simp add: tcp_data_def Let_def retx_clear_def)
  finally show ?thesis by blast
qed

text \<open>A TCP segment sent by one host is handed to \<^verbatim>\<open>tcp_rx\<close> on the other.\<close>

lemma deliver_tcp:
  assumes "can_send a" "hop_known (our_ip b) a" "stack_up b"
  shows "deliver (fst (ipv4_send (our_ip b) IPPROTO_TCP (peer_segment sp dp q n f w k []) a)) b =
    tcp_rx sock_cbs (peer_segment sp dp q n f w k []) (our_ip a) (our_ip b) b"
proof -
  have "find (\<lambda>e. fst e = IPPROTO_TCP) (ip_handlers b) = Some (IPPROTO_TCP, Tcp_rx)" using assms(3) by (simp add: stack_up_def)
  from deliver_ip(1) [OF assms(1,2) _ assms(3) _ this] show ?thesis by (simp add: peer_segment_def ip_accepts_def)
qed

lemma receiving_established:
  assumes "i < 8" "length (conns s) = 8" "fst (tcp_find (conns s) 0 lp rp ip None) = Some i"
    and "conns s' = (conns s)[i := c]" "conn_state c = TCP_ESTABLISHED" "rx_ok c" "conn_state (conns s ! i) \<noteq> TCP_CLOSED"
    "conn_state (conns s ! i) \<noteq> TCP_LISTEN" "local_port c = lp" "remote_port c = rp" "remote_ip c = ip"
  shows "receiving i lp rp ip s'"
proof -
  have "fst (tcp_find (cs[n := c]) k lp rp ip l) = Some (k + n)" if "fst (tcp_find cs k lp rp ip l) = Some (k + n)" "n < length cs"
    "conn_state (cs ! n) \<noteq> TCP_CLOSED" "conn_state (cs ! n) \<noteq> TCP_LISTEN" for cs k n l
    using that
  proof (induction cs arbitrary: k n l)
    case (Cons x xs)
    show ?case
    proof (cases n)
      case 0
      then show ?thesis using assms(5,9-11) by simp
    next
      case (Suc m)
      then show ?thesis using Cons.prems Cons.IH [of "Suc k" _ m] by (auto split: if_splits)
    qed
  qed simp
  from this [where cs = "conns s" and k = 0 and n = i and l = None] show ?thesis using assms by (simp add: receiving_def)
qed

text \<open>The first two segments: after the SYN and its answer have been built, each host has its half of the connection.\<close>

lemma handshake_open:
  fixes a b :: "'a dhcp_state_scheme"
  assumes a: "can_send a" "hop_known (our_ip b) a" "conns_ok a" "conn_alloc a = Some i"
      "fst (tcp_find (conns a) 0 pa pb (our_ip b) None) = None"
    and b: "can_send b" "stack_up b" "conns_ok b" "conn_alloc b = Some j"
      "tcp_find (conns b) 0 pb pa (our_ip a) None = (None, Some l)"
    and syn: "tcp_connect (our_ip b) pb pa d cl a = (a1, r)" and b1: "b1 = deliver a1 b"
  obtains c e k u where "r = int i" "i < 8" "j < 8" "env a1 = env a" "env b1 = env b" "env u = env b" "conns a1 ! i = c" "conns b1 ! j = e"
    "length (conns a1) = 8" "length (conns b1) = 8"
    "fst (tcp_find (conns a1) 0 pa pb (our_ip b) None) = Some i" "fst (tcp_find (conns b1) 0 pb pa (our_ip a) None) = Some j"
    "b1 = fst (ipv4_send (our_ip a) IPPROTO_TCP (peer_segment pb pa (snd_una e) (rcv_nxt e) (TCP_SYN OR TCP_ACK) 4096 k []) u)"
    "conn_state c = TCP_SYN_SENT" "local_port c = pa" "remote_port c = pb" "remote_ip c = our_ip b" "rx_ok c" "rx_queue c = []"
    "conn_state e = TCP_SYN_RCVD" "local_port e = pb" "remote_port e = pa" "remote_ip e = our_ip a" "rx_ok e" "rx_queue e = []"
    "snd_nxt e = snd_una e + 1" "rcv_nxt e = snd_nxt c"
proof -
  obtain c k t where r: "r = int i"
    and a1: "a1 = fst (ipv4_send (our_ip b) IPPROTO_TCP (peer_segment pa pb (snd_una c) 0 TCP_SYN 4096 k []) t)"
    and t: "env t = env a" "conns t = (conns a)[i := c]" "fst (tcp_find (conns t) 0 pa pb (our_ip b) None) = Some i" "i < 8"
    and c: "conn_state c = TCP_SYN_SENT" "local_port c = pa" "remote_port c = pb" "remote_ip c = our_ip b" "snd_nxt c = snd_una c + 1"
      "rx_ok c" "rx_queue c = []"
    by (rule tcp_connect_effect [OF a(1,3,4,5) syn])
  note te = env_cong [OF t(1)] env_stack_up [OF t(1)]
  have b1': "b1 = tcp_rx sock_cbs (peer_segment pa pb (snd_una c) 0 TCP_SYN 4096 k []) (our_ip a) (our_ip b) b"
    unfolding b1 a1 using deliver_tcp [of t b] a(1,2) b(2) te by simp
  obtain e k' u where b1u: "b1 = fst (ipv4_send (our_ip a) IPPROTO_TCP (peer_segment pb pa (snd_una e) (rcv_nxt e) (TCP_SYN OR TCP_ACK) 4096 k' []) u)"
    and u: "env u = env b" "conns u = (conns b)[j := e]" "fst (tcp_find (conns u) 0 pb pa (our_ip a) None) = Some j" "j < 8"
    and e: "conn_state e = TCP_SYN_RCVD" "local_port e = pb" "remote_port e = pa" "remote_ip e = our_ip a" "snd_nxt e = snd_una e + 1"
      "rcv_nxt e = snd_una c + 1" "rx_ok e" "rx_queue e = []"
    unfolding b1' by (rule tcp_passive_effect [OF b(1,3,4,5)])
  have l: "length (conns a) = 8" "length (conns b) = 8" using a(3) b(3) by (simp_all add: conns_ok_def)
  have e1: "env a1 = env a" "conns a1 = conns t" "env b1 = env b" "conns b1 = conns u"
    unfolding a1 b1u using t(1) u(1) by simp_all
  show thesis
    by (rule that [OF r t(4) u(4) e1(1,3) u(1) _ _ _ _ _ _ b1u c(1-4,6,7) e(1-4,7,8,5)])
      (use e1(2,4) t u l c(5) e(6) in simp_all)
qed

text \<open>C9. The three-way handshake. Host \<open>a\<close> connects from port \<open>pa\<close> to port \<open>pb\<close> of host \<open>b\<close>, which listens there; both have a free
  slot and no connection of these ports yet. When the SYN, the answer to it and the last acknowledgement have been
  delivered, both connections are established, each side expects exactly the sequence number the other sends next, the receive
  buffers are empty and the segments of the peer are found to belong to the connection.\<close>

theorem tcp_handshake:
  fixes a b :: dhcp_state
  assumes a: "can_send a" "stack_up a" "hop_known (our_ip b) a" "conns_ok a" "conn_alloc a = Some i"
      "fst (tcp_find (conns a) 0 pa pb (our_ip b) None) = None"
    and b: "can_send b" "stack_up b" "hop_known (our_ip a) b" "conns_ok b" "conn_alloc b = Some j"
      "tcp_find (conns b) 0 pb pa (our_ip a) None = (None, Some l)"
    and syn: "tcp_connect (our_ip b) pb pa d cl a = (a1, r)" and b1: "b1 = deliver a1 b" and a2: "a2 = deliver b1 a1" and b2: "b2 = deliver a2 b1"
  shows "r = int i \<and> receiving i pa pb (our_ip b) a2 \<and> receiving j pb pa (our_ip a) b2 \<and>
    snd_nxt (conns a2 ! i) = rcv_nxt (conns b2 ! j) \<and> snd_nxt (conns b2 ! j) = rcv_nxt (conns a2 ! i) \<and>
    rx_queue (conns a2 ! i) = [] \<and> rx_queue (conns b2 ! j) = []"
proof -
  obtain c e k u where r: "r = int i" "i < 8" "j < 8" and ev: "env a1 = env a" "env b1 = env b" "env u = env b"
    and ci: "conns a1 ! i = c" "conns b1 ! j = e" "length (conns a1) = 8" "length (conns b1) = 8"
    and fi: "fst (tcp_find (conns a1) 0 pa pb (our_ip b) None) = Some i" "fst (tcp_find (conns b1) 0 pb pa (our_ip a) None) = Some j"
    and b1u: "b1 = fst (ipv4_send (our_ip a) IPPROTO_TCP (peer_segment pb pa (snd_una e) (rcv_nxt e) (TCP_SYN OR TCP_ACK) 4096 k []) u)"
    and c: "conn_state c = TCP_SYN_SENT" "local_port c = pa" "remote_port c = pb" "remote_ip c = our_ip b" "rx_ok c" "rx_queue c = []"
    and e: "conn_state e = TCP_SYN_RCVD" "local_port e = pb" "remote_port e = pa" "remote_ip e = our_ip a" "rx_ok e" "rx_queue e = []"
      "snd_nxt e = snd_una e + 1" "rcv_nxt e = snd_nxt c"
    by (rule handshake_open [OF a(1,3-6) b(1,2,4-6) syn b1])
  define c' where "c' = (retx_clear (c\<lparr>snd_una := snd_nxt c, snd_wnd := 4096, rcv_nxt := snd_una e + 1\<rparr>))\<lparr>conn_state := TCP_ESTABLISHED\<rparr>"
  define t where "t = upd_conn i (\<lambda>_. c') a1"
  have c': "rcv_nxt c' = snd_nxt e" "snd_nxt c' = snd_nxt c" "rx_queue c' = []" "rx_ok c'" "conn_state c' = TCP_ESTABLISHED"
    "local_port c' = pa" "remote_port c' = pb" "remote_ip c' = our_ip b"
    using c e(7) by (simp_all add: c'_def retx_clear_def rx_queue_def rx_ok_def)
  have te: "env t = env a" using ev(1) by (simp add: t_def)
  note ue = env_cong [OF ev(3)] env_stack_up [OF ev(3)] and ae = env_cong [OF ev(1)] env_stack_up [OF ev(1)]
    and be = env_cong [OF ev(2)] env_stack_up [OF ev(2)] and tt = env_cong [OF te] env_stack_up [OF te]
  have "a2 = tcp_rx sock_cbs (peer_segment pb pa (snd_una e) (snd_nxt (conns a1 ! i)) (TCP_SYN OR TCP_ACK) 4096 k []) (our_ip b) (our_ip a) a1"
    unfolding a2 b1u using deliver_tcp [of u a1] b(1,3) a(2) ue ae e(8) ci(1) by simp
  moreover have "\<exists>k'. tcp_rx sock_cbs (peer_segment pb pa (snd_una e) (snd_nxt (conns a1 ! i)) (TCP_SYN OR TCP_ACK) 4096 k []) (our_ip b) (our_ip a) a1 =
    fst (ipv4_send (our_ip b) IPPROTO_TCP (peer_segment pa pb (snd_nxt c') (rcv_nxt c') TCP_ACK 4096 k' []) t)"
    unfolding t_def by (rule tcp_synack_effect [OF r(2) ci(3) fi(1)]) (use c ci(1) in \<open>simp_all add: c'_def\<close>)
  ultimately obtain k' where a2u: "a2 = fst (ipv4_send (our_ip b) IPPROTO_TCP (peer_segment pa pb (snd_nxt c') (rcv_nxt c') TCP_ACK 4096 k' []) t)" by auto
  have ca: "conns a2 = (conns a1)[i := c']" unfolding a2u by (simp add: t_def)
  have "b2 = tcp_rx sock_cbs (peer_segment pa pb (snd_nxt c) (snd_nxt (conns b1 ! j)) TCP_ACK 4096 k' []) (our_ip a) (our_ip b) b1"
    unfolding b2 a2u c'(1,2) using deliver_tcp [of t b1] a(1,3) b(2) tt be ci(2) by simp
  then obtain x1 x2 x3 x4 x5 where cb: "conns b2 = (conns b1)[j := e\<lparr>conn_state := TCP_ESTABLISHED, snd_una := x1, snd_wnd := x2, retx_buf := x3,
      retx_len := x4, retx_count := x5\<rparr>]"
    using tcp_ack_completes [OF r(3) ci(4) fi(2), of sock_cbs "snd_nxt c" 4096 k' "our_ip b"] ci(2) e(1) by auto
  have "receiving i pa pb (our_ip b) a2" by (rule receiving_established [OF r(2) ci(3) fi(1) ca]) (use c c' ci(1) in simp_all)
  moreover have "receiving j pb pa (our_ip a) b2"
    by (rule receiving_established [OF r(3) ci(4) fi(2) cb]) (use e ci(2) in \<open>simp_all add: rx_ok_def\<close>)
  ultimately show ?thesis using r ca cb c' e ci by (simp add: rx_queue_def)
qed

section \<open>The byte stream\<close>

text \<open>What a peer that sends the bytes \<open>S\<close> from sequence number \<open>irs\<close> on can make a connection see: segments that carry a
  part of \<open>S\<close> under the sequence number of its first byte, in any order, any number of times, with any acknowledgement,
  window and checksum; in between, the local side reads.\<close>

datatype stream_event = Segment nat nat u32 u16 u16 u8 | Read u16

fun stream_ok :: "stream_event \<Rightarrow> bool" where
  "stream_ok (Segment off n ack w k f) \<longleftrightarrow> f AND TCP_RST = 0 \<and> f AND TCP_FIN = 0"
| "stream_ok (Read len) \<longleftrightarrow> True"

fun stream_run :: "u8 list \<Rightarrow> u32 \<Rightarrow> nat \<Rightarrow> u16 \<Rightarrow> u16 \<Rightarrow> u32 \<Rightarrow> u32 \<Rightarrow> stream_event list \<Rightarrow> 'a dhcp_state_scheme \<Rightarrow>
    'a dhcp_state_scheme \<times> u8 list" where
  "stream_run S irs i lport rport rip lip [] st = (st, [])"
| "stream_run S irs i lport rport rip lip (Segment off n a w k f # es) st =
     stream_run S irs i lport rport rip lip es
       (tcp_rx sock_cbs (peer_segment rport lport (irs + of_nat off) a f w k (take n (drop off S))) rip lip st)"
| "stream_run S irs i lport rport rip lip (Read len # es) st =
     (case tcp_read (int i) len st of (st, bs) \<Rightarrow>
      case stream_run S irs i lport rport rip lip es st of (st, out) \<Rightarrow> (st, bs @ out))"

lemma sock_cbs_conns [simp]: "conns (cb_data sock_cbs h i d s) = conns s" "conns (cb_close sock_cbs g i s) = conns s"
  by (simp_all add: sock_cbs_def tcp_sock_data_def tcp_sock_close_def upd_sock_def split: option.split)

text \<open>The receiver has \<open>k\<close> bytes of \<open>S\<close>, of which the first \<open>r\<close> have been read.\<close>

definition stream_at :: "u8 list \<Rightarrow> u32 \<Rightarrow> nat \<Rightarrow> nat \<Rightarrow> nat \<Rightarrow> 'a tcp_state_scheme \<Rightarrow> bool" where
  "stream_at S irs i r k st \<longleftrightarrow> r \<le> k \<and> k \<le> length S \<and> rcv_nxt (conns st ! i) = irs + of_nat k \<and>
     rx_queue (conns st ! i) = drop r (take k S)"

lemma take_length_take: "take (length (take a (take b xs))) xs = take a (take b xs)"
  by (simp add: min_def)

lemma unat_of_nat32: "n < 2 ^ 32 \<Longrightarrow> unat (of_nat n :: u32) = n"
  by (simp only: unat_of_nat) simp

lemma stream_atD:
  assumes "stream_at S irs i r k st"
  shows "r \<le> k" "k \<le> length S" "rcv_nxt (conns st ! i) = irs + of_nat k" "rx_queue (conns st ! i) = drop r (take k S)"
    "length (rx_queue (conns st ! i)) = k - r"
  using assms by (simp_all add: stream_at_def)

lemma stream_segment:
  fixes st :: "'a dhcp_state_scheme"
  assumes S: "length S < 2 ^ 32" "receiving i lport rport rip st" "stream_at S irs i r k st" "f AND TCP_RST = 0" "f AND TCP_FIN = 0"
    and st': "st' = tcp_rx sock_cbs (peer_segment rport lport (irs + of_nat off) a f w c (take n (drop off S))) rip lip st"
  shows "receiving i lport rport rip st'" and "\<exists>k' \<ge> k. stream_at S irs i r k' st' \<and> (off = k \<and> n \<le> 4095 - (k - r) \<longrightarrow> k' = min (k + n) (length S))"
proof -
  note s = stream_atD [OF S(3)]
  let ?acc = "if irs + of_nat off = irs + of_nat k then take (4095 - (k - r)) (take n (drop off S)) else []"
  note e = tcp_segment_effect [where cb = sock_cbs, OF S(2,4,5) _ refl st', unfolded s(5), unfolded s(3,4) Let_def]
  show "receiving i lport rport rip st'" using e by simp
  have q: "rx_queue (conns st' ! i) = drop r (take k S) @ ?acc" "rcv_nxt (conns st' ! i) = irs + of_nat k + of_nat (length ?acc)"
    using e by simp_all
  show "\<exists>k' \<ge> k. stream_at S irs i r k' st' \<and> (off = k \<and> n \<le> 4095 - (k - r) \<longrightarrow> k' = min (k + n) (length S))"
  proof (cases "off = k")
    case True
    define A where "A = take (4095 - (k - r)) (take n (drop k S))"
    have acc: "?acc = A" unfolding A_def True by simp
    have A: "take (length A) (drop k S) = A" unfolding A_def by (rule take_length_take)
    have l: "length A \<le> length S - k" "n \<le> 4095 - (k - r) \<Longrightarrow> length A = min n (length S - k)" unfolding A_def by simp_all
    have t: "take (k + length A) S = take k S @ A" using take_add [of k "length A" S] A by simp
    have "drop r (take k S) @ A = drop r (take (k + length A) S)" using s(1,2) unfolding t by simp
    then have "stream_at S irs i r (k + length A) st'"
      unfolding stream_at_def q acc using s(1,2) l(1) by (simp add: add.assoc)
    moreover have "k + length A = min (k + n) (length S)" if "n \<le> 4095 - (k - r)" unfolding l(2) [OF that] using s(2) by linarith
    ultimately show ?thesis using True by (intro exI [of _ "k + length A"]) auto
  next
    case False
    have "?acc = []"
    proof (cases "off < length S")
      case True
      then have "unat (of_nat off :: u32) = off" "unat (of_nat k :: u32) = k"
        using s(2) S(1) by (auto intro!: unat_of_nat32)
      then have "(of_nat off :: u32) \<noteq> of_nat k" using False by metis
      then show ?thesis by simp
    qed simp
    then have "stream_at S irs i r k st'" unfolding stream_at_def q using s(1,2) by simp
    then show ?thesis using False by blast
  qed
qed

lemma stream_read:
  fixes st :: "'a dhcp_state_scheme"
  assumes "receiving i lport rport rip st" "stream_at S irs i r k st" "tcp_read (int i) len st = (st', bs)"
  shows "receiving i lport rport rip st' \<and> stream_at S irs i (r + length bs) k st' \<and> take (length bs) (drop r S) = bs \<and>
    length bs = min (k - r) (unat len)"
proof -
  note s = stream_atD [OF assms(2)]
  note e = tcp_read_effect [OF assms(1,3), unfolded s(5), unfolded s(3,4)]
  have l: "length bs = min (k - r) (unat len)" using e by simp
  have q: "drop r (take k S) = bs @ rx_queue (conns st' ! i)" using e by simp
  have "drop (length bs) (drop r (take k S)) = rx_queue (conns st' ! i)" unfolding q by simp
  then have d: "rx_queue (conns st' ! i) = drop (r + length bs) (take k S)" by (simp add: add.commute)
  have "take (length bs) (drop r (take k S)) = bs" unfolding q by simp
  then have "take (min (length bs) (k - r)) (drop r S) = bs" by (simp add: drop_take)
  then have t: "take (length bs) (drop r S) = bs" using l by (simp add: min_def split: if_splits)
  have "r + length bs \<le> k" using l s(1) by simp
  then have "stream_at S irs i (r + length bs) k st'" unfolding stream_at_def d using e s(2) by simp
  then show ?thesis using e l t by blast
qed

lemma stream_run_prefix:
  fixes st :: "'a dhcp_state_scheme"
  assumes "length S < 2 ^ 32" "receiving i lport rport rip st" "stream_at S irs i r k st" "list_all stream_ok es"
    and "stream_run S irs i lport rport rip lip es st = (st', out)"
  shows "\<exists>k' \<ge> k. receiving i lport rport rip st' \<and> stream_at S irs i (r + length out) k' st' \<and> take (length out) (drop r S) = out"
  using assms(2-5)
proof (induction es arbitrary: st r k out)
  case (Cons x es)
  show ?case
  proof (cases x)
    case (Segment off n a w c f)
    let ?st = "tcp_rx sock_cbs (peer_segment rport lport (irs + of_nat off) a f w c (take n (drop off S))) rip lip st"
    have f: "f AND TCP_RST = 0" "f AND TCP_FIN = 0" using Cons.prems(3) Segment by simp_all
    obtain k' where k': "k \<le> k'" "stream_at S irs i r k' ?st"
      using stream_segment(2) [OF assms(1) Cons.prems(1,2) f refl] by blast
    have "stream_run S irs i lport rport rip lip es ?st = (st', out)" using Cons.prems(4) Segment by simp
    from Cons.IH [OF stream_segment(1) [OF assms(1) Cons.prems(1,2) f refl] k'(2) _ this] show ?thesis
      using Cons.prems(3) k'(1) by (auto intro: order_trans)
  next
    case (Read len)
    obtain s1 bs out' where t: "tcp_read (int i) len st = (s1, bs)" "stream_run S irs i lport rport rip lip es s1 = (st', out')" "out = bs @ out'"
      using Cons.prems(4) Read by (auto split: prod.splits)
    note rd = stream_read [OF Cons.prems(1,2) t(1)]
    have ok: "list_all stream_ok es" using Cons.prems(3) by simp
    obtain k' where k': "k \<le> k'" "receiving i lport rport rip st'" "stream_at S irs i (r + length bs + length out') k' st'"
      "take (length out') (drop (r + length bs) S) = out'"
      using Cons.IH [OF conjunct1 [OF rd] conjunct1 [OF conjunct2 [OF rd]] ok t(2)] by blast
    have "take (length bs + length out') (drop r S) = take (length bs) (drop r S) @ take (length out') (drop (length bs) (drop r S))"
      by (rule take_add)
    also have "\<dots> = bs @ out'" using conjunct1 [OF conjunct2 [OF conjunct2 [OF rd]]] k'(4) by (simp only: drop_drop add.commute)
    finally have "take (length out) (drop r S) = out" unfolding t(3) by simp
    then show ?thesis using k'(1-3) unfolding t(3) by (auto simp: add.assoc)
  qed
qed auto

text \<open>C2. Stream integrity. A peer sends the byte stream \<open>S\<close>; its segments reach an established connection in any order, with any
  duplication and loss, interleaved with reads. What the reads return, followed by what is buffered, is always a prefix of \<open>S\<close>, and the
  connection's next expected sequence number is that of the first byte behind it.\<close>

theorem tcp_stream_integrity:
  fixes st :: dhcp_state
  assumes "length S < 2 ^ 32" "receiving i lport rport rip st" "rcv_nxt (conns st ! i) = irs" "rx_queue (conns st ! i) = []"
    and "list_all stream_ok es" "stream_run S irs i lport rport rip lip es st = (st', out)"
  shows "\<exists>k \<le> length S. out @ rx_queue (conns st' ! i) = take k S \<and> rcv_nxt (conns st' ! i) = irs + of_nat k \<and> receiving i lport rport rip st'"
proof -
  have "stream_at S irs i 0 0 st" using assms(3,4) by (simp add: stream_at_def)
  from stream_run_prefix [OF assms(1,2) this assms(5,6)] obtain k where
    k: "receiving i lport rport rip st'" "stream_at S irs i (length out) k st'" "take (length out) S = out" by auto
  then have "take (length out) (take k S) = out" by (simp add: stream_at_def min_def)
  then have "out @ drop (length out) (take k S) = take k S" using append_take_drop_id [of "length out" "take k S"] by simp
  then show ?thesis using k by (auto simp: stream_at_def)
qed

text \<open>Segments in order, none longer than the buffer, each read before the next: everything arrives.\<close>

fun in_order :: "u32 \<Rightarrow> nat \<Rightarrow> nat list \<Rightarrow> stream_event list" where
  "in_order ack off [] = []"
| "in_order ack off (n # ns) = Segment off n ack 4096 0 (TCP_PSH OR TCP_ACK) # Read 0xFFFF # in_order ack (off + n) ns"

lemma in_order_delivers:
  fixes st :: "'a dhcp_state_scheme"
  assumes S: "length S < 2 ^ 32" and "receiving i lport rport rip st" "stream_at S irs i off off st" "off + sum_list ns = length S"
    "list_all (\<lambda>n. n \<le> 4095) ns"
  shows "snd (stream_run S irs i lport rport rip lip (in_order ack off ns) st) = drop off S"
  using assms(2-5)
proof (induction ns arbitrary: st off)
  case (Cons n ns)
  let ?f = "TCP_PSH OR TCP_ACK"
  let ?s1 = "tcp_rx sock_cbs (peer_segment rport lport (irs + of_nat off) ack ?f 4096 0 (take n (drop off S))) rip lip st"
  have f: "?f AND TCP_RST = 0" "?f AND TCP_FIN = 0" by simp_all
  note seg = stream_segment [OF S Cons.prems(1,2) f refl]
  have n: "n \<le> 4095" "off + n \<le> length S" using Cons.prems(3,4) by simp_all
  have at: "stream_at S irs i off (off + n) ?s1" using seg(2) [of off ack 4096 0 n lip] n by auto
  obtain s2 bs where t: "tcp_read (int i) 0xFFFF ?s1 = (s2, bs)" by (metis surj_pair)
  note rd = stream_read [OF seg(1) at t]
  have l: "length bs = n" using rd n(1) by simp
  have "snd (stream_run S irs i lport rport rip lip (in_order ack (off + n) ns) s2) = drop (off + n) S"
    by (rule Cons.IH) (use rd Cons.prems(3,4) in \<open>simp_all add: l\<close>)
  moreover have "bs @ drop (off + n) S = drop off S"
    using conjunct1 [OF conjunct2 [OF conjunct2 [OF rd]]] append_take_drop_id [of n "drop off S"] by (simp add: l add.commute)
  ultimately show ?case using t by (simp add: prod.case_eq_if)
qed simp

text \<open>C16. Delivery. When the peer's segments arrive in order, carry at most a buffer's worth of bytes each, and each is read before
  the next one arrives, the reads return the whole stream.\<close>

theorem tcp_stream_delivered:
  fixes st :: dhcp_state
  assumes "length S < 2 ^ 32" "receiving i lport rport rip st" "rcv_nxt (conns st ! i) = irs" "rx_queue (conns st ! i) = []"
    and "sum_list ns = length S" "list_all (\<lambda>n. n \<le> 4095) ns"
  shows "snd (stream_run S irs i lport rport rip lip (in_order ack 0 ns) st) = S"
  using in_order_delivers [OF assms(1,2), of irs 0 ns] assms(3-6) by (simp add: stream_at_def)

end
