(* ===== verification/NetPoll.thy ===== *)
theory NetPoll
  imports NetStack
begin

text \<open>
  The network poll and the DHCP client over time: every handler of the stack leaves the receive ring alone, so that the poll
  empties the ring and returns; the client binds the address of an offer that is acknowledged and gives up after its retries when
  nothing answers.
\<close>

section \<open>Handlers leave the receive ring alone\<close>

definition rx_side :: "'a e1000_state_scheme \<Rightarrow> rx_desc list \<times> u32 \<times> u64 list \<times> bool" where
  "rx_side s = (rx_descs s, rx_ring_tail s, rx_bufs_phys s, e1000_ready s)"

lemma rx_side_tx_only: "tx_only s t \<Longrightarrow> rx_side t = rx_side s"
  by (auto simp: tx_only_def rx_side_def)

lemma rx_side_ipv4_send [simp]: "rx_side (fst (ipv4_send d p b s)) = rx_side s"
proof -
  obtain i where "tx_only (s\<lparr>pkt_id := i\<rparr>) (fst (ipv4_send d p b s))" using ipv4_send_frame by blast
  from rx_side_tx_only [OF this] show ?thesis by (simp add: rx_side_def)
qed

lemma rx_side_arp_rx [simp]: "rx_side (arp_rx p m s) = rx_side s"
proof -
  have i: "rx_side (arp_insert ip x t) = rx_side t" for ip x and t :: "'b arp_state_scheme" by (simp add: arp_insert_slot rx_side_def)
  have e: "rx_side (fst (ethernet_send d ty b t)) = rx_side t" for d ty b and t :: "'b eth_state_scheme"
    by (rule rx_side_tx_only [OF ethernet_send_frame])
  show ?thesis by (simp add: arp_rx_def Let_def i e)
qed

lemma rx_side_icmp_rx [simp]: "rx_side (icmp_rx p src dst s) = rx_side s"
  by (simp add: icmp_rx_def Let_def)

lemma rx_side_updates [simp]:
  "rx_side (upd_conn i f s) = rx_side s" "rx_side (upd_sock j g u) = rx_side u" "rx_side (s\<lparr>isn_counter := v\<rparr>) = rx_side s"
  by (simp_all add: upd_conn_def upd_sock_def rx_side_def)

lemma rx_side_tcp_send [simp]:
  "rx_side (fst (tcp_send_raw c seg s)) = rx_side s" "rx_side (send_ctrl c f q a s) = rx_side s"
  "rx_side (send_rst_reply a1 a2 a3 a4 a5 a6 a7 s) = rx_side s" "rx_side (retx_arm i seg s) = rx_side s"
  by (simp_all add: tcp_send_raw_def send_ctrl_def send_rst_reply_def retx_arm_def Let_def)

lemma rx_side_socks [simp]: "rx_side (udp_sock_rx d ip sp dp s) = rx_side s" "rx_side (tcp_sock_close k s) = rx_side s"
  "rx_side (tcp_sock_data k d s) = rx_side s"
  by (simp_all add: udp_sock_rx_def tcp_sock_close_def tcp_sock_data_def split: option.split)

lemma rx_side_cbs [simp]: "rx_side (cb_close sock_cbs h i s) = rx_side s" "rx_side (cb_data sock_cbs g i d s) = rx_side s"
  by (simp_all add: sock_cbs_def)

lemma rx_side_tcp_blocks [simp]:
  "rx_side (close_conn sock_cbs i s) = rx_side s" "rx_side (tcp_rst sock_cbs i q s) = rx_side s"
  "rx_side (tcp_syn_sent i a1 a2 a3 a4 a5 a6 a7 f s) = rx_side s" "rx_side (tcp_syn_rcvd i a w s) = rx_side s"
  "rx_side (fst (tcp_ack sock_cbs i a w s)) = rx_side s"
  by (simp_all add: close_conn_def tcp_rst_def tcp_syn_sent_def tcp_syn_rcvd_def tcp_ack_def Let_def split: option.split)

lemma rx_side_tcp_data [simp]: "rx_side (tcp_data sock_cbs i q d s) = rx_side s" "rx_side (tcp_fin sock_cbs i s) = rx_side s"
  by (simp_all add: tcp_data_def tcp_fin_def Let_def split: option.split tcp_conn_state.split)

lemma rx_side_tcp_conn_rx [simp]: "rx_side (tcp_conn_rx sock_cbs i a1 a2 a3 a4 a5 a6 a7 f d s) = rx_side s"
  by (simp add: tcp_conn_rx_def tcp_segment_def Let_def prod.case_eq_if)

lemma rx_side_passive [simp]: "rx_side (tcp_passive_open l a1 a2 a3 a4 a5 a6 a7 f s) = rx_side s"
  by (simp add: tcp_passive_open_def next_isn_def Let_def split: option.split)

lemma rx_side_tcp_rx [simp]: "rx_side (tcp_rx sock_cbs p src dst s) = rx_side s"
  by (simp add: tcp_rx_def Let_def split: option.split prod.split)

lemma rx_side_dhcp_fields [simp]:
  "rx_side (s\<lparr>dhcp_phase := a\<rparr>) = rx_side s" "rx_side (s\<lparr>offered_ip := b\<rparr>) = rx_side s" "rx_side (s\<lparr>server_ip := b\<rparr>) = rx_side s"
  "rx_side (s\<lparr>retry_count := n\<rparr>) = rx_side s" "rx_side (s\<lparr>deadline := b\<rparr>) = rx_side s" "rx_side (ipv4_set_addr b c d s) = rx_side s"
  by (simp_all add: rx_side_def ipv4_set_addr_def arp_set_ip_def)

lemma rx_side_dhcp_send [simp]: "rx_side (dhcp_send opts s) = rx_side s"
proof (cases "udp_send 0xFFFFFFFF DHCP_CLIENT_PORT DHCP_SERVER_PORT (dhcp_packet (ethernet_get_mac s) opts) s")
  case (Inr p)
  then have "rx_side (fst p) = rx_side s" by (auto simp: udp_send_def Let_def split: if_splits)
  then show ?thesis using Inr by (cases p) (simp add: dhcp_send_def)
qed (simp add: dhcp_send_def)

lemma rx_side_dhcp_rx [simp]: "rx_side (dhcp_rx d s) = rx_side s"
  by (simp add: dhcp_rx_def send_request_def send_discover_def Let_def)

lemma rx_side_run [simp]: "rx_side (run_udp h d a b c s) = rx_side s" "rx_side (run_ip g p x y s) = rx_side s"
proof -
  show u: "rx_side (run_udp h d a b c s) = rx_side s" for h d a b c and s :: "'a dhcp_state_scheme" by (cases h) simp_all
  then show "rx_side (run_ip g p x y s) = rx_side s" by (cases g) (simp_all add: udp_rx_def Let_def split: option.split)
qed

lemma rx_side_nic [simp]: "rx_side (run_nic h f s) = rx_side s"
proof -
  have "rx_side (run_eth g p m s) = rx_side s" for g p m by (cases g) (simp_all add: ipv4_rx_def Let_def split: option.split)
  then show ?thesis by (cases h) (simp add: ethernet_rx_def Let_def split: option.split)
qed

lemma rx_side_ticks [simp]: "rx_side (fst (dhcp_tick s)) = rx_side s" "rx_side (tcp_tick sock_cbs s) = rx_side s"
proof -
  show "rx_side (fst (dhcp_tick s)) = rx_side s" by (simp add: dhcp_tick_def send_request_def send_discover_def Let_def)
  have "rx_side (tcp_tick_conn sock_cbs now i t) = rx_side t" for now i and t :: "'a dhcp_state_scheme"
    by (simp add: tcp_tick_conn_def Let_def split: option.split)
  then show "rx_side (tcp_tick sock_cbs s) = rx_side s"
    unfolding tcp_tick_def by (intro for_range_inv [where I = "\<lambda>_ t. rx_side t = rx_side s"]) simp_all
qed

section \<open>The poll empties the ring\<close>

text \<open>A descriptor the device has filled, and what the driver leaves there when it gives it back.\<close>

definition filled :: "rx_desc \<Rightarrow> bool" where
  "filled d \<longleftrightarrow> rd_status d AND E1000_RXD_STAT_DD \<noteq> 0"

definition rx_idx :: "'a e1000_state_scheme \<Rightarrow> nat" where
  "rx_idx s = unat (rx_ring_tail s) mod E1000_NUM_RX_DESC"

lemma rx_idx_less [simp]: "rx_idx s < 32"
  by (simp add: rx_idx_def)

lemma rx_ready_filled: "rx_ready s \<longleftrightarrow> filled (rx_descs s ! rx_idx s)"
  by (simp add: rx_ready_def filled_def rx_idx_def)

lemma rx_side_eqD:
  "rx_side s = rx_side t \<Longrightarrow> rx_descs s = rx_descs t \<and> rx_ring_tail s = rx_ring_tail t \<and> rx_bufs_phys s = rx_bufs_phys t \<and> e1000_ready s = e1000_ready t"
  by (simp add: rx_side_def)

lemma e1000_rx_one_ring:
  fixes s :: "'a dhcp_state_scheme"
  defines "t \<equiv> e1000_rx_one run_nic s"
  shows "rx_descs t = (rx_descs s)[rx_idx s := (rx_descs s ! rx_idx s)\<lparr>rd_status := 0, rd_addr := rx_bufs_phys s ! rx_idx s\<rparr>]"
    and "rx_idx t = (rx_idx s + 1) mod 32" and "rx_bufs_phys t = rx_bufs_phys s" and "e1000_ready t = e1000_ready s"
proof -
  have u: "unat (of_nat (n mod 32) :: u32) = n mod 32" for n by (simp only: unat_of_nat) (rule mod_less, rule less_trans [OF mod_less_divisor], simp_all)
  define st' where "st' = (if 0 < unat (rd_length (rx_descs s ! rx_idx s)) \<and> rd_status (rx_descs s ! rx_idx s) AND E1000_RXD_STAT_EOP \<noteq> 0
    then case rx_callback s of Some cb \<Rightarrow> if kmalloc_ok s (unat (rd_length (rx_descs s ! rx_idx s)))
      then run_nic cb (take (unat (rd_length (rx_descs s ! rx_idx s))) (rx_bufs s ! rx_idx s)) s else s | None \<Rightarrow> s else s)"
  have "rx_side st' = rx_side s" by (simp add: st'_def split: option.split)
  note st' = rx_side_eqD [OF this]
  have t: "t = e1000_write E1000_REG_RDT (of_nat (rx_idx s))
     (st'\<lparr>rx_descs := (rx_descs st')[rx_idx s := (rx_descs st' ! rx_idx s)\<lparr>rd_status := 0, rd_addr := rx_bufs_phys st' ! rx_idx s\<rparr>],
          rx_ring_tail := of_nat ((rx_idx s + 1) mod 32)\<rparr>)"
    unfolding t_def e1000_rx_one_def st'_def rx_idx_def Let_def by simp
  show "rx_descs t = (rx_descs s)[rx_idx s := (rx_descs s ! rx_idx s)\<lparr>rd_status := 0, rd_addr := rx_bufs_phys s ! rx_idx s\<rparr>]"
    "rx_bufs_phys t = rx_bufs_phys s" "e1000_ready t = e1000_ready s"
    using st' by (simp_all add: t e1000_write_def)
  show "rx_idx t = (rx_idx s + 1) mod 32" unfolding rx_idx_def [of t] using u [of "rx_idx s + 1"] by (simp add: t e1000_write_def)
qed

lemma e1000_poll_loop_drains:
  fixes s :: "'a dhcp_state_scheme"
  assumes "length (rx_descs s) = 32"
  shows "\<exists>t k. e1000_poll_loop run_nic s = Some t \<and> \<not> rx_ready t \<and> e1000_ready t = e1000_ready s \<and> length (rx_descs t) = 32 \<and>
    rx_idx t = (rx_idx s + k) mod 32 \<and> (\<forall>j<k. filled (rx_descs s ! ((rx_idx s + j) mod 32))) \<and>
    (\<forall>i<32. rx_descs t ! i = (if \<exists>j<k. i = (rx_idx s + j) mod 32
       then (rx_descs s ! i)\<lparr>rd_status := 0, rd_addr := rx_bufs_phys s ! i\<rparr> else rx_descs s ! i))"
  using assms
proof (induction "card {i. i < 32 \<and> filled (rx_descs s ! i)}" arbitrary: s rule: less_induct)
  case less
  show ?case
  proof (cases "rx_ready s")
    case False
    then have "e1000_poll_loop run_nic s = Some s" by (subst e1000_poll_loop.simps) simp
    then show ?thesis using False less.prems by (intro exI [of _ s] exI [of _ 0]) simp
  next
    case True
    define u where "u = e1000_rx_one run_nic s"
    note u = e1000_rx_one_ring [of s, folded u_def]
    have len: "length (rx_descs u) = 32" using less.prems by (simp add: u(1))
    have nth: "rx_descs u ! i = (if i = rx_idx s then (rx_descs s ! i)\<lparr>rd_status := 0, rd_addr := rx_bufs_phys s ! i\<rparr> else rx_descs s ! i)" if "i < 32" for i
      using that less.prems by (simp add: u(1) nth_list_update)
    have fu: "filled (rx_descs u ! i) \<longleftrightarrow> i \<noteq> rx_idx s \<and> filled (rx_descs s ! i)" if "i < 32" for i
      using nth [OF that] by (simp add: filled_def)
    have "{i. i < 32 \<and> filled (rx_descs u ! i)} \<subset> {i. i < 32 \<and> filled (rx_descs s ! i)}"
      using True fu rx_idx_less [of s] unfolding rx_ready_filled by blast
    then have "card {i. i < 32 \<and> filled (rx_descs u ! i)} < card {i. i < 32 \<and> filled (rx_descs s ! i)}" by (intro psubset_card_mono) simp_all
    from less.hyps [OF this len] obtain t k where t: "e1000_poll_loop run_nic u = Some t" "\<not> rx_ready t" "e1000_ready t = e1000_ready u"
        "length (rx_descs t) = 32" "rx_idx t = (rx_idx u + k) mod 32"
      and f: "\<And>j. j < k \<Longrightarrow> filled (rx_descs u ! ((rx_idx u + j) mod 32))"
      and d: "\<And>i. i < 32 \<Longrightarrow> rx_descs t ! i = (if \<exists>j<k. i = (rx_idx u + j) mod 32
         then (rx_descs u ! i)\<lparr>rd_status := 0, rd_addr := rx_bufs_phys u ! i\<rparr> else rx_descs u ! i)" by blast
    have sh: "(rx_idx u + j) mod 32 = (rx_idx s + Suc j) mod 32" for j by (simp add: u(2) mod_simps)
    have e: "e1000_poll_loop run_nic s = Some t" by (subst e1000_poll_loop.simps) (simp add: True t(1) u_def [symmetric])
    have f': "filled (rx_descs s ! ((rx_idx s + j) mod 32))" if "j < Suc k" for j
    proof (cases j)
      case 0
      then show ?thesis using True by (simp add: rx_ready_filled)
    next
      case (Suc l)
      then show ?thesis using f [of l] fu [of "(rx_idx u + l) mod 32"] that by (simp only: sh) simp
    qed
    have ex: "(\<exists>j<Suc k. i = (rx_idx s + j) mod 32) \<longleftrightarrow> i = rx_idx s \<or> (\<exists>j<k. i = (rx_idx u + j) mod 32)" for i
      unfolding sh by (simp add: Ex_less_Suc2)
    have ne: "\<not> (\<exists>j<k. rx_idx s = (rx_idx u + j) mod 32)" using f fu [OF rx_idx_less [of s]] by auto
    have d': "rx_descs t ! i = (if \<exists>j<Suc k. i = (rx_idx s + j) mod 32
         then (rx_descs s ! i)\<lparr>rd_status := 0, rd_addr := rx_bufs_phys s ! i\<rparr> else rx_descs s ! i)" if "i < 32" for i
      unfolding ex using d [OF that] nth [OF that] ne by (cases "i = rx_idx s") (auto simp: u(3))
    show ?thesis
      by (rule exI [of _ t], rule exI [of _ "Suc k"]) (intro conjI allI impI e t(2,4) trans [OF t(3) u(4)] trans [OF t(5) sh] f' d')
  qed
qed

text \<open>C18. The network poll returns, whatever frames wait in the receive ring: it handles the filled descriptors from the ring's
  position on, one after the other, gives exactly those back to the device, and stops at the first that is not filled.\<close>

theorem net_poll_drains:
  fixes s :: dhcp_state
  assumes "length (rx_descs s) = 32" "e1000_ready s"
  shows "\<exists>t k. net_poll s = Some t \<and> \<not> rx_ready t \<and> rx_idx t = (rx_idx s + k) mod 32 \<and> (\<forall>j<k. filled (rx_descs s ! ((rx_idx s + j) mod 32))) \<and>
    (\<forall>i<32. rx_descs t ! i = (if \<exists>j<k. i = (rx_idx s + j) mod 32
       then (rx_descs s ! i)\<lparr>rd_status := 0, rd_addr := rx_bufs_phys s ! i\<rparr> else rx_descs s ! i))"
proof -
  obtain t k where t: "e1000_poll_loop run_nic s = Some t" "\<not> rx_ready t" "rx_idx t = (rx_idx s + k) mod 32"
    and f: "\<forall>j<k. filled (rx_descs s ! ((rx_idx s + j) mod 32))"
    and d: "\<forall>i<32. rx_descs t ! i = (if \<exists>j<k. i = (rx_idx s + j) mod 32
       then (rx_descs s ! i)\<lparr>rd_status := 0, rd_addr := rx_bufs_phys s ! i\<rparr> else rx_descs s ! i)"
    using e1000_poll_loop_drains [OF assms(1)] by blast
  define r where "r = tcp_tick sock_cbs (fst (dhcp_tick t))"
  have "rx_side r = rx_side t" by (simp add: r_def)
  from rx_side_eqD [OF this] have r: "rx_descs r = rx_descs t" "rx_idx r = rx_idx t" "rx_ready r = rx_ready t"
    by (simp_all add: rx_idx_def rx_ready_def)
  have "net_poll s = Some r" using t(1) assms(2) by (simp add: net_poll_def ethernet_poll_def e1000_poll_def r_def)
  then show ?thesis using t(2,3) f d unfolding r [symmetric] by blast
qed

section \<open>The DHCP client\<close>

text \<open>A list of options on the wire; the parser reads it back in order and stops at the end mark.\<close>

definition enc_opts :: "(u8 \<times> u8 list) list \<Rightarrow> u8 list" where
  "enc_opts os = concat (map (\<lambda>(c, v). c # of_nat (length v) # v) os)"

definition opt_ok :: "u8 \<times> u8 list \<Rightarrow> bool" where
  "opt_ok p \<longleftrightarrow> fst p \<noteq> 0 \<and> fst p \<noteq> DHCP_OPT_END \<and> length (snd p) < 256"

definition read_opts :: "(u8 \<times> u8 list) list \<Rightarrow> dhcp_opts" where
  "read_opts os = fold (\<lambda>(c, v). apply_option c v) os \<lparr>msgtype = 0, out_srv = 0, out_mask = 0xFFFFFF00, out_gw = 0\<rparr>"

lemma parse_options_enc:
  assumes "list_all opt_ok os"
  shows "parse_options (enc_opts os @ DHCP_OPT_END # rest) r = fold (\<lambda>(c, v). apply_option c v) os r"
  using assms
proof (induction os arbitrary: r)
  case Nil
  then show ?case by (simp add: enc_opts_def)
next
  case (Cons p os)
  obtain c v where p: "p = (c, v)" by (cases p)
  have c: "c \<noteq> 0" "c \<noteq> 255" "length v < 256" using Cons.prems p by (simp_all add: opt_ok_def)
  have u: "unat (of_nat (length v) :: u8) = length v" using c(3) by (simp only: unat_of_nat) simp
  have e: "enc_opts (p # os) @ DHCP_OPT_END # rest = c # of_nat (length v) # v @ enc_opts os @ DHCP_OPT_END # rest"
    by (simp add: enc_opts_def p)
  show ?case unfolding e using Cons.IH Cons.prems c u by (simp add: p)
qed

text \<open>A message of a server: the offered address and options.\<close>

definition dhcp_reply :: "dhcp_hdr \<Rightarrow> u32 \<Rightarrow> (u8 \<times> u8 list) list \<Rightarrow> u8 list \<Rightarrow> u8 list" where
  "dhcp_reply h yi os pad = dhcp_hdr_bytes (h\<lparr>dh_op := DHCP_OP_REPLY, dh_xid := htonl DHCP_XID, dh_yiaddr := htonl yi, dh_magic := htonl DHCP_MAGIC_COOKIE\<rparr>) @
     enc_opts os @ DHCP_OPT_END # pad"

definition hdr_sized :: "dhcp_hdr \<Rightarrow> bool" where
  "hdr_sized h \<longleftrightarrow> length (dh_chaddr h) = 16 \<and> length (dh_sname h) = 64 \<and> length (dh_file h) = 128"

lemma dhcp_reply_fields:
  assumes "hdr_sized h"
  shows "length (dhcp_reply h yi os pad) \<ge> 240" "drop 240 (dhcp_reply h yi os pad) = enc_opts os @ DHCP_OPT_END # pad"
    "dh_op (dhcp_hdr_of (dhcp_reply h yi os pad)) = DHCP_OP_REPLY" "dh_xid (dhcp_hdr_of (dhcp_reply h yi os pad)) = htonl DHCP_XID"
    "dh_yiaddr (dhcp_hdr_of (dhcp_reply h yi os pad)) = htonl yi" "dh_magic (dhcp_hdr_of (dhcp_reply h yi os pad)) = htonl DHCP_MAGIC_COOKIE"
proof -
  have g: "ucast (ucast v :: u8) OR push_bit 8 (ucast (ucast (drop_bit 8 v) :: u8)) OR push_bit 16 (ucast (ucast (drop_bit 16 v) :: u8)) OR
     push_bit 24 (ucast (ucast (drop_bit 24 v) :: u8)) = v" for v :: u32
    using get32_le32_all [of v] by (simp add: get32_def le32_def)
  show "length (dhcp_reply h yi os pad) \<ge> 240" "drop 240 (dhcp_reply h yi os pad) = enc_opts os @ DHCP_OPT_END # pad"
    "dh_op (dhcp_hdr_of (dhcp_reply h yi os pad)) = DHCP_OP_REPLY" "dh_xid (dhcp_hdr_of (dhcp_reply h yi os pad)) = htonl DHCP_XID"
    "dh_yiaddr (dhcp_hdr_of (dhcp_reply h yi os pad)) = htonl yi" "dh_magic (dhcp_hdr_of (dhcp_reply h yi os pad)) = htonl DHCP_MAGIC_COOKIE"
    using assms by (simp_all add: hdr_sized_def dhcp_reply_def dhcp_hdr_bytes_def dhcp_hdr_of_def get32_def le32_def le16_def nth_append g)
qed

lemma dhcp_rx_reply:
  assumes "hdr_sized h" "list_all opt_ok os" "yi \<noteq> 0"
  shows "dhcp_rx (dhcp_reply h yi os pad) st =
    (if dhcp_phase st = DHCP_STATE_SELECTING \<and> msgtype (read_opts os) = DHCP_OFFER then
       (send_request yi (out_srv (read_opts os)) (st\<lparr>offered_ip := yi, server_ip := out_srv (read_opts os)\<rparr>))\<lparr>dhcp_phase := DHCP_STATE_REQUESTING,
          deadline := clock (send_request yi (out_srv (read_opts os)) (st\<lparr>offered_ip := yi, server_ip := out_srv (read_opts os)\<rparr>)) + DHCP_RETRY_MS\<rparr>
     else if dhcp_phase st = DHCP_STATE_REQUESTING \<and> msgtype (read_opts os) = DHCP_ACK then
       (ipv4_set_addr yi (out_mask (read_opts os)) (if out_gw (read_opts os) = 0 then server_ip st else out_gw (read_opts os)) st)\<lparr>dhcp_phase := DHCP_STATE_BOUND\<rparr>
     else if msgtype (read_opts os) = DHCP_NAK then
       (send_discover (st\<lparr>dhcp_phase := DHCP_STATE_SELECTING, offered_ip := 0, server_ip := 0, retry_count := 0\<rparr>))\<lparr>
          deadline := clock (send_discover (st\<lparr>dhcp_phase := DHCP_STATE_SELECTING, offered_ip := 0, server_ip := 0, retry_count := 0\<rparr>)) + DHCP_RETRY_MS\<rparr>
     else st)"
  unfolding dhcp_rx_def Let_def DHCP_HDR_LEN_def dhcp_reply_fields [OF assms(1)] parse_options_enc [OF assms(2)] read_opts_def [symmetric]
  using assms(3) dhcp_reply_fields(1) [OF assms(1), of yi os pad] by simp

lemma length_dhcp_packet: "length m = 6 \<Longrightarrow> length opts \<le> 308 \<Longrightarrow> length (dhcp_packet m opts) = 548"
  by (simp add: dhcp_packet_def dhcp_hdr_bytes_def le16_def Let_def)

lemma dhcp_send_result:
  assumes "can_send st" "length opts \<le> 308"
  shows "sent (dhcp_send opts st) = sent st @ [frame_of ETH_BROADCAST (our_mac st) ETHERTYPE_IPV4 (ip_header 0xFFFFFFFF IPPROTO_UDP 556 st @
      udp_packet (our_ip st) 0xFFFFFFFF DHCP_CLIENT_PORT DHCP_SERVER_PORT (dhcp_packet (our_mac st) opts))]"
proof -
  let ?p = "udp_packet (our_ip st) 0xFFFFFFFF DHCP_CLIENT_PORT DHCP_SERVER_PORT (dhcp_packet (our_mac st) opts)"
  have m: "length (our_mac st) = 6" "kmalloc_ok st n" for n using assms(1) by (simp_all add: can_send_def)
  note l = length_dhcp_packet [OF m(1) assms(2)]
  have "dhcp_send opts st = fst (ipv4_send 0xFFFFFFFF IPPROTO_UDP ?p st)"
    using l m(2) by (simp add: dhcp_send_def udp_send_def ethernet_get_mac_def ipv4_get_addr_def case_prod_unfold)
  moreover have "length ?p = 556" using l by (simp add: udp_packet_def Let_def)
  ultimately show ?thesis
    using ipv4_send_known [of "0xFFFFFFFF" st "replicate 6 0xFF" ?p IPPROTO_UDP] m can_send_tx_open [OF assms(1)]
    by (simp add: hop_mac_def ETH_BROADCAST_def)
qed

lemma dhcp_send_keeps: "\<exists>i. tx_only (st\<lparr>pkt_id := i\<rparr>) (dhcp_send opts st)"
proof (cases "udp_send 0xFFFFFFFF DHCP_CLIENT_PORT DHCP_SERVER_PORT (dhcp_packet (ethernet_get_mac st) opts) st")
  case (Inl e)
  then show ?thesis by (intro exI [of _ "pkt_id st"]) (simp add: dhcp_send_def)
next
  case (Inr p)
  then have "p = (st, -1) \<or> (\<exists>b. p = ipv4_send 0xFFFFFFFF IPPROTO_UDP b st)" by (auto simp: udp_send_def Let_def split: if_splits)
  then show ?thesis using Inr ipv4_send_frame [of st "0xFFFFFFFF" IPPROTO_UDP]
    by (elim disjE exE) (simp_all add: dhcp_send_def case_prod_unfold exI [of _ "pkt_id st"])
qed

text \<open>The request a client sends for an offer.\<close>

definition request_opts :: "u32 \<Rightarrow> u32 \<Rightarrow> (u8 \<times> u8 list) list" where
  "request_opts ip srv = [(DHCP_OPT_MSGTYPE, [DHCP_REQUEST]), (DHCP_OPT_REQIP, le32 (htonl ip)), (DHCP_OPT_SERVERID, le32 (htonl srv)),
     (DHCP_OPT_PARAMREQ, [DHCP_OPT_SUBNET, DHCP_OPT_ROUTER, DHCP_OPT_DNS])]"

lemma send_request_opts: "send_request ip srv st = dhcp_send (enc_opts (request_opts ip srv) @ [DHCP_OPT_END]) st"
  by (simp add: send_request_def enc_opts_def request_opts_def opt_u8_def opt_u32_def le32_htonl)


end
