(* ===== verification/TcpTypes.thy ===== *)
theory TcpTypes
  imports NetStack
begin

text \<open>
  The type invariant of the TCP connection table: eight connections, each with a receive ring of 4096 bytes whose indices are in
  range, a retransmission buffer as long as its length field says and at least a header, and at most the allowed number of
  retries. Every operation of TCP, the segment handler and the timer included, keeps it.
\<close>

definition conn_ok :: "tcp_conn \<Rightarrow> bool" where
  "conn_ok c \<longleftrightarrow> rx_ok c \<and> (\<forall>b. retx_buf c = Some b \<longrightarrow> 20 \<le> length b \<and> length b = unat (retx_len c)) \<and> retx_count c \<le> TCP_MAX_RETRIES"

definition tcp_ok :: "'a tcp_state_scheme \<Rightarrow> bool" where
  "tcp_ok st \<longleftrightarrow> length (conns st) = TCP_MAX_CONN \<and> list_all conn_ok (conns st)"

lemma tcp_ok_conns: "conns s = conns t \<Longrightarrow> tcp_ok s = tcp_ok t"
  by (simp add: tcp_ok_def)

lemma tcp_ok_upd: "tcp_ok s \<Longrightarrow> (i < 8 \<Longrightarrow> conn_ok (conns s ! i) \<Longrightarrow> conn_ok (f (conns s ! i))) \<Longrightarrow> tcp_ok (upd_conn i f s)"
  by (cases "i < 8") (auto simp: tcp_ok_def list_all_length nth_list_update list_update_beyond)

lemma tcp_ok_upd_all: "(\<And>c. conn_ok c \<Longrightarrow> conn_ok (f c)) \<Longrightarrow> tcp_ok s \<Longrightarrow> tcp_ok (upd_conn i f s)"
  by (rule tcp_ok_upd)

lemma tcp_ok_nth: "tcp_ok s \<Longrightarrow> i < 8 \<Longrightarrow> conn_ok (conns s ! i)"
  by (simp add: tcp_ok_def list_all_length)

named_theorems conn_ok_simps

lemma conn_ok_fields [conn_ok_simps]:
  "conn_ok (c\<lparr>conn_state := a\<rparr>) = conn_ok c" "conn_ok (c\<lparr>snd_una := q\<rparr>) = conn_ok c" "conn_ok (c\<lparr>snd_nxt := q\<rparr>) = conn_ok c"
  "conn_ok (c\<lparr>snd_wnd := w\<rparr>) = conn_ok c" "conn_ok (c\<lparr>rcv_nxt := q\<rparr>) = conn_ok c" "conn_ok (c\<lparr>retx_deadline := q\<rparr>) = conn_ok c"
  "conn_ok (c\<lparr>on_data := d\<rparr>) = conn_ok c" "conn_ok (c\<lparr>on_close := g\<rparr>) = conn_ok c" "conn_ok (c\<lparr>local_ip := q\<rparr>) = conn_ok c"
  "conn_ok (c\<lparr>local_port := w\<rparr>) = conn_ok c" "conn_ok (c\<lparr>remote_ip := q\<rparr>) = conn_ok c" "conn_ok (c\<lparr>remote_port := w\<rparr>) = conn_ok c"
  by (simp_all add: conn_ok_def rx_ok_def)

lemma conn_ok_clear [conn_ok_simps]: "conn_ok c \<Longrightarrow> conn_ok (retx_clear c)" "conn_ok c \<Longrightarrow> conn_ok (c\<lparr>retx_buf := None\<rparr>)"
  "conn_ok c \<Longrightarrow> conn_ok (c\<lparr>retx_buf := None, retx_len := 0\<rparr>)" 
  by (simp_all add: conn_ok_def retx_clear_def rx_ok_def)

lemma conn_ok_reset [conn_ok_simps]: "conn_ok c \<Longrightarrow> conn_ok (c\<lparr>rx_head := 0, rx_tail := 0, retx_buf := None, retx_len := 0\<rparr>)"
  by (simp add: conn_ok_def rx_ok_def ring_ok_def)

lemma conn_ok_arm: "conn_ok c \<Longrightarrow> 20 \<le> length seg \<Longrightarrow> length seg < 65536 \<Longrightarrow>
    conn_ok (c\<lparr>retx_buf := Some seg, retx_len := of_nat (length seg), retx_deadline := d, retx_count := 0\<rparr>)"
proof -
  assume a: "conn_ok c" "20 \<le> length seg" "length seg < 65536"
  have "unat (of_nat (length seg) :: u16) = length seg" using a(3) by (simp only: unat_of_nat) simp
  then show ?thesis using a by (simp add: conn_ok_def rx_ok_def)
qed

lemma conn_ok_push: "conn_ok c \<Longrightarrow> conn_ok (rx_push (take (min (length d) (rx_free c)) d) c)"
proof -
  assume c: "conn_ok c"
  let ?d = "take (min (length d) (rx_free c)) d"
  have "rx_ok c" using c by (simp add: conn_ok_def)
  then have "length (rx_queue c) + length ?d \<le> 4095 \<or> ?d = []" using rx_free_queue [of c] by auto
  then have "rx_ok (rx_push ?d c)" using rx.put_block [OF \<open>rx_ok c\<close>] \<open>rx_ok c\<close> by (auto simp: rx_push_def)
  moreover obtain b t where "rx_push ?d c = c\<lparr>rx_buf := b, rx_tail := t\<rparr>" using rx_push_frame by blast
  ultimately show ?thesis using c by (auto simp: conn_ok_def)
qed

lemma conn_ok_window: "conn_ok c \<Longrightarrow> conn_ok (ack_window a w c)"
  by (simp add: ack_window_def Let_def conn_ok_simps)

lemma tcp_ok_arm: "tcp_ok s \<Longrightarrow> 20 \<le> length seg \<Longrightarrow> length seg < 65536 \<Longrightarrow> tcp_ok (retx_arm i seg s)"
  unfolding retx_arm_def Let_def
  by (simp, intro conjI impI tcp_ok_upd) (simp_all add: conn_ok_simps conn_ok_arm)

lemma tcp_ok_sends [simp]:
  "tcp_ok (fst (tcp_send_raw c seg s)) = tcp_ok s" "tcp_ok (send_ctrl c f q a s) = tcp_ok s" "tcp_ok (send_rst_reply a1 a2 a3 a4 a5 a6 a7 s) = tcp_ok s"
  "tcp_ok (s\<lparr>isn_counter := v\<rparr>) = tcp_ok s"
  by (simp_all add: tcp_ok_def tcp_send_raw_def)

lemma tcp_ok_cbs [simp]: "tcp_ok (cb_close sock_cbs h i s) = tcp_ok s" "tcp_ok (cb_data sock_cbs g i d s) = tcp_ok s"
  by (simp_all add: tcp_ok_def)

lemma length_ctrl_segment [simp]: "length (ctrl_segment c f q a) = 20"
  by (simp add: ctrl_segment_def)

lemma tcp_ok_close: "tcp_ok s \<Longrightarrow> tcp_ok (close_conn sock_cbs i s)"
proof -
  assume "tcp_ok s"
  then have "tcp_ok (upd_conn i retx_clear s)" by (rule tcp_ok_upd) (simp add: conn_ok_simps)
  then show ?thesis unfolding close_conn_def Let_def by (intro tcp_ok_upd) (simp_all add: conn_ok_simps split: option.split)
qed

lemma tcp_ok_passive: "tcp_ok s \<Longrightarrow> tcp_ok (tcp_passive_open l a1 a2 a3 a4 a5 a6 a7 f s)"
  unfolding tcp_passive_open_def next_isn_def Let_def
  by (cases "conn_alloc s") (simp, simp only: option.case prod.case tcp_ok_sends, intro tcp_ok_arm tcp_ok_upd, simp_all add: conn_ok_simps)

lemma tcp_ok_handshake: "tcp_ok s \<Longrightarrow> tcp_ok (tcp_rst sock_cbs i q s)" "tcp_ok s \<Longrightarrow> tcp_ok (tcp_syn_sent i a1 a2 a3 a4 a5 a6 a7 f s)"
  "tcp_ok s \<Longrightarrow> tcp_ok (tcp_syn_rcvd i a w s)"
  by (simp_all add: tcp_rst_def tcp_syn_sent_def tcp_syn_rcvd_def Let_def tcp_ok_close tcp_ok_upd conn_ok_simps)

lemma tcp_ok_ack: "tcp_ok s \<Longrightarrow> tcp_ok (fst (tcp_ack sock_cbs i a w s))"
  unfolding tcp_ack_def Let_def by (simp, intro conjI impI tcp_ok_close tcp_ok_upd) (simp_all add: conn_ok_simps conn_ok_window)

lemma tcp_ok_data: "tcp_ok s \<Longrightarrow> tcp_ok (tcp_data sock_cbs i q d s)"
proof -
  assume s: "tcp_ok s"
  define t where "t = upd_conn i (\<lambda>c. (rx_push (take (min (length d) (rx_free (conns s ! i))) d) c)\<lparr>rcv_nxt := rcv_nxt c + of_nat (min (length d) (rx_free (conns s ! i)))\<rparr>) s"
  have "tcp_ok t" unfolding t_def by (rule tcp_ok_upd [OF s]) (simp add: conn_ok_simps conn_ok_push)
  then show ?thesis using s unfolding tcp_data_def Let_def t_def [symmetric] by (simp split: option.split)
qed

lemma tcp_ok_fin: "tcp_ok s \<Longrightarrow> tcp_ok (tcp_fin sock_cbs i s)"
  by (simp add: tcp_fin_def Let_def tcp_ok_upd_all conn_ok_simps split: tcp_conn_state.split option.split)

lemma tcp_ok_segment: "tcp_ok s \<Longrightarrow> tcp_ok (tcp_segment sock_cbs i q a w f d s)"
  by (simp add: tcp_segment_def Let_def prod.case_eq_if tcp_ok_ack tcp_ok_data tcp_ok_fin)

lemma tcp_ok_conn_rx: "tcp_ok s \<Longrightarrow> tcp_ok (tcp_conn_rx sock_cbs i a1 a2 a3 a4 a5 a6 a7 f d s)"
  by (simp add: tcp_conn_rx_def Let_def tcp_ok_handshake tcp_ok_segment)

lemma tcp_ok_rx: "tcp_ok s \<Longrightarrow> tcp_ok (tcp_rx sock_cbs p src dst s)"
  by (simp add: tcp_rx_def Let_def tcp_ok_conn_rx tcp_ok_passive split: option.split prod.split)

lemma tcp_ok_listen: "tcp_ok s \<Longrightarrow> tcp_ok (fst (tcp_listen port d cl s))"
  by (simp add: tcp_listen_def tcp_ok_upd_all conn_ok_simps split: option.split)

lemma tcp_ok_connect: "tcp_ok s \<Longrightarrow> tcp_ok (fst (tcp_connect ip rp lp d cl s))"
  unfolding tcp_connect_def next_isn_def Let_def
  by (cases "conn_alloc s") (simp, simp only: option.case prod.case fst_conv tcp_ok_sends, intro tcp_ok_arm tcp_ok_upd, simp_all add: conn_ok_simps)

lemma tcp_ok_send: "tcp_ok s \<Longrightarrow> tcp_send i d s = Inr (s', r) \<Longrightarrow> tcp_ok s'"
proof -
  assume s: "tcp_ok s" and r: "tcp_send i d s = Inr (s', r)"
  let ?t = "upd_conn (nat i) (\<lambda>c. c\<lparr>snd_nxt := snd_nxt c + of_nat (length d)\<rparr>) s" and ?seg = "data_segment (conns s ! nat i) d"
  have "s' = s \<or> 20 + length d < 65536 \<and> s' = fst (tcp_send_raw (conns (retx_arm (nat i) ?seg ?t) ! nat i) ?seg (retx_arm (nat i) ?seg ?t))"
    using r unat_lt_16 [of "of_nat (20 + length d)"] unfolding tcp_send_def Let_def by (auto split: if_splits)
  moreover have "length ?seg = 20 + length d" by (simp add: data_segment_def)
  moreover have "tcp_ok ?t" using s by (simp add: tcp_ok_upd_all conn_ok_simps)
  ultimately show ?thesis using s by (auto simp: tcp_ok_arm)
qed

lemma tcp_ok_close_call: "tcp_ok s \<Longrightarrow> tcp_ok (fst (tcp_close i s))" and tcp_ok_accept: "tcp_ok s \<Longrightarrow> tcp_ok (fst (tcp_accept port s))"
  by (simp_all add: tcp_close_def tcp_accept_def Let_def tcp_ok_upd_all conn_ok_simps split: option.split)

lemma tcp_ok_tick: "tcp_ok s \<Longrightarrow> tcp_ok (tcp_tick sock_cbs s)"
proof -
  have "tcp_ok (tcp_tick_conn sock_cbs now i t)" if t: "tcp_ok t" "i < 8" for now i and t :: "'a dhcp_state_scheme"
  proof (cases "retx_buf (conns t ! i)")
    case None
    then show ?thesis using t by (simp add: tcp_tick_conn_def Let_def tcp_ok_upd_all conn_ok_simps)
  next
    case (Some b)
    have c: "conn_ok (conns t ! i)" using t by (rule tcp_ok_nth)
    have "conn_ok (conns t ! i) \<Longrightarrow> retx_count (conns t ! i) < 5 \<Longrightarrow> conn_ok ((conns t ! i)\<lparr>retx_count := retx_count (conns t ! i) + 1,
        retx_deadline := d, retx_buf := Some (tcp_fill (conns t ! i) (take (unat (retx_len (conns t ! i))) b))\<rparr>)" for d
      using Some by (auto simp: conn_ok_def rx_ok_def tcp_fill_def Let_def)
    then show ?thesis using t Some
      by (simp add: tcp_tick_conn_def Let_def tcp_ok_upd_all conn_ok_simps tcp_ok_close) (intro impI tcp_ok_upd, simp_all)
  qed
  then show "tcp_ok s \<Longrightarrow> ?thesis" unfolding tcp_tick_def by (intro for_range_inv [where I = "\<lambda>_. tcp_ok"]) simp_all
qed

lemma tcp_ok_read: "tcp_ok s \<Longrightarrow> tcp_ok (fst (tcp_read i len s))"
proof -
  assume s: "tcp_ok s"
  obtain c bs where g: "take_bytes rx_get (min (rx_used (conns s ! nat i)) (unat len)) (conns s ! nat i) = (c, bs)" by (metis surj_pair)
  have "conn_ok c" if i: "nat i < 8"
  proof -
    have k: "conn_ok (conns s ! nat i)" using s i by (rule tcp_ok_nth)
    then have ok: "rx_ok (conns s ! nat i)" by (simp add: conn_ok_def)
    have "rx_used (conns s ! nat i) = length (rx_queue (conns s ! nat i))" by (simp add: rx_used_def rx_queue_def)
    then have "rx_ok c" using rx.get_block [OF ok _ g] by simp
    moreover obtain h where "c = (conns s ! nat i)\<lparr>rx_head := h\<rparr>" using rx_get_frame [OF g] by blast
    ultimately show ?thesis using k by (auto simp: conn_ok_def)
  qed
  then show ?thesis using s by (simp add: tcp_read_def Let_def g) (intro impI tcp_ok_upd, simp_all)
qed

text \<open>C20. Every operation of TCP keeps the connection table well formed: ring indices in range of a 4096-byte buffer, retransmission
  buffers as long as recorded, retry counts within the limit that keeps the back-off shift in range.\<close>

theorem tcp_operations_typed:
  fixes s :: dhcp_state
  assumes "tcp_ok s"
  shows "tcp_ok (tcp_rx sock_cbs p src dst s) \<and> tcp_ok (fst (tcp_listen port d cl s)) \<and> tcp_ok (fst (tcp_connect ip rp lp d cl s)) \<and>
    (\<forall>s' r. tcp_send i bs s = Inr (s', r) \<longrightarrow> tcp_ok s') \<and> tcp_ok (fst (tcp_close i s)) \<and> tcp_ok (tcp_tick sock_cbs s) \<and>
    tcp_ok (fst (tcp_accept port s)) \<and> tcp_ok (fst (tcp_read i len s))"
  using assms by (simp add: tcp_ok_rx tcp_ok_listen tcp_ok_connect tcp_ok_close_call tcp_ok_tick tcp_ok_accept tcp_ok_read) (blast intro: tcp_ok_send)

end
