(* ===== verification/NetDemo.thy ===== *)
theory NetDemo
  imports NetPoll TcpTypes
begin

text \<open>
  Concrete hosts: two machines on a link, with which the properties of the network stack are applied.
\<close>

definition no_conn :: tcp_conn where
  "no_conn = \<lparr>conn_state = TCP_CLOSED, local_ip = 0, local_port = 0, remote_ip = 0, remote_port = 0, snd_una = 0, snd_nxt = 0, snd_wnd = 0,
     rcv_nxt = 0, retx_buf = None, retx_len = 0, retx_deadline = 0, retx_count = 0, rx_buf = replicate 4096 0, rx_head = 0, rx_tail = 0,
     on_data = None, on_close = None\<rparr>"

definition no_sock :: sock where
  "no_sock = \<lparr>sock_type = SOCK_FREE, conn_id = -1, bound_port = 0, peer_ip = 0, peer_port = 0, srx_buf = replicate 2048 0, srx_head = 0, srx_tail = 0\<rparr>"

definition no_arp :: arp_entry where
  "no_arp = \<lparr>ent_ip = 0, ent_mac = replicate 6 0\<rparr>"

text \<open>A host with address \<open>ip\<close> and hardware address \<open>m:m:m:m:m:m\<close> that knows \<open>peer\<close>.\<close>

definition demo_host :: "u32 \<Rightarrow> u8 \<Rightarrow> arp_entry \<Rightarrow> dhcp_state" where
  "demo_host ip m peer = \<lparr>mmio_base = 0, mmio = [], mac = replicate 6 m,
     rx_descs = replicate 32 rx_desc_zero, rx_descs_phys = 0, rx_bufs = replicate 32 (replicate 2048 0), rx_bufs_phys = replicate 32 0, rx_ring_tail = 0,
     tx_descs = replicate 32 tx_desc_zero, tx_descs_phys = 0, tx_bufs = replicate 32 (replicate 2048 0), tx_bufs_phys = replicate 32 0, tx_ring_tail = 0,
     e1000_ready = True, rx_callback = Some Ethernet_rx, kmalloc_ok = (\<lambda>_. True), tx_done = (\<lambda>_. True), clock = 0, sent = [],
     eth_handlers = [(ETHERTYPE_ARP, Arp_rx), (ETHERTYPE_IPV4, Ipv4_rx)], our_mac = replicate 6 m,
     arp_table = peer # replicate 15 no_arp, arp_our_ip = ip,
     ip_handlers = [(IPPROTO_ICMP, Icmp_rx), (IPPROTO_UDP, Udp_rx), (IPPROTO_TCP, Tcp_rx)], our_ip = ip, our_netmask = 0, our_gateway = 0, pkt_id = 1,
     udp_handlers = [], conns = replicate 8 no_conn, isn_counter = 0x12345678, socks = replicate 16 no_sock, sock_calls = [],
     dhcp_phase = DHCP_STATE_IDLE, offered_ip = 0, server_ip = 0, retry_count = 0, deadline = 0, timer_callbacks = []\<rparr>"

definition host_a :: dhcp_state where
  "host_a = demo_host 0x0A000001 1 \<lparr>ent_ip = 0x0A000002, ent_mac = replicate 6 2\<rparr>"

definition host_b :: dhcp_state where
  "host_b = demo_host 0x0A000002 2 \<lparr>ent_ip = 0x0A000001, ent_mac = replicate 6 1\<rparr>"

lemma demo_host_up: "can_send (demo_host ip m e)" "stack_up (demo_host ip m e)" "our_ip (demo_host ip m e) = ip"
  "our_mac (demo_host ip m e) = replicate 6 m" "arp_our_ip (demo_host ip m e) = ip" "sent (demo_host ip m e) = []"
  by (simp_all add: demo_host_def can_send_def stack_up_def)

lemma demo_host_arp: "arp_ok (demo_host ip m e)"
proof -
  have "i = j" if "i < 16" "j < 16" "ent_ip ((e # replicate 15 no_arp) ! i) = ent_ip ((e # replicate 15 no_arp) ! j)"
    "ent_ip ((e # replicate 15 no_arp) ! i) \<noteq> 0" for i j
    using that by (cases i; cases j) (simp_all add: no_arp_def)
  then show ?thesis by (simp add: arp_ok_def demo_host_def)
qed

lemma demo_host_hop:
  "x \<noteq> 0xFFFFFFFF \<Longrightarrow> hop_mac x (demo_host ip m \<lparr>ent_ip = x, ent_mac = replicate 6 k\<rparr>) = Some (replicate 6 k)"
proof -
  have "scan (\<lambda>i. ent_ip ((\<lparr>ent_ip = x, ent_mac = replicate 6 k\<rparr> # replicate 15 no_arp) ! i) = x) 16 = Some 0" by (simp add: scan_Some_iff)
  then show "x \<noteq> 0xFFFFFFFF \<Longrightarrow> ?thesis" by (simp add: hop_mac_def next_hop_def arp_lookup_def demo_host_def)
qed

lemma hosts_up: "can_send host_a" "stack_up host_a" "can_send host_b" "stack_up host_b" "our_ip host_a = 0x0A000001" "our_ip host_b = 0x0A000002"
  "hop_mac 0x0A000002 host_a = Some (replicate 6 2)" "hop_mac 0x0A000001 host_b = Some (replicate 6 1)"
  by (simp_all add: host_a_def host_b_def demo_host_up demo_host_hop)

lemma hosts_hop: "hop_known (our_ip host_b) host_a" "hop_known (our_ip host_a) host_b"
  using hosts_up by (simp_all add: hop_known_def)

section \<open>Resolution, echo, datagrams\<close>


theorem ping_answered_witness:
  "\<exists>a1 reply. icmp_ping 0x0A000002 7 1 [1, 2, 3] host_a = Inr (a1, 0) \<and> reply = echo_message 0 (get16 reply 2) 7 1 [1, 2, 3] \<and>
     ip_checksum reply = 0 \<and> deliver (deliver a1 host_b) a1 = a1"
  using ping_answered [OF hosts_up(1,2) hosts_hop(1) hosts_up(3,4) hosts_up(8) [folded hosts_up(5)], of "[1, 2, 3]" 7 1] hosts_up(6) by auto

definition udp_host :: "u16 \<Rightarrow> dhcp_state \<Rightarrow> dhcp_state" where
  "udp_host port st = st\<lparr>socks := no_sock\<lparr>sock_type := SOCK_UDP, bound_port := port\<rparr> # replicate 15 no_sock, udp_handlers := [(port, Udp_sock_rx)]\<rparr>"

lemma udp_host_keeps: "env (udp_host port st) = env st"
  by (simp add: udp_host_def env_def)

lemma udp_host_bound: "udp_bound 0 port (udp_host port st)" "srx_queue (socks (udp_host port st) ! 0) = []"
  by (simp_all add: udp_bound_def udp_host_def srx_ok_def ring_ok_def no_sock_def scan_Some_iff srx_queue_def ring_empty)


section \<open>Connections and streams\<close>

text \<open>A host whose first connection is \<open>c\<close>, the other seven closed.\<close>

definition tcp_host :: "tcp_conn \<Rightarrow> dhcp_state \<Rightarrow> dhcp_state" where
  "tcp_host c st = st\<lparr>conns := c # replicate 7 no_conn\<rparr>"

lemma tcp_host_env: "env (tcp_host c st) = env st"
  by (simp add: tcp_host_def env_def)

lemma tcp_host_conns: "conns (tcp_host c st) ! 0 = c" "length (conns (tcp_host c st)) = 8"
  by (simp_all add: tcp_host_def)

lemma no_conn_rx: "rx_ok no_conn" "conn_state no_conn = TCP_CLOSED"
  by (simp_all add: no_conn_def rx_ok_def ring_ok_def)

lemma tcp_find_closed: "list_all (\<lambda>c. conn_state c = TCP_CLOSED) cs \<Longrightarrow> tcp_find cs k dp sp ip l = (None, l)"
  by (induction cs arbitrary: k) simp_all

lemma no_conns_closed: "list_all (\<lambda>c. conn_state c = TCP_CLOSED) (replicate n no_conn)"
  by (simp add: list_all_iff no_conn_def)

lemma tcp_host_ok: "length (rx_buf c) = 4096 \<Longrightarrow> conns_ok (tcp_host c st)"
  by (auto simp: conns_ok_def tcp_host_def nth_Cons no_conn_def split: nat.split)

definition listening :: "u16 \<Rightarrow> tcp_conn" where
  "listening port = no_conn\<lparr>conn_state := TCP_LISTEN, local_port := port\<rparr>"

definition established :: "u16 \<Rightarrow> u16 \<Rightarrow> u32 \<Rightarrow> u32 \<Rightarrow> tcp_conn" where
  "established lport rport rip irs = no_conn\<lparr>conn_state := TCP_ESTABLISHED, local_port := lport, remote_port := rport, remote_ip := rip, rcv_nxt := irs\<rparr>"

lemma established_rx:
  "receiving 0 lport rport rip (tcp_host (established lport rport rip irs) st)"
  "rx_queue (established lport rport rip irs) = []" "rcv_nxt (established lport rport rip irs) = irs"
  by (simp_all add: receiving_def tcp_host_def established_def no_conn_def rx_ok_def ring_ok_def rx_queue_def ring_empty)

theorem tcp_handshake_witness:
  "let a = tcp_host no_conn host_a; b = tcp_host (listening 80) host_b; a1 = fst (tcp_connect 0x0A000002 80 5000 None None a);
       b1 = deliver a1 b; a2 = deliver b1 a1; b2 = deliver a2 b1
   in receiving 0 5000 80 0x0A000002 a2 \<and> receiving 1 80 5000 0x0A000001 b2"
proof -
  let ?a = "tcp_host no_conn host_a" and ?b = "tcp_host (listening 80) host_b"
  note ea = env_cong [OF tcp_host_env [of no_conn host_a]] env_stack_up [OF tcp_host_env [of no_conn host_a]]
    and eb = env_cong [OF tcp_host_env [of "listening 80" host_b]] env_stack_up [OF tcp_host_env [of "listening 80" host_b]]
  have up: "can_send ?a" "stack_up ?a" "hop_known (our_ip ?b) ?a" "can_send ?b" "stack_up ?b" "hop_known (our_ip ?a) ?b"
    "our_ip ?a = 0x0A000001" "our_ip ?b = 0x0A000002"
    using ea eb hosts_up hosts_hop by simp_all
  have ok: "conns_ok ?a" "conns_ok ?b"
    by (rule tcp_host_ok, simp add: listening_def no_conn_def)+
  have al: "conn_alloc ?a = Some 0" "conn_alloc ?b = Some 1"
    by (simp_all add: conn_alloc_def tcp_host_def scan_Some_iff no_conn_def listening_def)
  have f: "fst (tcp_find (conns ?a) 0 5000 80 (our_ip ?b) None) = None" "tcp_find (conns ?b) 0 80 5000 (our_ip ?a) None = (None, Some 0)"
    using no_conns_closed [of 7] by (simp_all add: tcp_host_def tcp_find_closed listening_def) (simp_all add: no_conn_def)
  show ?thesis
    using tcp_handshake [OF up(1-3) ok(1) al(1) f(1) up(4-6) ok(2) al(2) f(2) prod.collapse [symmetric] refl refl refl, of None None] up(7,8)
    by (simp add: Let_def)
qed

theorem tcp_stream_integrity_witness:
  "\<exists>k \<le> 4. case stream_run [1, 2, 3, 4] 1000 0 80 5000 0x0A000001 0x0A000002
       [Segment 2 2 1 4096 0 TCP_ACK, Segment 0 2 1 4096 0 TCP_ACK, Read 1, Segment 0 2 1 4096 0 TCP_ACK, Segment 2 2 1 4096 0 TCP_ACK]
       (tcp_host (established 80 5000 0x0A000001 1000) host_b) of (st', out) \<Rightarrow>
     out @ rx_queue (conns st' ! 0) = take k [1, 2, 3, 4]"
proof -
  let ?es = "[Segment 2 2 1 4096 0 TCP_ACK, Segment 0 2 1 4096 0 TCP_ACK, Read 1, Segment 0 2 1 4096 0 TCP_ACK, Segment 2 2 1 4096 0 TCP_ACK]"
  have es: "list_all stream_ok ?es" by simp
  have q: "rcv_nxt (conns (tcp_host (established 80 5000 0x0A000001 1000) host_b) ! 0) = 1000"
    "rx_queue (conns (tcp_host (established 80 5000 0x0A000001 1000) host_b) ! 0) = []"
    by (simp_all add: tcp_host_conns established_rx)
  obtain st' out where r: "stream_run [1, 2, 3, 4] 1000 0 80 5000 0x0A000001 0x0A000002 ?es (tcp_host (established 80 5000 0x0A000001 1000) host_b) = (st', out)"
    by (rule prod.exhaust)
  have "length [1, 2, 3, 4 :: u8] < 2 ^ 32" by simp
  from tcp_stream_integrity [OF this established_rx(1) q es r] obtain k
    where "k \<le> length [1, 2, 3, 4 :: u8]" "out @ rx_queue (conns st' ! 0) = take k [1, 2, 3, 4]" by blast
  then show ?thesis unfolding r prod.case by (intro exI [of _ k]) simp
qed

theorem tcp_stream_delivered_witness:
  "snd (stream_run [1, 2, 3, 4] 1000 0 80 5000 0x0A000001 0x0A000002 (in_order 1 0 [1, 3]) (tcp_host (established 80 5000 0x0A000001 1000) host_b)) = [1, 2, 3, 4]"
  by (rule tcp_stream_delivered) (simp_all add: tcp_host_conns established_rx)

theorem tcp_operations_typed_witness:
  "tcp_ok (tcp_rx sock_cbs [1, 2, 3] 1 2 host_a) \<and> tcp_ok (fst (tcp_listen 80 None None host_a)) \<and> tcp_ok (tcp_tick sock_cbs host_a)"
proof -
  have "tcp_ok host_a"
    by (simp add: tcp_ok_def conn_ok_def no_conn_rx list_all_iff host_a_def demo_host_def) (simp add: no_conn_def)
  from tcp_operations_typed [OF this] show ?thesis by blast
qed

section \<open>Polling and configuration\<close>

text \<open>A host with one frame waiting.\<close>

definition host_rx :: dhcp_state where
  "host_rx = host_a\<lparr>rx_descs := rx_desc_zero\<lparr>rd_status := 3, rd_length := 60\<rparr> # replicate 31 rx_desc_zero\<rparr>"

theorem net_poll_drains_witness: "rx_ready host_rx \<and> (\<exists>t. net_poll host_rx = Some t \<and> \<not> rx_ready t)"
proof -
  have "length (rx_descs host_rx) = 32" "e1000_ready host_rx" by (simp_all add: host_rx_def host_a_def demo_host_def)
  from net_poll_drains [OF this] have "\<exists>t. net_poll host_rx = Some t \<and> \<not> rx_ready t" by blast
  moreover have "rx_ready host_rx" by (simp add: host_rx_def host_a_def demo_host_def rx_ready_def)
  ultimately show ?thesis by simp
qed

definition blank_hdr :: dhcp_hdr where
  "blank_hdr = \<lparr>dh_op = 0, dh_htype = 1, dh_hlen = 6, dh_hops = 0, dh_xid = 0, dh_secs = 0, dh_flags = 0, dh_ciaddr = 0, dh_yiaddr = 0,
     dh_siaddr = 0, dh_giaddr = 0, dh_chaddr = replicate 16 0, dh_sname = replicate 64 0, dh_file = replicate 128 0, dh_magic = 0\<rparr>"

definition server_opts :: "u8 \<Rightarrow> (u8 \<times> u8 list) list" where
  "server_opts t = [(54, [10, 0, 0, 9]), (53, [t]), (51, [0, 0, 14, 16]), (1, [255, 0, 0, 0])]"


end
