(* ===== verification/Spec2Isabelle.thy ===== *)
theory Spec2Isabelle
  imports Boot Pic Tty Kstring Vfs Scheduler HeapCorrect Syscall Paging Checksum NetDemo
begin

text \<open>
  NamelessOS is a small x86-64 kernel in C and assembly. After the boot code has set up paging it initialises its modules in a fixed order: descriptor
  tables and interrupts, physical and virtual memory, heap, timer and devices, file systems, terminal, processes, system calls, the network stack,
  anonymous mappings, and at last the first user programs. From then on it is driven by timer interrupts, page faults and system calls. This development models the parts
  one theory at a time, in the order in which they use each other.

  \<^bold>\<open>How the code is translated.\<close> A C structure or the static variables of a file are a \<open>record\<close>; a file that builds on another extends its record. Integers
  keep their width (\<open>u8\<close> to \<open>u64\<close> of \<^verbatim>\<open>src/lib/types.h\<close>) and wrap as in C. A function that changes state takes and returns the
  state; its guards, error returns and early exits are the branches of the definition. A counted loop is \<open>for_range\<close>, a search for the first matching slot
  \<open>scan\<close>; a loop that may not end is a partial function whose result \<open>None\<close> means that it does not return. A
  memory access the C code makes outside its buffer is the value \<open>OutOfBounds\<close>. No definition has fuel. A pointer is an address, an index of a table or an
  option, as the text of its theory says. Constants have the names of the macros of the header files. Log output, the module descriptors and the dump
  functions are left out.

  \<^bold>\<open>What is a parameter.\<close> Device registers, the answers of hardware, the embedded program images and the addresses of assembly entry points
  are arguments of the definitions or fields of the state. The network theories see the heap as a field saying which requests it grants, and tmpfs sees
  \<^verbatim>\<open>krealloc\<close> as an argument with its contract as a hypothesis.

  \<^bold>\<open>Shared theories.\<close> \<open>Prelude\<close> (types, loops, words, lists), \<open>Frames\<close> (interface of a frame allocator), \<open>Ring\<close> (interfaces of byte and block
  queues), \<open>Slots\<close> (interface of a table with free slots), \<open>Wire\<close> (packet fields, checksums). The interfaces are locales with the lemmas of their clients;
  \<open>Pmm\<close>, \<open>Keyboard\<close>, \<open>Tty\<close>, \<open>Tmpfs\<close>, \<open>Vfs\<close>, \<open>Tcp\<close> and \<open>Socket\<close> interpret them on the definitions of the code.

  \<^bold>\<open>Memory.\<close>
  \<^item> \<open>Pmm\<close> (\<^verbatim>\<open>src/pmm/pmm.c\<close>): the bitmap allocator. It refines a set of free frames: the lowest free frame is taken, a released one comes back.
  \<^item> \<open>Boot\<close> (\<^verbatim>\<open>pmm_init\<close>): the walk over the Multiboot2 memory map ends, and exactly the usable frames outside the reserved ranges are free.
  \<^item> \<open>Paging\<close> (\<^verbatim>\<open>boot/entry.asm\<close>): the boot page tables map the first 4 GB at their own addresses and the first 2 GB in the kernel window.
  \<^item> \<open>Vmm\<close> (\<^verbatim>\<open>src/vmm/vmm.c\<close>): page tables in memory. The tables of an address space form a tree; mapping a page changes one translation; a
    copy-on-write fault gives the page its own frame with the same contents. The lemmas assume that free frames lie below 2 GB, which the kernel window reaches.
  \<^item> \<open>Heap\<close>, \<open>HeapCorrect\<close> (\<^verbatim>\<open>src/heap/heap.c\<close>): the slab allocator. A heap stands for a set of live blocks; allocation adds an aligned block apart
    from the others, release removes one, frames are held exactly while a block lives in them. This is for requests up to 2048 bytes: the
    4096-byte cache of the code has slabs without objects, and larger requests rely on adjacent frames.
  \<^item> \<open>UserMem\<close>: bytes of frames and of user addresses, and the step of taking, filling and mapping a frame that the loaders share.

  \<^bold>\<open>Processor and devices.\<close>
  \<^item> \<open>Cpu\<close> (\<^verbatim>\<open>src/gdt/gdt.c\<close>, \<^verbatim>\<open>src/idt/idt.c\<close>): the descriptors the processor reads back are the intended segments and gates.
  \<^item> \<open>Pic\<close> (\<^verbatim>\<open>src/pic/pic.c\<close>, \<^verbatim>\<open>src/timer/timer.c\<close>): after set-up every exception and interrupt vector
    reaches its stub, the other vectors are absent and only the timer line is unmasked.
  \<^item> \<open>Keyboard\<close>, \<open>Vga\<close>, \<open>Tty\<close> (\<^verbatim>\<open>src/keyboard\<close>, \<^verbatim>\<open>src/vga\<close>, \<^verbatim>\<open>src/tty\<close>): the line discipline as a fold over the typed characters; a read returns a line.
  \<^item> \<open>Kstring\<close> (\<^verbatim>\<open>src/lib/string.c\<close>, \<^verbatim>\<open>src/lib/printf.c\<close>, \<^verbatim>\<open>userspace/libc/string.c\<close>): string routines on a byte memory, printed numbers read back.
  \<^item> \<open>Pci\<close> (\<^verbatim>\<open>src/pci/pci.c\<close>): a device on the bus is found unless the table overflows.

  \<^bold>\<open>Files.\<close> \<open>Tmpfs\<close>, \<open>Vfs\<close> (\<^verbatim>\<open>src/tmpfs\<close>, \<^verbatim>\<open>src/vfs\<close>, \<^verbatim>\<open>src/devfs\<close>): what is written through a descriptor is read back, registered devices are found;
  mounting below the root and sizes near \<open>2 ^ 32\<close> fail in the ways shown.

  \<^bold>\<open>Processes.\<close>
  \<^item> \<open>Scheduler\<close> (\<^verbatim>\<open>src/scheduler\<close>): the linked run queue is a list, a yield picks the next runnable process, every runnable process gets its turn.
  \<^item> \<open>Process\<close> (\<^verbatim>\<open>src/process/process.c\<close>): fork either fails with the table as it was or adds a ready child; wait reaps a zombie child.
  \<^item> \<open>Elf\<close> (\<^verbatim>\<open>src/elf/elf.c\<close>): a loaded program has exactly the memory its headers describe.
  \<^item> \<open>Launch\<close> (\<^verbatim>\<open>src/dynlink/dynlink.c\<close>, \<^verbatim>\<open>src/init_launch\<close>): anonymous mappings are fresh zeroed pages; a program starts in a fresh space with image and stack.
  \<^item> \<open>Syscall\<close> (\<^verbatim>\<open>src/syscall\<close>): entry, dispatch and return; a call runs the registered handler and returns to the caller's context.

  \<^bold>\<open>Network\<close> (\<^verbatim>\<open>src/net\<close>). \<open>E1000\<close>, \<open>Ethernet\<close>, \<open>Arp\<close>, \<open>Ipv4\<close>, \<open>Udp\<close>, \<open>Tcp\<close>, \<open>Socket\<close> and \<open>Dhcp\<close> each model one layer with every handler (ICMP is in \<open>Ipv4\<close>). \<open>NetStack\<close> has the
  properties of two hosts on a link: address resolution, echo, delivery of datagrams, the TCP handshake and the integrity of a stream under loss, repetition
  and reordering. \<open>NetPoll\<close> shows that the poll empties the receive ring and that the DHCP client binds an acknowledged offer, \<open>TcpTypes\<close> that every TCP operation
  keeps the connection table well formed, \<open>Checksum\<close> how the two checksum routines relate to RFC 1071. \<open>NetDemo\<close> has the concrete hosts.

  \<^bold>\<open>Not modelled.\<close> The serial port and the exception reports only produce output. The ATA driver is port input and output that nothing calls. The
  multiprocessor code starts no processor and no part takes a spinlock. The module table runs initialisation functions over states that are
  separate records here. The mode switches of the boot code, the register-saving stubs in assembly, the translation caches and interrupts that arrive in the middle of
  an operation are outside the state of the models. The C library allocator, formatting and stubs of user programs and the programs themselves run outside the
  kernel, and the embedded images are generated files.
\<close>

end
